(* ===== verification/Prelude.thy ===== *)
theory Prelude
  imports Main "HOL-Library.Word"
begin

text \<open>
  Shared vocabulary of the development: machine-integer names, the faults a C run can end in,
  the sum-typed result of fallible code, flat memory blocks with bounds-checked access, C strings,
  network byte order, and the list lemmas the components use.
\<close>

unbundle bit_operations_syntax

named_theorems mem_simps \<open>evaluation of bounds-checked memory access\<close>
named_theorems wf_intros \<open>well-formedness invariants kept by the operations\<close>

section \<open>Machine integers\<close>

type_synonym byte = "8 word"
type_synonym u16 = "16 word"
type_synonym u32 = "32 word"
type_synonym u64 = "64 word"

text \<open>
  A C \<open>int\<close> is modelled by \<^typ>\<open>int\<close>; \<open>INT_MAX\<close> and \<open>INT_MIN\<close> bound the values a 32-bit
  \<open>int\<close> holds, and \<open>in_int_range\<close> is what an expression must satisfy for its evaluation to be
  free of signed overflow. Conversion of a negative \<open>int\<close> to \<open>size_t\<close> wraps modulo \<open>2^64\<close>.
\<close>

definition INT_MAX :: int where "INT_MAX = 2 ^ 31 - 1"
definition INT_MIN :: int where "INT_MIN = - (2 ^ 31)"

definition in_int_range :: "int \<Rightarrow> bool" where
  "in_int_range x \<longleftrightarrow> INT_MIN \<le> x \<and> x \<le> INT_MAX"

definition size_t_of_int :: "int \<Rightarrow> int" where
  "size_t_of_int x = x mod 2 ^ 64"

lemma size_t_of_int_nonneg [simp]: "0 \<le> x \<Longrightarrow> x < 2 ^ 64 \<Longrightarrow> size_t_of_int x = x"
  by (simp add: size_t_of_int_def)

lemma size_t_of_int_neg: "in_int_range x \<Longrightarrow> x < 0 \<Longrightarrow> size_t_of_int x = x + 2 ^ 64"
proof -
  assume "in_int_range x" and "x < 0"
  then have "0 \<le> x + 2 ^ 64" and "x + 2 ^ 64 < 2 ^ 64"
    by (simp_all add: in_int_range_def INT_MIN_def INT_MAX_def)
  then have "(x + 2 ^ 64) mod 2 ^ 64 = x + 2 ^ 64" by (rule mod_pos_pos_trivial)
  then show ?thesis by (simp add: size_t_of_int_def)
qed

lemma unat_pow2: "k < LENGTH('a::len) \<Longrightarrow> unat (2 ^ k :: 'a word) = 2 ^ k"
proof -
  assume "k < LENGTH('a)"
  then have "(2::nat) ^ k mod 2 ^ LENGTH('a) = 2 ^ k" by (intro mod_less power_strict_increasing) auto
  then show ?thesis using unat_of_nat[of "2 ^ k", where 'a = 'a] by simp
qed

lemma unat_inc: "i < (t :: 'a::len word) \<Longrightarrow> unat (i + 1) = Suc (unat i)"
proof -
  assume "i < t"
  then have "Suc (unat i) \<le> unat t" by (simp add: word_less_nat_alt)
  also have "unat t < 2 ^ LENGTH('a)" by (rule unsigned_less)
  finally have "(unat i + 1) mod 2 ^ LENGTH('a) = Suc (unat i)" by simp
  then show ?thesis by (simp add: unat_word_ariths)
qed

section \<open>Faults and results\<close>

text \<open>
  How a run of the C program can end abnormally: a failed \<open>ASSERT\<close>, a message of level
  \<open>M_FATAL\<close> (both leave the process), an access outside the object a pointer designates, or a
  division by zero.
\<close>

datatype fault = Assert_Failed | Msg_Fatal | Mem_Fault | Arith_Fault

type_synonym 'a res = "fault + 'a"

definition bindE :: "'a res \<Rightarrow> ('a \<Rightarrow> 'b res) \<Rightarrow> 'b res" where
  "bindE m f = (case m of Inl e \<Rightarrow> Inl e | Inr x \<Rightarrow> f x)"

definition assertE :: "bool \<Rightarrow> unit res" where
  "assertE b = (if b then Inr () else Inl Assert_Failed)"

lemma bindE_Inr [simp]: "bindE (Inr x) f = f x"
  by (simp add: bindE_def)

lemma bindE_Inl [simp]: "bindE (Inl e) f = Inl e"
  by (simp add: bindE_def)

lemma bindE_cong [fundef_cong]:
  "m = m' \<Longrightarrow> (\<And>x. m' = Inr x \<Longrightarrow> f x = g x) \<Longrightarrow> bindE m f = bindE m' g"
  by (cases m') simp_all

lemma bindE_eq_Inr: "bindE m f = Inr y \<longleftrightarrow> (\<exists>x. m = Inr x \<and> f x = Inr y)"
  by (cases m) simp_all

lemma assertE_simps [simp]: "assertE True = Inr ()" "assertE False = Inl Assert_Failed"
  by (simp_all add: assertE_def)

lemma assertE_eq_Inr: "assertE b = Inr u \<longleftrightarrow> b"
  by (simp add: assertE_def)

section \<open>Memory blocks\<close>

text \<open>
  An allocated block is a byte list; a pointer into it is an index. \<open>overwrite\<close> overwrites a
  range in place. The checked accesses fault exactly when the range leaves the block, except that
  a transfer of zero bytes touches no memory.
\<close>

definition overwrite :: "'a list \<Rightarrow> nat \<Rightarrow> 'a list \<Rightarrow> 'a list" where
  "overwrite d p src = take p d @ src @ drop (p + length src) d"

definition segment :: "'a list \<Rightarrow> nat \<Rightarrow> nat \<Rightarrow> 'a list" where
  "segment d p n = take n (drop p d)"

definition mem_write :: "byte list \<Rightarrow> int \<Rightarrow> byte list \<Rightarrow> byte list res" where
  "mem_write d p src =
     (if src = [] then Inr d
      else if 0 \<le> p \<and> p + int (length src) \<le> int (length d) then Inr (overwrite d (nat p) src)
      else Inl Mem_Fault)"

definition mem_read :: "byte list \<Rightarrow> int \<Rightarrow> int \<Rightarrow> byte list res" where
  "mem_read d p n =
     (if n \<le> 0 then Inr []
      else if 0 \<le> p \<and> p + n \<le> int (length d) then Inr (segment d (nat p) (nat n))
      else Inl Mem_Fault)"

lemma length_overwrite [simp]: "p + length src \<le> length d \<Longrightarrow> length (overwrite d p src) = length d"
  by (simp add: overwrite_def)

lemma length_segment [simp]: "p + n \<le> length d \<Longrightarrow> length (segment d p n) = n"
  by (simp add: segment_def)

lemma overwrite_Nil [simp]: "overwrite d p [] = d"
  by (simp add: overwrite_def)

lemma segment_0 [simp]: "segment d p 0 = []"
  by (simp add: segment_def)

lemma segment_append: "segment d p (m + n) = segment d p m @ segment d (p + m) n"
  by (simp add: segment_def take_add add.commute)

lemma take_segment: "take m (segment d p n) = segment d p (min m n)"
  by (simp add: segment_def)

lemma drop_segment: "drop m (segment d p n) = segment d (p + m) (n - m)"
  by (simp add: segment_def drop_take add.commute)

lemma segment_overwrite_same: "p + length src \<le> length d \<Longrightarrow> segment (overwrite d p src) p (length src) = src"
  by (simp add: segment_def overwrite_def)

lemma segment_overwrite_before:
  "q + n \<le> p \<Longrightarrow> p + length src \<le> length d \<Longrightarrow> segment (overwrite d p src) q n = segment d q n"
proof -
  assume "q + n \<le> p" and "p + length src \<le> length d"
  then have "take n (drop q (take p d)) = take n (drop q d)" and "n \<le> length (drop q (take p d))"
    by (auto simp: drop_take min_def)
  with \<open>q + n \<le> p\<close> \<open>p + length src \<le> length d\<close> show ?thesis
    by (simp add: segment_def overwrite_def)
qed

lemma segment_overwrite_after:
  "p + length src \<le> q \<Longrightarrow> p + length src \<le> length d \<Longrightarrow> segment (overwrite d p src) q n = segment d q n"
  by (simp add: segment_def overwrite_def)

lemma nth_overwrite:
  "p + length s \<le> length d \<Longrightarrow> q < length d \<Longrightarrow>
     overwrite d p s ! q = (if p \<le> q \<and> q < p + length s then s ! (q - p) else d ! q)"
  by (auto simp: overwrite_def nth_append min_def)

lemma mem_write_ok [mem_simps]:
  "0 \<le> p \<Longrightarrow> p + int (length src) \<le> int (length d) \<Longrightarrow> mem_write d p src = Inr (overwrite d (nat p) src)"
  by (auto simp: mem_write_def)

lemma mem_read_ok [mem_simps]:
  "0 \<le> p \<Longrightarrow> 0 \<le> n \<Longrightarrow> p + n \<le> int (length d) \<Longrightarrow> mem_read d p n = Inr (segment d (nat p) (nat n))"
  by (auto simp: mem_read_def)

section \<open>C strings\<close>

text \<open>
  \<open>c_strlen d p\<close> scans a block from index \<open>p\<close> for the terminating zero byte and faults when
  it runs off the block. A C string passed by value is its bytes without the terminator:
  \<open>is_cstr\<close> says that no byte of it is zero.
\<close>

definition is_cstr :: "byte list \<Rightarrow> bool" where
  "is_cstr s \<longleftrightarrow> 0 \<notin> set s"

fun scan_nul :: "byte list \<Rightarrow> nat option" where
  "scan_nul [] = None"
| "scan_nul (c # cs) = (if c = 0 then Some 0 else map_option Suc (scan_nul cs))"

definition c_strlen :: "byte list \<Rightarrow> int \<Rightarrow> int res" where
  "c_strlen d p =
     (if p < 0 then Inl Mem_Fault
      else case scan_nul (drop (nat p) d) of None \<Rightarrow> Inl Mem_Fault | Some n \<Rightarrow> Inr (int n))"

lemma scan_nul_append: "is_cstr s \<Longrightarrow> scan_nul (s @ 0 # r) = Some (length s)"
  by (induction s) (auto simp: is_cstr_def)

lemma c_strlen_overwrite:
  assumes "is_cstr s" and "0 \<le> p" and "nat p + length s + 1 \<le> length d"
  shows "c_strlen (overwrite d (nat p) (s @ 0 # r)) p = Inr (int (length s))"
proof -
  have "drop (nat p) (overwrite d (nat p) (s @ 0 # r)) = s @ 0 # (r @ drop (nat p + length s + 1 + length r) d)"
    using assms by (simp add: overwrite_def add.assoc)
  then show ?thesis using assms by (simp add: c_strlen_def scan_nul_append)
qed

section \<open>Network byte order\<close>

text \<open>Most significant byte first, as \<open>htons\<close>/\<open>htonl\<close> lay an integer out in memory.\<close>

definition be16 :: "u16 \<Rightarrow> byte list" where
  "be16 x = [ucast (drop_bit 8 x), ucast x]"

definition be32 :: "u32 \<Rightarrow> byte list" where
  "be32 x = [ucast (drop_bit 24 x), ucast (drop_bit 16 x), ucast (drop_bit 8 x), ucast x]"

fun of_be16 :: "byte list \<Rightarrow> u16" where
  "of_be16 [a, b] = push_bit 8 (ucast a) OR ucast b"
| "of_be16 _ = 0"

fun of_be32 :: "byte list \<Rightarrow> u32" where
  "of_be32 [a, b, c, d] =
     push_bit 24 (ucast a) OR push_bit 16 (ucast b) OR push_bit 8 (ucast c) OR ucast d"
| "of_be32 _ = 0"

lemma length_be16 [simp]: "length (be16 x) = 2"
  by (simp add: be16_def)

lemma length_be32 [simp]: "length (be32 x) = 4"
  by (simp add: be32_def)

lemma of_be16_be16 [simp]: "of_be16 (be16 x) = x"
  unfolding be16_def of_be16.simps
  by (rule bit_word_eqI) (auto simp: bit_simps)

lemma of_be32_be32 [simp]: "of_be32 (be32 x) = x"
  unfolding be32_def of_be32.simps
proof (rule bit_word_eqI, goal_cases)
  case (1 n)
  then consider "n < 8" | "8 \<le> n" "n < 16" | "16 \<le> n" "n < 24" | "24 \<le> n" "n < 32"
    by fastforce
  then show ?case by cases (auto simp: bit_simps)
qed

lemma length_4_cases: "length xs = 4 \<Longrightarrow> \<exists>a b c d. xs = [a, b, c, d]"
  by (auto simp: numeral_eq_Suc length_Suc_conv)

lemma length_2_cases: "length xs = 2 \<Longrightarrow> \<exists>a b. xs = [a, b]"
  by (auto simp: numeral_eq_Suc length_Suc_conv)

lemma be16_of_be16: "length bs = 2 \<Longrightarrow> be16 (of_be16 bs) = bs"
  by (auto dest!: length_2_cases simp: be16_def intro!: bit_word_eqI)
    (auto simp: bit_simps dest: bit_imp_le_length)

lemma be32_of_be32: "length bs = 4 \<Longrightarrow> be32 (of_be32 bs) = bs"
  by (auto dest!: length_4_cases simp: be32_def intro!: bit_word_eqI)
    (auto simp: bit_simps dest: bit_imp_le_length)

section \<open>Array updates\<close>

text \<open>Bounds-checked element access of a C array modelled as a list.\<close>

definition arr_get :: "'a list \<Rightarrow> int \<Rightarrow> 'a res" where
  "arr_get xs i = (if 0 \<le> i \<and> i < int (length xs) then Inr (xs ! nat i) else Inl Mem_Fault)"

definition arr_set :: "'a list \<Rightarrow> int \<Rightarrow> 'a \<Rightarrow> 'a list res" where
  "arr_set xs i v = (if 0 \<le> i \<and> i < int (length xs) then Inr (xs[nat i := v]) else Inl Mem_Fault)"

lemma arr_get_ok [mem_simps]: "0 \<le> i \<Longrightarrow> i < int (length xs) \<Longrightarrow> arr_get xs i = Inr (xs ! nat i)"
  by (simp add: arr_get_def)

lemma arr_set_ok [mem_simps]: "0 \<le> i \<Longrightarrow> i < int (length xs) \<Longrightarrow> arr_set xs i v = Inr (xs[nat i := v])"
  by (simp add: arr_set_def)

lemma arr_get_nat: "n < length xs \<Longrightarrow> arr_get xs (int n) = Inr (xs ! n)"
  by (simp add: arr_get_def)

lemma arr_set_nat: "n < length xs \<Longrightarrow> arr_set xs (int n) v = Inr (xs[n := v])"
  by (simp add: arr_set_def)

lemma arr_get_unat: "unat w < length xs \<Longrightarrow> arr_get xs (uint w) = Inr (xs ! unat w)"
  unfolding uint_nat by (rule arr_get_nat)

lemma arr_set_unat: "unat w < length xs \<Longrightarrow> arr_set xs (uint w) v = Inr (xs[unat w := v])"
  unfolding uint_nat by (rule arr_set_nat)

end
