(* ===== verification/Integers.thy ===== *)
theory Integers
  imports Prelude
begin

text \<open>
  The integer helpers of \<open>integer.h\<close>: bounded minima and maxima, arithmetic on a circle, rounding
  up to a power of two, and the array index check behind the circular list.
\<close>

section \<open>Definitions\<close>

definition max_int :: "int \<Rightarrow> int \<Rightarrow> int" where
  "max_int x y = (if x > y then x else y)"

definition min_int :: "int \<Rightarrow> int \<Rightarrow> int" where
  "min_int x y = (if x < y then x else y)"

definition constrain_int :: "int \<Rightarrow> int \<Rightarrow> int \<Rightarrow> int" where
  "constrain_int x mn mx =
     (if mn > mx then mn else if x < mn then mn else if x > mx then mx else x)"

definition modulo_subtract :: "int \<Rightarrow> int \<Rightarrow> int \<Rightarrow> int res" where
  "modulo_subtract x y m =
     (let d1 = x - y; d2 = (if x > y then - m else m) + d1 in
      bindE (assertE (0 \<le> x \<and> x < m \<and> 0 \<le> y \<and> y < m))
        (\<lambda>_. Inr (if \<bar>d1\<bar> > \<bar>d2\<bar> then d2 else d1)))"

definition modulo_add :: "int \<Rightarrow> int \<Rightarrow> int \<Rightarrow> int res" where
  "modulo_add x y m =
     (let s = x + y in
      bindE (assertE (0 \<le> x \<and> x < m \<and> - m \<le> y \<and> y \<le> m))
        (\<lambda>_. let s = (if s \<ge> m then s - m else s);
                 s = (if s < 0 then s + m else s)
             in Inr s))"

text \<open>
  The doubling loop of \<open>adjust_power_of_2\<close> on a 64-bit \<open>size_t\<close>: the shift wraps to zero once
  the top bit is passed, and the assertion stops the run there. Each round adds one to the number of
  trailing zero bits, which bounds the number of rounds for every start value.
\<close>

definition odd_levels :: "u64 \<Rightarrow> nat set" where
  "odd_levels r = {k. k < 64 \<and> \<not> 2 ^ Suc k dvd unat r}"

lemma odd_levels_double:
  assumes "push_bit 1 r \<noteq> (0 :: u64)"
  shows "card (odd_levels (push_bit 1 r)) < card (odd_levels r)"
proof (rule psubset_card_mono)
  have u: "unat (push_bit 1 r) = (2 * unat r) mod 2 ^ 64"
    by (simp add: push_bit_eq_mult unat_word_ariths mult.commute)
  have step: "2 ^ Suc k dvd unat (push_bit 1 r)" if "k < 64" "2 ^ k dvd unat r" for k
    using that unfolding u by (metis Suc_leI dvd_mod_iff le_imp_power_dvd mult_dvd_mono dvd_refl power_Suc)
  define k where "k = (LEAST k. \<not> 2 ^ Suc k dvd unat r)"
  have r0: "unat r \<noteq> 0" using assms by (auto simp: unat_eq_0)
  have "unat r < 2 ^ 64" using unsigned_less[of r] by simp
  with r0 have "\<not> 2 ^ Suc 63 dvd unat r" by (auto dest: dvd_imp_le)
  then have k: "\<not> 2 ^ Suc k dvd unat r" and "k \<le> 63"
    unfolding k_def by (rule LeastI, rule Least_le)
  moreover have "2 ^ k dvd unat r"
  proof (cases k)
    case (Suc j)
    then have "j < (LEAST k. \<not> 2 ^ Suc k dvd unat r)" by (simp add: k_def)
    then have "2 ^ Suc j dvd unat r" using not_less_Least by blast
    with Suc show ?thesis by simp
  qed simp
  ultimately have "k \<in> odd_levels r" and "k \<notin> odd_levels (push_bit 1 r)"
    using step[of k] by (auto simp: odd_levels_def)
  moreover have "odd_levels (push_bit 1 r) \<subseteq> odd_levels r"
    using step by (auto simp: odd_levels_def)
  ultimately show "odd_levels (push_bit 1 r) \<subset> odd_levels r" by blast
qed (simp add: odd_levels_def)

lemma odd_levels_mult2: "r * 2 \<noteq> (0 :: u64) \<Longrightarrow> card (odd_levels (r * 2)) < card (odd_levels r)"
  using odd_levels_double[of r] by (simp add: push_bit_eq_mult)

function adjust_loop :: "u64 \<Rightarrow> u64 \<Rightarrow> u64 res" where
  "adjust_loop u ret =
     (if ret < u then
        (let ret' = push_bit 1 ret in if ret' > 0 then adjust_loop u ret' else Inl Assert_Failed)
      else Inr ret)"
  by pat_completeness auto
termination
  by (relation "measure (\<lambda>(u, ret). card (odd_levels ret))") (auto dest: odd_levels_mult2 simp: word_gt_0)

declare adjust_loop.simps [simp del]

definition adjust_power_of_2 :: "u64 \<Rightarrow> u64 res" where
  "adjust_power_of_2 u = adjust_loop u 1"

definition index_verify :: "int \<Rightarrow> int \<Rightarrow> int res" where
  "index_verify i n = (if i < 0 \<or> i \<ge> n then Inl Msg_Fatal else Inr i)"

section \<open>Properties\<close>

lemma min_int_eq [simp]: "min_int x y = min x y"
  by (simp add: min_int_def)

lemma max_int_eq [simp]: "max_int x y = max x y"
  by (simp add: max_int_def)

lemma constrain_int_bounds: "mn \<le> mx \<Longrightarrow> mn \<le> constrain_int x mn mx \<and> constrain_int x mn mx \<le> mx"
  by (simp add: constrain_int_def)

lemma modulo_add_ok:
  assumes "0 \<le> x" "x < m" "- m \<le> y" "y \<le> m"
  shows "modulo_add x y m = Inr ((x + y) mod m)"
proof -
  consider "x + y < 0" | "0 \<le> x + y" "x + y < m" | "m \<le> x + y" by linarith
  then show ?thesis
  proof cases
    case 1
    with assms have "(x + y + m) mod m = x + y + m" by (intro mod_pos_pos_trivial) auto
    with 1 assms show ?thesis by (simp add: modulo_add_def Let_def)
  next
    case 2
    with assms show ?thesis by (simp add: modulo_add_def Let_def)
  next
    case 3
    with assms have "(x + y - m) mod m = x + y - m" by (intro mod_pos_pos_trivial) auto
    moreover have "(x + y - m) mod m = (x + y) mod m" by simp
    ultimately show ?thesis using 3 assms by (simp add: modulo_add_def Let_def)
  qed
qed

lemma modulo_subtract_shortest:
  assumes "0 \<le> x" "x < m" "0 \<le> y" "y < m"
  shows "\<exists>d. modulo_subtract x y m = Inr d \<and> (y + d) mod m = x \<and> 2 * \<bar>d\<bar> \<le> m"
proof -
  have "(y + (x - y)) mod m = x" "(y + (m + (x - y))) mod m = x" "(y + (- m + (x - y))) mod m = x"
    using assms by (simp_all add: algebra_simps)
  then show ?thesis using assms by (auto simp: modulo_subtract_def Let_def)
qed

lemma index_verify_ok [simp]: "0 \<le> i \<Longrightarrow> i < n \<Longrightarrow> index_verify i n = Inr i"
  by (simp add: index_verify_def)

text \<open>
  From a power of two the loop returns the least power of two not below \<open>u\<close>, and fails only when
  no such power fits into \<open>size_t\<close>.
\<close>

lemma adjust_loop_pow2:
  assumes "k < 64"
  shows "adjust_loop u (2 ^ k) =
    (if unat u \<le> 2 ^ 63 then Inr (2 ^ (LEAST j. k \<le> j \<and> unat u \<le> 2 ^ j)) else Inl Assert_Failed)"
  using assms
proof (induction "63 - k" arbitrary: k)
  case 0
  then have k: "k = 63" by simp
  have ov: "push_bit 1 (2 ^ 63 :: u64) = 0" by (simp add: push_bit_eq_mult)
  have un: "unat (2 ^ 63 :: u64) = 2 ^ 63" by (simp add: unat_pow2)
  have "(LEAST j. 63 \<le> j \<and> unat u \<le> 2 ^ j) = 63" if "unat u \<le> 2 ^ 63"
    using that by (intro Least_equality) auto
  then show ?case
    unfolding k by (subst adjust_loop.simps) (auto simp: ov word_less_nat_alt un Let_def)
next
  case (Suc n)
  then have k: "Suc k < 64" by simp
  have IH: "adjust_loop u (2 ^ Suc k) =
    (if unat u \<le> 2 ^ 63 then Inr (2 ^ (LEAST j. Suc k \<le> j \<and> unat u \<le> 2 ^ j)) else Inl Assert_Failed)"
    using Suc.hyps(1)[of "Suc k"] Suc.hyps(2) k by simp
  have dbl: "push_bit 1 (2 ^ k :: u64) = 2 ^ Suc k" by (simp add: push_bit_eq_mult)
  have un: "unat (2 ^ k :: u64) = 2 ^ k" "unat (2 ^ Suc k :: u64) = 2 ^ Suc k"
    using k by (simp_all add: unat_pow2 del: power_Suc)
  have pos: "(0 :: u64) < 2 ^ Suc k" using un by (simp add: word_less_nat_alt del: power_Suc)
  show ?case
  proof (cases "(2 ^ k :: u64) < u")
    case True
    then have "2 ^ k < unat u" by (simp add: word_less_nat_alt un)
    then have "(k \<le> j \<and> unat u \<le> 2 ^ j) = (Suc k \<le> j \<and> unat u \<le> 2 ^ j)" for j
      by (metis Suc_leD le_antisym not_less not_less_eq_eq)
    with True IH pos dbl show ?thesis
      by (subst adjust_loop.simps) (simp add: Let_def mult.commute)
  next
    case False
    then have le: "unat u \<le> 2 ^ k" by (simp add: word_less_nat_alt un)
    moreover have "(2::nat) ^ k \<le> 2 ^ 63" using k by (intro power_increasing) auto
    moreover have "(LEAST j. k \<le> j \<and> unat u \<le> 2 ^ j) = k"
      using le by (intro Least_equality) auto
    ultimately show ?thesis
      using False by (subst adjust_loop.simps) auto
  qed
qed

lemma adjust_power_of_2_least:
  assumes "unat u \<le> 2 ^ 63"
  shows "adjust_power_of_2 u = Inr (2 ^ (LEAST j. unat u \<le> 2 ^ j))"
  using adjust_loop_pow2[of 0 u] assms by (simp add: adjust_power_of_2_def)

lemma adjust_power_of_2_ex:
  assumes "unat u \<le> 2 ^ 63"
  shows "\<exists>k. k \<le> 63 \<and> adjust_power_of_2 u = Inr (2 ^ k) \<and> unat u \<le> 2 ^ k"
  using adjust_power_of_2_least[OF assms] LeastI[of "\<lambda>j. unat u \<le> 2 ^ j", OF assms]
    Least_le[of "\<lambda>j. unat u \<le> 2 ^ j", OF assms] by blast

lemma adjust_power_of_2_overflow: "unat u > 2 ^ 63 \<Longrightarrow> adjust_power_of_2 u = Inl Assert_Failed"
  using adjust_loop_pow2[of 0 u] by (simp add: adjust_power_of_2_def)

text \<open>
  C37. The doubling loop of \<open>adjust_power_of_2\<close> ends for every 64-bit argument: up to \<open>2 ^ 63\<close> it returns the
  least power of two that is not smaller, beyond that the shift wraps to zero and the assertion of the
  code fails.
\<close>

theorem adjust_power_of_2_terminates:
  "adjust_power_of_2 u = (if unat u \<le> 2 ^ 63 then Inr (2 ^ (LEAST j. unat u \<le> 2 ^ j)) else Inl Assert_Failed)"
  using adjust_power_of_2_least[of u] adjust_power_of_2_overflow[of u] by simp

end
