(* ===== verification/Buffer.thy ===== *)
theory Buffer
  imports Integers
begin

text \<open>
  \<open>struct buffer\<close> of \<open>buffer.h\<close> and \<open>buffer.c\<close>: a window \<open>[offset, offset + len)\<close> into an
  allocated block of \<open>capacity\<close> bytes. The record keeps the four fields of the struct; \<open>b_data\<close>
  is the block itself, \<open>None\<close> for the null pointer, and a pointer into it is an index. Operations
  return the updated buffer; a memory access outside the block is the fault \<open>Mem_Fault\<close>, a call of
  \<open>buf_size_error\<close> the fault \<open>Msg_Fatal\<close>.

  The invariant \<open>buf_wf\<close> says that the window lies inside the block. The lemmas show that under it
  no operation faults, that every operation keeps it, and what each does to the content
  \<open>buf_content\<close> and to the room before and behind it.
\<close>

section \<open>The structure and its accessors\<close>

definition BUF_SIZE_MAX :: int where "BUF_SIZE_MAX = 2 ^ 21"

record buffer =
  b_capacity :: int
  b_offset :: int
  b_len :: int
  b_data :: "byte list option"

definition clear_buf :: buffer where
  "clear_buf = \<lparr>b_capacity = 0, b_offset = 0, b_len = 0, b_data = None\<rparr>"

definition buf_defined :: "buffer \<Rightarrow> bool" where
  "buf_defined b \<longleftrightarrow> b_data b \<noteq> None"

definition buf_valid :: "buffer \<Rightarrow> bool" where
  "buf_valid b \<longleftrightarrow> b_data b \<noteq> None \<and> b_len b \<ge> 0"

definition buf_bptr :: "buffer \<Rightarrow> int option" where
  "buf_bptr b = (if buf_valid b then Some (b_offset b) else None)"

definition buf_len :: "buffer \<Rightarrow> int" where
  "buf_len b = (if buf_valid b then b_len b else 0)"

definition buf_bend :: "buffer \<Rightarrow> int option" where
  "buf_bend b = map_option (\<lambda>p. p + buf_len b) (buf_bptr b)"

definition buf_blast :: "buffer \<Rightarrow> int option" where
  "buf_blast b = (if buf_len b > 0 then map_option (\<lambda>p. p + buf_len b - 1) (buf_bptr b) else None)"

definition buf_size_valid :: "int \<Rightarrow> bool" where
  "buf_size_valid n \<longleftrightarrow> size_t_of_int n < BUF_SIZE_MAX"

definition buf_size_valid_signed :: "int \<Rightarrow> bool" where
  "buf_size_valid_signed n \<longleftrightarrow> n \<ge> - BUF_SIZE_MAX \<and> n < BUF_SIZE_MAX"

definition buf_reset :: "buffer \<Rightarrow> buffer" where
  "buf_reset b = b\<lparr>b_capacity := 0, b_offset := 0, b_len := 0, b_data := None\<rparr>"

definition buf_reset_len :: "buffer \<Rightarrow> buffer" where
  "buf_reset_len b = b\<lparr>b_len := 0, b_offset := 0\<rparr>"

definition buf_init_dowork :: "buffer \<Rightarrow> int \<Rightarrow> bool \<times> buffer" where
  "buf_init_dowork b off =
     (if off < 0 \<or> off > b_capacity b \<or> b_data b = None then (False, b)
      else (True, b\<lparr>b_len := 0, b_offset := off\<rparr>))"

text \<open>Access to the block of a buffer through an index; the null pointer only carries zero bytes.\<close>

definition buf_poke :: "buffer \<Rightarrow> int \<Rightarrow> byte list \<Rightarrow> buffer res" where
  "buf_poke b p src =
     (case b_data b of
        None \<Rightarrow> if src = [] then Inr b else Inl Mem_Fault
      | Some d \<Rightarrow> bindE (mem_write d p src) (\<lambda>d'. Inr (b\<lparr>b_data := Some d'\<rparr>)))"

definition buf_peek :: "buffer \<Rightarrow> int \<Rightarrow> int \<Rightarrow> byte list res" where
  "buf_peek b p n =
     (case b_data b of
        None \<Rightarrow> if n \<le> 0 then Inr [] else Inl Mem_Fault
      | Some d \<Rightarrow> mem_read d p n)"

definition buf_set_write :: "byte list option \<Rightarrow> int \<Rightarrow> buffer res" where
  "buf_set_write dat sz =
     (if \<not> buf_size_valid sz then Inl Msg_Fatal
      else let b = \<lparr>b_capacity = sz, b_offset = 0, b_len = 0, b_data = dat\<rparr> in
        if sz > 0 \<and> dat \<noteq> None then buf_poke b 0 [0] else Inr b)"

definition buf_set_read :: "byte list option \<Rightarrow> int \<Rightarrow> buffer res" where
  "buf_set_read dat sz =
     (if \<not> buf_size_valid sz then Inl Msg_Fatal
      else Inr \<lparr>b_capacity = sz, b_offset = 0, b_len = sz, b_data = dat\<rparr>)"

section \<open>Space checks\<close>

definition buf_safe :: "buffer \<Rightarrow> int \<Rightarrow> bool" where
  "buf_safe b n \<longleftrightarrow> buf_valid b \<and> buf_size_valid n \<and> b_offset b + b_len b + n \<le> b_capacity b"

definition buf_safe_bidir :: "buffer \<Rightarrow> int \<Rightarrow> bool" where
  "buf_safe_bidir b n \<longleftrightarrow>
     (if buf_valid b \<and> buf_size_valid_signed n
      then (let newlen = b_len b + n in newlen \<ge> 0 \<and> b_offset b + newlen \<le> b_capacity b)
      else False)"

definition buf_forward_capacity :: "buffer \<Rightarrow> int" where
  "buf_forward_capacity b =
     (if buf_valid b
      then (let ret = b_capacity b - (b_offset b + b_len b) in if ret < 0 then 0 else ret)
      else 0)"

definition buf_forward_capacity_total :: "buffer \<Rightarrow> int" where
  "buf_forward_capacity_total b =
     (if buf_valid b then (let ret = b_capacity b - b_offset b in if ret < 0 then 0 else ret) else 0)"

definition buf_reverse_capacity :: "buffer \<Rightarrow> int" where
  "buf_reverse_capacity b = (if buf_valid b then b_offset b else 0)"

section \<open>Moving the window\<close>

definition buf_inc_len :: "buffer \<Rightarrow> int \<Rightarrow> bool \<times> buffer" where
  "buf_inc_len b inc =
     (if \<not> buf_safe_bidir b inc then (False, b) else (True, b\<lparr>b_len := b_len b + inc\<rparr>))"

definition buf_prepend :: "buffer \<Rightarrow> int \<Rightarrow> int option \<times> buffer" where
  "buf_prepend b n =
     (if \<not> buf_valid b \<or> n < 0 \<or> n > b_offset b then (None, b)
      else let b' = b\<lparr>b_offset := b_offset b - n, b_len := b_len b + n\<rparr> in (buf_bptr b', b'))"

definition buf_advance :: "buffer \<Rightarrow> int \<Rightarrow> bool \<times> buffer" where
  "buf_advance b n =
     (if \<not> buf_valid b \<or> n < 0 \<or> b_len b < n then (False, b)
      else (True, b\<lparr>b_offset := b_offset b + n, b_len := b_len b - n\<rparr>))"

definition buf_write_alloc :: "buffer \<Rightarrow> int \<Rightarrow> int option \<times> buffer" where
  "buf_write_alloc b n =
     (if \<not> buf_safe b n then (None, b)
      else (map_option (\<lambda>p. p + b_len b) (buf_bptr b), b\<lparr>b_len := b_len b + n\<rparr>))"

definition buf_write_alloc_prepend :: "buffer \<Rightarrow> int \<Rightarrow> bool \<Rightarrow> int option \<times> buffer" where
  "buf_write_alloc_prepend b n prepend = (if prepend then buf_prepend b n else buf_write_alloc b n)"

definition buf_read_alloc :: "buffer \<Rightarrow> int \<Rightarrow> int option \<times> buffer" where
  "buf_read_alloc b n =
     (if n < 0 \<or> b_len b < n then (None, b)
      else (buf_bptr b, b\<lparr>b_offset := b_offset b + n, b_len := b_len b - n\<rparr>))"

section \<open>Writing\<close>

definition buf_write :: "buffer \<Rightarrow> byte list \<Rightarrow> (bool \<times> buffer) res" where
  "buf_write dest src =
     (case buf_write_alloc dest (int (length src)) of
        (None, b) \<Rightarrow> Inr (False, b)
      | (Some cp, b) \<Rightarrow> bindE (buf_poke b cp src) (\<lambda>b'. Inr (True, b')))"

definition buf_write_prepend :: "buffer \<Rightarrow> byte list \<Rightarrow> (bool \<times> buffer) res" where
  "buf_write_prepend dest src =
     (case buf_prepend dest (int (length src)) of
        (None, b) \<Rightarrow> Inr (False, b)
      | (Some cp, b) \<Rightarrow> bindE (buf_poke b cp src) (\<lambda>b'. Inr (True, b')))"

definition buf_write_u8 :: "buffer \<Rightarrow> int \<Rightarrow> (bool \<times> buffer) res" where
  "buf_write_u8 dest x = buf_write dest [word_of_int x]"

definition buf_write_u16 :: "buffer \<Rightarrow> int \<Rightarrow> (bool \<times> buffer) res" where
  "buf_write_u16 dest x = buf_write dest (be16 (word_of_int x))"

definition buf_write_u32 :: "buffer \<Rightarrow> int \<Rightarrow> (bool \<times> buffer) res" where
  "buf_write_u32 dest x = buf_write dest (be32 (word_of_int x))"

definition buf_bytes :: "buffer \<Rightarrow> byte list res" where
  "buf_bytes b = (case buf_bptr b of None \<Rightarrow> Inr [] | Some p \<Rightarrow> buf_peek b p (buf_len b))"

definition buf_copy :: "buffer \<Rightarrow> buffer \<Rightarrow> (bool \<times> buffer) res" where
  "buf_copy dest src = bindE (buf_bytes src) (\<lambda>bs. buf_write dest bs)"

definition buf_copy_n :: "buffer \<Rightarrow> buffer \<Rightarrow> int \<Rightarrow> (bool \<times> buffer \<times> buffer) res" where
  "buf_copy_n dest src n =
     (case buf_read_alloc src n of
        (None, src') \<Rightarrow> Inr (False, dest, src')
      | (Some cp, src') \<Rightarrow>
          bindE (buf_peek src' cp n) (\<lambda>bs.
          bindE (buf_write dest bs) (\<lambda>(ok, dest'). Inr (ok, dest', src'))))"

definition buf_copy_range :: "buffer \<Rightarrow> int \<Rightarrow> buffer \<Rightarrow> int \<Rightarrow> int \<Rightarrow> (bool \<times> buffer) res" where
  "buf_copy_range dest dest_index src src_index src_len =
     (if src_index < 0 \<or> src_len < 0 \<or> src_index + src_len > b_len src
         \<or> dest_index < 0 \<or> b_offset dest + dest_index + src_len > b_capacity dest
      then Inr (False, dest)
      else bindE (buf_peek src (b_offset src + src_index) src_len) (\<lambda>bs.
           bindE (buf_poke dest (b_offset dest + dest_index) bs) (\<lambda>d.
           Inr (True, if dest_index + src_len > b_len d then d\<lparr>b_len := dest_index + src_len\<rparr> else d))))"

definition buf_copy_excess :: "buffer \<Rightarrow> buffer \<Rightarrow> int \<Rightarrow> (bool \<times> buffer \<times> buffer) res" where
  "buf_copy_excess dest src n =
     (if n < 0 then Inr (False, dest, src)
      else if b_len src > n then
        (let src' = src\<lparr>b_len := n\<rparr> in
         case buf_advance src n of
           (False, _) \<Rightarrow> Inr (False, dest, src')
         | (True, b) \<Rightarrow> bindE (buf_copy dest b) (\<lambda>(ok, dest'). Inr (ok, dest', src')))
      else Inr (True, dest, src))"

section \<open>Reading\<close>

definition buf_read :: "buffer \<Rightarrow> int \<Rightarrow> (byte list option \<times> buffer) res" where
  "buf_read src n =
     (case buf_read_alloc src n of
        (None, b) \<Rightarrow> Inr (None, b)
      | (Some cp, b) \<Rightarrow> bindE (buf_peek b cp n) (\<lambda>bs. Inr (Some bs, b)))"

definition buf_read_u8 :: "buffer \<Rightarrow> (int \<times> buffer) res" where
  "buf_read_u8 b =
     (if buf_len b < 1 then Inr (-1, b)
      else case buf_bptr b of
             None \<Rightarrow> Inl Mem_Fault
           | Some p \<Rightarrow> bindE (buf_peek b p 1) (\<lambda>bs. Inr (uint (hd bs), snd (buf_advance b 1))))"

definition buf_read_u16 :: "buffer \<Rightarrow> (int \<times> buffer) res" where
  "buf_read_u16 b =
     bindE (buf_read b 2) (\<lambda>(r, b').
       case r of None \<Rightarrow> Inr (-1, b') | Some bs \<Rightarrow> Inr (uint (of_be16 bs), b'))"

definition buf_read_u32 :: "buffer \<Rightarrow> (bool \<times> u32 \<times> buffer) res" where
  "buf_read_u32 b =
     bindE (buf_read b 4) (\<lambda>(r, b').
       case r of None \<Rightarrow> Inr (False, 0, b') | Some bs \<Rightarrow> Inr (True, of_be32 bs, b'))"

definition buf_equal :: "buffer \<Rightarrow> buffer \<Rightarrow> bool res" where
  "buf_equal a b =
     (if buf_len a \<noteq> buf_len b then Inr False
      else bindE (buf_bytes a) (\<lambda>x. bindE (buf_bytes b) (\<lambda>y. Inr (x = y))))"

definition buf_string_match :: "buffer \<Rightarrow> byte list \<Rightarrow> bool res" where
  "buf_string_match src mtch =
     (if int (length mtch) \<noteq> b_len src then Inr False
      else case buf_bptr src of
             None \<Rightarrow> if mtch = [] then Inr True else Inl Mem_Fault
           | Some p \<Rightarrow> bindE (buf_peek src p (int (length mtch))) (\<lambda>bs. Inr (bs = mtch)))"

definition buf_string_match_head :: "buffer \<Rightarrow> byte list \<Rightarrow> bool res" where
  "buf_string_match_head src mtch =
     (if int (length mtch) > b_len src then Inr False
      else case buf_bptr src of
             None \<Rightarrow> if mtch = [] then Inr True else Inl Mem_Fault
           | Some p \<Rightarrow> bindE (buf_peek src p (int (length mtch))) (\<lambda>bs. Inr (bs = mtch)))"

section \<open>Allocation, cloning and sub-buffers\<close>

definition alloc_buf :: "int \<Rightarrow> buffer res" where
  "alloc_buf sz =
     (if \<not> buf_size_valid sz then Inl Msg_Fatal
      else Inr \<lparr>b_capacity = sz, b_offset = 0, b_len = 0, b_data = Some (replicate (nat sz) 0)\<rparr>)"

text \<open>\<open>junk\<close> is the unspecified content of the block that \<open>malloc\<close> returns.\<close>

definition clone_buf :: "(nat \<Rightarrow> byte) \<Rightarrow> buffer \<Rightarrow> buffer res" where
  "clone_buf junk b =
     (let ret = b\<lparr>b_data := Some (map junk [0..<nat (b_capacity b)])\<rparr> in
      bindE (buf_bytes b) (\<lambda>bs.
        case buf_bptr ret of
          None \<Rightarrow> if bs = [] then Inr ret else Inl Mem_Fault
        | Some p \<Rightarrow> buf_poke ret p bs))"

definition buf_clear :: "buffer \<Rightarrow> buffer res" where
  "buf_clear b =
     bindE (if b_capacity b > 0 then buf_poke b 0 (replicate (nat (b_capacity b)) 0) else Inr b)
       (\<lambda>b'. Inr (b'\<lparr>b_len := 0, b_offset := 0\<rparr>))"

definition buf_assign :: "buffer \<Rightarrow> buffer \<Rightarrow> (bool \<times> buffer) res" where
  "buf_assign dest src =
     (case buf_init_dowork dest (b_offset src) of
        (False, d) \<Rightarrow> Inr (False, d)
      | (True, d) \<Rightarrow> bindE (buf_bytes src) (\<lambda>bs. buf_write d bs))"

definition free_buf :: "buffer \<Rightarrow> buffer" where
  "free_buf b = clear_buf"

text \<open>
  \<open>buf_sub\<close> hands out a buffer that aliases a range of its parent. The result carries the
  range's start index, and \<open>buf_sub_sync\<close> is the effect that writes through the sub-buffer have on
  the parent's block.
\<close>

definition buf_sub :: "buffer \<Rightarrow> int \<Rightarrow> bool \<Rightarrow> (buffer \<times> (int \<times> buffer) option) res" where
  "buf_sub b sz prepend =
     (case (if prepend then buf_prepend b sz else buf_write_alloc b sz) of
        (None, b') \<Rightarrow> Inr (b', None)
      | (Some p, b') \<Rightarrow> bindE (buf_peek b' p sz) (\<lambda>bs.
          Inr (b', Some (p, \<lparr>b_capacity = sz, b_offset = 0, b_len = 0, b_data = Some bs\<rparr>))))"

definition buf_sub_sync :: "buffer \<Rightarrow> int \<Rightarrow> buffer \<Rightarrow> buffer res" where
  "buf_sub_sync b p sub = (case b_data sub of None \<Rightarrow> Inr b | Some bs \<Rightarrow> buf_poke b p bs)"

section \<open>The invariant and the content\<close>

definition buf_wf :: "buffer \<Rightarrow> bool" where
  "buf_wf b \<longleftrightarrow>
     (case b_data b of
        None \<Rightarrow> False
      | Some d \<Rightarrow> int (length d) = b_capacity b \<and> b_capacity b < BUF_SIZE_MAX
          \<and> 0 \<le> b_offset b \<and> 0 \<le> b_len b \<and> b_offset b + b_len b \<le> b_capacity b)"

definition buf_content :: "buffer \<Rightarrow> byte list" where
  "buf_content b =
     (case b_data b of None \<Rightarrow> [] | Some d \<Rightarrow> segment d (nat (b_offset b)) (nat (b_len b)))"

text \<open>The buffer after \<open>src\<close> has been appended to, or put in front of, its content.\<close>

definition buf_append :: "buffer \<Rightarrow> byte list \<Rightarrow> buffer" where
  "buf_append b src =
     b\<lparr>b_len := b_len b + int (length src),
       b_data := map_option (\<lambda>d. overwrite d (nat (b_offset b + b_len b)) src) (b_data b)\<rparr>"

definition buf_push_front :: "buffer \<Rightarrow> byte list \<Rightarrow> buffer" where
  "buf_push_front b src =
     b\<lparr>b_offset := b_offset b - int (length src), b_len := b_len b + int (length src),
       b_data := map_option (\<lambda>d. overwrite d (nat (b_offset b - int (length src))) src) (b_data b)\<rparr>"

definition buf_drop :: "buffer \<Rightarrow> int \<Rightarrow> buffer" where
  "buf_drop b n = b\<lparr>b_offset := b_offset b + n, b_len := b_len b - n\<rparr>"

abbreviation buf_room :: "buffer \<Rightarrow> int" where
  "buf_room b \<equiv> b_capacity b - (b_offset b + b_len b)"

lemma buf_wfE:
  assumes "buf_wf b"
  obtains d where "b_data b = Some d" "int (length d) = b_capacity b" "b_capacity b < 2097152"
    "0 \<le> b_offset b" "0 \<le> b_len b" "b_offset b + b_len b \<le> b_capacity b"
  using assms by (auto simp: buf_wf_def BUF_SIZE_MAX_def split: option.splits)

lemma buf_wf_bounds:
  assumes "buf_wf b"
  shows "0 \<le> b_offset b" "0 \<le> b_len b" "b_offset b + b_len b \<le> b_capacity b"
    "b_capacity b < 2097152" "0 \<le> b_capacity b"
  using assms by (auto elim!: buf_wfE)

lemma buf_wf_valid [simp]: "buf_wf b \<Longrightarrow> buf_valid b"
  by (auto simp: buf_valid_def elim!: buf_wfE)

lemma buf_wf_len [simp]: "buf_wf b \<Longrightarrow> buf_len b = b_len b"
  by (simp add: buf_len_def)

lemma buf_wf_bptr [simp]: "buf_wf b \<Longrightarrow> buf_bptr b = Some (b_offset b)"
  by (simp add: buf_bptr_def)

lemma buf_wf_forward_capacity [simp]: "buf_wf b \<Longrightarrow> buf_forward_capacity b = buf_room b"
  by (auto simp: buf_forward_capacity_def Let_def elim!: buf_wfE)

lemma length_buf_content [simp]: "buf_wf b \<Longrightarrow> int (length (buf_content b)) = b_len b"
  by (auto simp: buf_content_def elim!: buf_wfE)

lemma length_buf_content_nat: "buf_wf b \<Longrightarrow> length (buf_content b) = nat (b_len b)"
  using length_buf_content[of b] by linarith

lemma buf_size_valid_nonneg [simp]:
  "0 \<le> n \<Longrightarrow> n \<le> INT_MAX \<Longrightarrow> buf_size_valid n \<longleftrightarrow> n < 2097152"
  by (simp add: buf_size_valid_def BUF_SIZE_MAX_def INT_MAX_def)

lemma buf_size_valid_neg [simp]: "in_int_range n \<Longrightarrow> n < 0 \<Longrightarrow> \<not> buf_size_valid n"
  by (auto simp: buf_size_valid_def BUF_SIZE_MAX_def size_t_of_int_neg in_int_range_def INT_MIN_def)

lemma buf_size_valid_small: "0 \<le> n \<Longrightarrow> n < 2097152 \<Longrightarrow> buf_size_valid n"
  by (simp add: buf_size_valid_def BUF_SIZE_MAX_def)

section \<open>What the operations do\<close>

text \<open>The window arithmetic of a well-formed buffer stays far inside the range of \<open>int\<close>.\<close>

lemma buf_arith_no_overflow:
  assumes "buf_wf b" and "buf_size_valid_signed n"
  shows "in_int_range (b_offset b + b_len b + n)" "in_int_range (b_len b + n)"
  using buf_wf_bounds[OF assms(1)] assms(2)
  by (auto simp: in_int_range_def INT_MAX_def INT_MIN_def buf_size_valid_signed_def BUF_SIZE_MAX_def)

lemma buf_safe_iff:
  assumes "buf_wf b" and "0 \<le> n" and "n \<le> INT_MAX"
  shows "buf_safe b n \<longleftrightarrow> n \<le> buf_room b"
  using buf_wf_bounds[OF assms(1)] assms by (auto simp: buf_safe_def)

lemma buf_safe_room: "buf_wf b \<Longrightarrow> 0 \<le> n \<Longrightarrow> n \<le> buf_room b \<Longrightarrow> buf_safe b n"
  using buf_wf_bounds[of b] by (simp add: buf_safe_iff INT_MAX_def)

lemma buf_append_wf [wf_intros]:
  assumes "buf_wf b" and "int (length src) \<le> buf_room b"
  shows "buf_wf (buf_append b src)"
proof -
  from assms(1) obtain d where d: "b_data b = Some d" "int (length d) = b_capacity b"
    "b_capacity b < 2097152" "0 \<le> b_offset b" "0 \<le> b_len b" "b_offset b + b_len b \<le> b_capacity b"
    by (rule buf_wfE)
  then have "nat (b_offset b + b_len b) + length src \<le> length d" using assms(2) by simp
  then show ?thesis using d assms(2) by (simp add: buf_wf_def buf_append_def BUF_SIZE_MAX_def)
qed

lemma buf_append_content:
  assumes "buf_wf b" and "int (length src) \<le> buf_room b"
  shows "buf_content (buf_append b src) = buf_content b @ src"
proof -
  from assms(1) obtain d where d: "b_data b = Some d" "int (length d) = b_capacity b"
    "0 \<le> b_offset b" "0 \<le> b_len b" "b_offset b + b_len b \<le> b_capacity b" by (rule buf_wfE)
  let ?p = "nat (b_offset b + b_len b)"
  have n: "nat (b_len b + int (length src)) = nat (b_len b) + length src"
    and p: "nat (b_offset b) + nat (b_len b) = ?p" and fit: "?p + length src \<le> length d"
    using d assms(2) by auto
  have "segment (overwrite d ?p src) (nat (b_offset b)) (nat (b_len b)) = segment d (nat (b_offset b)) (nat (b_len b))"
    using p fit by (intro segment_overwrite_before) auto
  then show ?thesis
    using d fit by (simp add: buf_content_def buf_append_def n segment_append p segment_overwrite_same)
qed

lemma buf_append_fields [simp]:
  "b_offset (buf_append b src) = b_offset b" "b_capacity (buf_append b src) = b_capacity b"
  "b_len (buf_append b src) = b_len b + int (length src)"
  by (simp_all add: buf_append_def)

lemma buf_write_append:
  assumes "buf_wf b" and "int (length src) \<le> buf_room b"
  shows "buf_write b src = Inr (True, buf_append b src)"
  using assms buf_safe_room[of b "int (length src)"]
  by (auto simp: buf_write_def buf_write_alloc_def buf_poke_def buf_append_def mem_simps elim!: buf_wfE)

lemma buf_write_full:
  assumes "buf_wf b" and "int (length src) > buf_room b" and "int (length src) \<le> INT_MAX"
  shows "buf_write b src = Inr (False, b)"
  using assms by (simp add: buf_write_def buf_write_alloc_def buf_safe_iff)

lemma buf_push_front_wf [wf_intros]:
  assumes "buf_wf b" and "int (length src) \<le> b_offset b"
  shows "buf_wf (buf_push_front b src)"
proof -
  from assms(1) obtain d where d: "b_data b = Some d" "int (length d) = b_capacity b"
    "b_capacity b < 2097152" "0 \<le> b_offset b" "0 \<le> b_len b" "b_offset b + b_len b \<le> b_capacity b"
    by (rule buf_wfE)
  then have "nat (b_offset b - int (length src)) + length src \<le> length d" using assms(2) by simp
  then show ?thesis using d assms(2) by (simp add: buf_wf_def buf_push_front_def BUF_SIZE_MAX_def)
qed

lemma buf_push_front_content:
  assumes "buf_wf b" and "int (length src) \<le> b_offset b"
  shows "buf_content (buf_push_front b src) = src @ buf_content b"
proof -
  from assms(1) obtain d where d: "b_data b = Some d" "int (length d) = b_capacity b"
    "0 \<le> b_offset b" "0 \<le> b_len b" "b_offset b + b_len b \<le> b_capacity b" by (rule buf_wfE)
  let ?p = "nat (b_offset b - int (length src))"
  have n: "nat (b_len b + int (length src)) = length src + nat (b_len b)"
    and p: "?p + length src = nat (b_offset b)" and fit: "?p + length src \<le> length d"
    using d assms(2) by auto
  have "segment (overwrite d ?p src) (nat (b_offset b)) (nat (b_len b)) = segment d (nat (b_offset b)) (nat (b_len b))"
    using p fit by (intro segment_overwrite_after) auto
  then show ?thesis
    using d fit by (simp add: buf_content_def buf_push_front_def n segment_append p segment_overwrite_same)
qed

lemma buf_push_front_fields [simp]:
  "b_offset (buf_push_front b src) = b_offset b - int (length src)"
  "b_capacity (buf_push_front b src) = b_capacity b"
  "b_len (buf_push_front b src) = b_len b + int (length src)"
  by (simp_all add: buf_push_front_def)

lemma buf_write_prepend_push:
  assumes "buf_wf b" and "int (length src) \<le> b_offset b"
  shows "buf_write_prepend b src = Inr (True, buf_push_front b src)"
  using assms
  by (auto simp: buf_write_prepend_def buf_prepend_def buf_poke_def buf_push_front_def buf_bptr_def
      buf_valid_def mem_simps elim!: buf_wfE)

lemma buf_write_prepend_full:
  "buf_wf b \<Longrightarrow> int (length src) > b_offset b \<Longrightarrow> buf_write_prepend b src = Inr (False, b)"
  by (simp add: buf_write_prepend_def buf_prepend_def)

lemma buf_drop_wf [wf_intros]: "buf_wf b \<Longrightarrow> 0 \<le> n \<Longrightarrow> n \<le> b_len b \<Longrightarrow> buf_wf (buf_drop b n)"
  by (auto simp: buf_wf_def buf_drop_def split: option.splits)

lemma buf_drop_content:
  assumes "buf_wf b" "0 \<le> n" "n \<le> b_len b"
  shows "buf_content (buf_drop b n) = drop (nat n) (buf_content b)"
  using assms by (auto simp: buf_content_def buf_drop_def drop_segment nat_add_distrib nat_diff_distrib elim!: buf_wfE)

lemma buf_drop_fields [simp]:
  "b_offset (buf_drop b n) = b_offset b + n" "b_capacity (buf_drop b n) = b_capacity b"
  "b_len (buf_drop b n) = b_len b - n" "b_data (buf_drop b n) = b_data b"
  by (simp_all add: buf_drop_def)

lemma buf_advance_drop:
  "buf_wf b \<Longrightarrow> 0 \<le> n \<Longrightarrow> n \<le> b_len b \<Longrightarrow> buf_advance b n = (True, buf_drop b n)"
  by (simp add: buf_advance_def buf_drop_def)

lemma buf_peek_content:
  assumes "buf_wf b" "0 \<le> i" "0 \<le> n" "i + n \<le> b_len b"
  shows "buf_peek b (b_offset b + i) n = Inr (segment (buf_content b) (nat i) (nat n))"
proof -
  from assms(1) obtain d where d: "b_data b = Some d" "int (length d) = b_capacity b"
    "0 \<le> b_offset b" "b_offset b + b_len b \<le> b_capacity b" by (rule buf_wfE)
  have "segment (segment d (nat (b_offset b)) (nat (b_len b))) (nat i) (nat n) = segment d (nat (b_offset b + i)) (nat n)"
    using assms(2-) d by (simp add: segment_def drop_take min_def nat_add_distrib add.commute)
  then show ?thesis
    using d assms(2-) by (simp add: buf_peek_def buf_content_def mem_simps)
qed

lemma segment_whole: "length xs = n \<Longrightarrow> segment xs 0 n = xs"
  by (simp add: segment_def)

lemma segment_from_0: "segment xs 0 n = take n xs"
  by (simp add: segment_def)

lemma buf_bytes_content [simp]: "buf_wf b \<Longrightarrow> buf_bytes b = Inr (buf_content b)"
  using buf_peek_content[of b 0 "b_len b"]
  by (simp add: buf_bytes_def buf_wf_bounds segment_from_0 length_buf_content_nat)

lemma buf_peek_drop [simp]: "buf_peek (buf_drop b n) = buf_peek b"
  by (simp add: buf_peek_def fun_eq_iff)

lemma buf_read_take:
  assumes "buf_wf b" "0 \<le> n" "n \<le> b_len b"
  shows "buf_read b n = Inr (Some (take (nat n) (buf_content b)), buf_drop b n)"
  using assms buf_peek_content[of b 0 n]
  by (simp add: buf_read_def buf_read_alloc_def segment_from_0 flip: buf_drop_def)

lemma buf_read_short: "n > b_len b \<Longrightarrow> buf_read b n = Inr (None, b)"
  by (simp add: buf_read_def buf_read_alloc_def)

lemma buf_read_u8_take:
  assumes "buf_wf b" "1 \<le> b_len b"
  shows "buf_read_u8 b = Inr (uint (hd (buf_content b)), buf_drop b 1)"
proof -
  have "buf_peek b (b_offset b) 1 = Inr (take 1 (buf_content b))"
    using buf_peek_content[of b 0 1] assms by (simp add: segment_from_0)
  moreover have "hd (take 1 (buf_content b)) = hd (buf_content b)" by simp
  ultimately show ?thesis using assms by (simp add: buf_read_u8_def buf_advance_drop)
qed

lemma buf_read_u8_empty: "buf_len b < 1 \<Longrightarrow> buf_read_u8 b = Inr (-1, b)"
  by (simp add: buf_read_u8_def)

lemma buf_init_dowork_ok:
  "buf_wf b \<Longrightarrow> 0 \<le> off \<Longrightarrow> off \<le> b_capacity b \<Longrightarrow>
     buf_init_dowork b off = (True, b\<lparr>b_len := 0, b_offset := off\<rparr>)"
  by (auto simp: buf_init_dowork_def elim!: buf_wfE)

lemma buf_init_wf [wf_intros]:
  "buf_wf b \<Longrightarrow> 0 \<le> off \<Longrightarrow> off \<le> b_capacity b \<Longrightarrow> buf_wf (b\<lparr>b_len := 0, b_offset := off\<rparr>)"
  by (auto simp: buf_wf_def split: option.splits)

lemma alloc_buf_wf:
  "0 \<le> sz \<Longrightarrow> sz < 2097152 \<Longrightarrow> \<exists>b. alloc_buf sz = Inr b \<and> buf_wf b \<and> b_capacity b = sz
     \<and> b_offset b = 0 \<and> b_len b = 0"
  by (simp add: alloc_buf_def buf_size_valid_small buf_wf_def BUF_SIZE_MAX_def)

lemma clone_buf_ok:
  assumes "buf_wf b"
  shows "\<exists>b'. clone_buf junk b = Inr b' \<and> buf_wf b' \<and> buf_content b' = buf_content b"
proof -
  note bd = buf_wf_bounds[OF assms]
  let ?ret = "b\<lparr>b_data := Some (map junk [0..<nat (b_capacity b)])\<rparr>"
  have len: "nat (b_offset b) + length (buf_content b) \<le> length (map junk [0..<nat (b_capacity b)])"
    using bd by (simp add: length_buf_content_nat[OF assms])
  have "int (length (buf_content b)) = b_len b" using assms by simp
  then have "clone_buf junk b = Inr (?ret\<lparr>b_data := Some (overwrite (map junk [0..<nat (b_capacity b)]) (nat (b_offset b)) (buf_content b))\<rparr>)"
    using assms bd by (simp add: clone_buf_def Let_def buf_bptr_def buf_valid_def buf_poke_def mem_simps)
  moreover have "buf_content (?ret\<lparr>b_data := Some (overwrite (map junk [0..<nat (b_capacity b)]) (nat (b_offset b)) (buf_content b))\<rparr>) = buf_content b"
    using segment_overwrite_same[OF len] by (simp add: buf_content_def[of "_\<lparr>b_data := _\<rparr>"] length_buf_content_nat[OF assms])
  ultimately show ?thesis using len bd by (auto simp: buf_wf_def BUF_SIZE_MAX_def)
qed

end
