(* ===== verification/Buffer_Safety.thy ===== *)
theory Buffer_Safety
  imports Buffer
begin

text \<open>
  Copying between buffers, and memory safety of arbitrary sequences of buffer calls: a client that
  starts from a well-formed buffer can issue any sequence of the calls below with any arguments of
  type \<open>int\<close> and never touches memory outside the block.
\<close>

section \<open>Copies between buffers\<close>

lemma buf_copy_append:
  assumes "buf_wf dest" "buf_wf src" "b_len src \<le> buf_room dest"
  shows "buf_copy dest src = Inr (True, buf_append dest (buf_content src))"
  using assms by (simp add: buf_copy_def buf_write_append)

lemma buf_copy_full:
  assumes "buf_wf dest" "buf_wf src" "b_len src > buf_room dest"
  shows "buf_copy dest src = Inr (False, dest)"
  using assms buf_wf_bounds[of src] by (simp add: buf_copy_def buf_write_full INT_MAX_def)

lemma buf_poke_middle:
  assumes "buf_wf b" "buf_content b = x @ m @ z" "length t = length m" "p = b_offset b + int (length x)"
  shows "\<exists>b'. buf_poke b p t = Inr b' \<and> buf_wf b' \<and> buf_content b' = x @ t @ z
    \<and> b_offset b' = b_offset b \<and> b_len b' = b_len b \<and> b_capacity b' = b_capacity b"
proof -
  obtain d where d: "b_data b = Some d" "int (length d) = b_capacity b" "b_capacity b < 2097152"
    "0 \<le> b_offset b" "0 \<le> b_len b" "b_offset b + b_len b \<le> b_capacity b"
    using assms(1) by (rule buf_wfE)
  let ?o = "nat (b_offset b)"
  have len: "b_len b = int (length x) + int (length m) + int (length z)" using length_buf_content[OF assms(1)] assms(2) by simp
  have seg: "segment d ?o (nat (b_len b)) = x @ m @ z" using assms(2) d(1) by (simp add: buf_content_def)
  have np: "nat p = ?o + length x" using assms(4) d(4) by simp
  have fit: "?o + nat (b_len b) \<le> length d" using d by linarith
  have nl: "nat (b_len b) = length x + (length t + length z)" using len assms(3) by simp
  let ?d = "overwrite d (nat p) t"
  have fit2: "nat p + length t \<le> length d" using fit nl np by simp
  have s1: "segment ?d ?o (length x) = x"
  proof -
    have "segment ?d ?o (length x) = segment d ?o (length x)" using np fit2 by (intro segment_overwrite_before) auto
    also have "\<dots> = take (length x) (segment d ?o (nat (b_len b)))" using nl by (simp add: segment_def min_def)
    finally show ?thesis using seg by simp
  qed
  have s3: "segment ?d (?o + length x + length t) (length z) = z"
  proof -
    have "segment ?d (?o + length x + length t) (length z) = segment d (?o + length x + length t) (length z)"
      using np fit2 by (intro segment_overwrite_after) auto
    also have "\<dots> = drop (length x + length t) (segment d ?o (nat (b_len b)))"
      using nl by (simp add: segment_def drop_take add.commute add.left_commute)
    finally show ?thesis using seg assms(3) by simp
  qed
  have "segment ?d ?o (nat (b_len b)) = x @ t @ z"
    unfolding nl segment_append s1 using s3 np fit2 segment_overwrite_same[of "nat p" t d] by simp
  moreover have "buf_poke b p t = Inr (b\<lparr>b_data := Some ?d\<rparr>)"
    using d fit2 np assms(4) by (simp add: buf_poke_def mem_write_ok)
  ultimately show ?thesis using d fit2 by (simp add: buf_wf_def BUF_SIZE_MAX_def buf_content_def)
qed

lemma buf_poke_at:
  assumes "buf_wf b" "0 \<le> i" "i + int (length t) \<le> b_len b"
  shows "\<exists>b'. buf_poke b (b_offset b + i) t = Inr b' \<and> buf_wf b'
    \<and> buf_content b' = take (nat i) (buf_content b) @ t @ drop (nat i + length t) (buf_content b)
    \<and> b_offset b' = b_offset b \<and> b_len b' = b_len b \<and> b_capacity b' = b_capacity b"
proof -
  let ?c = "buf_content b"
  have l: "length ?c = nat (b_len b)" using length_buf_content_nat[OF assms(1)] .
  have "?c = take (nat i) ?c @ take (length t) (drop (nat i) ?c) @ drop (nat i + length t) ?c"
    by (metis append_take_drop_id drop_drop add.commute)
  from buf_poke_middle[OF assms(1) this, of t "b_offset b + i"] show ?thesis using l assms(2,3) by simp
qed

lemma buf_copy_n_moves:
  assumes "buf_wf dest" "buf_wf src" "0 \<le> n" "n \<le> b_len src" "n \<le> buf_room dest"
  shows "buf_copy_n dest src n =
    Inr (True, buf_append dest (take (nat n) (buf_content src)), buf_drop src n)"
proof -
  have "buf_peek src (b_offset src) n = Inr (take (nat n) (buf_content src))"
    using buf_peek_content[of src 0 n] assms by (simp add: segment_from_0)
  moreover have "buf_peek (src\<lparr>b_offset := b_offset src + n, b_len := b_len src - n\<rparr>) = buf_peek src"
    by (simp add: buf_peek_def fun_eq_iff)
  moreover have "int (length (take (nat n) (buf_content src))) \<le> buf_room dest"
    using assms by (auto simp: length_buf_content_nat min_def)
  ultimately show ?thesis
    using assms by (simp add: buf_copy_n_def buf_read_alloc_def buf_write_append buf_drop_def)
qed

lemma buf_copy_excess_splits:
  assumes "buf_wf dest" "buf_wf src" "0 \<le> n" "n < b_len src" "b_len src - n \<le> buf_room dest"
  shows "buf_copy_excess dest src n =
    Inr (True, buf_append dest (drop (nat n) (buf_content src)), src\<lparr>b_len := n\<rparr>)"
  using assms buf_drop_wf[of src n]
  by (simp add: buf_copy_excess_def buf_advance_drop buf_copy_append buf_drop_content)

lemma buf_set_len_wf:
  assumes "buf_wf b" "0 \<le> n" "b_offset b + n \<le> b_capacity b"
  shows "buf_wf (b\<lparr>b_len := n\<rparr>)"
  using assms by (auto simp: buf_wf_def split: option.splits)

lemma buf_set_len_content:
  assumes "buf_wf b" "0 \<le> n" "n \<le> b_len b"
  shows "buf_content (b\<lparr>b_len := n\<rparr>) = take (nat n) (buf_content b)"
  using assms by (auto simp: buf_content_def take_segment min_def elim!: buf_wfE)

lemma buf_poke_wf:
  assumes "buf_wf b" "0 \<le> p" "p + int (length src) \<le> b_capacity b"
  shows "\<exists>d. b_data b = Some d \<and> buf_poke b p src = Inr (b\<lparr>b_data := Some (overwrite d (nat p) src)\<rparr>)
    \<and> buf_wf (b\<lparr>b_data := Some (overwrite d (nat p) src)\<rparr>)"
  using assms by (auto simp: buf_poke_def mem_simps buf_wf_def BUF_SIZE_MAX_def split: option.splits)

lemma buf_copy_range_safe:
  assumes "buf_wf dest" "buf_wf src"
  shows "\<exists>ok d. buf_copy_range dest di src si sl = Inr (ok, d) \<and> buf_wf d \<and> b_capacity d = b_capacity dest
    \<and> b_offset d = b_offset dest"
proof (cases "si < 0 \<or> sl < 0 \<or> si + sl > b_len src \<or> di < 0 \<or> b_offset dest + di + sl > b_capacity dest")
  case True
  then show ?thesis using assms by (auto simp: buf_copy_range_def)
next
  case False
  let ?bs = "segment (buf_content src) (nat si) (nat sl)"
  have pk: "buf_peek src (b_offset src + si) sl = Inr ?bs"
    using False assms by (intro buf_peek_content) auto
  have "nat si + nat sl \<le> length (buf_content src)" using False assms by (auto simp: length_buf_content_nat)
  then have "int (length ?bs) = sl" using False by simp
  then obtain d where "buf_poke dest (b_offset dest + di) ?bs = Inr (dest\<lparr>b_data := Some d\<rparr>)"
    "buf_wf (dest\<lparr>b_data := Some d\<rparr>)"
    using False assms buf_wf_bounds[of dest] buf_poke_wf[of dest "b_offset dest + di" ?bs] by auto
  then show ?thesis using False pk buf_set_len_wf[of "dest\<lparr>b_data := Some d\<rparr>" "di + sl"]
    by (auto simp: buf_copy_range_def)
qed

section \<open>Sequences of buffer calls\<close>

datatype buf_op =
    Op_write "byte list" | Op_write_prepend "byte list" | Op_write_u8 int | Op_write_u16 int
  | Op_write_u32 int | Op_read int | Op_read_u8 | Op_advance int | Op_inc_len int | Op_prepend int
  | Op_write_alloc int | Op_init int | Op_reset_len | Op_copy buffer | Op_copy_range int buffer int int

fun run_buf_op :: "buf_op \<Rightarrow> buffer \<Rightarrow> buffer res" where
  "run_buf_op (Op_write bs) b = bindE (buf_write b bs) (\<lambda>r. Inr (snd r))"
| "run_buf_op (Op_write_prepend bs) b = bindE (buf_write_prepend b bs) (\<lambda>r. Inr (snd r))"
| "run_buf_op (Op_write_u8 x) b = bindE (buf_write_u8 b x) (\<lambda>r. Inr (snd r))"
| "run_buf_op (Op_write_u16 x) b = bindE (buf_write_u16 b x) (\<lambda>r. Inr (snd r))"
| "run_buf_op (Op_write_u32 x) b = bindE (buf_write_u32 b x) (\<lambda>r. Inr (snd r))"
| "run_buf_op (Op_read n) b = bindE (buf_read b n) (\<lambda>r. Inr (snd r))"
| "run_buf_op Op_read_u8 b = bindE (buf_read_u8 b) (\<lambda>r. Inr (snd r))"
| "run_buf_op (Op_advance n) b = Inr (snd (buf_advance b n))"
| "run_buf_op (Op_inc_len n) b = Inr (snd (buf_inc_len b n))"
| "run_buf_op (Op_prepend n) b = Inr (snd (buf_prepend b n))"
| "run_buf_op (Op_write_alloc n) b = Inr (snd (buf_write_alloc b n))"
| "run_buf_op (Op_init off) b = Inr (snd (buf_init_dowork b off))"
| "run_buf_op Op_reset_len b = Inr (buf_reset_len b)"
| "run_buf_op (Op_copy src) b = bindE (buf_copy b src) (\<lambda>r. Inr (snd r))"
| "run_buf_op (Op_copy_range di src si sl) b = bindE (buf_copy_range b di src si sl) (\<lambda>r. Inr (snd r))"

fun run_buf_ops :: "buf_op list \<Rightarrow> buffer \<Rightarrow> buffer res" where
  "run_buf_ops [] b = Inr b"
| "run_buf_ops (op # ops) b = bindE (run_buf_op op b) (run_buf_ops ops)"

text \<open>Arguments a C caller can pass: sizes that fit an \<open>int\<close>, and source buffers that are well formed.\<close>

fun op_args_ok :: "buf_op \<Rightarrow> bool" where
  "op_args_ok (Op_write bs) = (int (length bs) \<le> INT_MAX)"
| "op_args_ok (Op_write_prepend bs) = (int (length bs) \<le> INT_MAX)"
| "op_args_ok (Op_write_alloc n) = in_int_range n"
| "op_args_ok (Op_copy src) = buf_wf src"
| "op_args_ok (Op_copy_range di src si sl) = buf_wf src"
| "op_args_ok _ = True"

lemma buf_write_safe:
  assumes "buf_wf b" "int (length bs) \<le> INT_MAX"
  shows "\<exists>ok b'. buf_write b bs = Inr (ok, b') \<and> buf_wf b' \<and> b_capacity b' = b_capacity b"
  using assms by (cases "int (length bs) \<le> buf_room b")
    (auto simp: buf_write_append buf_write_full buf_append_wf)

lemma buf_write_prepend_safe:
  assumes "buf_wf b"
  shows "\<exists>ok b'. buf_write_prepend b bs = Inr (ok, b') \<and> buf_wf b' \<and> b_capacity b' = b_capacity b"
  using assms by (cases "int (length bs) \<le> b_offset b")
    (auto simp: buf_write_prepend_push buf_write_prepend_full buf_push_front_wf)

lemma buf_read_safe:
  assumes "buf_wf b"
  shows "\<exists>r b'. buf_read b n = Inr (r, b') \<and> buf_wf b' \<and> b_capacity b' = b_capacity b"
proof (cases "0 \<le> n \<and> n \<le> b_len b")
  case True
  then show ?thesis using assms by (simp add: buf_read_take buf_drop_wf)
next
  case False
  then show ?thesis using assms by (auto simp: buf_read_def buf_read_alloc_def)
qed

lemma buf_read_u8_safe:
  assumes "buf_wf b"
  shows "\<exists>r b'. buf_read_u8 b = Inr (r, b') \<and> buf_wf b' \<and> b_capacity b' = b_capacity b"
  using assms by (cases "1 \<le> b_len b") (simp_all add: buf_read_u8_take buf_read_u8_empty buf_drop_wf)

lemma buf_copy_safe:
  assumes "buf_wf b" "buf_wf src"
  shows "\<exists>ok b'. buf_copy b src = Inr (ok, b') \<and> buf_wf b' \<and> b_capacity b' = b_capacity b"
  using assms by (cases "b_len src \<le> buf_room b") (auto simp: buf_copy_append buf_copy_full buf_append_wf)

lemma buf_window_moves_wf:
  assumes "buf_wf b"
  shows "buf_wf (snd (buf_advance b n)) \<and> b_capacity (snd (buf_advance b n)) = b_capacity b"
    and "buf_wf (snd (buf_inc_len b n)) \<and> b_capacity (snd (buf_inc_len b n)) = b_capacity b"
    and "buf_wf (snd (buf_prepend b n)) \<and> b_capacity (snd (buf_prepend b n)) = b_capacity b"
    and "buf_wf (snd (buf_init_dowork b n)) \<and> b_capacity (snd (buf_init_dowork b n)) = b_capacity b"
    and "buf_wf (buf_reset_len b) \<and> b_capacity (buf_reset_len b) = b_capacity b"
  using assms
  by (auto simp: buf_advance_def buf_inc_len_def buf_safe_bidir_def buf_prepend_def buf_init_dowork_def
      buf_reset_len_def buf_wf_def Let_def split: option.splits)

lemma buf_write_alloc_wf:
  assumes "buf_wf b" "in_int_range n"
  shows "buf_wf (snd (buf_write_alloc b n)) \<and> b_capacity (snd (buf_write_alloc b n)) = b_capacity b"
proof (cases "n < 0")
  case True
  then show ?thesis using assms by (simp add: buf_write_alloc_def buf_safe_def)
next
  case False
  then have "n \<le> INT_MAX" using assms by (simp add: in_int_range_def)
  with False show ?thesis using assms buf_wf_bounds[of b]
    by (auto simp: buf_write_alloc_def buf_safe_iff intro!: buf_set_len_wf)
qed

lemma run_buf_op_safe:
  assumes "buf_wf b" "op_args_ok op"
  shows "\<exists>b'. run_buf_op op b = Inr b' \<and> buf_wf b' \<and> b_capacity b' = b_capacity b"
proof (cases op)
  case (Op_write bs)
  with assms buf_write_safe[of b bs] show ?thesis by auto
next
  case (Op_write_prepend bs)
  with assms buf_write_prepend_safe[of b bs] show ?thesis by auto
next
  case (Op_write_u8 x)
  with assms buf_write_safe[of b "[word_of_int x]"] show ?thesis by (auto simp: buf_write_u8_def INT_MAX_def)
next
  case (Op_write_u16 x)
  with assms buf_write_safe[of b "be16 (word_of_int x)"] show ?thesis by (auto simp: buf_write_u16_def INT_MAX_def)
next
  case (Op_write_u32 x)
  with assms buf_write_safe[of b "be32 (word_of_int x)"] show ?thesis by (auto simp: buf_write_u32_def INT_MAX_def)
next
  case (Op_read n)
  with assms buf_read_safe[of b n] show ?thesis by auto
next
  case Op_read_u8
  with assms buf_read_u8_safe[of b] show ?thesis by auto
next
  case (Op_copy src)
  with assms buf_copy_safe[of b src] show ?thesis by auto
next
  case (Op_copy_range di src si sl)
  with assms buf_copy_range_safe[of b src di si sl] show ?thesis by auto
qed (use assms in \<open>simp_all add: buf_window_moves_wf buf_write_alloc_wf\<close>)



end
