(* ===== verification/Buffer_Codec.thy ===== *)
theory Buffer_Codec
  imports Buffer_Safety
begin

text \<open>
  The contract of a fixed-width wire field: what a writer appends to a buffer, its reader takes off
  the front again. The locale states it once; sequences of fields are handled inside it. It is
  interpreted here on the integer fields of \<open>buffer.h\<close>, and by the session and packet identifiers in
  their own theories.
\<close>

section \<open>Sequences of fields\<close>

fun put_list :: "(buffer \<Rightarrow> 'a \<Rightarrow> (bool \<times> buffer) res) \<Rightarrow> buffer \<Rightarrow> 'a list \<Rightarrow> (bool \<times> buffer) res" where
  "put_list put b [] = Inr (True, b)"
| "put_list put b (x # xs) =
     bindE (put b x) (\<lambda>(ok, b'). if ok then put_list put b' xs else Inr (False, b'))"

fun get_list :: "(buffer \<Rightarrow> ('a option \<times> buffer) res) \<Rightarrow> nat \<Rightarrow> buffer \<Rightarrow> ('a list option \<times> buffer) res" where
  "get_list get 0 b = Inr (Some [], b)"
| "get_list get (Suc n) b =
     bindE (get b) (\<lambda>(r, b'). case r of
       None \<Rightarrow> Inr (None, b')
     | Some x \<Rightarrow> bindE (get_list get n b') (\<lambda>(rs, b''). Inr (map_option ((#) x) rs, b'')))"

locale buf_codec =
  fixes enc :: "'a \<Rightarrow> byte list"
    and width :: int
    and put :: "buffer \<Rightarrow> 'a \<Rightarrow> (bool \<times> buffer) res"
    and get :: "buffer \<Rightarrow> ('a option \<times> buffer) res"
  assumes enc_width: "int (length (enc x)) = width"
    and put_fits: "buf_wf b \<Longrightarrow> width \<le> buf_room b \<Longrightarrow> put b x = Inr (True, buf_append b (enc x))"
    and put_full: "buf_wf b \<Longrightarrow> width > buf_room b \<Longrightarrow> put b x = Inr (False, b)"
    and get_enc: "buf_wf b \<Longrightarrow> buf_content b = enc x @ r \<Longrightarrow> get b = Inr (Some x, buf_drop b width)"
    and get_short: "buf_wf b \<Longrightarrow> b_len b < width \<Longrightarrow> get b = Inr (None, b)"
begin

lemma width_nonneg: "0 \<le> width"
  using enc_width by (metis of_nat_0_le_iff)

lemma enc_length: "length (enc x) = nat width"
  using enc_width[of x] by linarith

lemma drop_field:
  assumes "buf_wf b" "buf_content b = enc x @ r"
  shows "buf_wf (buf_drop b width)" "buf_content (buf_drop b width) = r"
proof -
  have "width \<le> b_len b"
    using length_buf_content[OF assms(1)] assms(2) enc_width[of x] by simp
  then show "buf_wf (buf_drop b width)" "buf_content (buf_drop b width) = r"
    using assms width_nonneg by (simp_all add: buf_drop_wf buf_drop_content enc_length)
qed

lemma put_list_fits:
  assumes "buf_wf b" "int (length xs) * width \<le> buf_room b"
  shows "\<exists>b'. put_list put b xs = Inr (True, b') \<and> buf_wf b'
    \<and> buf_content b' = buf_content b @ concat (map enc xs) \<and> b_offset b' = b_offset b"
  using assms
proof (induction xs arbitrary: b)
  case (Cons x xs)
  let ?b = "buf_append b (enc x)"
  have "0 \<le> int (length xs) * width" using width_nonneg by simp
  with Cons.prems(2) have fit: "width \<le> buf_room b" by (simp add: algebra_simps)
  then have wf: "buf_wf ?b" and ct: "buf_content ?b = buf_content b @ enc x"
    using Cons.prems(1) by (simp_all add: buf_append_wf buf_append_content enc_width)
  have "int (length xs) * width \<le> buf_room ?b"
    using Cons.prems(2) by (simp add: enc_width algebra_simps)
  from Cons.IH[OF wf this] ct show ?case
    using put_fits[OF Cons.prems(1) fit, of x] by auto
qed simp

lemma get_list_enc:
  assumes "buf_wf b" "buf_content b = concat (map enc xs) @ r"
  shows "\<exists>b'. get_list get (length xs) b = Inr (Some xs, b') \<and> buf_wf b' \<and> buf_content b' = r"
  using assms
proof (induction xs arbitrary: b)
  case (Cons x xs)
  then have ct: "buf_content b = enc x @ (concat (map enc xs) @ r)" by simp
  from Cons.IH[OF drop_field[OF Cons.prems(1) ct]] show ?case
    using get_enc[OF Cons.prems(1) ct] by auto
qed simp

lemma put_get_list:
  assumes "buf_wf b" "b_len b = 0" "int (length xs) * width \<le> buf_room b"
  shows "\<exists>b' b''. put_list put b xs = Inr (True, b') \<and> get_list get (length xs) b' = Inr (Some xs, b'')
    \<and> buf_content b'' = []"
proof -
  have "buf_content b = []" using length_buf_content_nat[OF assms(1)] assms(2) by simp
  then obtain b' where "put_list put b xs = Inr (True, b')" "buf_wf b'" "buf_content b' = concat (map enc xs)"
    using put_list_fits[OF assms(1,3)] by auto
  moreover from this obtain b'' where "get_list get (length xs) b' = Inr (Some xs, b'')" "buf_content b'' = []"
    using get_list_enc[of b' xs "[]"] by auto
  ultimately show ?thesis by blast
qed

end

section \<open>The integer fields\<close>

definition get_u8 :: "buffer \<Rightarrow> (byte option \<times> buffer) res" where
  "get_u8 b = bindE (buf_read_u8 b) (\<lambda>(v, b'). Inr (if v < 0 then None else Some (word_of_int v), b'))"

definition get_u16 :: "buffer \<Rightarrow> (u16 option \<times> buffer) res" where
  "get_u16 b = bindE (buf_read_u16 b) (\<lambda>(v, b'). Inr (if v < 0 then None else Some (word_of_int v), b'))"

definition get_u32 :: "buffer \<Rightarrow> (u32 option \<times> buffer) res" where
  "get_u32 b = bindE (buf_read_u32 b) (\<lambda>(good, v, b'). Inr (if good then Some v else None, b'))"

definition put_u8 :: "buffer \<Rightarrow> byte \<Rightarrow> (bool \<times> buffer) res" where
  "put_u8 b x = buf_write_u8 b (uint x)"

definition put_u16 :: "buffer \<Rightarrow> u16 \<Rightarrow> (bool \<times> buffer) res" where
  "put_u16 b x = buf_write_u16 b (uint x)"

definition put_u32 :: "buffer \<Rightarrow> u32 \<Rightarrow> (bool \<times> buffer) res" where
  "put_u32 b x = buf_write_u32 b (uint x)"

lemma content_prefix_len:
  "buf_wf b \<Longrightarrow> buf_content b = xs @ r \<Longrightarrow> int (length xs) \<le> b_len b"
  using length_buf_content[of b] by simp

interpretation u8_field: buf_codec "\<lambda>x. [x]" 1 put_u8 get_u8
proof (unfold_locales, goal_cases)
  case (4 b x r)
  then have "1 \<le> b_len b" using content_prefix_len[of b "[x]" r] by simp
  with 4 show ?case by (simp add: get_u8_def buf_read_u8_take)
qed (simp_all add: put_u8_def get_u8_def buf_write_u8_def buf_write_append buf_write_full INT_MAX_def buf_read_u8_empty)

interpretation u16_field: buf_codec be16 2 put_u16 get_u16
proof (unfold_locales, goal_cases)
  case (4 b x r)
  then have "2 \<le> b_len b" using content_prefix_len[of b "be16 x" r] by simp
  with 4 show ?case by (simp add: get_u16_def buf_read_u16_def buf_read_take)
qed (simp_all add: put_u16_def get_u16_def buf_write_u16_def buf_read_u16_def buf_write_append buf_write_full
    INT_MAX_def buf_read_short)

interpretation u32_field: buf_codec be32 4 put_u32 get_u32
proof (unfold_locales, goal_cases)
  case (4 b x r)
  then have "4 \<le> b_len b" using content_prefix_len[of b "be32 x" r] by simp
  with 4 show ?case by (simp add: get_u32_def buf_read_u32_def buf_read_take)
qed (simp_all add: put_u32_def get_u32_def buf_write_u32_def buf_read_u32_def buf_write_append buf_write_full
    INT_MAX_def buf_read_short)

text \<open>
  Integer fields survive the wire. Any list of 32-bit values written with
  \<open>buf_write_u32\<close> into an empty buffer with enough room is read back unchanged, in order, by the same
  number of \<open>buf_read_u32\<close> calls, and the buffer is then empty.
\<close>

theorem buf_u32_roundtrip:
  assumes "buf_wf b" and "b_len b = 0" and "int (length xs) * 4 \<le> buf_room b"
  shows "\<exists>b' b''. put_list (\<lambda>b x. buf_write_u32 b (uint x)) b xs = Inr (True, b')
    \<and> get_list (\<lambda>b. bindE (buf_read_u32 b) (\<lambda>(good, v, b'). Inr (if good then Some v else None, b'))) (length xs) b'
        = Inr (Some xs, b'')
    \<and> buf_content b'' = []"
  using u32_field.put_get_list[OF assms] by (simp add: put_u32_def[abs_def] get_u32_def[abs_def])

theorem buf_u32_roundtrip_witness:
  "\<exists>b' b''. put_list (\<lambda>b x. buf_write_u32 b (uint x))
      \<lparr>b_capacity = 12, b_offset = 3, b_len = 0, b_data = Some (replicate 12 7)\<rparr> [1, 0xFFFFFFFF :: u32] = Inr (True, b')
    \<and> get_list (\<lambda>b. bindE (buf_read_u32 b) (\<lambda>(good, v, b'). Inr (if good then Some v else None, b')))
        (length [1, 0xFFFFFFFF :: u32]) b' = Inr (Some [1, 0xFFFFFFFF], b'')
    \<and> buf_content b'' = []"
  by (rule buf_u32_roundtrip) (simp_all add: buf_wf_def BUF_SIZE_MAX_def)

end
