(* ===== verification/Fifo.thy ===== *)
theory Fifo
  imports Prelude
begin

text \<open>
  The contract of a first-in first-out queue with bounded room, and what it gives a client: in any
  interleaving of insertions and removals, everything handed out, followed by what is still queued, is
  what was queued before followed by what was accepted, in order and without loss or duplication.
\<close>

datatype 'a fifo_op = Push 'a | Pop

text \<open>A client that inserts only when the queue reports room; the result records the items accepted
  and the items handed out.\<close>

fun fifo_run :: "('q \<Rightarrow> 'a \<Rightarrow> bool) \<Rightarrow> ('q \<Rightarrow> 'a \<Rightarrow> 'q res) \<Rightarrow> ('q \<Rightarrow> ('a option \<times> 'q) res) \<Rightarrow> 'a fifo_op list \<Rightarrow> 'q
    \<Rightarrow> ('a list \<times> 'a list \<times> 'q) res" where
  "fifo_run room push pop [] q = Inr ([], [], q)"
| "fifo_run room push pop (Push x # ops) q =
     (if room q x
      then bindE (push q x) (\<lambda>q'. bindE (fifo_run room push pop ops q') (\<lambda>(acc, out, q''). Inr (x # acc, out, q'')))
      else fifo_run room push pop ops q)"
| "fifo_run room push pop (Pop # ops) q =
     bindE (pop q) (\<lambda>(r, q'). bindE (fifo_run room push pop ops q') (\<lambda>(acc, out, q'').
       Inr (acc, (case r of None \<Rightarrow> out | Some x \<Rightarrow> x # out), q'')))"

locale fifo =
  fixes inv :: "'q \<Rightarrow> bool"
    and items :: "'q \<Rightarrow> 'a list"
    and room :: "'q \<Rightarrow> 'a \<Rightarrow> bool"
    and push :: "'q \<Rightarrow> 'a \<Rightarrow> 'q res"
    and pop :: "'q \<Rightarrow> ('a option \<times> 'q) res"
  assumes push_items: "inv q \<Longrightarrow> room q x \<Longrightarrow> \<exists>q'. push q x = Inr q' \<and> inv q' \<and> items q' = items q @ [x]"
    and pop_empty: "inv q \<Longrightarrow> items q = [] \<Longrightarrow> \<exists>q'. pop q = Inr (None, q') \<and> inv q' \<and> items q' = []"
    and pop_head: "inv q \<Longrightarrow> items q = x # xs \<Longrightarrow> \<exists>q'. pop q = Inr (Some x, q') \<and> inv q' \<and> items q' = xs"
begin

lemma run_order:
  assumes "inv q"
  shows "\<exists>acc out q'. fifo_run room push pop ops q = Inr (acc, out, q') \<and> inv q'
    \<and> out @ items q' = items q @ acc"
  using assms
proof (induction ops arbitrary: q)
  case (Cons op ops)
  show ?case
  proof (cases op)
    case (Push x)
    show ?thesis
    proof (cases "room q x")
      case True
      then obtain q1 where q1: "push q x = Inr q1" "inv q1" "items q1 = items q @ [x]"
        using push_items Cons.prems by blast
      from Cons.IH[OF q1(2)] q1 True Push show ?thesis by auto
    next
      case False
      with Cons Push show ?thesis by simp
    qed
  next
    case Pop
    show ?thesis
    proof (cases "items q")
      case Nil
      then obtain q1 where q1: "pop q = Inr (None, q1)" "inv q1" "items q1 = []"
        using pop_empty Cons.prems by blast
      from Cons.IH[OF q1(2)] q1 Nil Pop show ?thesis by auto
    next
      case (Cons x xs)
      then obtain q1 where q1: "pop q = Inr (Some x, q1)" "inv q1" "items q1 = xs"
        using pop_head \<open>inv q\<close> by blast
      from Cons.IH[OF q1(2)] q1 Cons Pop show ?thesis by auto
    qed
  qed
qed simp

end

end
