(* ===== verification/Buffer_List.thy ===== *)
theory Buffer_List
  imports Buffer_Codec Fifo
begin

text \<open>
  \<open>struct buffer_list\<close> of \<open>buffer.c\<close>: a queue of buffers. The chain of entries from \<open>head\<close> to
  \<open>tail\<close> is a list; \<open>head\<close> is its first element, \<open>tail\<close> its last, and both are null exactly when
  it is empty. The entry count and the limit (0 for none) are kept as in the struct.
\<close>

record buffer_list =
  bl_entries :: "buffer list"
  bl_size :: int
  bl_max_size :: int

definition buffer_list_new :: "int \<Rightarrow> buffer_list" where
  "buffer_list_new max_size = \<lparr>bl_entries = [], bl_size = 0, bl_max_size = max_size\<rparr>"

definition buffer_list_defined :: "buffer_list \<Rightarrow> bool" where
  "buffer_list_defined ol \<longleftrightarrow> bl_entries ol \<noteq> []"

definition buffer_list_reset :: "buffer_list \<Rightarrow> buffer_list" where
  "buffer_list_reset ol = ol\<lparr>bl_entries := [], bl_size := 0\<rparr>"

text \<open>The flag of the result says whether an entry was allocated (a non-null return).\<close>

definition buffer_list_push_data :: "buffer_list \<Rightarrow> byte list \<Rightarrow> (bool \<times> buffer_list) res" where
  "buffer_list_push_data ol dat =
     (if bl_max_size ol = 0 \<or> bl_size ol < bl_max_size ol then
        bindE (alloc_buf (int (length dat))) (\<lambda>b.
        bindE (buf_poke b 0 dat) (\<lambda>b.
          Inr (True, ol\<lparr>bl_size := bl_size ol + 1,
                       bl_entries := bl_entries ol @ [b\<lparr>b_len := int (length dat)\<rparr>]\<rparr>)))
      else Inr (False, ol))"

definition buffer_list_push :: "buffer_list \<Rightarrow> byte list \<Rightarrow> buffer_list res" where
  "buffer_list_push ol str =
     bindE (buffer_list_push_data ol (str @ [0])) (\<lambda>(e, ol').
       if e then Inr (ol'\<lparr>bl_entries := butlast (bl_entries ol') @
                            [(last (bl_entries ol'))\<lparr>b_len := int (length str)\<rparr>]\<rparr>)
       else Inr ol')"

definition buffer_list_peek :: "buffer_list \<Rightarrow> buffer option" where
  "buffer_list_peek ol = (case bl_entries ol of [] \<Rightarrow> None | e # _ \<Rightarrow> Some e)"

definition buffer_list_pop :: "buffer_list \<Rightarrow> buffer_list" where
  "buffer_list_pop ol =
     (case bl_entries ol of [] \<Rightarrow> ol | _ # es \<Rightarrow> ol\<lparr>bl_entries := es, bl_size := bl_size ol - 1\<rparr>)"

definition buffer_list_advance :: "buffer_list \<Rightarrow> int \<Rightarrow> buffer_list res" where
  "buffer_list_advance ol n =
     (case bl_entries ol of
        [] \<Rightarrow> Inr ol
      | e # es \<Rightarrow>
          (let (ok, e') = buf_advance e n in
           bindE (assertE ok) (\<lambda>_.
             let ol' = ol\<lparr>bl_entries := e' # es\<rparr> in
             if buf_len e' = 0 then Inr (buffer_list_pop ol') else Inr ol')))"

text \<open>First loop of \<open>buffer_list_aggregate_separator\<close>: how many entries fit, and their size.\<close>

fun aggregate_count :: "buffer list \<Rightarrow> int \<Rightarrow> int \<Rightarrow> int \<Rightarrow> nat \<Rightarrow> nat \<times> int" where
  "aggregate_count [] sep_len max_len sz cnt = (cnt, sz)"
| "aggregate_count (e # es) sep_len max_len sz cnt =
     (let extra_len = buf_len e + sep_len in
      if sz + extra_len > max_len then (cnt, sz)
      else aggregate_count es sep_len max_len (sz + extra_len) (Suc cnt))"

text \<open>Second loop: copy the first entries, each followed by the separator; failed writes are ignored.\<close>

fun aggregate_copy :: "buffer \<Rightarrow> buffer list \<Rightarrow> byte list \<Rightarrow> buffer res" where
  "aggregate_copy f [] sep = Inr f"
| "aggregate_copy f (e # es) sep =
     bindE (buf_copy f e) (\<lambda>(_, f1).
     bindE (buf_write f1 sep) (\<lambda>(_, f2). aggregate_copy f2 es sep))"

definition buffer_list_aggregate_separator :: "buffer_list \<Rightarrow> int \<Rightarrow> byte list \<Rightarrow> buffer_list res" where
  "buffer_list_aggregate_separator bl max_len sep =
     (let (cnt, sz) = aggregate_count (bl_entries bl) (int (length sep)) max_len 0 0 in
      if cnt \<ge> 2 then
        bindE (alloc_buf (sz + 1)) (\<lambda>f.
        bindE (aggregate_copy f (take cnt (bl_entries bl)) sep) (\<lambda>f'.
          Inr (bl\<lparr>bl_entries := f' # drop cnt (bl_entries bl), bl_size := bl_size bl - (int cnt - 1)\<rparr>)))
      else Inr bl)"

definition buffer_list_aggregate :: "buffer_list \<Rightarrow> int \<Rightarrow> buffer_list res" where
  "buffer_list_aggregate bl mx = buffer_list_aggregate_separator bl mx []"

section \<open>Invariant and queue contract\<close>

definition buffer_list_wf :: "buffer_list \<Rightarrow> bool" where
  "buffer_list_wf ol \<longleftrightarrow> bl_size ol = int (length (bl_entries ol)) \<and> list_all buf_wf (bl_entries ol)"

definition buffer_list_contents :: "buffer_list \<Rightarrow> byte list list" where
  "buffer_list_contents ol = map buf_content (bl_entries ol)"

definition buffer_list_room :: "buffer_list \<Rightarrow> byte list \<Rightarrow> bool" where
  "buffer_list_room ol dat \<longleftrightarrow>
     (bl_max_size ol = 0 \<or> bl_size ol < bl_max_size ol) \<and> int (length dat) < BUF_SIZE_MAX"

definition buffer_list_take :: "buffer_list \<Rightarrow> (byte list option \<times> buffer_list) res" where
  "buffer_list_take ol = Inr (map_option buf_content (buffer_list_peek ol), buffer_list_pop ol)"

lemma alloc_filled:
  assumes "int (length dat) < BUF_SIZE_MAX"
  shows "\<exists>b. bindE (alloc_buf (int (length dat))) (\<lambda>b. buf_poke b 0 dat) = Inr b
    \<and> buf_wf (b\<lparr>b_len := int (length dat)\<rparr>) \<and> buf_content (b\<lparr>b_len := int (length dat)\<rparr>) = dat"
  using assms
  by (auto simp: alloc_buf_def buf_size_valid_small BUF_SIZE_MAX_def buf_poke_def mem_simps buf_wf_def
      buf_content_def overwrite_def segment_def)

lemma buffer_list_push_data_ok:
  assumes "buffer_list_wf ol" "buffer_list_room ol dat"
  shows "\<exists>ol'. buffer_list_push_data ol dat = Inr (True, ol') \<and> buffer_list_wf ol'
    \<and> buffer_list_contents ol' = buffer_list_contents ol @ [dat] \<and> bl_max_size ol' = bl_max_size ol"
proof -
  obtain b where b: "bindE (alloc_buf (int (length dat))) (\<lambda>b. buf_poke b 0 dat) = Inr b"
    "buf_wf (b\<lparr>b_len := int (length dat)\<rparr>)" "buf_content (b\<lparr>b_len := int (length dat)\<rparr>) = dat"
    using alloc_filled assms(2) by (auto simp: buffer_list_room_def)
  then show ?thesis using assms
    by (auto simp: buffer_list_push_data_def buffer_list_room_def buffer_list_wf_def buffer_list_contents_def
        bindE_eq_Inr)
qed

definition buffer_list_put :: "buffer_list \<Rightarrow> byte list \<Rightarrow> buffer_list res" where
  "buffer_list_put ol dat = bindE (buffer_list_push_data ol dat) (\<lambda>r. Inr (snd r))"

interpretation buflist: fifo buffer_list_wf buffer_list_contents buffer_list_room buffer_list_put buffer_list_take
proof (unfold_locales, goal_cases)
  case (1 q x)
  then show ?case using buffer_list_push_data_ok[of q x] by (auto simp: buffer_list_put_def)
qed (auto simp: buffer_list_take_def buffer_list_peek_def buffer_list_pop_def buffer_list_contents_def
    buffer_list_wf_def split: list.splits)


section \<open>Aggregation\<close>

definition entry_len :: "byte list \<Rightarrow> buffer \<Rightarrow> int" where
  "entry_len sep e = b_len e + int (length sep)"

lemma entry_len_sum_nonneg: "list_all buf_wf es \<Longrightarrow> 0 \<le> sum_list (map (entry_len sep) es)"
  by (induction es) (auto simp: entry_len_def dest: buf_wf_bounds(2))

lemma aggregate_count_spec:
  assumes "list_all buf_wf es" "0 \<le> sz" "sz \<le> mx"
  shows "\<exists>n. aggregate_count es (int (length sep)) mx sz cnt = (cnt + n, sz + sum_list (map (entry_len sep) (take n es)))
    \<and> n \<le> length es \<and> sz + sum_list (map (entry_len sep) (take n es)) \<le> mx"
  using assms
proof (induction es arbitrary: sz cnt)
  case (Cons e es)
  have el: "entry_len sep e = b_len e + int (length sep)" by (simp add: entry_len_def)
  show ?case
  proof (cases "sz + entry_len sep e > mx")
    case True
    then show ?thesis using Cons.prems by (intro exI[of _ 0]) (simp add: el)
  next
    case False
    moreover have "0 \<le> sz + entry_len sep e"
      using Cons.prems buf_wf_bounds(2)[of e] by (simp add: entry_len_def)
    ultimately obtain n where "aggregate_count es (int (length sep)) mx (sz + entry_len sep e) (Suc cnt)
        = (Suc cnt + n, sz + entry_len sep e + sum_list (map (entry_len sep) (take n es)))"
      "n \<le> length es" "sz + entry_len sep e + sum_list (map (entry_len sep) (take n es)) \<le> mx"
      using Cons.IH[of "sz + entry_len sep e" "Suc cnt"] Cons.prems by auto
    then show ?thesis using False Cons.prems
      by (intro exI[of _ "Suc n"]) (simp add: el algebra_simps)
  qed
qed simp

lemma aggregate_copy_content:
  assumes "buf_wf f" "list_all buf_wf es" "sum_list (map (entry_len sep) es) \<le> buf_room f"
  shows "\<exists>f'. aggregate_copy f es sep = Inr f' \<and> buf_wf f'
    \<and> buf_content f' = buf_content f @ concat (map (\<lambda>e. buf_content e @ sep) es)"
  using assms
proof (induction es arbitrary: f)
  case (Cons e es)
  let ?f1 = "buf_append f (buf_content e)"
  let ?f2 = "buf_append ?f1 sep"
  have e: "buf_wf e" and es: "list_all buf_wf es" using Cons.prems by auto
  have el: "entry_len sep e = b_len e + int (length sep)" by (simp add: entry_len_def)
  have "0 \<le> sum_list (map (entry_len sep) es)"
    using es by (rule entry_len_sum_nonneg)
  then have r1: "b_len e \<le> buf_room f" and r2: "int (length sep) \<le> buf_room ?f1"
    and r3: "sum_list (map (entry_len sep) es) \<le> buf_room ?f2"
    using Cons.prems(3) e el buf_wf_bounds(2)[of e] by simp_all
  have f1: "buf_wf ?f1" "buf_content ?f1 = buf_content f @ buf_content e"
    using Cons.prems(1) e r1 by (simp_all add: buf_append_wf buf_append_content)
  have f2: "buf_wf ?f2" "buf_content ?f2 = buf_content f @ buf_content e @ sep"
    using f1 r2 by (simp_all add: buf_append_wf buf_append_content)
  from Cons.IH[OF f2(1) es r3] show ?case
    using Cons.prems(1) e r1 r2 f1(1) f2(2) by (simp add: buf_copy_append buf_write_append)
qed simp

text \<open>
  Aggregation neither loses nor reorders data. Aggregating a well-formed list with limit
  \<open>max_len\<close> (below the largest buffer size) succeeds; some number \<open>n\<close> of leading entries, each
  followed by the separator, has become one entry of at most \<open>max_len\<close> bytes, unless fewer than two
  fit and the list is unchanged; the entry count stays exact.
\<close>

theorem buffer_list_aggregate_preserves:
  assumes "buffer_list_wf bl" and "0 \<le> max_len" and "max_len + 1 < BUF_SIZE_MAX"
  shows "\<exists>bl' n. buffer_list_aggregate_separator bl max_len sep = Inr bl' \<and> buffer_list_wf bl'
    \<and> (if n \<ge> 2
       then buffer_list_contents bl' =
              concat (map (\<lambda>c. c @ sep) (take n (buffer_list_contents bl))) # drop n (buffer_list_contents bl)
            \<and> int (length (hd (buffer_list_contents bl'))) \<le> max_len
       else bl' = bl)"
proof -
  let ?es = "bl_entries bl"
  have es: "list_all buf_wf ?es" using assms(1) by (simp add: buffer_list_wf_def)
  obtain n where n: "aggregate_count ?es (int (length sep)) max_len 0 0 = (n, sum_list (map (entry_len sep) (take n ?es)))"
    "n \<le> length ?es" "sum_list (map (entry_len sep) (take n ?es)) \<le> max_len"
    using aggregate_count_spec[OF es, of 0 max_len sep 0] assms(2) by auto
  have es_n: "list_all buf_wf (take n ?es)" using es by (simp add: list_all_iff) (metis in_set_takeD)
  let ?sz = "sum_list (map (entry_len sep) (take n ?es))"
  have sz0: "0 \<le> ?sz"
    using entry_len_sum_nonneg[OF es_n] .
  show ?thesis
  proof (cases "n \<ge> 2")
    case False
    then show ?thesis using n assms(1)
      by (intro exI[of _ bl] exI[of _ n]) (simp add: buffer_list_aggregate_separator_def)
  next
    case True
    obtain f where f: "alloc_buf (?sz + 1) = Inr f" "buf_wf f" "b_capacity f = ?sz + 1" "b_offset f = 0" "b_len f = 0"
      using alloc_buf_wf[of "?sz + 1"] sz0 n(3) assms(3) by (auto simp: BUF_SIZE_MAX_def)
    have fe: "buf_content f = []" using length_buf_content_nat[OF f(2)] f(5) by simp
    obtain f' where f': "aggregate_copy f (take n ?es) sep = Inr f'" "buf_wf f'"
      "buf_content f' = concat (map (\<lambda>e. buf_content e @ sep) (take n ?es))"
      using aggregate_copy_content[OF f(2) es_n, of sep] f fe by auto
    have "length (buf_content f') = length (concat (map (\<lambda>e. buf_content e @ sep) (take n ?es)))"
      using f'(3) by simp
    moreover have "int (length (concat (map (\<lambda>e. buf_content e @ sep) xs))) = sum_list (map (entry_len sep) xs)"
      if "list_all buf_wf xs" for xs using that by (induction xs) (auto simp: entry_len_def)
    ultimately have len: "int (length (buf_content f')) \<le> max_len" using es_n n(3) by simp
    let ?bl' = "bl\<lparr>bl_entries := f' # drop n ?es, bl_size := bl_size bl - (int n - 1)\<rparr>"
    have "buffer_list_aggregate_separator bl max_len sep = Inr ?bl'"
      using n(1) True f(1) f'(1) by (simp add: buffer_list_aggregate_separator_def)
    moreover have "buffer_list_wf ?bl'"
      using assms(1) f'(2) n(2) True by (auto simp: buffer_list_wf_def list_all_iff dest: in_set_dropD)
    moreover have "buffer_list_contents ?bl' =
        concat (map (\<lambda>c. c @ sep) (take n (buffer_list_contents bl))) # drop n (buffer_list_contents bl)"
      using f'(3) by (simp add: buffer_list_contents_def take_map drop_map comp_def)
    ultimately show ?thesis using True len
      by (intro exI[of _ ?bl'] exI[of _ n]) (simp add: buffer_list_contents_def)
  qed
qed

theorem buffer_list_aggregate_preserves_witness:
  "let bl = \<lparr>bl_entries = [\<lparr>b_capacity = 1, b_offset = 0, b_len = 1, b_data = Some [5]\<rparr>], bl_size = 1, bl_max_size = 0\<rparr>
   in \<exists>bl' n. buffer_list_aggregate_separator bl 10 [44] = Inr bl' \<and> buffer_list_wf bl'
    \<and> (if n \<ge> (2::nat)
       then buffer_list_contents bl' =
              concat (map (\<lambda>c. c @ [44]) (take n (buffer_list_contents bl))) # drop n (buffer_list_contents bl)
            \<and> int (length (hd (buffer_list_contents bl'))) \<le> 10
       else bl' = bl)"
  unfolding Let_def
  by (rule buffer_list_aggregate_preserves) (simp_all add: buffer_list_wf_def buf_wf_def BUF_SIZE_MAX_def)

end
