(* ===== verification/Char_Class.thy ===== *)
theory Char_Class
  imports Prelude
begin

text \<open>
  Character classes of \<open>buffer.h\<close>/\<open>buffer.c\<close> and the string routines built on them. The
  \<open>ctype.h\<close> predicates are those of the C locale. \<open>string_mod\<close> is modelled as the source has it,
  rewriting one block in place with a read and a write index.
\<close>

section \<open>Character classes\<close>

definition CC_ANY :: u32 where "CC_ANY = 2 ^ 0"
definition CC_NULL :: u32 where "CC_NULL = 2 ^ 1"
definition CC_ALNUM :: u32 where "CC_ALNUM = 2 ^ 2"
definition CC_ALPHA :: u32 where "CC_ALPHA = 2 ^ 3"
definition CC_ASCII :: u32 where "CC_ASCII = 2 ^ 4"
definition CC_CNTRL :: u32 where "CC_CNTRL = 2 ^ 5"
definition CC_DIGIT :: u32 where "CC_DIGIT = 2 ^ 6"
definition CC_PRINT :: u32 where "CC_PRINT = 2 ^ 7"
definition CC_PUNCT :: u32 where "CC_PUNCT = 2 ^ 8"
definition CC_SPACE :: u32 where "CC_SPACE = 2 ^ 9"
definition CC_XDIGIT :: u32 where "CC_XDIGIT = 2 ^ 10"
definition CC_BLANK :: u32 where "CC_BLANK = 2 ^ 11"
definition CC_NEWLINE :: u32 where "CC_NEWLINE = 2 ^ 12"
definition CC_CR :: u32 where "CC_CR = 2 ^ 13"
definition CC_BACKSLASH :: u32 where "CC_BACKSLASH = 2 ^ 14"
definition CC_UNDERBAR :: u32 where "CC_UNDERBAR = 2 ^ 15"
definition CC_DASH :: u32 where "CC_DASH = 2 ^ 16"
definition CC_DOT :: u32 where "CC_DOT = 2 ^ 17"
definition CC_COMMA :: u32 where "CC_COMMA = 2 ^ 18"
definition CC_COLON :: u32 where "CC_COLON = 2 ^ 19"
definition CC_SLASH :: u32 where "CC_SLASH = 2 ^ 20"
definition CC_SINGLE_QUOTE :: u32 where "CC_SINGLE_QUOTE = 2 ^ 21"
definition CC_DOUBLE_QUOTE :: u32 where "CC_DOUBLE_QUOTE = 2 ^ 22"
definition CC_REVERSE_QUOTE :: u32 where "CC_REVERSE_QUOTE = 2 ^ 23"
definition CC_AT :: u32 where "CC_AT = 2 ^ 24"
definition CC_EQUAL :: u32 where "CC_EQUAL = 2 ^ 25"
definition CC_LESS_THAN :: u32 where "CC_LESS_THAN = 2 ^ 26"
definition CC_GREATER_THAN :: u32 where "CC_GREATER_THAN = 2 ^ 27"
definition CC_PIPE :: u32 where "CC_PIPE = 2 ^ 28"
definition CC_QUESTION_MARK :: u32 where "CC_QUESTION_MARK = 2 ^ 29"
definition CC_ASTERISK :: u32 where "CC_ASTERISK = 2 ^ 30"
definition CC_NAME :: u32 where "CC_NAME = CC_ALNUM OR CC_UNDERBAR"
definition CC_CRLF :: u32 where "CC_CRLF = CC_CR OR CC_NEWLINE"

lemmas CC_defs = CC_ANY_def CC_NULL_def CC_ALNUM_def CC_ALPHA_def CC_ASCII_def CC_CNTRL_def
  CC_DIGIT_def CC_PRINT_def CC_PUNCT_def CC_SPACE_def CC_XDIGIT_def CC_BLANK_def CC_NEWLINE_def
  CC_CR_def CC_BACKSLASH_def CC_UNDERBAR_def CC_DASH_def CC_DOT_def CC_COMMA_def CC_COLON_def
  CC_SLASH_def CC_SINGLE_QUOTE_def CC_DOUBLE_QUOTE_def CC_REVERSE_QUOTE_def CC_AT_def CC_EQUAL_def
  CC_LESS_THAN_def CC_GREATER_THAN_def CC_PIPE_def CC_QUESTION_MARK_def CC_ASTERISK_def
  CC_NAME_def CC_CRLF_def

definition c_isdigit :: "byte \<Rightarrow> bool" where "c_isdigit c \<longleftrightarrow> 48 \<le> c \<and> c \<le> 57"
definition c_isalpha :: "byte \<Rightarrow> bool" where
  "c_isalpha c \<longleftrightarrow> (65 \<le> c \<and> c \<le> 90) \<or> (97 \<le> c \<and> c \<le> 122)"
definition c_isalnum :: "byte \<Rightarrow> bool" where "c_isalnum c \<longleftrightarrow> c_isalpha c \<or> c_isdigit c"
definition c_isascii :: "byte \<Rightarrow> bool" where "c_isascii c \<longleftrightarrow> c < 128"
definition c_iscntrl :: "byte \<Rightarrow> bool" where "c_iscntrl c \<longleftrightarrow> c < 32 \<or> c = 127"
definition c_ispunct :: "byte \<Rightarrow> bool" where
  "c_ispunct c \<longleftrightarrow> 33 \<le> c \<and> c \<le> 126 \<and> \<not> c_isalnum c"
definition c_isspace :: "byte \<Rightarrow> bool" where "c_isspace c \<longleftrightarrow> (9 \<le> c \<and> c \<le> 13) \<or> c = 32"
definition c_isxdigit :: "byte \<Rightarrow> bool" where
  "c_isxdigit c \<longleftrightarrow> c_isdigit c \<or> (65 \<le> c \<and> c \<le> 70) \<or> (97 \<le> c \<and> c \<le> 102)"

definition has_flag :: "u32 \<Rightarrow> u32 \<Rightarrow> bool" where
  "has_flag flags f \<longleftrightarrow> flags AND f \<noteq> 0"

definition char_class :: "byte \<Rightarrow> u32 \<Rightarrow> bool" where
  "char_class c flags =
     (if flags = 0 then False
      else if has_flag flags CC_ANY then True
      else if has_flag flags CC_NULL \<and> c = 0 then True
      else if has_flag flags CC_ALNUM \<and> c_isalnum c then True
      else if has_flag flags CC_ALPHA \<and> c_isalpha c then True
      else if has_flag flags CC_ASCII \<and> c_isascii c then True
      else if has_flag flags CC_CNTRL \<and> c_iscntrl c then True
      else if has_flag flags CC_DIGIT \<and> c_isdigit c then True
      else if has_flag flags CC_PRINT \<and> (c \<ge> 32 \<and> c \<noteq> 127) then True
      else if has_flag flags CC_PUNCT \<and> c_ispunct c then True
      else if has_flag flags CC_SPACE \<and> c_isspace c then True
      else if has_flag flags CC_XDIGIT \<and> c_isxdigit c then True
      else if has_flag flags CC_BLANK \<and> (c = 32 \<or> c = 9) then True
      else if has_flag flags CC_NEWLINE \<and> c = 10 then True
      else if has_flag flags CC_CR \<and> c = 13 then True
      else if has_flag flags CC_BACKSLASH \<and> c = 92 then True
      else if has_flag flags CC_UNDERBAR \<and> c = 95 then True
      else if has_flag flags CC_DASH \<and> c = 45 then True
      else if has_flag flags CC_DOT \<and> c = 46 then True
      else if has_flag flags CC_COMMA \<and> c = 44 then True
      else if has_flag flags CC_COLON \<and> c = 58 then True
      else if has_flag flags CC_SLASH \<and> c = 47 then True
      else if has_flag flags CC_SINGLE_QUOTE \<and> c = 39 then True
      else if has_flag flags CC_DOUBLE_QUOTE \<and> c = 34 then True
      else if has_flag flags CC_REVERSE_QUOTE \<and> c = 96 then True
      else if has_flag flags CC_AT \<and> c = 64 then True
      else if has_flag flags CC_EQUAL \<and> c = 61 then True
      else if has_flag flags CC_LESS_THAN \<and> c = 60 then True
      else if has_flag flags CC_GREATER_THAN \<and> c = 62 then True
      else if has_flag flags CC_PIPE \<and> c = 124 then True
      else if has_flag flags CC_QUESTION_MARK \<and> c = 63 then True
      else if has_flag flags CC_ASTERISK \<and> c = 42 then True
      else False)"

definition char_inc_exc :: "byte \<Rightarrow> u32 \<Rightarrow> u32 \<Rightarrow> bool" where
  "char_inc_exc c inclusive exclusive \<longleftrightarrow> char_class c inclusive \<and> \<not> char_class c exclusive"

section \<open>Strings\<close>

fun has_digit :: "byte list \<Rightarrow> bool" where
  "has_digit [] = False"
| "has_digit (c # cs) = (if c_isdigit c then True else has_digit cs)"

fun string_class :: "byte list \<Rightarrow> u32 \<Rightarrow> u32 \<Rightarrow> bool" where
  "string_class [] inclusive exclusive = True"
| "string_class (c # cs) inclusive exclusive =
     (if \<not> char_inc_exc c inclusive exclusive then False else string_class cs inclusive exclusive)"

text \<open>
  The loop of \<open>string_mod\<close>: \<open>i\<close> is the read pointer \<open>in\<close>, \<open>k\<close> the write pointer \<open>str\<close>,
  both indices into the block \<open>m\<close> that holds the string.
\<close>

function string_mod_loop :: "u32 \<Rightarrow> u32 \<Rightarrow> byte \<Rightarrow> nat \<Rightarrow> nat \<Rightarrow> bool \<Rightarrow> byte list \<Rightarrow> (bool \<times> byte list) res" where
  "string_mod_loop inclusive exclusive repl i k ret m =
     (if i \<ge> length m then Inl Mem_Fault
      else let c = m ! i in
        if c \<noteq> 0 then
          (let keep = char_inc_exc c inclusive exclusive;
               c' = (if keep then c else repl);
               ret' = (if keep then ret else False)
           in if c' \<noteq> 0
              then bindE (arr_set m (int k) c')
                     (string_mod_loop inclusive exclusive repl (Suc i) (Suc k) ret')
              else string_mod_loop inclusive exclusive repl (Suc i) k ret' m)
        else bindE (arr_set m (int k) 0) (\<lambda>m'. Inr (ret, m')))"
  by pat_completeness auto
termination
  by (relation "measure (\<lambda>(_, _, _, i, _, _, m). length m - i)")
    (auto simp: arr_set_def split: if_splits)

declare string_mod_loop.simps [simp del]

definition string_mod :: "byte list \<Rightarrow> u32 \<Rightarrow> u32 \<Rightarrow> byte \<Rightarrow> (bool \<times> byte list) res" where
  "string_mod m inclusive exclusive repl = string_mod_loop inclusive exclusive repl 0 0 True m"

fun string_replace_leading :: "byte list \<Rightarrow> byte \<Rightarrow> byte \<Rightarrow> byte list" where
  "string_replace_leading [] mtch repl = []"
| "string_replace_leading (c # cs) mtch repl =
     (if c = mtch then repl # string_replace_leading cs mtch repl else c # cs)"

fun skip_leading_whitespace :: "byte list \<Rightarrow> byte list" where
  "skip_leading_whitespace [] = []"
| "skip_leading_whitespace (c # cs) =
     (if \<not> (c = 32 \<or> c = 9) then c # cs else skip_leading_whitespace cs)"

function rm_trailing_chars :: "byte list \<Rightarrow> byte list \<Rightarrow> byte list" where
  "rm_trailing_chars s what =
     (if s \<noteq> [] \<and> last s \<in> set what then rm_trailing_chars (butlast s) what else s)"
  by pat_completeness auto
termination by (relation "measure (\<lambda>(s, _). length s)") auto

declare rm_trailing_chars.simps [simp del]

definition chomp :: "byte list \<Rightarrow> byte list" where
  "chomp s = rm_trailing_chars s [13, 10]"

definition string_null_terminate :: "byte list \<Rightarrow> int \<Rightarrow> int \<Rightarrow> byte list res" where
  "string_null_terminate m n cap =
     bindE (assertE (n \<ge> 0 \<and> n \<le> cap \<and> cap > 0)) (\<lambda>_.
       if n < cap then arr_set m n 0
       else if n = cap then arr_set m (n - 1) 0
       else Inr m)"

section \<open>What they compute\<close>

lemma string_class_iff: "string_class s i e \<longleftrightarrow> list_all (\<lambda>c. char_inc_exc c i e) s"
  by (induction s) auto

lemma skip_leading_whitespace_eq: "skip_leading_whitespace s = dropWhile (\<lambda>c. c = 32 \<or> c = 9) s"
  by (induction s) auto

lemma rm_trailing_chars_eq:
  "rm_trailing_chars s what = rev (dropWhile (\<lambda>c. c \<in> set what) (rev s))"
proof (induction s rule: rev_induct)
  case (snoc c s)
  then show ?case by (simp add: rm_trailing_chars.simps[of "s @ [c]"])
qed (simp add: rm_trailing_chars.simps)

text \<open>The reference: replace every character outside the class, drop the ones replaced by zero.\<close>

definition string_mod_spec :: "u32 \<Rightarrow> u32 \<Rightarrow> byte \<Rightarrow> byte list \<Rightarrow> byte list" where
  "string_mod_spec inclusive exclusive repl s =
     filter (\<lambda>c. c \<noteq> 0) (map (\<lambda>c. if char_inc_exc c inclusive exclusive then c else repl) s)"

lemma list_update_gap:
  "(w @ g @ c # t)[length w := x] = (w @ [x]) @ tl (g @ [c]) @ t"
  by (cases g) simp_all

lemma string_mod_loop_correct:
  assumes "is_cstr s"
  shows "\<exists>g'. string_mod_loop inc exc repl (length w + length g) (length w) ret (w @ g @ s @ 0 # r) =
      Inr (ret \<and> string_class s inc exc, w @ string_mod_spec inc exc repl s @ 0 # g' @ r)
    \<and> length (string_mod_spec inc exc repl s @ g') = length (g @ s)"
  using assms
proof (induction s arbitrary: w g ret)
  case Nil
  then show ?case
    by (subst string_mod_loop.simps)
      (auto simp: arr_set_def string_mod_spec_def nth_append list_update_gap intro!: exI[of _ "tl (g @ [0])"])
next
  case (Cons c s)
  have c0: "c \<noteq> 0" and cs: "is_cstr s" using Cons.prems by (auto simp: is_cstr_def)
  let ?keep = "char_inc_exc c inc exc"
  let ?c = "if ?keep then c else repl"
  let ?ret = "if ?keep then ret else False"
  let ?m = "w @ g @ (c # s) @ 0 # r"
  have i: "length w + length g < length ?m" and mi: "?m ! (length w + length g) = c"
    by (simp_all add: nth_append)
  show ?case
  proof (cases "?c = 0")
    case True
    then have nk: "\<not> ?keep" "repl = 0" using c0 by (auto split: if_splits)
    have "string_mod_spec inc exc repl (c # s) = string_mod_spec inc exc repl s"
      using nk by (simp add: string_mod_spec_def)
    moreover have "string_mod_loop inc exc repl (length w + length g) (length w) ret ?m
      = string_mod_loop inc exc repl (length w + length (g @ [c])) (length w) False (w @ (g @ [c]) @ s @ 0 # r)"
      using nk c0 mi by (subst string_mod_loop.simps) (simp add: Let_def)
    ultimately show ?thesis using Cons.IH[OF cs, of w "g @ [c]" False] nk by simp
  next
    case False
    let ?g = "tl (g @ [c])"
    have "string_mod_loop inc exc repl (length w + length g) (length w) ret ?m
      = string_mod_loop inc exc repl (length (w @ [?c]) + length ?g) (length (w @ [?c])) ?ret ((w @ [?c]) @ ?g @ s @ 0 # r)"
      using False c0 mi by (subst string_mod_loop.simps) (simp add: Let_def arr_set_def list_update_gap)
    moreover have "string_mod_spec inc exc repl (c # s) = ?c # string_mod_spec inc exc repl s"
      using False by (simp add: string_mod_spec_def)
    ultimately show ?thesis using Cons.IH[OF cs, of "w @ [?c]" ?g ?ret] by auto
  qed
qed

text \<open>
  C21. The in-place rewriting of \<open>string_mod\<close> is the two-pass reference: on a block that holds
  the string \<open>s\<close>, its terminator and further bytes \<open>r\<close>, it returns whether every character was in
  the class, leaves the block with every other character replaced (or removed, when the replacement is
  zero), terminated, never longer than before, keeps the bytes behind the old terminator, and does not
  leave the block.
\<close>

theorem string_mod_correct:
  assumes "is_cstr s"
  shows "\<exists>g. string_mod (s @ 0 # r) inclusive exclusive repl =
      Inr (list_all (\<lambda>c. char_inc_exc c inclusive exclusive) s,
           string_mod_spec inclusive exclusive repl s @ 0 # g @ r)
    \<and> length (string_mod_spec inclusive exclusive repl s) + length g = length s"
  using string_mod_loop_correct[OF assms, of inclusive exclusive repl "[]" "[]" True r]
  by (simp add: string_mod_def string_class_iff)

theorem string_mod_correct_witness:
  "\<exists>g. string_mod ([65, 58, 66] @ 0 # [7]) CC_ALNUM 0 0 =
      Inr (list_all (\<lambda>c. char_inc_exc c CC_ALNUM 0) [65, 58, 66], string_mod_spec CC_ALNUM 0 0 [65, 58, 66] @ 0 # g @ [7])
    \<and> length (string_mod_spec CC_ALNUM 0 0 [65, 58, 66]) + length g = length [65 :: byte, 58, 66]"
  by (rule string_mod_correct) (simp add: is_cstr_def)

end
