(* ===== verification/Buffer_Text.thy ===== *)
theory Buffer_Text
  imports Buffer_Safety Char_Class
begin

text \<open>
  The text routines on \<open>struct buffer\<close> (\<open>buffer.c\<close>): bounded formatting, termination, trimming and
  line parsing. \<open>buf_printf\<close> takes the text that the format expands to; what \<open>vsnprintf\<close> writes and
  returns for that text is modelled here.
\<close>

section \<open>Definitions\<close>

text \<open>\<open>strncpy\<close> pads with zeros, so \<open>strncpynt\<close> overwrites exactly \<open>maxlen\<close> bytes.\<close>

definition strncpynt_bytes :: "byte list \<Rightarrow> nat \<Rightarrow> byte list" where
  "strncpynt_bytes src maxlen =
     (if maxlen > 0 then take (maxlen - 1) (src @ replicate maxlen 0) @ [0] else [])"

definition vsnprintf_bytes :: "byte list \<Rightarrow> nat \<Rightarrow> byte list" where
  "vsnprintf_bytes txt cap = (if cap > 0 then take (cap - 1) txt @ [0] else [])"

definition buf_strlen :: "buffer \<Rightarrow> int \<Rightarrow> int res" where
  "buf_strlen b p = (case b_data b of None \<Rightarrow> Inl Mem_Fault | Some d \<Rightarrow> c_strlen d p)"

definition buf_printf :: "buffer \<Rightarrow> byte list \<Rightarrow> (bool \<times> buffer) res" where
  "buf_printf b txt =
     (if \<not> buf_defined b then Inr (False, b)
      else let cap = buf_forward_capacity b in
        if cap > 0 then
          (case buf_bend b of
             None \<Rightarrow> Inl Mem_Fault
           | Some ptr \<Rightarrow>
               bindE (buf_poke b ptr (vsnprintf_bytes txt (nat cap))) (\<lambda>b1.
               bindE (buf_poke b1 (b_capacity b - 1) [0]) (\<lambda>b2.
               bindE (buf_strlen b2 ptr) (\<lambda>n.
               Inr (int (length txt) < cap, b2\<lparr>b_len := b_len b2 + n\<rparr>)))))
        else Inr (False, b))"

definition buf_puts :: "buffer \<Rightarrow> byte list \<Rightarrow> (bool \<times> buffer) res" where
  "buf_puts b str =
     (let cap = buf_forward_capacity b in
      if cap > 0 then
        (case buf_bend b of
           None \<Rightarrow> Inl Mem_Fault
         | Some ptr \<Rightarrow>
             bindE (buf_poke b ptr (strncpynt_bytes str (nat cap))) (\<lambda>b1.
             bindE (buf_poke b1 (b_capacity b - 1) [0]) (\<lambda>b2.
             bindE (buf_strlen b2 ptr) (\<lambda>n.
             Inr (True, b2\<lparr>b_len := b_len b2 + n\<rparr>)))))
      else Inr (False, b))"

definition buf_catrunc :: "buffer \<Rightarrow> byte list \<Rightarrow> buffer res" where
  "buf_catrunc b str =
     (if buf_forward_capacity b \<le> 1 then
        (let n = int (length str) + 1 in
         if n < buf_forward_capacity_total b
         then buf_poke b (b_capacity b - n) (strncpynt_bytes str (nat n))
         else Inr b)
      else Inr b)"

text \<open>The loop of \<open>convert_to_one_line\<close> over the content, from index \<open>p\<close> on, for \<open>n\<close> bytes.\<close>

fun one_line_loop :: "buffer \<Rightarrow> int \<Rightarrow> nat \<Rightarrow> buffer res" where
  "one_line_loop b p 0 = Inr b"
| "one_line_loop b p (Suc n) =
     bindE (buf_peek b p 1) (\<lambda>cs.
     bindE (if cs = [10] then buf_poke b p [124] else Inr b) (\<lambda>b'.
     one_line_loop b' (p + 1) n))"

definition convert_to_one_line :: "buffer \<Rightarrow> buffer res" where
  "convert_to_one_line b =
     (case buf_bptr b of None \<Rightarrow> Inr b | Some p \<Rightarrow> one_line_loop b p (nat (buf_len b)))"

definition buf_rmtail :: "buffer \<Rightarrow> byte \<Rightarrow> buffer res" where
  "buf_rmtail b rm =
     (case buf_blast b of
        None \<Rightarrow> Inr b
      | Some cp \<Rightarrow> bindE (buf_peek b cp 1) (\<lambda>cs.
          if cs = [rm] then bindE (buf_poke b cp [0]) (\<lambda>b'. Inr (b'\<lparr>b_len := b_len b' - 1\<rparr>))
          else Inr b))"

definition buf_null_terminate :: "buffer \<Rightarrow> buffer res" where
  "buf_null_terminate b =
     bindE (case buf_blast b of None \<Rightarrow> Inr False | Some p \<Rightarrow> bindE (buf_peek b p 1) (\<lambda>cs. Inr (cs = [0])))
       (\<lambda>terminated.
          if terminated then Inr b
          else let b1 = (if \<not> buf_safe b 1 then snd (buf_inc_len b (-1)) else b)
               in bindE (buf_write_u8 b1 0) (\<lambda>r. Inr (snd r)))"

function buf_chomp_loop :: "buffer \<Rightarrow> buffer res" where
  "buf_chomp_loop b =
     (case buf_blast b of
        None \<Rightarrow> Inr b
      | Some p \<Rightarrow> bindE (buf_peek b p 1) (\<lambda>cs.
          if char_class (hd cs) (CC_CRLF OR CC_NULL) then
            (case buf_inc_len b (-1) of (False, b') \<Rightarrow> Inr b' | (True, b') \<Rightarrow> buf_chomp_loop b')
          else Inr b))"
  by pat_completeness auto
termination
  by (relation "measure (\<lambda>b. nat (b_len b))")
    (auto simp: buf_blast_def buf_len_def buf_inc_len_def split: if_splits)

declare buf_chomp_loop.simps [simp del]

definition buf_chomp :: "buffer \<Rightarrow> buffer res" where
  "buf_chomp b = bindE (buf_chomp_loop b) buf_null_terminate"

definition buf_string_match_head_str :: "buffer \<Rightarrow> byte list \<Rightarrow> bool res" where
  "buf_string_match_head_str src mtch =
     (let n = int (length mtch) in
      if n < 0 \<or> n > b_len src then Inr False
      else case buf_bptr src of
             None \<Rightarrow> if n = 0 then Inr True else Inl Mem_Fault
           | Some p \<Rightarrow> bindE (buf_peek src p n) (\<lambda>bs. Inr (bs = mtch)))"

definition buf_string_compare_advance :: "buffer \<Rightarrow> byte list \<Rightarrow> (bool \<times> buffer) res" where
  "buf_string_compare_advance src mtch =
     bindE (buf_string_match_head_str src mtch) (\<lambda>ok.
       if ok then Inr (True, snd (buf_advance src (int (length mtch)))) else Inr (False, src))"

lemma buf_read_u8_shrinks:
  "buf_read_u8 b = Inr (c, b') \<Longrightarrow> 0 \<le> c \<Longrightarrow> nat (b_len b') < nat (b_len b)"
  by (auto simp: buf_read_u8_def buf_len_def buf_advance_def bindE_eq_Inr split: if_splits option.splits)

function buf_substring_len_loop :: "buffer \<Rightarrow> int \<Rightarrow> int \<Rightarrow> int res" where
  "buf_substring_len_loop tmp delim i =
     bindE (buf_read_u8 tmp) (\<lambda>(c, tmp').
       if c \<ge> 0 then (if c = delim then Inr (i + 1) else buf_substring_len_loop tmp' delim (i + 1))
       else Inr (-1))"
  by pat_completeness auto
termination
  by (relation "measure (\<lambda>(b, _, _). nat (b_len b))") (auto dest: buf_read_u8_shrinks)

declare buf_substring_len_loop.simps [simp del]

definition buf_substring_len :: "buffer \<Rightarrow> int \<Rightarrow> int res" where
  "buf_substring_len b delim = buf_substring_len_loop b delim 0"

text \<open>
  The loop of \<open>buf_parse\<close>: \<open>line\<close> is the caller's array of \<open>size\<close> characters. The result
  is the buffer, the array and whether the end of the buffer was met.
\<close>

function buf_parse_loop :: "buffer \<Rightarrow> int \<Rightarrow> byte list \<Rightarrow> int \<Rightarrow> int \<Rightarrow> bool \<Rightarrow> (buffer \<times> byte list \<times> bool) res" where
  "buf_parse_loop b delim line sz n eol =
     bindE (buf_read_u8 b) (\<lambda>(c, b').
       let eol' = (if c < 0 then True else eol);
           c' = (if c \<le> 0 \<or> c = delim then 0 else c)
       in if n \<ge> sz then Inr (b', line, eol')
          else bindE (arr_set line n (word_of_int c')) (\<lambda>line'.
                 if c' \<noteq> 0 then buf_parse_loop b' delim line' sz (n + 1) eol'
                 else Inr (b', line', eol')))"
  by pat_completeness auto
termination
  by (relation "measure (\<lambda>(b, _). nat (b_len b))") (auto dest: buf_read_u8_shrinks split: if_splits)

declare buf_parse_loop.simps [simp del]

definition buf_parse :: "buffer \<Rightarrow> int \<Rightarrow> byte list \<Rightarrow> int \<Rightarrow> (bool \<times> byte list \<times> buffer) res" where
  "buf_parse b delim line sz =
     bindE (assertE (sz > 0)) (\<lambda>_.
     bindE (buf_parse_loop b delim line sz 0 False) (\<lambda>(b', line1, eol).
     bindE (arr_set line1 (sz - 1) 0) (\<lambda>line2.
     bindE (c_strlen line2 0) (\<lambda>n.
       Inr (\<not> (eol \<and> n = 0), line2, b')))))"

fun check_chars :: "byte list \<Rightarrow> u32 \<Rightarrow> u32 \<Rightarrow> bool" where
  "check_chars [] inc exc = True"
| "check_chars (c # cs) inc exc = (if \<not> char_inc_exc c inc exc then False else check_chars cs inc exc)"

definition string_check_buf :: "buffer \<Rightarrow> u32 \<Rightarrow> u32 \<Rightarrow> bool res" where
  "string_check_buf b inc exc = bindE (buf_bytes b) (\<lambda>bs. Inr (check_chars bs inc exc))"

section \<open>Bounded formatting\<close>

lemma overwrite_last_zero:
  assumes "length d = p + length t + 1 + length y"
  shows "\<exists>y'. overwrite (take p d @ t @ 0 # y) (length d - 1) [0] = take p d @ t @ 0 # y' \<and> length y' = length y"
proof (cases y rule: rev_cases)
  case Nil
  with assms show ?thesis by (simp add: overwrite_def min_def)
next
  case (snoc ys c)
  with assms show ?thesis by (simp add: overwrite_def min_def)
qed

lemma text_append:
  assumes "p + length t + 1 + length z \<le> length d"
  shows "\<exists>y. overwrite (overwrite d p (t @ 0 # z)) (length d - 1) [0] = take p d @ t @ 0 # y
    \<and> length d = p + length t + 1 + length y"
proof -
  have "overwrite d p (t @ 0 # z) = take p d @ t @ 0 # (z @ drop (p + length t + 1 + length z) d)"
    by (simp add: overwrite_def add.assoc)
  moreover have "length d = p + length t + 1 + length (z @ drop (p + length t + 1 + length z) d)"
    using assms by simp
  ultimately show ?thesis
    using overwrite_last_zero[of d p t "z @ drop (p + length t + 1 + length z) d"] by (metis)
qed

text \<open>The buffer after text \<open>t\<close> has been appended with a terminator behind it.\<close>

definition text_appended :: "buffer \<Rightarrow> byte list \<Rightarrow> buffer \<Rightarrow> bool" where
  "text_appended b t b' \<longleftrightarrow>
     buf_wf b' \<and> b_capacity b' = b_capacity b \<and> b_offset b' = b_offset b
     \<and> buf_content b' = buf_content b @ t
     \<and> buf_peek b' (b_offset b' + b_len b') 1 = Inr [0]"

lemma poke_text:
  assumes "buf_wf b" "is_cstr t" "int (length t + 1 + length z) \<le> buf_room b"
  shows "\<exists>b1 b2. buf_poke b (b_offset b + b_len b) (t @ 0 # z) = Inr b1
    \<and> buf_poke b1 (b_capacity b - 1) [0] = Inr b2
    \<and> buf_strlen b2 (b_offset b + b_len b) = Inr (int (length t))
    \<and> text_appended b t (b2\<lparr>b_len := b_len b2 + int (length t)\<rparr>)"
proof -
  from assms(1) obtain d where d: "b_data b = Some d" "int (length d) = b_capacity b"
    "b_capacity b < 2097152" "0 \<le> b_offset b" "0 \<le> b_len b" "b_offset b + b_len b \<le> b_capacity b"
    by (rule buf_wfE)
  define p where "p = nat (b_offset b + b_len b)"
  have ip: "b_offset b + b_len b = int p" and fit: "p + length t + 1 + length z \<le> length d"
    using d assms(3) by (auto simp: p_def)
  obtain y where y: "overwrite (overwrite d p (t @ 0 # z)) (length d - 1) [0] = take p d @ t @ 0 # y"
    "length d = p + length t + 1 + length y" using text_append[OF fit] by blast
  define d2 where "d2 = take p d @ t @ 0 # y"
  have l2: "length d2 = length d" using y(2) by (simp add: d2_def)
  have p1: "buf_poke b (b_offset b + b_len b) (t @ 0 # z) = Inr (b\<lparr>b_data := Some (overwrite d p (t @ 0 # z))\<rparr>)"
    using d ip fit by (simp add: buf_poke_def mem_simps)
  have p2: "buf_poke (b\<lparr>b_data := Some (overwrite d p (t @ 0 # z))\<rparr>) (b_capacity b - 1) [0] = Inr (b\<lparr>b_data := Some d2\<rparr>)"
  proof -
    have "nat (b_capacity b - 1) = length d - 1" "0 \<le> b_capacity b - 1" using d(2) y(2) by auto
    then show ?thesis using d(2) fit y by (simp add: buf_poke_def mem_write_def d2_def)
  qed
  have sl: "buf_strlen (b\<lparr>b_data := Some d2\<rparr>) (b_offset b + b_len b) = Inr (int (length t))"
    using assms(2) y(2) by (simp add: buf_strlen_def c_strlen_def ip d2_def scan_nul_append)
  have off: "nat (b_offset b) + nat (b_len b) = p" using d by (simp add: p_def)
  have n: "nat (b_len b + int (length t)) = nat (b_len b) + length t" using d by simp
  have c1: "segment d2 (nat (b_offset b)) (nat (b_len b)) = segment d (nat (b_offset b)) (nat (b_len b))"
  proof -
    have "take (nat (b_len b)) (drop (nat (b_offset b)) (take p d)) = take (nat (b_len b)) (drop (nat (b_offset b)) d)"
      using off by (simp add: drop_take)
    moreover have "nat (b_len b) \<le> length (drop (nat (b_offset b)) (take p d))" using off y(2) by simp
    ultimately show ?thesis using off y(2) by (simp add: segment_def d2_def)
  qed
  have c2: "segment d2 p (length t) = t" "segment d2 (p + length t) 1 = [0]"
    using y(2) by (simp_all add: segment_def d2_def)
  have "text_appended b t (b\<lparr>b_data := Some d2, b_len := b_len b + int (length t)\<rparr>)"
    using d fit l2 c1 c2 off ip y(2)
    by (simp add: text_appended_def buf_wf_def BUF_SIZE_MAX_def buf_content_def n segment_append
        buf_peek_def mem_simps nat_add_distrib add.assoc[symmetric])
  then show ?thesis using p1 p2 sl by simp
qed

lemma is_cstr_take: "is_cstr s \<Longrightarrow> is_cstr (take n s)"
  by (auto simp: is_cstr_def dest: in_set_takeD)

text \<open>
  C22. Bounded formatting. \<open>buf_printf\<close> into a well-formed buffer with room never leaves the block:
  it appends the longest prefix of the text that leaves space for the terminator, terminates it, and
  reports success exactly when nothing was cut.
\<close>

theorem buf_printf_bounded:
  assumes "buf_wf b" and "is_cstr txt" and "0 < buf_room b"
  shows "\<exists>b'. buf_printf b txt = Inr (int (length txt) < buf_room b, b')
    \<and> text_appended b (take (nat (buf_room b) - 1) txt) b'"
proof -
  let ?t = "take (nat (buf_room b) - 1) txt"
  have "int (length ?t + 1 + length []) \<le> buf_room b" using assms(3) by (auto simp: min_def)
  from poke_text[OF assms(1) is_cstr_take[OF assms(2)] this]
  obtain b1 b2 where st: "buf_poke b (b_offset b + b_len b) (?t @ [0]) = Inr b1"
    "buf_poke b1 (b_capacity b - 1) [0] = Inr b2"
    "buf_strlen b2 (b_offset b + b_len b) = Inr (int (length ?t))"
    "text_appended b ?t (b2\<lparr>b_len := b_len b2 + int (length ?t)\<rparr>)" by auto
  have "vsnprintf_bytes txt (nat (buf_room b)) = ?t @ [0]" using assms(3) by (simp add: vsnprintf_bytes_def)
  moreover have "buf_defined b" "buf_bend b = Some (b_offset b + b_len b)"
    using assms(1) by (auto simp: buf_defined_def buf_bend_def elim!: buf_wfE)
  ultimately show ?thesis using st assms by (simp add: buf_printf_def Let_def)
qed

theorem buf_printf_bounded_witness:
  "\<exists>b'. buf_printf \<lparr>b_capacity = 4, b_offset = 1, b_len = 0, b_data = Some [9, 9, 9, 9]\<rparr> [65, 66, 67] =
      Inr (False, b')
    \<and> text_appended \<lparr>b_capacity = 4, b_offset = 1, b_len = 0, b_data = Some [9, 9, 9, 9]\<rparr> [65, 66] b'"
  using buf_printf_bounded[of "\<lparr>b_capacity = 4, b_offset = 1, b_len = 0, b_data = Some [9, 9, 9, 9]\<rparr>" "[65, 66, 67]"]
  by (simp add: buf_wf_def BUF_SIZE_MAX_def is_cstr_def)

lemma strncpynt_bytes_shape:
  "0 < m \<Longrightarrow> strncpynt_bytes s m = take (m - 1) s @ 0 # replicate (m - 1 - length s) 0"
proof -
  assume "0 < m"
  have "replicate n (0::byte) @ [0] = 0 # replicate n 0" for n by (induction n) auto
  moreover have "min (m - 1 - length s) m = m - 1 - length s" by simp
  ultimately show ?thesis using \<open>0 < m\<close> by (simp add: strncpynt_bytes_def)
qed

lemma buf_puts_bounded:
  assumes "buf_wf b" and "is_cstr s" and "0 < buf_room b"
  shows "\<exists>b'. buf_puts b s = Inr (True, b') \<and> text_appended b (take (nat (buf_room b) - 1) s) b'"
proof -
  let ?m = "nat (buf_room b)"
  let ?t = "take (?m - 1) s"
  let ?z = "replicate (?m - 1 - length s) (0 :: byte)"
  have "int (length ?t + 1 + length ?z) \<le> buf_room b" using assms(3) by (auto simp: min_def)
  from poke_text[OF assms(1) is_cstr_take[OF assms(2)] this]
  obtain b1 b2 where "buf_poke b (b_offset b + b_len b) (?t @ 0 # ?z) = Inr b1"
    "buf_poke b1 (b_capacity b - 1) [0] = Inr b2"
    "buf_strlen b2 (b_offset b + b_len b) = Inr (int (length ?t))"
    "text_appended b ?t (b2\<lparr>b_len := b_len b2 + int (length ?t)\<rparr>)" by auto
  moreover have "strncpynt_bytes s ?m = ?t @ 0 # ?z" using assms(3) by (simp add: strncpynt_bytes_shape)
  moreover have "buf_bend b = Some (b_offset b + b_len b)" using assms(1) by (simp add: buf_bend_def)
  ultimately show ?thesis using assms by (simp add: buf_puts_def Let_def)
qed

section \<open>Termination and trimming\<close>

lemma blast_peek:
  assumes "buf_wf b" "0 < b_len b"
  shows "buf_blast b = Some (b_offset b + b_len b - 1)"
    and "buf_peek b (b_offset b + b_len b - 1) 1 = Inr [last (buf_content b)]"
proof -
  show "buf_blast b = Some (b_offset b + b_len b - 1)" using assms by (simp add: buf_blast_def)
  have ne: "buf_content b \<noteq> []" using assms length_buf_content_nat[OF assms(1)] by auto
  have "nat (b_len b - 1) = length (butlast (buf_content b))"
    using assms by (simp add: length_buf_content_nat nat_diff_distrib)
  then have "segment (buf_content b) (nat (b_len b - 1)) 1 = [last (buf_content b)]"
    using ne by (metis append_butlast_last_id append_eq_conv_conj segment_def take_all_iff
        One_nat_def length_Cons list.size(3) order_refl)
  moreover have "buf_peek b (b_offset b + (b_len b - 1)) 1 = Inr (segment (buf_content b) (nat (b_len b - 1)) (nat 1))"
    using assms by (intro buf_peek_content) auto
  ultimately show "buf_peek b (b_offset b + b_len b - 1) 1 = Inr [last (buf_content b)]"
    by (simp add: add_diff_eq)
qed

lemma blast_empty: "buf_wf b \<Longrightarrow> b_len b = 0 \<Longrightarrow> buf_blast b = None"
  by (simp add: buf_blast_def)

definition null_terminated :: "byte list \<Rightarrow> int \<Rightarrow> byte list" where
  "null_terminated c room =
     (if c \<noteq> [] \<and> last c = 0 then c else if room \<ge> 1 then c @ [0] else butlast c @ [0])"

lemma buf_null_terminate_content:
  assumes wf: "buf_wf b" and cap: "b_offset b < b_capacity b"
  shows "\<exists>b'. buf_null_terminate b = Inr b' \<and> buf_wf b' \<and> b_offset b' = b_offset b \<and> b_capacity b' = b_capacity b
    \<and> buf_content b' = null_terminated (buf_content b) (buf_room b)"
proof (cases "0 < b_len b \<and> last (buf_content b) = 0")
  case True
  then have "buf_content b \<noteq> []" using length_buf_content_nat[OF wf] by auto
  with True show ?thesis using wf by (simp add: buf_null_terminate_def blast_peek null_terminated_def)
next
  case False
  have tm: "(case buf_blast b of None \<Rightarrow> Inr False | Some p \<Rightarrow> bindE (buf_peek b p 1) (\<lambda>cs. Inr (cs = [0]))) = Inr False"
    using False wf buf_wf_bounds[OF wf] by (cases "b_len b = 0") (auto simp: blast_peek blast_empty)
  have nz: "\<not> (buf_content b \<noteq> [] \<and> last (buf_content b) = 0)"
    using False wf length_buf_content_nat[OF wf] buf_wf_bounds[OF wf] by auto
  show ?thesis
  proof (cases "1 \<le> buf_room b")
    case True
    then have "buf_write b [0] = Inr (True, buf_append b [0])" "buf_safe b 1"
      using wf by (simp_all add: buf_write_append buf_safe_room)
    then show ?thesis using tm nz True wf
      by (simp add: buf_null_terminate_def buf_write_u8_def null_terminated_def buf_append_wf buf_append_content)
  next
    case full: False
    let ?b = "b\<lparr>b_len := b_len b - 1\<rparr>"
    have len: "1 \<le> b_len b" using full cap buf_wf_bounds[OF wf] by linarith
    have wf1: "buf_wf ?b" using wf len buf_wf_bounds[OF wf] by (intro buf_set_len_wf) auto
    have ct: "buf_content ?b = butlast (buf_content b)"
      using wf len by (simp add: buf_set_len_content butlast_conv_take length_buf_content_nat nat_diff_distrib)
    have "\<not> buf_safe b 1" using full wf by (simp add: buf_safe_iff INT_MAX_def)
    moreover have "buf_inc_len b (-1) = (True, ?b)"
      using len wf buf_wf_bounds[OF wf] by (simp add: buf_inc_len_def buf_safe_bidir_def buf_size_valid_signed_def BUF_SIZE_MAX_def)
    moreover have "buf_write ?b [0] = Inr (True, buf_append ?b [0])"
      using wf1 buf_wf_bounds[OF wf] by (intro buf_write_append) auto
    ultimately show ?thesis using tm nz full wf1 ct buf_wf_bounds[OF wf]
      by (auto simp: buf_null_terminate_def buf_write_u8_def null_terminated_def buf_append_wf buf_append_content)
  qed
qed

section \<open>Line parsing\<close>

lemma buf_read_u8_Cons:
  assumes "buf_wf b" "buf_content b = c # r"
  shows "buf_read_u8 b = Inr (uint c, buf_drop b 1)" "buf_wf (buf_drop b 1)" "buf_content (buf_drop b 1) = r"
proof -
  have "1 \<le> b_len b" using length_buf_content[OF assms(1)] assms(2) by simp
  then show "buf_read_u8 b = Inr (uint c, buf_drop b 1)" "buf_wf (buf_drop b 1)" "buf_content (buf_drop b 1) = r"
    using assms by (simp_all add: buf_read_u8_take buf_drop_wf buf_drop_content)
qed

lemma uint_pos_iff: "0 < uint (c :: byte) \<longleftrightarrow> c \<noteq> 0"
  by (metis uint_0_iff uint_ge_0 order_le_less order_less_irrefl)

lemma overwrite_snoc_front:
  "n < length line \<Longrightarrow> overwrite (line[n := c]) (Suc n) t = overwrite line n (c # t)"
  by (simp add: overwrite_def take_Suc_conv_app_nth)

lemma list_update_overwrite: "n < length line \<Longrightarrow> line[n := c] = overwrite line n [c]"
  by (simp add: overwrite_def upd_conv_take_nth_drop)

lemma buf_parse_loop_field:
  assumes "buf_wf b" "buf_content b = s @ d # r" "is_cstr s" "d \<notin> set s"
    "n + length s < length line"
  shows "\<exists>b'. buf_parse_loop b (uint d) line (int (length line)) (int n) eol
      = Inr (b', overwrite line n (s @ [0]), eol) \<and> buf_wf b' \<and> buf_content b' = r"
  using assms
proof (induction s arbitrary: b n line)
  case Nil
  then show ?case using buf_read_u8_Cons[of b d r]
    by (subst buf_parse_loop.simps) (auto simp: Let_def arr_set_def list_update_overwrite)
next
  case (Cons c s)
  have rd: "buf_read_u8 b = Inr (uint c, buf_drop b 1)" "buf_wf (buf_drop b 1)" "buf_content (buf_drop b 1) = s @ d # r"
    using buf_read_u8_Cons[of b c "s @ d # r"] Cons.prems by auto
  have c: "0 < uint c" "uint c \<noteq> uint d" "is_cstr s" "d \<notin> set s"
    using Cons.prems by (auto simp: uint_pos_iff is_cstr_def word_uint_eq_iff)
  have "\<exists>b'. buf_parse_loop (buf_drop b 1) (uint d) (line[n := c]) (int (length (line[n := c]))) (int (Suc n)) eol
      = Inr (b', overwrite (line[n := c]) (Suc n) (s @ [0]), eol) \<and> buf_wf b' \<and> buf_content b' = r"
    using rd(2,3) c(3,4) Cons.prems(5) by (intro Cons.IH) auto
  moreover have "buf_parse_loop b (uint d) line (int (length line)) (int n) eol
    = buf_parse_loop (buf_drop b 1) (uint d) (line[n := c]) (int (length line)) (int n + 1) eol"
    using rd(1) c(1,2) Cons.prems(5) by (subst buf_parse_loop.simps) (simp add: Let_def arr_set_def)
  ultimately show ?case using Cons.prems(5) by (simp add: overwrite_snoc_front add.commute)
qed

text \<open>
  Line parsing. When the buffer holds a field \<open>s\<close> of non-zero bytes, a delimiter and a
  rest, and the caller's array has room for the field and its terminator, \<open>buf_parse\<close> returns true,
  stores exactly the field as a C string at the start of the array, and leaves exactly the rest in the
  buffer.
\<close>

theorem buf_parse_field:
  assumes "buf_wf b" and "buf_content b = s @ d # r" and "is_cstr s" and "d \<notin> set s"
    and "length s < length line"
  shows "\<exists>line' b'. buf_parse b (uint d) line (int (length line)) = Inr (True, line', b')
    \<and> take (length s + 1) line' = s @ [0] \<and> length line' = length line \<and> buf_wf b' \<and> buf_content b' = r"
proof -
  obtain b' where b': "buf_parse_loop b (uint d) line (int (length line)) 0 False
      = Inr (b', overwrite line 0 (s @ [0]), False)" "buf_wf b'" "buf_content b' = r"
    using buf_parse_loop_field[OF assms(1-4), of 0 line False] assms(5) by auto
  define l1 where "l1 = s @ 0 # drop (length s + 1) line"
  have l1: "overwrite line 0 (s @ [0]) = l1" "length l1 = length line"
    using assms(5) by (simp_all add: l1_def overwrite_def)
  have upd: "\<exists>y. l1[length line - 1 := 0] = s @ 0 # y"
  proof (cases "length line = length s + 1")
    case True
    then show ?thesis by (simp add: l1_def)
  next
    case False
    then have k: "length line - 1 = length s + Suc (length line - length s - 2)" using assms(5) by simp
    show ?thesis unfolding l1_def k by (simp only: list_update_append) simp
  qed
  then obtain y where y: "l1[length line - 1 := 0] = s @ 0 # y" by blast
  have "c_strlen (l1[length line - 1 := 0]) 0 = Inr (int (length s))"
    unfolding y using assms(3) by (simp add: c_strlen_def scan_nul_append)
  moreover have "arr_set l1 (int (length line) - 1) 0 = Inr (l1[length line - 1 := 0])"
    using assms(5) l1(2) by (auto simp: arr_set_def nat_diff_distrib)
  moreover have "length (l1[length line - 1 := 0]) = length line" using l1(2) by simp
  moreover have "0 < int (length line)" using assms(5) by linarith
  ultimately have "buf_parse b (uint d) line (int (length line)) = Inr (True, l1[length line - 1 := 0], b')"
    using b'(1) by (simp add: buf_parse_def l1(1))
  moreover have "take (length s + 1) (l1[length line - 1 := 0]) = s @ [0]" unfolding y by simp
  ultimately show ?thesis using b'(2,3) \<open>length (l1[length line - 1 := 0]) = length line\<close> by blast
qed

theorem buf_parse_field_witness:
  "\<exists>line' b'. buf_parse \<lparr>b_capacity = 4, b_offset = 0, b_len = 4, b_data = Some [65, 66, 10, 67]\<rparr> (uint (10 :: byte))
      [1, 1, 1] (int (length [1, 1, 1 :: byte])) = Inr (True, line', b')
    \<and> take (length [65, 66 :: byte] + 1) line' = [65, 66] @ [0] \<and> length line' = length [1, 1, 1 :: byte]
    \<and> buf_wf b' \<and> buf_content b' = [67]"
  by (rule buf_parse_field) (simp_all add: buf_wf_def BUF_SIZE_MAX_def buf_content_def segment_def is_cstr_def)

end
