(* ===== verification/Circ_List.thy ===== *)
theory Circ_List
  imports Integers
begin

text \<open>
  The circular list macros of \<open>circ_list.h\<close>: a fixed array in which the newest element sits at
  \<open>x_head\<close> and older ones follow, overwriting the oldest when full. The abstraction \<open>circ_items\<close> is
  the list of elements from newest to oldest; the locale \<open>window\<close> is the contract on that list.
\<close>

section \<open>Definitions\<close>

record 'a circ_list =
  x_head :: int
  x_size :: int
  x_cap :: int
  x_list :: "'a list"

definition circ_list_push :: "'a circ_list \<Rightarrow> 'a \<Rightarrow> 'a circ_list res" where
  "circ_list_push obj item =
     bindE (modulo_add (x_head obj) (-1) (x_cap obj)) (\<lambda>h.
     bindE (arr_set (x_list obj) h item) (\<lambda>l.
       Inr (obj\<lparr>x_head := h, x_list := l, x_size := min_int (x_size obj + 1) (x_cap obj)\<rparr>)))"

definition circ_list_size :: "'a circ_list \<Rightarrow> int" where
  "circ_list_size obj = x_size obj"

definition circ_list_index :: "'a circ_list \<Rightarrow> int \<Rightarrow> int res" where
  "circ_list_index obj i =
     bindE (index_verify i (x_size obj)) (\<lambda>j. modulo_add (x_head obj) j (x_cap obj))"

definition circ_list_item :: "'a circ_list \<Rightarrow> int \<Rightarrow> 'a res" where
  "circ_list_item obj i = bindE (circ_list_index obj i) (arr_get (x_list obj))"

definition circ_list_set_item :: "'a circ_list \<Rightarrow> int \<Rightarrow> 'a \<Rightarrow> 'a circ_list res" where
  "circ_list_set_item obj i v =
     bindE (circ_list_index obj i) (\<lambda>j. bindE (arr_set (x_list obj) j v) (\<lambda>l. Inr (obj\<lparr>x_list := l\<rparr>)))"

definition circ_list_reset :: "'a circ_list \<Rightarrow> 'a circ_list" where
  "circ_list_reset obj = obj\<lparr>x_head := 0, x_size := 0\<rparr>"

text \<open>\<open>z\<close> is the value the cleared memory stands for.\<close>

definition circ_list_alloc :: "'a \<Rightarrow> int \<Rightarrow> 'a circ_list" where
  "circ_list_alloc z n = \<lparr>x_head = 0, x_size = 0, x_cap = n, x_list = replicate (nat n) z\<rparr>"

section \<open>The contract of a bounded window\<close>

fun push_many :: "('w \<Rightarrow> 'a \<Rightarrow> 'w res) \<Rightarrow> 'w \<Rightarrow> 'a list \<Rightarrow> 'w res" where
  "push_many push w [] = Inr w"
| "push_many push w (x # xs) = bindE (push w x) (\<lambda>w'. push_many push w' xs)"

locale window =
  fixes inv :: "'w \<Rightarrow> bool"
    and cap :: "'w \<Rightarrow> nat"
    and items :: "'w \<Rightarrow> 'a list"
    and push :: "'w \<Rightarrow> 'a \<Rightarrow> 'w res"
    and item :: "'w \<Rightarrow> int \<Rightarrow> 'a res"
    and set_item :: "'w \<Rightarrow> int \<Rightarrow> 'a \<Rightarrow> 'w res"
  assumes items_bound: "inv w \<Longrightarrow> length (items w) \<le> cap w"
    and push_items: "inv w \<Longrightarrow> \<exists>w'. push w x = Inr w' \<and> inv w' \<and> cap w' = cap w \<and> items w' = take (cap w) (x # items w)"
    and item_nth: "inv w \<Longrightarrow> 0 \<le> i \<Longrightarrow> i < int (length (items w)) \<Longrightarrow> item w i = Inr (items w ! nat i)"
    and item_out: "inv w \<Longrightarrow> i < 0 \<or> int (length (items w)) \<le> i \<Longrightarrow> item w i = Inl Msg_Fatal"
    and set_items: "inv w \<Longrightarrow> 0 \<le> i \<Longrightarrow> i < int (length (items w)) \<Longrightarrow>
      \<exists>w'. set_item w i x = Inr w' \<and> inv w' \<and> cap w' = cap w \<and> items w' = (items w)[nat i := x]"
begin

lemma push_many_items:
  assumes "inv w"
  shows "\<exists>w'. push_many push w xs = Inr w' \<and> inv w' \<and> cap w' = cap w
    \<and> items w' = take (cap w) (rev xs @ items w)"
  using assms
proof (induction xs arbitrary: w)
  case Nil
  then show ?case using items_bound by simp
next
  case (Cons x xs)
  then obtain w1 where w1: "push w x = Inr w1" "inv w1" "cap w1 = cap w" "items w1 = take (cap w) (x # items w)"
    using push_items by blast
  then show ?case using Cons.IH[OF w1(2)] by (auto simp: min_def)
qed

end

section \<open>The macros satisfy it\<close>

definition circ_wf :: "'a circ_list \<Rightarrow> bool" where
  "circ_wf c \<longleftrightarrow> 0 \<le> x_head c \<and> x_head c < x_cap c \<and> 0 \<le> x_size c \<and> x_size c \<le> x_cap c
     \<and> int (length (x_list c)) = x_cap c"

definition circ_items :: "'a circ_list \<Rightarrow> 'a list" where
  "circ_items c = map (\<lambda>i. x_list c ! nat ((x_head c + int i) mod x_cap c)) [0..<nat (x_size c)]"

definition circ_cap :: "'a circ_list \<Rightarrow> nat" where
  "circ_cap c = nat (x_cap c)"

lemma length_circ_items [simp]: "circ_wf c \<Longrightarrow> int (length (circ_items c)) = x_size c"
  by (simp add: circ_items_def circ_wf_def)

lemma length_circ_items_nat: "length (circ_items c) = nat (x_size c)"
  by (simp add: circ_items_def)

lemma circ_alloc_wf: "0 < n \<Longrightarrow> circ_wf (circ_list_alloc z n)"
  by (simp add: circ_wf_def circ_list_alloc_def)

lemma circ_alloc_items [simp]: "circ_items (circ_list_alloc z n) = []"
  by (simp add: circ_items_def circ_list_alloc_def)

lemma circ_reset: "circ_wf c \<Longrightarrow> circ_wf (circ_list_reset c) \<and> circ_items (circ_list_reset c) = []
    \<and> circ_cap (circ_list_reset c) = circ_cap c"
  by (simp add: circ_wf_def circ_list_reset_def circ_items_def circ_cap_def)

lemma circ_pos_inj:
  assumes "0 \<le> h" "h < m" "i < nat m" "j < nat m" "(h + int i) mod m = (h + int j) mod m"
  shows "i = j"
proof -
  have "(int i - int j) mod m = 0" using assms(5)
    by (metis add_diff_cancel_left mod_diff_cong mod_0 diff_self)
  then have "m dvd int i - int j" by (simp add: dvd_eq_mod_eq_0)
  moreover have "\<bar>int i - int j\<bar> < m" using assms by auto
  ultimately show ?thesis using dvd_imp_le_int[of "int i - int j" m] by fastforce
qed

lemma circ_push_ok:
  assumes "circ_wf c"
  shows "\<exists>c'. circ_list_push c x = Inr c' \<and> circ_wf c' \<and> circ_cap c' = circ_cap c
    \<and> circ_items c' = take (circ_cap c) (x # circ_items c)"
proof -
  let ?h = "(x_head c - 1) mod x_cap c"
  have cap: "0 < x_cap c" using assms by (auto simp: circ_wf_def)
  have h: "modulo_add (x_head c) (-1) (x_cap c) = Inr ?h"
    using assms modulo_add_ok[of "x_head c" "x_cap c" "-1"] by (auto simp: circ_wf_def)
  have hb: "0 \<le> ?h" "?h < x_cap c" using cap by auto
  have len: "int (length (x_list c)) = x_cap c" using assms by (simp add: circ_wf_def)
  define c' where "c' = c\<lparr>x_head := ?h, x_list := (x_list c)[nat ?h := x], x_size := min (x_size c + 1) (x_cap c)\<rparr>"
  have r: "circ_list_push c x = Inr c'"
    using hb len by (simp add: circ_list_push_def h arr_set_ok c'_def)
  have wf: "circ_wf c'" using assms hb by (auto simp: circ_wf_def c'_def)
  have nth: "x_list c' ! nat ((x_head c' + int i) mod x_cap c') = (x # circ_items c) ! i"
    if i: "i < nat (x_cap c)" "i < Suc (nat (x_size c))" for i
  proof (cases i)
    case 0
    then show ?thesis using hb len by (simp add: c'_def)
  next
    case (Suc k)
    have e: "(?h + int i) mod x_cap c = (x_head c + int k) mod x_cap c"
      by (simp add: Suc mod_simps)
    have "(?h + int i) mod x_cap c \<noteq> ?h"
      using circ_pos_inj[of ?h "x_cap c" i 0] hb i(1) Suc by auto
    then have "nat ((x_head c + int k) mod x_cap c) \<noteq> nat ?h"
      using cap e by (metis Euclidean_Rings.pos_mod_sign eq_nat_nat_iff hb(1))
    moreover have "(?h + (1 + int k)) mod x_cap c = (x_head c + int k) mod x_cap c"
      using e Suc by simp
    ultimately show ?thesis using i(2) Suc by (simp add: c'_def circ_items_def)
  qed
  have sz: "nat (x_size c') = min (Suc (nat (x_size c))) (nat (x_cap c))"
    using assms by (auto simp: c'_def circ_wf_def min_def)
  have "circ_items c' = take (nat (x_cap c)) (x # circ_items c)"
    by (rule nth_equalityI) (auto simp: circ_items_def[of c'] sz length_circ_items_nat nth)
  then show ?thesis using r wf by (simp add: circ_cap_def c'_def)
qed

lemma circ_index_ok:
  assumes "circ_wf c" "0 \<le> i" "i < x_size c"
  shows "circ_list_index c i = Inr ((x_head c + i) mod x_cap c)"
    and "0 \<le> (x_head c + i) mod x_cap c" "(x_head c + i) mod x_cap c < int (length (x_list c))"
  using assms modulo_add_ok[of "x_head c" "x_cap c" i] by (auto simp: circ_list_index_def circ_wf_def)

lemma circ_item_ok:
  assumes "circ_wf c" "0 \<le> i" "i < x_size c"
  shows "circ_list_item c i = Inr (circ_items c ! nat i)"
  using circ_index_ok[OF assms] assms by (simp add: circ_list_item_def arr_get_ok circ_items_def)

lemma circ_set_item_ok:
  assumes "circ_wf c" "0 \<le> i" "i < x_size c"
  shows "\<exists>c'. circ_list_set_item c i v = Inr c' \<and> circ_wf c' \<and> circ_cap c' = circ_cap c
    \<and> circ_items c' = (circ_items c)[nat i := v]"
proof -
  let ?p = "nat ((x_head c + i) mod x_cap c)"
  let ?c' = "c\<lparr>x_list := (x_list c)[?p := v]\<rparr>"
  have "circ_list_set_item c i v = Inr ?c'"
    using circ_index_ok[OF assms] by (simp add: circ_list_set_item_def arr_set_ok)
  moreover have "circ_wf ?c'" using assms by (simp add: circ_wf_def)
  moreover have "circ_items ?c' = (circ_items c)[nat i := v]"
  proof (rule nth_equalityI)
    fix j assume "j < length (circ_items ?c')"
    then have j: "j < nat (x_size c)" by (simp add: length_circ_items_nat)
    have cap: "0 < x_cap c" using assms by (auto simp: circ_wf_def)
    have "?p = nat ((x_head c + int j) mod x_cap c) \<longleftrightarrow> nat i = j"
    proof
      assume "?p = nat ((x_head c + int j) mod x_cap c)"
      then have "(x_head c + int (nat i)) mod x_cap c = (x_head c + int j) mod x_cap c"
        using cap assms(2) by (simp add: eq_nat_nat_iff)
      then show "nat i = j"
        using assms j by (intro circ_pos_inj[of "x_head c" "x_cap c"]) (auto simp: circ_wf_def)
    qed (use assms(2) in auto)
    moreover have "?p < length (x_list c)" using circ_index_ok[OF assms] by linarith
    ultimately show "circ_items ?c' ! j = (circ_items c)[nat i := v] ! j"
      using j by (auto simp: circ_items_def nth_list_update)
  qed (simp add: length_circ_items_nat)
  ultimately show ?thesis by (simp add: circ_cap_def)
qed

interpretation circ: window circ_wf circ_cap circ_items circ_list_push circ_list_item circ_list_set_item
proof (unfold_locales, goal_cases)
  case (1 w)
  then show ?case by (auto simp: length_circ_items_nat circ_cap_def circ_wf_def intro: nat_mono)
next
  case (2 w x)
  then show ?case by (rule circ_push_ok)
next
  case (3 w i)
  then show ?case by (simp add: circ_item_ok)
next
  case (4 w i)
  then show ?case by (auto simp: circ_list_item_def circ_list_index_def index_verify_def)
next
  case (5 w i x)
  then show ?case by (simp add: circ_set_item_ok)
qed

end
