(* ===== verification/Replay.thy ===== *)
theory Replay
  imports Prelude
begin

text \<open>
  The contract of a replay filter: a stateful receiver that turns each event into at most one accepted
  item, blocks every item it has accepted, and never unblocks one. Under it no item is accepted twice
  in any run, and no run faults.
\<close>

fun filter_run :: "('s \<Rightarrow> 'e \<Rightarrow> ('x option \<times> 's) res) \<Rightarrow> 's \<Rightarrow> 'e list \<Rightarrow> ('x list \<times> 's) res" where
  "filter_run step s [] = Inr ([], s)"
| "filter_run step s (e # es) =
     bindE (step s e) (\<lambda>(r, s'). bindE (filter_run step s' es) (\<lambda>(xs, s'').
       Inr ((case r of None \<Rightarrow> xs | Some x \<Rightarrow> x # xs), s'')))"

locale replay_filter =
  fixes inv :: "'s \<Rightarrow> bool"
    and event_ok :: "'e \<Rightarrow> bool"
    and blocked :: "'s \<Rightarrow> 'x \<Rightarrow> bool"
    and step :: "'s \<Rightarrow> 'e \<Rightarrow> ('x option \<times> 's) res"
  assumes step_ok: "inv s \<Longrightarrow> event_ok e \<Longrightarrow> \<exists>r s'. step s e = Inr (r, s') \<and> inv s'
      \<and> (\<forall>y. blocked s y \<longrightarrow> blocked s' y)
      \<and> (\<forall>x. r = Some x \<longrightarrow> \<not> blocked s x \<and> blocked s' x)"
begin

lemma run_no_replay:
  assumes "inv s" "list_all event_ok es"
  shows "\<exists>xs s'. filter_run step s es = Inr (xs, s') \<and> inv s' \<and> distinct xs
    \<and> (\<forall>x \<in> set xs. \<not> blocked s x) \<and> (\<forall>x \<in> set xs. blocked s' x)
    \<and> (\<forall>y. blocked s y \<longrightarrow> blocked s' y)"
  using assms
proof (induction es arbitrary: s)
  case (Cons e es)
  then obtain r s1 where st: "step s e = Inr (r, s1)" "inv s1"
    "\<And>y. blocked s y \<Longrightarrow> blocked s1 y" "\<And>x. r = Some x \<Longrightarrow> \<not> blocked s x \<and> blocked s1 x"
    using step_ok[of s e] by auto
  obtain xs s2 where run: "filter_run step s1 es = Inr (xs, s2)" "inv s2" "distinct xs"
    "\<forall>x \<in> set xs. \<not> blocked s1 x" "\<forall>x \<in> set xs. blocked s2 x" "\<And>y. blocked s1 y \<Longrightarrow> blocked s2 y"
    using Cons.IH[OF st(2)] Cons.prems(2) by auto
  show ?case
  proof (cases r)
    case None
    with st run show ?thesis by auto
  next
    case (Some x)
    then have "\<not> blocked s x" "blocked s1 x" using st(4) by auto
    with Some st(1,3) run show ?thesis by (auto 4 3)
  qed
qed simp

end

end
