(* ===== verification/Packet_Id.thy ===== *)
theory Packet_Id
  imports Buffer_Codec Circ_List Replay
begin

text \<open>
  Replay protection of the data channel (\<open>packet_id.h\<close>, \<open>packet_id.c\<close>) and its caller
  \<open>crypto_check_replay\<close> (\<open>crypto.c\<close>). The receiver keeps the highest time stamp and packet
  identifier and, in backtrack mode (UDP), a circular list with the arrival time of each of the last
  identifiers. The global clock \<open>now\<close> is an argument. Results of system calls on the persistence
  file are arguments.
\<close>

section \<open>State\<close>

definition PACKET_ID_MAX :: u32 where "PACKET_ID_MAX = - 1"
definition PACKET_ID_WRAP_TRIGGER :: u32 where "PACKET_ID_WRAP_TRIGGER = 0xFF000000"
definition MIN_SEQ_BACKTRACK :: int where "MIN_SEQ_BACKTRACK = 0"
definition MAX_SEQ_BACKTRACK :: int where "MAX_SEQ_BACKTRACK = 65536"
definition MIN_TIME_BACKTRACK :: int where "MIN_TIME_BACKTRACK = 0"
definition MAX_TIME_BACKTRACK :: int where "MAX_TIME_BACKTRACK = 600"
definition SEQ_REAP_INTERVAL :: int where "SEQ_REAP_INTERVAL = 5"
definition SEQ_UNSEEN :: int where "SEQ_UNSEEN = 0"
definition SEQ_EXPIRED :: int where "SEQ_EXPIRED = 1"

record packet_id_rec =
  pr_last_reap :: int
  pr_time :: int
  pr_id :: u32
  pr_seq_backtrack :: int
  pr_time_backtrack :: int
  pr_max_backtrack_stat :: int
  pr_initialized :: bool
  pr_seq_list :: "int circ_list option"
  pr_name :: string
  pr_unit :: int

record packet_id_send =
  ps_id :: u32
  ps_time :: int

record packet_id_net =
  pin_id :: u32
  pin_time :: int

record packet_id =
  pid_send :: packet_id_send
  pid_rec :: packet_id_rec

record packet_id_persist =
  pp_filename :: "string option"
  pp_fd :: int
  pp_time :: int
  pp_id :: u32
  pp_time_last_written :: int
  pp_id_last_written :: u32

definition packet_id_zero :: packet_id where
  "packet_id_zero =
     \<lparr>pid_send = \<lparr>ps_id = 0, ps_time = 0\<rparr>,
      pid_rec = \<lparr>pr_last_reap = 0, pr_time = 0, pr_id = 0, pr_seq_backtrack = 0, pr_time_backtrack = 0,
        pr_max_backtrack_stat = 0, pr_initialized = False, pr_seq_list = None, pr_name = [], pr_unit = 0\<rparr>\<rparr>"

section \<open>Operations\<close>

definition packet_id_init :: "int \<Rightarrow> int \<Rightarrow> string \<Rightarrow> int \<Rightarrow> packet_id res" where
  "packet_id_init seq_backtrack time_backtrack nm unit =
     (let p = packet_id_zero; r = (pid_rec p)\<lparr>pr_name := nm, pr_unit := unit\<rparr> in
      bindE (if seq_backtrack \<noteq> 0 then
               bindE (assertE (MIN_SEQ_BACKTRACK \<le> seq_backtrack \<and> seq_backtrack \<le> MAX_SEQ_BACKTRACK)) (\<lambda>_.
               bindE (assertE (MIN_TIME_BACKTRACK \<le> time_backtrack \<and> time_backtrack \<le> MAX_TIME_BACKTRACK)) (\<lambda>_.
                 Inr (r\<lparr>pr_seq_list := Some (circ_list_alloc 0 seq_backtrack),
                        pr_seq_backtrack := seq_backtrack, pr_time_backtrack := time_backtrack\<rparr>)))
             else Inr r)
        (\<lambda>r. Inr (p\<lparr>pid_rec := r\<lparr>pr_initialized := True\<rparr>\<rparr>)))"

definition packet_id_free :: "packet_id \<Rightarrow> packet_id" where
  "packet_id_free p = packet_id_zero"

text \<open>The loop of \<open>packet_id_add\<close> that opens a slot for every identifier up to the new one.\<close>

function add_push_loop :: "u32 \<Rightarrow> u32 \<Rightarrow> int circ_list \<Rightarrow> (u32 \<times> int circ_list) res" where
  "add_push_loop target i sl =
     (if i < target
      then bindE (circ_list_push sl SEQ_UNSEEN) (\<lambda>sl'. add_push_loop target (i + 1) sl')
      else Inr (i, sl))"
  by pat_completeness auto
termination
  by (relation "measure (\<lambda>(target, i, sl). unat target - unat i)") (auto simp: unat_inc word_less_nat_alt)

declare add_push_loop.simps [simp del]

definition packet_id_add :: "int \<Rightarrow> packet_id_rec \<Rightarrow> packet_id_net \<Rightarrow> packet_id_rec res" where
  "packet_id_add now p pin =
     (case pr_seq_list p of
        None \<Rightarrow> Inr (p\<lparr>pr_time := pin_time pin, pr_id := pin_id pin\<rparr>)
      | Some sl \<Rightarrow>
          let sb = word_of_int (pr_seq_backtrack p) :: u32;
              restart = circ_list_size sl = 0 \<or> pin_time pin > pr_time p
                \<or> (pin_id pin \<ge> sb \<and> pin_id pin - sb > pr_id p);
              p1 = (if restart
                    then p\<lparr>pr_time := pin_time pin, pr_id := (if pin_id pin > sb then pin_id pin - sb else 0)\<rparr>
                    else p);
              sl1 = (if restart then circ_list_reset sl else sl)
          in bindE (add_push_loop (pin_id pin) (pr_id p1) sl1) (\<lambda>(i, sl2).
             let df = i - pin_id pin in
             bindE (if df < word_of_int (circ_list_size sl2) \<and> now > SEQ_EXPIRED
                    then circ_list_set_item sl2 (sint df) now else Inr sl2) (\<lambda>sl3.
             Inr (p1\<lparr>pr_id := i, pr_seq_list := Some sl3\<rparr>))))"

function reap_loop :: "int \<Rightarrow> int \<Rightarrow> int \<Rightarrow> bool \<Rightarrow> int circ_list \<Rightarrow> int circ_list res" where
  "reap_loop now time_backtrack i expire sl =
     (if i < circ_list_size sl then
        bindE (circ_list_item sl i) (\<lambda>t.
          if t = SEQ_EXPIRED then Inr sl
          else let expire' = (if \<not> expire \<and> t \<noteq> 0 \<and> t + time_backtrack < now then True else expire)
               in if expire'
                  then bindE (circ_list_set_item sl i SEQ_EXPIRED) (reap_loop now time_backtrack (i + 1) expire')
                  else reap_loop now time_backtrack (i + 1) expire' sl)
      else Inr sl)"
  by pat_completeness auto
termination
  by (relation "measure (\<lambda>(_, _, i, _, sl). nat (circ_list_size sl - i))")
    (auto simp: circ_list_set_item_def bindE_eq_Inr circ_list_size_def)

declare reap_loop.simps [simp del]

definition packet_id_reap :: "int \<Rightarrow> packet_id_rec \<Rightarrow> packet_id_rec res" where
  "packet_id_reap now p =
     bindE (if pr_time_backtrack p \<noteq> 0
            then (case pr_seq_list p of
                    None \<Rightarrow> Inl Mem_Fault
                  | Some sl \<Rightarrow> bindE (reap_loop now (pr_time_backtrack p) 0 False sl)
                      (\<lambda>sl'. Inr (p\<lparr>pr_seq_list := Some sl'\<rparr>)))
            else Inr p)
       (\<lambda>p'. Inr (p'\<lparr>pr_last_reap := now\<rparr>))"

definition packet_id_reap_test :: "int \<Rightarrow> packet_id_rec \<Rightarrow> packet_id_rec res" where
  "packet_id_reap_test now p =
     (if pr_last_reap p + SEQ_REAP_INTERVAL \<le> now then packet_id_reap now p else Inr p)"

definition packet_id_test :: "packet_id_rec \<Rightarrow> packet_id_net \<Rightarrow> (bool \<times> packet_id_rec) res" where
  "packet_id_test p pin =
     bindE (assertE (pr_initialized p)) (\<lambda>_.
       if pin_id pin = 0 then Inr (False, p)
       else if pr_seq_backtrack p \<noteq> 0 then
         (if pin_time pin = pr_time p then
            (if pin_id pin > pr_id p then Inr (True, p)
             else let df = pr_id p - pin_id pin;
                      p1 = (if sint df > pr_max_backtrack_stat p
                            then p\<lparr>pr_max_backtrack_stat := sint df\<rparr> else p)
                  in case pr_seq_list p of
                       None \<Rightarrow> Inl Mem_Fault
                     | Some sl \<Rightarrow>
                         if df \<ge> word_of_int (circ_list_size sl) then Inr (False, p1)
                         else bindE (circ_list_item sl (sint df)) (\<lambda>v. Inr (v = 0, p1)))
          else if pin_time pin < pr_time p then Inr (False, p)
          else Inr (True, p))
       else
         (if pin_time pin = pr_time p then Inr (pr_id p = 0 \<or> pin_id pin = pr_id p + 1, p)
          else if pin_time pin < pr_time p then Inr (False, p)
          else Inr (pin_id pin = 1, p)))"

text \<open>\<open>crypto_check_replay\<close>: reap when due, test, and record an accepted identifier.\<close>

definition packet_id_persist_enabled :: "packet_id_persist \<Rightarrow> bool" where
  "packet_id_persist_enabled p \<longleftrightarrow> pp_fd p \<ge> 0"

definition packet_id_persist_save_obj :: "packet_id_persist \<Rightarrow> packet_id \<Rightarrow> packet_id_persist" where
  "packet_id_persist_save_obj p pid =
     (if packet_id_persist_enabled p \<and> pr_time (pid_rec pid) \<noteq> 0
      then p\<lparr>pp_time := pr_time (pid_rec pid), pp_id := pr_id (pid_rec pid)\<rparr> else p)"

definition crypto_check_replay ::
    "int \<Rightarrow> bool \<Rightarrow> packet_id \<Rightarrow> packet_id_persist option \<Rightarrow> packet_id_net
     \<Rightarrow> (bool \<times> packet_id \<times> packet_id_persist option) res" where
  "crypto_check_replay now long_form pid persist pin =
     bindE (packet_id_reap_test now (pid_rec pid)) (\<lambda>r1.
     bindE (packet_id_test r1 pin) (\<lambda>(ok, r2).
       if ok then
         bindE (packet_id_add now r2 pin) (\<lambda>r3.
           let pid' = pid\<lparr>pid_rec := r3\<rparr> in
           Inr (True, pid', (if long_form then map_option (\<lambda>pp. packet_id_persist_save_obj pp pid') persist
                             else persist)))
       else Inr (False, pid\<lparr>pid_rec := r2\<rparr>, persist)))"

section \<open>The wire format\<close>

text \<open>A time stamp travels as 32 bits; \<open>ntohtime\<close> widens it unsigned.\<close>

definition packet_id_read :: "buffer \<Rightarrow> bool \<Rightarrow> (bool \<times> packet_id_net \<times> buffer) res" where
  "packet_id_read b long_form =
     bindE (buf_read b 4) (\<lambda>(r, b1). case r of
       None \<Rightarrow> Inr (False, \<lparr>pin_id = 0, pin_time = 0\<rparr>, b1)
     | Some bs \<Rightarrow>
         let net_id = of_be32 bs in
         if long_form then
           bindE (buf_read b1 4) (\<lambda>(r, b2). case r of
             None \<Rightarrow> Inr (False, \<lparr>pin_id = net_id, pin_time = 0\<rparr>, b2)
           | Some ts \<Rightarrow> Inr (True, \<lparr>pin_id = net_id, pin_time = uint (of_be32 ts)\<rparr>, b2))
         else Inr (True, \<lparr>pin_id = net_id, pin_time = 0\<rparr>, b1))"

definition packet_id_send_update :: "int \<Rightarrow> packet_id_send \<Rightarrow> bool \<Rightarrow> bool \<times> packet_id_send" where
  "packet_id_send_update now p long_form =
     (let p1 = (if ps_time p = 0 then p\<lparr>ps_time := now\<rparr> else p) in
      if ps_id p1 = PACKET_ID_MAX then
        (if \<not> long_form \<or> now \<le> ps_time p1 then (False, p1)
         else (True, p1\<lparr>ps_time := now, ps_id := 0 + 1\<rparr>))
      else (True, p1\<lparr>ps_id := ps_id p1 + 1\<rparr>))"

definition packet_id_write ::
    "int \<Rightarrow> packet_id_send \<Rightarrow> buffer \<Rightarrow> bool \<Rightarrow> bool \<Rightarrow> (bool \<times> packet_id_send \<times> buffer) res" where
  "packet_id_write now p b long_form prepend =
     (case packet_id_send_update now p long_form of
        (False, p1) \<Rightarrow> Inr (False, p1, b)
      | (True, p1) \<Rightarrow>
          let net_id = be32 (ps_id p1); net_time = be32 (word_of_int (ps_time p1)) in
          if prepend then
            bindE (if long_form then buf_write_prepend b net_time else Inr (True, b)) (\<lambda>(ok, b1).
              if \<not> ok then Inr (False, p1, b1)
              else bindE (buf_write_prepend b1 net_id) (\<lambda>(ok, b2). Inr (ok, p1, b2)))
          else
            bindE (buf_write b net_id) (\<lambda>(ok, b1).
              if \<not> ok then Inr (False, p1, b1)
              else if long_form then bindE (buf_write b1 net_time) (\<lambda>(ok, b2). Inr (ok, p1, b2))
              else Inr (True, p1, b1)))"

section \<open>Persistence\<close>

definition packet_id_persist_init :: packet_id_persist where
  "packet_id_persist_init =
     \<lparr>pp_filename = None, pp_fd = -1, pp_time = 0, pp_id = 0, pp_time_last_written = 0, pp_id_last_written = 0\<rparr>"

definition packet_id_persist_close :: "packet_id_persist \<Rightarrow> packet_id_persist" where
  "packet_id_persist_close p = (if packet_id_persist_enabled p then packet_id_persist_init else p)"

text \<open>
  \<open>fd\<close> is what \<open>open\<close> returns, \<open>lock_failed\<close> whether \<open>flock\<close> fails (a fatal error), and
  \<open>img\<close> the file image when \<open>read\<close> delivers a whole one.
\<close>

definition packet_id_persist_load ::
    "packet_id_persist \<Rightarrow> string \<Rightarrow> int \<Rightarrow> bool \<Rightarrow> (int \<times> u32) option \<Rightarrow> packet_id_persist res" where
  "packet_id_persist_load p fname fd lock_failed img =
     (if \<not> packet_id_persist_enabled p then
        (let p1 = p\<lparr>pp_fd := fd\<rparr> in
         if fd = -1 then Inr p1
         else if lock_failed then Inl Msg_Fatal
         else let p2 = p1\<lparr>pp_filename := Some fname\<rparr> in
           Inr (case img of
                  None \<Rightarrow> p2
                | Some (t, i) \<Rightarrow> p2\<lparr>pp_time := t, pp_time_last_written := t, pp_id := i, pp_id_last_written := i\<rparr>))
      else Inr p)"

text \<open>The image to be written, if any; \<open>seek_ok\<close> and \<open>write_ok\<close> are the system's answers.\<close>

definition packet_id_persist_save ::
    "packet_id_persist \<Rightarrow> bool \<Rightarrow> bool \<Rightarrow> packet_id_persist \<times> (int \<times> u32) option" where
  "packet_id_persist_save p seek_ok write_ok =
     (if packet_id_persist_enabled p \<and> pp_time p \<noteq> 0
         \<and> (pp_time p \<noteq> pp_time_last_written p \<or> pp_id p \<noteq> pp_id_last_written p)
      then if seek_ok then
             (if write_ok then (p\<lparr>pp_time_last_written := pp_time p, pp_id_last_written := pp_id p\<rparr>,
                                Some (pp_time p, pp_id p))
              else (p, None))
           else (p, None)
      else (p, None))"

definition packet_id_persist_load_obj :: "packet_id_persist \<Rightarrow> packet_id \<Rightarrow> packet_id" where
  "packet_id_persist_load_obj p pid =
     (if packet_id_persist_enabled p \<and> pp_time p \<noteq> 0
      then pid\<lparr>pid_rec := (pid_rec pid)\<lparr>pr_time := pp_time p, pr_id := pp_id p\<rparr>\<rparr> else pid)"

section \<open>Small helpers\<close>

definition packet_id_initialized :: "packet_id \<Rightarrow> bool" where
  "packet_id_initialized pid = pr_initialized (pid_rec pid)"

definition packet_id_size :: "bool \<Rightarrow> int" where
  "packet_id_size long_form = 4 + (if long_form then 4 else 0)"

definition packet_id_close_to_wrapping :: "packet_id_send \<Rightarrow> bool" where
  "packet_id_close_to_wrapping p \<longleftrightarrow> ps_id p \<ge> PACKET_ID_WRAP_TRIGGER"

text \<open>The difference is stored in an \<open>unsigned int\<close>, that is, modulo \<open>2^32\<close>.\<close>

definition check_timestamp_delta :: "int \<Rightarrow> int \<Rightarrow> u32 \<Rightarrow> bool" where
  "check_timestamp_delta now remote max_delta =
     (let ab = (if now \<ge> remote then word_of_int (now - remote) else word_of_int (remote - now)) :: u32
      in ab \<le> max_delta)"

end
