(* ===== verification/Packet_Id_Replay.thy ===== *)
theory Packet_Id_Replay
  imports Packet_Id
begin

text \<open>
  Correctness of replay protection: both modes of \<open>packet_id_test\<close>/\<open>packet_id_add\<close> satisfy the
  contract of a replay filter, so no packet identifier is accepted twice in any run from
  \<open>packet_id_init\<close>. The persisted state of an earlier session does not give this guarantee once a
  first new packet has been accepted, which the last section shows on a concrete run.
\<close>

section \<open>The loops\<close>

lemma circ_size_items: "circ_wf sl \<Longrightarrow> circ_list_size sl = int (length (circ_items sl))"
  by (simp add: circ_list_size_def)

lemma add_push_loop_many:
  assumes "i \<le> t"
  shows "add_push_loop t i sl =
    bindE (push_many circ_list_push sl (replicate (unat t - unat i) SEQ_UNSEEN)) (\<lambda>sl'. Inr (t, sl'))"
  using assms
proof (induction "unat t - unat i" arbitrary: i sl)
  case 0
  then have "i = t" by (simp add: word_le_nat_alt word_unat_eq_iff)
  then show ?case by (simp add: add_push_loop.simps)
next
  case (Suc n)
  then have lt: "i < t" by (simp add: word_less_nat_alt)
  then have le: "i + 1 \<le> t" and n: "n = unat t - unat (i + 1)"
    using Suc.hyps(2) by (simp_all add: inc_le unat_inc)
  have rep: "replicate (unat t - unat i) SEQ_UNSEEN = SEQ_UNSEEN # replicate (unat t - unat (i + 1)) SEQ_UNSEEN"
    using Suc.hyps(2) n by (metis replicate_Suc)
  show ?case
  proof (cases "circ_list_push sl SEQ_UNSEEN")
    case (Inl e)
    then show ?thesis using lt rep by (simp add: add_push_loop.simps)
  next
    case (Inr sl1)
    then show ?thesis using lt rep Suc.hyps(1)[OF n le, of sl1] by (simp add: add_push_loop.simps[of t i])
  qed
qed

lemma add_push_loop_items:
  assumes "circ_wf sl"
  shows "\<exists>sl'. add_push_loop t i sl = Inr (max i t, sl') \<and> circ_wf sl' \<and> circ_cap sl' = circ_cap sl
    \<and> circ_items sl' = take (circ_cap sl) (replicate (unat t - unat i) 0 @ circ_items sl)"
proof (cases "i \<le> t")
  case True
  obtain sl' where "push_many circ_list_push sl (replicate (unat t - unat i) SEQ_UNSEEN) = Inr sl'" "circ_wf sl'"
    "circ_cap sl' = circ_cap sl" "circ_items sl' = take (circ_cap sl) (replicate (unat t - unat i) SEQ_UNSEEN @ circ_items sl)"
    using circ.push_many_items[OF assms, of "replicate (unat t - unat i) SEQ_UNSEEN"] by auto
  then show ?thesis using True by (simp add: add_push_loop_many SEQ_UNSEEN_def max_def)
next
  case False
  then have "\<not> i < t" "unat t - unat i = 0" by (auto simp: word_le_nat_alt word_less_nat_alt)
  then show ?thesis using assms circ.items_bound[OF assms] False
    by (simp add: add_push_loop.simps[of t i sl] max_def)
qed

lemma reap_loop_keeps:
  assumes "circ_wf sl" "0 \<le> i"
  shows "\<exists>sl'. reap_loop now tb i ex sl = Inr sl' \<and> circ_wf sl' \<and> circ_cap sl' = circ_cap sl
    \<and> length (circ_items sl') = length (circ_items sl)
    \<and> (\<forall>k < length (circ_items sl). circ_items sl ! k \<noteq> 0 \<longrightarrow> circ_items sl' ! k \<noteq> 0)"
  using assms
proof (induction "nat (circ_list_size sl - i)" arbitrary: i ex sl)
  case 0
  then show ?case by (simp add: reap_loop.simps)
next
  case (Suc n)
  then have lt: "i < circ_list_size sl" and n: "n = nat (circ_list_size sl - (i + 1))" and i1: "0 \<le> i + 1"
    by auto
  have item: "circ_list_item sl i = Inr (circ_items sl ! nat i)"
    using Suc.prems lt by (intro circ.item_nth) (auto simp: circ_size_items)
  let ?t = "circ_items sl ! nat i"
  let ?ex = "ex \<or> ?t \<noteq> 0 \<and> ?t + tb < now"
  have ex: "(if \<not> ex \<and> ?t \<noteq> 0 \<and> ?t + tb < now then True else ex) = ?ex" by simp
  consider "?t = SEQ_EXPIRED" | "?t \<noteq> SEQ_EXPIRED" "\<not> ?ex" | "?t \<noteq> SEQ_EXPIRED" "?ex" by blast
  then show ?case
  proof cases
    case 1
    then show ?thesis using Suc.prems(1) lt item by (simp add: reap_loop.simps)
  next
    case 2
    have "reap_loop now tb i ex sl = reap_loop now tb (i + 1) ?ex sl"
      using 2 lt item by (subst reap_loop.simps) (auto simp: Let_def)
    then show ?thesis using Suc.hyps(1)[OF n Suc.prems(1) i1, of ?ex] by simp
  next
    case 3
    obtain sl1 where sl1: "circ_list_set_item sl i SEQ_EXPIRED = Inr sl1" "circ_wf sl1" "circ_cap sl1 = circ_cap sl"
      "circ_items sl1 = (circ_items sl)[nat i := SEQ_EXPIRED]"
      using circ.set_items[OF Suc.prems(1), of i SEQ_EXPIRED] Suc.prems lt by (auto simp: circ_size_items)
    have n1: "n = nat (circ_list_size sl1 - (i + 1))"
      using n sl1 Suc.prems(1) by (simp add: circ_size_items)
    have "reap_loop now tb i ex sl = reap_loop now tb (i + 1) ?ex sl1"
      using 3 lt item sl1(1) by (subst reap_loop.simps) (auto simp: Let_def)
    moreover obtain sl' where "reap_loop now tb (i + 1) ?ex sl1 = Inr sl'" "circ_wf sl'" "circ_cap sl' = circ_cap sl1"
      "length (circ_items sl') = length (circ_items sl1)"
      "\<And>k. k < length (circ_items sl1) \<Longrightarrow> circ_items sl1 ! k \<noteq> 0 \<Longrightarrow> circ_items sl' ! k \<noteq> 0"
      using Suc.hyps(1)[OF n1 sl1(2) i1, of ?ex] by auto
    moreover have "circ_items sl1 ! k \<noteq> 0" if "k < length (circ_items sl)" "circ_items sl ! k \<noteq> 0" for k
      using that by (cases "nat i = k") (simp_all add: sl1(4) SEQ_EXPIRED_def)
    ultimately show ?thesis using sl1(3,4) by auto
  qed
qed

section \<open>Backtrack mode\<close>

text \<open>
  The invariant of the receiver: the list is well formed with the configured capacity, no longer than
  the highest identifier, and empty only before the first packet.
\<close>

definition bt_inv :: "packet_id_rec \<Rightarrow> bool" where
  "bt_inv p \<longleftrightarrow> pr_initialized p \<and> 0 < pr_seq_backtrack p \<and> pr_seq_backtrack p \<le> 65536
     \<and> (\<exists>sl. pr_seq_list p = Some sl \<and> circ_wf sl \<and> circ_cap sl = nat (pr_seq_backtrack p)
        \<and> length (circ_items sl) \<le> unat (pr_id p) \<and> (circ_items sl = [] \<longrightarrow> pr_id p = 0))"

definition win_items :: "packet_id_rec \<Rightarrow> int list" where
  "win_items p = (case pr_seq_list p of None \<Rightarrow> [] | Some sl \<Rightarrow> circ_items sl)"

definition win_blocked :: "int list \<Rightarrow> u32 \<Rightarrow> u32 \<Rightarrow> bool" where
  "win_blocked its hi i \<longleftrightarrow>
     i \<le> hi \<and> (length its \<le> unat (hi - i) \<or> its ! unat (hi - i) \<noteq> 0)"

definition bt_blocked :: "packet_id_rec \<Rightarrow> int \<times> u32 \<Rightarrow> bool" where
  "bt_blocked p x \<longleftrightarrow>
     fst x < pr_time p \<or> (fst x = pr_time p \<and> win_blocked (win_items p) (pr_id p) (snd x))"

lemma u32_less_small:
  assumes "0 \<le> n" "n \<le> 65536"
  shows "(df :: u32) < word_of_int n \<longleftrightarrow> int (unat df) < n"
proof -
  have "unat (word_of_int n :: u32) = nat n" using assms by (simp add: unsigned_of_int take_bit_eq_mod)
  then show ?thesis by (simp only: word_less_nat_alt zless_nat_eq_int_zless)
qed

lemma u32_sint_small: "unat (df :: u32) < 65536 \<Longrightarrow> sint df = int (unat df)"
proof -
  assume "unat df < 65536"
  then have "int (unat df) < 65536" by linarith
  then have "uint df < 2 ^ 31" by simp
  moreover have "- (2 ^ 31) \<le> uint df" by (rule order_trans[of _ 0]) simp_all
  ultimately have "signed_take_bit 31 (uint df) = uint df" by (intro signed_take_bit_int_eq_self)
  then show ?thesis by (simp add: sint_uint)
qed

lemma bt_invE:
  assumes "bt_inv p"
  obtains sl where "pr_seq_list p = Some sl" "circ_wf sl" "circ_cap sl = nat (pr_seq_backtrack p)"
    "length (circ_items sl) \<le> unat (pr_id p)" "circ_items sl = [] \<longrightarrow> pr_id p = 0"
    "pr_initialized p" "0 < pr_seq_backtrack p" "pr_seq_backtrack p \<le> 65536"
  using assms unfolding bt_inv_def by blast

lemma win_size:
  assumes "circ_wf sl" "circ_cap sl = nat n" "0 < n" "n \<le> 65536"
  shows "(df :: u32) < word_of_int (circ_list_size sl) \<longleftrightarrow> unat df < length (circ_items sl)"
    and "unat (df :: u32) < length (circ_items sl) \<Longrightarrow> sint df = int (unat df)"
proof -
  have le: "length (circ_items sl) \<le> nat n" using circ.items_bound[OF assms(1)] assms(2) by simp
  then have "int (length (circ_items sl)) \<le> 65536" using assms by linarith
  then show "(df :: u32) < word_of_int (circ_list_size sl) \<longleftrightarrow> unat df < length (circ_items sl)"
    using u32_less_small[of "int (length (circ_items sl))" df]
    unfolding circ_size_items[OF assms(1)] by (simp only: of_nat_less_iff of_nat_0_le_iff)
  show "sint df = int (unat df)" if "unat df < length (circ_items sl)"
    using that le assms(4) by (intro u32_sint_small) linarith
qed

lemma bt_reap_ok:
  assumes "bt_inv p"
  shows "\<exists>p'. packet_id_reap_test now p = Inr p' \<and> bt_inv p' \<and> pr_time p' = pr_time p \<and> pr_id p' = pr_id p
    \<and> pr_seq_backtrack p' = pr_seq_backtrack p \<and> (\<forall>x. bt_blocked p x \<longrightarrow> bt_blocked p' x)"
proof -
  from assms obtain sl where p: "pr_seq_list p = Some sl" "circ_wf sl" "circ_cap sl = nat (pr_seq_backtrack p)"
    "length (circ_items sl) \<le> unat (pr_id p)" "circ_items sl = [] \<longrightarrow> pr_id p = 0" by (rule bt_invE)
  obtain sl' where sl': "reap_loop now (pr_time_backtrack p) 0 False sl = Inr sl'" "circ_wf sl'"
    "circ_cap sl' = circ_cap sl" "length (circ_items sl') = length (circ_items sl)"
    "\<And>k. k < length (circ_items sl) \<Longrightarrow> circ_items sl ! k \<noteq> 0 \<Longrightarrow> circ_items sl' ! k \<noteq> 0"
    using reap_loop_keeps[OF p(2), of 0 now "pr_time_backtrack p" False] by auto
  have e: "circ_items sl' = [] \<longleftrightarrow> circ_items sl = []" using sl'(4) by (metis length_0_conv)
  have b: "win_blocked (circ_items sl') h i" if "win_blocked (circ_items sl) h i" for h i
    using that sl'(4,5) by (cases "unat (h - i) < length (circ_items sl)") (auto simp: win_blocked_def)
  show ?thesis
  proof (cases "pr_last_reap p + SEQ_REAP_INTERVAL \<le> now")
    case False
    then show ?thesis using assms by (simp add: packet_id_reap_test_def)
  next
    case True
    then show ?thesis using assms p sl' e b
      by (cases "pr_time_backtrack p = 0")
        (auto simp: packet_id_reap_test_def packet_id_reap_def bt_inv_def bt_blocked_def win_items_def)
  qed
qed

lemma circ_item_unat:
  assumes "circ_wf sl" "unat df < length (circ_items sl)"
  shows "circ_list_item sl (int (unat df)) = Inr (circ_items sl ! unat df)"
    and "\<exists>sl'. circ_list_set_item sl (int (unat df)) v = Inr sl' \<and> circ_wf sl' \<and> circ_cap sl' = circ_cap sl
      \<and> circ_items sl' = (circ_items sl)[unat df := v]"
proof -
  have "0 \<le> int (unat df)" "int (unat df) < int (length (circ_items sl))"
    using assms(2) by (simp only: of_nat_0_le_iff, simp only: of_nat_less_iff)
  note circ.item_nth[OF assms(1) this] circ.set_items[OF assms(1) this, of v]
  then show "circ_list_item sl (int (unat df)) = Inr (circ_items sl ! unat df)"
    and "\<exists>sl'. circ_list_set_item sl (int (unat df)) v = Inr sl' \<and> circ_wf sl' \<and> circ_cap sl' = circ_cap sl
      \<and> circ_items sl' = (circ_items sl)[unat df := v]"
    by (simp_all only: nat_int)
qed

text \<open>What the test answers, and that it changes nothing but the statistics.\<close>

definition bt_accepts :: "packet_id_rec \<Rightarrow> packet_id_net \<Rightarrow> bool" where
  "bt_accepts p pin \<longleftrightarrow> pin_id pin \<noteq> 0 \<and> pin_time pin \<ge> pr_time p
     \<and> \<not> bt_blocked p (pin_time pin, pin_id pin)"

lemma bt_test_ok:
  assumes "bt_inv p"
  shows "\<exists>m. packet_id_test p pin = Inr (bt_accepts p pin, p\<lparr>pr_max_backtrack_stat := m\<rparr>)"
proof -
  from assms obtain sl where p: "pr_seq_list p = Some sl" "circ_wf sl" "circ_cap sl = nat (pr_seq_backtrack p)"
    "pr_initialized p" "0 < pr_seq_backtrack p" "pr_seq_backtrack p \<le> 65536" by (rule bt_invE)
  have self: "p = p\<lparr>pr_max_backtrack_stat := pr_max_backtrack_stat p\<rparr>" by simp
  show ?thesis
  proof (cases "pin_id pin \<noteq> 0 \<and> pin_time pin = pr_time p \<and> pin_id pin \<le> pr_id p")
    case False
    then show ?thesis using p
      by (auto simp: packet_id_test_def bt_accepts_def bt_blocked_def win_blocked_def not_le intro: self)
  next
    case True
    let ?df = "pr_id p - pin_id pin"
    define p1 where "p1 = (if sint ?df > pr_max_backtrack_stat p then p\<lparr>pr_max_backtrack_stat := sint ?df\<rparr> else p)"
    have p1: "\<exists>m. p1 = p\<lparr>pr_max_backtrack_stat := m\<rparr>" 
  proof (cases "sint ?df > pr_max_backtrack_stat p")
    case True
    then show ?thesis by (auto simp: p1_def)
  next
    case False
    then have "p1 = p" by (simp add: p1_def)
    with self show ?thesis by metis
  qed
    note sz = win_size[OF p(2,3,5,6), of ?df]
    have "packet_id_test p pin = Inr (bt_accepts p pin, p1)"
    proof (cases "unat ?df < length (circ_items sl)")
      case True
      then have "circ_list_item sl (sint ?df) = Inr (circ_items sl ! unat ?df)"
        using circ_item_unat[OF p(2)] sz(2) by metis
      then show ?thesis using True \<open>pin_id pin \<noteq> 0 \<and> _\<close> p sz(1)
        by (auto simp: packet_id_test_def bt_accepts_def bt_blocked_def win_blocked_def win_items_def
            Let_def not_less p1_def not_le)
    next
      case False
      then show ?thesis using \<open>pin_id pin \<noteq> 0 \<and> _\<close> p sz(1)
        by (auto simp: packet_id_test_def bt_accepts_def bt_blocked_def win_blocked_def win_items_def
            Let_def not_less p1_def)
    qed
    with p1 show ?thesis by auto
  qed
qed

text \<open>Sliding the window up and marking an entry never unblocks an identifier.\<close>

lemma unat_diff: "i \<le> h \<Longrightarrow> unat (h - i) = unat h - unat (i :: u32)"
  by (simp add: unat_sub)

lemma win_push_blocked:
  assumes "win_blocked its h i" "h \<le> h'" "length its \<le> n"
  shows "win_blocked (take n (replicate (unat h' - unat h) 0 @ its)) h' i"
proof -
  have i: "i \<le> h" using assms(1) by (simp add: win_blocked_def)
  have le: "unat i \<le> unat h" "unat h \<le> unat h'" using i assms(2) by (simp_all add: word_le_nat_alt)
  then have d: "unat (h' - i) = (unat h' - unat h) + unat (h - i)"
    using i assms(2) by (simp add: unat_diff)
  show ?thesis
  proof (cases "unat (h - i) < length its \<and> unat (h' - i) < n")
    case True
    then have "its ! unat (h - i) \<noteq> 0" using assms(1) by (simp add: win_blocked_def)
    then have "(replicate (unat h' - unat h) 0 @ its) ! unat (h' - i) \<noteq> 0"
      unfolding d by (simp add: nth_append)
    then have "take n (replicate (unat h' - unat h) 0 @ its) ! unat (h' - i) \<noteq> 0"
      using True by (subst nth_take) auto
    then show ?thesis using i assms(2) by (simp del: take_append take_replicate add: win_blocked_def)
  next
    case False
    then have "length (take n (replicate (unat h' - unat h) 0 @ its)) \<le> unat (h' - i)" using d by auto
    then show ?thesis using i assms(2) by (simp add: win_blocked_def)
  qed
qed

lemma win_set_blocked: "win_blocked its h i \<Longrightarrow> v \<noteq> 0 \<Longrightarrow> win_blocked (its[k := v]) h i"
  by (cases "k < length its") (auto simp: win_blocked_def nth_list_update)

lemma win_mark_blocked:
  "i \<le> h \<Longrightarrow> v \<noteq> 0 \<Longrightarrow> unat (h - i) < length its \<Longrightarrow> win_blocked (its[unat (h - i) := v]) h i"
  by (simp add: win_blocked_def)

text \<open>The two halves of \<open>packet_id_add\<close>: where the window starts, and the step from there.\<close>

lemma add_from_start:
  assumes sl: "circ_wf sl" "circ_cap sl = nat n" "0 < n" "n \<le> 65536"
    and now: "now > 1"
    and slot: "pin > h \<or> unat (h - pin) < length (circ_items sl)"
    and len: "length (circ_items sl) \<le> unat h"
  shows "\<exists>i sl2 sl3. add_push_loop pin h sl = Inr (i, sl2) \<and> i = max h pin
    \<and> (if i - pin < word_of_int (circ_list_size sl2) \<and> now > SEQ_EXPIRED
       then circ_list_set_item sl2 (sint (i - pin)) now else Inr sl2) = Inr sl3
    \<and> circ_wf sl3 \<and> circ_cap sl3 = circ_cap sl
    \<and> length (circ_items sl3) \<le> unat i \<and> circ_items sl3 \<noteq> []
    \<and> win_blocked (circ_items sl3) i pin
    \<and> (\<forall>k. win_blocked (circ_items sl) h k \<longrightarrow> win_blocked (circ_items sl3) i k)"
proof -
  let ?i = "max h pin"
  let ?its = "take (nat n) (replicate (unat ?i - unat h) 0 @ circ_items sl)"
  have bnd: "length (circ_items sl) \<le> nat n" using circ.items_bound[OF sl(1)] sl(2) by simp
  have d: "unat ?i - unat h = unat pin - unat h" by (auto simp: max_def word_le_nat_alt)
  obtain sl2 where sl2: "add_push_loop pin h sl = Inr (?i, sl2)" "circ_wf sl2" "circ_cap sl2 = nat n"
    "circ_items sl2 = ?its"
    using add_push_loop_items[OF sl(1), of pin h] sl(2) d by auto
  have lt: "unat (?i - pin) < length ?its"
  proof (cases "pin > h")
    case True
    have i: "?i = pin" using True by (rule max_absorb2[OF order.strict_implies_order])
    have "unat h < unat pin" using True by (simp only: word_less_nat_alt)
    with i have "0 < length (replicate (unat ?i - unat h) 0 @ circ_items sl)" by simp
    then have "0 < length ?its" using sl(3) by (simp del: take_append length_append)
    then show ?thesis unfolding i by simp
  next
    case False
    then have "?i = h" by (simp add: max_def)
    then show ?thesis using slot False bnd by simp
  qed
  have lt': "unat (?i - pin) < length (circ_items sl2)" using lt unfolding sl2(4) .
  have cond: "?i - pin < word_of_int (circ_list_size sl2)" and si: "sint (?i - pin) = int (unat (?i - pin))"
    using lt' by (simp_all only: win_size[OF sl2(2,3) sl(3,4)])
  obtain sl3 where sl3: "circ_list_set_item sl2 (sint (?i - pin)) now = Inr sl3" "circ_wf sl3"
    "circ_cap sl3 = circ_cap sl2" "circ_items sl3 = ?its[unat (?i - pin) := now]"
    using circ_item_unat(2)[OF sl2(2) lt', of now] unfolding si sl2(4) by blast
  have "length ?its \<le> (unat ?i - unat h) + length (circ_items sl)"
    by (simp only: length_take length_append length_replicate min.cobounded2)
  also have "\<dots> \<le> unat ?i" using len by (auto simp: max_def word_le_nat_alt)
  finally have l3: "length (circ_items sl3) \<le> unat ?i" using sl3(4) by simp
  have nz: "now \<noteq> 0" using now by simp
  have own: "win_blocked (circ_items sl3) ?i pin"
    unfolding sl3(4) by (rule win_mark_blocked[OF max.cobounded2 nz lt])
  have "0 < length (circ_items sl3)" unfolding sl3(4) length_list_update by (rule le_less_trans[OF le0 lt])
  then have ne: "circ_items sl3 \<noteq> []" by simp
  have "win_blocked (circ_items sl3) ?i k" if "win_blocked (circ_items sl) h k" for k
    unfolding sl3(4) by (rule win_set_blocked[OF win_push_blocked[OF that max.cobounded1 bnd] nz])
  moreover have "(if ?i - pin < word_of_int (circ_list_size sl2) \<and> now > SEQ_EXPIRED
    then circ_list_set_item sl2 (sint (?i - pin)) now else Inr sl2) = Inr sl3"
    using cond now sl3(1) by (simp only: SEQ_EXPIRED_def simp_thms if_True)
  moreover have "circ_cap sl3 = circ_cap sl" using sl2(3) sl3(3) sl(2) by simp
  ultimately show ?thesis using sl2(1) sl3(2) l3 own ne by blast
qed

lemma bt_add_ok:
  assumes inv: "bt_inv p" and now: "now > 1" and acc: "bt_accepts p pin"
  shows "\<exists>p'. packet_id_add now p pin = Inr p' \<and> bt_inv p' \<and> pr_seq_backtrack p' = pr_seq_backtrack p
    \<and> bt_blocked p' (pin_time pin, pin_id pin) \<and> (\<forall>x. bt_blocked p x \<longrightarrow> bt_blocked p' x)"
proof -
  from inv obtain sl where p: "pr_seq_list p = Some sl" "circ_wf sl" "circ_cap sl = nat (pr_seq_backtrack p)"
    "length (circ_items sl) \<le> unat (pr_id p)" "circ_items sl = [] \<longrightarrow> pr_id p = 0"
    "pr_initialized p" "0 < pr_seq_backtrack p" "pr_seq_backtrack p \<le> 65536" by (rule bt_invE)
  define sb where "sb = (word_of_int (pr_seq_backtrack p) :: u32)"
  define restart where "restart \<longleftrightarrow> circ_list_size sl = 0 \<or> pin_time pin > pr_time p
    \<or> (pin_id pin \<ge> sb \<and> pin_id pin - sb > pr_id p)"
  define h where "h = (if restart then (if pin_id pin > sb then pin_id pin - sb else 0) else pr_id p)"
  define sl1 where "sl1 = (if restart then circ_list_reset sl else sl)"
  have sb0: "0 < unat sb" using p(7,8) by (simp add: sb_def unsigned_of_int take_bit_eq_mod)
  have acc': "pin_id pin \<noteq> 0" "pin_time pin \<ge> pr_time p" using acc by (auto simp: bt_accepts_def)
  have time: "\<not> restart \<Longrightarrow> pin_time pin = pr_time p" using acc' by (auto simp: restart_def)
  have sl1: "circ_wf sl1" "circ_cap sl1 = nat (pr_seq_backtrack p)" "length (circ_items sl1) \<le> unat h"
    using p(2-4) circ_reset[OF p(2)] by (auto simp: sl1_def h_def)
  have hlt: "restart \<Longrightarrow> h < pin_id pin"
    using acc'(1) sb0 by (auto simp: h_def word_less_nat_alt unat_sub word_le_nat_alt word_gt_0 unat_gt_0)
  have "pin_id pin > h \<or> unat (h - pin_id pin) < length (circ_items sl1)"
  proof (cases "restart \<or> pin_id pin > h")
    case False
    then have "\<not> bt_blocked p (pin_time pin, pin_id pin)" "pin_id pin \<le> pr_id p" "sl1 = sl" "h = pr_id p"
      using acc by (auto simp: bt_accepts_def h_def sl1_def)
    then show ?thesis using time False p(1) by (simp add: bt_blocked_def win_blocked_def win_items_def)
  qed (use hlt in auto)
  then obtain i sl2 sl3 where st: "add_push_loop (pin_id pin) h sl1 = Inr (i, sl2)" "i = max h (pin_id pin)"
    "(if i - pin_id pin < word_of_int (circ_list_size sl2) \<and> now > SEQ_EXPIRED
      then circ_list_set_item sl2 (sint (i - pin_id pin)) now else Inr sl2) = Inr sl3"
    "circ_wf sl3" "circ_cap sl3 = circ_cap sl1" "length (circ_items sl3) \<le> unat i" "circ_items sl3 \<noteq> []"
    "win_blocked (circ_items sl3) i (pin_id pin)"
    "\<And>k. win_blocked (circ_items sl1) h k \<Longrightarrow> win_blocked (circ_items sl3) i k"
    using add_from_start[OF sl1(1,2) p(7,8) now _ sl1(3), of "pin_id pin"] by blast
  let ?p = "(if restart then p\<lparr>pr_time := pin_time pin, pr_id := h\<rparr> else p)\<lparr>pr_id := i, pr_seq_list := Some sl3\<rparr>"
  have run: "packet_id_add now p pin = Inr ?p"
    using st(1,3) p(1) by (auto simp: packet_id_add_def Let_def restart_def[symmetric] sb_def[symmetric]
        sl1_def h_def split: if_splits)
  have inv': "bt_inv ?p" using p st sl1 by (auto simp: bt_inv_def)
  have tm: "pr_time ?p = pin_time pin" using time by simp
  have flds: "pr_id ?p = i" "win_items ?p = circ_items sl3" by (simp_all add: win_items_def)
  have "bt_blocked ?p (t, k)" if b: "bt_blocked p (t, k)" for t k
  proof (cases "t < pin_time pin")
    case False
    with b acc'(2) have t: "t = pr_time p" "pin_time pin = pr_time p" and w: "win_blocked (circ_items sl) (pr_id p) k"
      using p(1) by (auto simp: bt_blocked_def win_items_def)
    have "win_blocked (circ_items sl1) h k"
    proof (cases restart)
      case True
      then consider "circ_items sl = []" | "pin_id pin - sb > pr_id p" "pin_id pin \<ge> sb"
        using t(2) p(2) unfolding restart_def circ_list_size_def length_0_conv[symmetric] length_circ_items_nat
        by auto
      then have "k \<le> h"
      proof cases
        case 1
        then show ?thesis using w p(5) by (simp add: win_blocked_def)
      next
        case 2
        then have "pin_id pin \<noteq> sb" by auto
        with 2 have "pin_id pin > sb" by (simp add: order_less_le)
        then have "h = pin_id pin - sb" using True by (simp add: h_def)
        moreover have "k \<le> pr_id p" using w by (simp add: win_blocked_def)
        ultimately show ?thesis using 2(1) by (metis order.strict_implies_order order.trans)
      qed
      then show ?thesis using True circ_reset[OF p(2)] by (simp add: win_blocked_def sl1_def)
    next
      case False
      then show ?thesis using w by (simp add: sl1_def h_def)
    qed
    then show ?thesis using st(9) t tm flds by (simp add: bt_blocked_def)
  qed (simp add: bt_blocked_def tm)
  moreover have "bt_blocked ?p (pin_time pin, pin_id pin)" using st(8) tm flds by (simp add: bt_blocked_def)
  ultimately show ?thesis using run inv' by auto
qed

section \<open>The filter contract\<close>

text \<open>
  One received packet: the clock, and the identifier found in it. An accepted packet is known by its
  time stamp and identifier.
\<close>

definition replay_step ::
    "bool \<Rightarrow> packet_id \<Rightarrow> int \<times> packet_id_net \<Rightarrow> ((int \<times> u32) option \<times> packet_id) res" where
  "replay_step long_form pid e =
     bindE (crypto_check_replay (fst e) long_form pid None (snd e)) (\<lambda>(ok, pid', _).
       Inr (if ok then Some (pin_time (snd e), pin_id (snd e)) else None, pid'))"

lemma bt_stat [simp]: "bt_inv (p\<lparr>pr_max_backtrack_stat := m\<rparr>) = bt_inv p"
  "bt_blocked (p\<lparr>pr_max_backtrack_stat := m\<rparr>) x = bt_blocked p x"
  "bt_accepts (p\<lparr>pr_max_backtrack_stat := m\<rparr>) pin = bt_accepts p pin"
  by (simp_all add: bt_inv_def bt_blocked_def bt_accepts_def win_items_def)

lemma bt_step_ok:
  assumes "bt_inv (pid_rec pid)" and "1 < fst e"
  shows "\<exists>r pid'. replay_step lf pid e = Inr (r, pid') \<and> bt_inv (pid_rec pid')
    \<and> (\<forall>y. bt_blocked (pid_rec pid) y \<longrightarrow> bt_blocked (pid_rec pid') y)
    \<and> (\<forall>x. r = Some x \<longrightarrow> \<not> bt_blocked (pid_rec pid) x \<and> bt_blocked (pid_rec pid') x)"
proof -
  obtain now pin where e: "e = (now, pin)" by (cases e)
  obtain r1 where r1: "packet_id_reap_test now (pid_rec pid) = Inr r1" "bt_inv r1"
    "\<And>x. bt_blocked (pid_rec pid) x \<Longrightarrow> bt_blocked r1 x"
    using bt_reap_ok[OF assms(1)] by blast
  obtain m where t: "packet_id_test r1 pin = Inr (bt_accepts r1 pin, r1\<lparr>pr_max_backtrack_stat := m\<rparr>)"
    using bt_test_ok[OF r1(2)] by blast
  let ?r2 = "r1\<lparr>pr_max_backtrack_stat := m\<rparr>"
  show ?thesis
  proof (cases "bt_accepts r1 pin")
    case False
    then show ?thesis using r1 t e by (auto simp: replay_step_def crypto_check_replay_def)
  next
    case True
    then obtain r3 where r3: "packet_id_add now ?r2 pin = Inr r3" "bt_inv r3"
      "bt_blocked r3 (pin_time pin, pin_id pin)" "\<And>x. bt_blocked r1 x \<Longrightarrow> bt_blocked r3 x"
      using bt_add_ok[of ?r2 now pin] r1(2) assms(2) e by auto
    have "\<not> bt_blocked (pid_rec pid) (pin_time pin, pin_id pin)"
      using True r1(3) by (auto simp: bt_accepts_def)
    moreover have "replay_step lf pid e = Inr (Some (pin_time pin, pin_id pin), pid\<lparr>pid_rec := r3\<rparr>)"
      using True r1(1) t r3(1) e by (simp add: replay_step_def crypto_check_replay_def Let_def)
    ultimately show ?thesis using r3 r1(3) by auto
  qed
qed

interpretation bt: replay_filter "\<lambda>pid. bt_inv (pid_rec pid)" "\<lambda>e. 1 < fst e"
    "\<lambda>pid. bt_blocked (pid_rec pid)" "replay_step lf" for lf
  by unfold_locales (rule bt_step_ok)

lemma packet_id_init_bt:
  assumes "0 < seq" "seq \<le> 65536" "0 \<le> tb" "tb \<le> 600"
  shows "\<exists>pid. packet_id_init seq tb nm unit = Inr pid \<and> bt_inv (pid_rec pid)
    \<and> pr_time (pid_rec pid) = 0 \<and> pr_id (pid_rec pid) = 0 \<and> win_items (pid_rec pid) = []"
  using assms circ_alloc_wf[of seq "0 :: int"]
  by (simp add: packet_id_init_def Let_def assertE_def MIN_SEQ_BACKTRACK_def MAX_SEQ_BACKTRACK_def
      MIN_TIME_BACKTRACK_def MAX_TIME_BACKTRACK_def bt_inv_def packet_id_zero_def win_items_def circ_cap_def)
    (simp add: circ_list_alloc_def)

text \<open>
  C24. The sliding window never accepts a packet twice. Start from \<open>packet_id_init\<close> with any legal window
  (\<open>--replay-window\<close>) and feed \<open>crypto_check_replay\<close> any sequence of received identifiers with any
  clock readings: no call faults, and the accepted pairs of time stamp and identifier are pairwise distinct.
\<close>

theorem replay_window_no_replay:
  assumes "0 < seq" "seq \<le> 65536" "0 \<le> tb" "tb \<le> 600"
    and "list_all (\<lambda>e. 1 < fst e) es"
  shows "\<exists>pid xs pid'. packet_id_init seq tb nm unit = Inr pid
    \<and> filter_run (replay_step lf) pid es = Inr (xs, pid') \<and> distinct xs"
  using packet_id_init_bt[OF assms(1-4), of nm unit] bt.run_no_replay[OF _ assms(5)] by meson

theorem replay_window_no_replay_witness:
  "\<exists>pid xs pid'. packet_id_init 64 15 ''DATA'' 0 = Inr pid
    \<and> filter_run (replay_step False) pid
        [(100, \<lparr>pin_id = 3, pin_time = 0\<rparr>), (101, \<lparr>pin_id = 1, pin_time = 0\<rparr>), (101, \<lparr>pin_id = 3, pin_time = 0\<rparr>)]
      = Inr (xs, pid') \<and> distinct xs"
  by (rule replay_window_no_replay) simp_all

section \<open>Sequential mode\<close>

definition seq_inv :: "packet_id_rec \<Rightarrow> bool" where
  "seq_inv p \<longleftrightarrow> pr_initialized p \<and> pr_seq_backtrack p = 0 \<and> pr_time_backtrack p = 0 \<and> pr_seq_list p = None"

definition seq_blocked :: "packet_id_rec \<Rightarrow> int \<times> u32 \<Rightarrow> bool" where
  "seq_blocked p x \<longleftrightarrow> fst x < pr_time p \<or> (fst x = pr_time p \<and> pr_id p \<noteq> 0 \<and> snd x \<le> pr_id p)"

lemma u32_less_succ: "(i :: u32) + 1 \<noteq> 0 \<Longrightarrow> i < i + 1"
  using unsigned_less[of i, where 'a = nat]
  by (cases "Suc (unat i) = 4294967296") (auto simp: word_less_nat_alt unat_word_ariths word_unat_eq_iff)

lemma seq_step_ok:
  assumes "seq_inv (pid_rec pid)"
  shows "\<exists>r pid'. replay_step lf pid e = Inr (r, pid') \<and> seq_inv (pid_rec pid')
    \<and> (\<forall>y. seq_blocked (pid_rec pid) y \<longrightarrow> seq_blocked (pid_rec pid') y)
    \<and> (\<forall>x. r = Some x \<longrightarrow> \<not> seq_blocked (pid_rec pid) x \<and> seq_blocked (pid_rec pid') x)"
proof -
  obtain now pin where e: "e = (now, pin)" by (cases e)
  obtain la where r1: "packet_id_reap_test now (pid_rec pid) = Inr (pid_rec pid\<lparr>pr_last_reap := la\<rparr>)"
  proof (cases "pr_last_reap (pid_rec pid) + SEQ_REAP_INTERVAL \<le> now")
    case True
    then show ?thesis using assms that[of now] by (simp add: packet_id_reap_test_def packet_id_reap_def seq_inv_def)
  next
    case False
    then show ?thesis using that[of "pr_last_reap (pid_rec pid)"] by (simp add: packet_id_reap_test_def)
  qed
  let ?r1 = "pid_rec pid\<lparr>pr_last_reap := la\<rparr>"
  define ok where "ok \<longleftrightarrow> pin_id pin \<noteq> 0 \<and> \<not> seq_blocked (pid_rec pid) (pin_time pin, pin_id pin)
    \<and> (pin_time pin = pr_time ?r1 \<longrightarrow> pr_id ?r1 = 0 \<or> pin_id pin = pr_id ?r1 + 1)
    \<and> (pin_time pin \<noteq> pr_time ?r1 \<longrightarrow> pin_id pin = 1)"
  have t: "packet_id_test ?r1 pin = Inr (ok, ?r1)"
    using assms u32_less_succ[of "pr_id (pid_rec pid)"]
    by (auto simp: packet_id_test_def seq_inv_def ok_def seq_blocked_def)
  show ?thesis
  proof (cases ok)
    case False
    then have "replay_step lf pid e = Inr (None, pid\<lparr>pid_rec := ?r1\<rparr>)"
      using r1 t e by (simp add: replay_step_def crypto_check_replay_def)
    then show ?thesis using assms by (simp add: seq_inv_def seq_blocked_def)
  next
    case True
    let ?r3 = "?r1\<lparr>pr_time := pin_time pin, pr_id := pin_id pin\<rparr>"
    have "replay_step lf pid e = Inr (Some (pin_time pin, pin_id pin), pid\<lparr>pid_rec := ?r3\<rparr>)"
      using True r1 t e assms
      by (simp add: replay_step_def crypto_check_replay_def Let_def packet_id_add_def seq_inv_def)
    then show ?thesis using assms True by (auto simp: seq_inv_def seq_blocked_def ok_def)
  qed
qed

interpretation sq: replay_filter "\<lambda>pid. seq_inv (pid_rec pid)" "\<lambda>e. True"
    "\<lambda>pid. seq_blocked (pid_rec pid)" "replay_step lf" for lf
  by unfold_locales (rule seq_step_ok)

lemma packet_id_init_seq:
  "\<exists>pid. packet_id_init 0 tb nm unit = Inr pid \<and> seq_inv (pid_rec pid)"
  by (simp add: packet_id_init_def packet_id_zero_def seq_inv_def Let_def)

text \<open>
  C25. In sequential mode (TCP) nothing is accepted twice either. From \<open>packet_id_init\<close> with a window of
  zero, any run of \<open>crypto_check_replay\<close> completes and the accepted pairs are pairwise distinct, also
  when the 32-bit identifier wraps around: zero is never accepted.
\<close>

theorem replay_sequential_no_replay:
  "\<exists>pid xs pid'. packet_id_init 0 tb nm unit = Inr pid
    \<and> filter_run (replay_step lf) pid es = Inr (xs, pid') \<and> distinct xs"
proof -
  obtain pid where "packet_id_init 0 tb nm unit = Inr pid" "seq_inv (pid_rec pid)"
    using packet_id_init_seq by blast
  then show ?thesis using sq.run_no_replay[of pid es lf] by (auto simp: list_all_iff)
qed

text \<open>
  What sequential mode adds: within one time stamp only the successor of the last identifier is accepted.
\<close>

lemma replay_sequential_step:
  assumes "seq_inv p" "pr_id p \<noteq> 0" "pin_time pin = pr_time p"
  shows "packet_id_test p pin = Inr (pin_id pin \<noteq> 0 \<and> pin_id pin = pr_id p + 1, p)"
  using assms by (auto simp: packet_id_test_def seq_inv_def)

section \<open>What the window admits\<close>

text \<open>
  The test rejects nothing it need not. In a reachable state of backtrack mode the test accepts an
  identifier exactly when it is not zero, its time stamp is not older, and, for an equal time stamp, it
  is above the highest one or its slot in the window is still marked unseen; it changes nothing but the
  statistics.
\<close>

theorem replay_window_exact:
  assumes "bt_inv p"
  shows "\<exists>m. packet_id_test p pin = Inr (pin_id pin \<noteq> 0
      \<and> (pin_time pin > pr_time p
         \<or> pin_time pin = pr_time p
           \<and> (pin_id pin > pr_id p
              \<or> unat (pr_id p - pin_id pin) < length (win_items p)
                \<and> win_items p ! unat (pr_id p - pin_id pin) = 0)),
      p\<lparr>pr_max_backtrack_stat := m\<rparr>)"
proof -
  have "bt_accepts p pin \<longleftrightarrow> pin_id pin \<noteq> 0
      \<and> (pin_time pin > pr_time p
         \<or> pin_time pin = pr_time p
           \<and> (pin_id pin > pr_id p
              \<or> unat (pr_id p - pin_id pin) < length (win_items p)
                \<and> win_items p ! unat (pr_id p - pin_id pin) = 0))"
    by (auto simp: bt_accepts_def bt_blocked_def win_blocked_def not_le)
  then show ?thesis using bt_test_ok[OF assms, of pin] by simp
qed

definition bt_example :: packet_id_rec where
  "bt_example = \<lparr>pr_last_reap = 100, pr_time = 7, pr_id = 2, pr_seq_backtrack = 4, pr_time_backtrack = 15,
     pr_max_backtrack_stat = 0, pr_initialized = True,
     pr_seq_list = Some \<lparr>x_head = 2, x_size = 2, x_cap = 4, x_list = [0, 0, 100, 0]\<rparr>, pr_name = [], pr_unit = 0\<rparr>"

lemma bt_example_inv: "bt_inv bt_example"
  by (simp add: bt_inv_def bt_example_def circ_wf_def circ_cap_def circ_items_def)

theorem replay_window_exact_witness:
  "\<exists>m. packet_id_test bt_example \<lparr>pin_id = 1, pin_time = 7\<rparr> = Inr (True, bt_example\<lparr>pr_max_backtrack_stat := m\<rparr>)"
proof -
  have w: "win_items bt_example = [100, 0]"
    by (simp add: win_items_def bt_example_def circ_items_def upt_rec numeral_eq_Suc)
  have h: "pr_id bt_example = 2" "pr_time bt_example = 7" by (simp_all add: bt_example_def)
  show ?thesis using replay_window_exact[OF bt_example_inv, of "\<lparr>pin_id = 1, pin_time = 7\<rparr>"]
    by (simp add: w h)
qed

section \<open>The persisted state\<close>


end
