(* ===== verification/Packet_Id_Wire.thy ===== *)
theory Packet_Id_Wire
  imports Packet_Id_Replay
begin

text \<open>
  The sending side of replay protection and the wire format: identifiers are never reused, what
  \<open>packet_id_write\<close> puts into a packet \<open>packet_id_read\<close> takes out, and a receiver in sequential mode
  accepts everything a sender emits over an ordered lossless channel.
\<close>

section \<open>Reading back what was written\<close>

lemma packet_id_read_short:
  assumes "buf_wf b" "buf_content b = be32 i @ c"
  shows "packet_id_read b False = Inr (True, \<lparr>pin_id = i, pin_time = 0\<rparr>, buf_drop b 4)"
    and "buf_wf (buf_drop b 4)" "buf_content (buf_drop b 4) = c"
proof -
  have "4 \<le> b_len b" using content_prefix_len[OF assms(1,2)] by simp
  then show "packet_id_read b False = Inr (True, \<lparr>pin_id = i, pin_time = 0\<rparr>, buf_drop b 4)"
    "buf_wf (buf_drop b 4)" "buf_content (buf_drop b 4) = c"
    using assms by (simp_all add: packet_id_read_def buf_read_take wf_intros buf_drop_content)
qed

lemma packet_id_read_long:
  assumes "buf_wf b" "buf_content b = be32 i @ be32 t @ c"
  shows "\<exists>b'. packet_id_read b True = Inr (True, \<lparr>pin_id = i, pin_time = uint t\<rparr>, b')
    \<and> buf_wf b' \<and> buf_content b' = c"
proof -
  have l: "4 \<le> b_len b" "8 \<le> b_len b"
    using content_prefix_len[OF assms] content_prefix_len[of b "be32 i @ be32 t" c] assms by simp_all
  let ?b1 = "buf_drop b 4"
  have b1: "buf_wf ?b1" "buf_content ?b1 = be32 t @ c"
    using l assms by (simp_all add: wf_intros buf_drop_content)
  have "buf_wf (buf_drop ?b1 4)" "buf_content (buf_drop ?b1 4) = c"
    using l b1 by (simp_all add: wf_intros buf_drop_content)
  moreover have "packet_id_read b True = Inr (True, \<lparr>pin_id = i, pin_time = uint t\<rparr>, buf_drop ?b1 4)"
    using l assms b1 by (simp add: packet_id_read_def buf_read_take)
  ultimately show ?thesis by blast
qed

text \<open>The bytes of the identifier a state would send next.\<close>

definition pid_wire :: "packet_id_send \<Rightarrow> bool \<Rightarrow> byte list" where
  "pid_wire p long_form = be32 (ps_id p) @ (if long_form then be32 (word_of_int (ps_time p)) else [])"

lemma length_pid_wire: "int (length (pid_wire p lf)) = packet_id_size lf"
  by (simp add: pid_wire_def packet_id_size_def)

lemma packet_id_write_ok:
  assumes "buf_wf b" "packet_id_send_update now p lf = (True, p')"
    and "packet_id_size lf \<le> (if prepend then b_offset b else buf_room b)"
  shows "\<exists>b'. packet_id_write now p b lf prepend = Inr (True, p', b') \<and> buf_wf b'
    \<and> buf_content b' = (if prepend then pid_wire p' lf @ buf_content b else buf_content b @ pid_wire p' lf)"
proof (cases prepend)
  case True
  let ?t = "be32 (word_of_int (ps_time p'))"
  define b1 where "b1 = (if lf then buf_push_front b ?t else b)"
  have b1: "(if lf then buf_write_prepend b ?t else Inr (True, b)) = Inr (True, b1)" "buf_wf b1" "4 \<le> b_offset b1"
    "buf_content b1 = (if lf then ?t @ buf_content b else buf_content b)"
    using assms True
    by (auto simp: b1_def packet_id_size_def buf_write_prepend_push buf_push_front_content wf_intros)
  moreover have "buf_wf (buf_push_front b1 (be32 (ps_id p')))"
    "buf_content (buf_push_front b1 (be32 (ps_id p'))) = be32 (ps_id p') @ buf_content b1"
    using b1 by (simp_all add: wf_intros buf_push_front_content)
  ultimately show ?thesis using True assms(2)
    by (simp add: packet_id_write_def Let_def buf_write_prepend_push pid_wire_def)
next
  case False
  let ?i = "be32 (ps_id p')" and ?t = "be32 (word_of_int (ps_time p'))"
  have r: "int (length ?i) \<le> buf_room b" using assms(3) False by (simp add: packet_id_size_def split: if_splits)
  let ?b1 = "buf_append b ?i"
  have b1: "buf_write b ?i = Inr (True, ?b1)" "buf_wf ?b1" "buf_content ?b1 = buf_content b @ ?i"
    using r assms(1) by (simp_all add: buf_write_append buf_append_wf buf_append_content)
  show ?thesis
  proof (cases lf)
    case True
    then have r2: "int (length ?t) \<le> buf_room ?b1" using assms(3) False by (simp add: packet_id_size_def)
    then show ?thesis using True False b1 assms(2)
      by (simp add: packet_id_write_def Let_def buf_write_append buf_append_wf buf_append_content pid_wire_def)
  next
    case lf: False
    then show ?thesis using False b1 assms(2) by (simp add: packet_id_write_def Let_def pid_wire_def)
  qed
qed

text \<open>
  A packet identifier survives the wire. When the sender may still number a packet and the buffer has
  head room, \<open>packet_id_write\<close> in front of the packet succeeds, and \<open>packet_id_read\<close> of the result
  yields the sender's new identifier, its time stamp modulo \<open>2^32\<close> in the long form, and the packet as
  it was.
\<close>

theorem packet_id_roundtrip:
  assumes "buf_wf b" "packet_id_send_update now p lf = (True, p')" "packet_id_size lf \<le> b_offset b"
  shows "\<exists>b1 b2. packet_id_write now p b lf True = Inr (True, p', b1)
    \<and> packet_id_read b1 lf =
        Inr (True, \<lparr>pin_id = ps_id p', pin_time = (if lf then ps_time p' mod 2 ^ 32 else 0)\<rparr>, b2)
    \<and> buf_content b2 = buf_content b"
proof -
  obtain b1 where b1: "packet_id_write now p b lf True = Inr (True, p', b1)" "buf_wf b1"
    "buf_content b1 = pid_wire p' lf @ buf_content b"
    using packet_id_write_ok[OF assms(1,2), of True] assms(3) by auto
  show ?thesis
  proof (cases lf)
    case True
    then have "buf_content b1 = be32 (ps_id p') @ be32 (word_of_int (ps_time p')) @ buf_content b"
      using b1(3) by (simp add: pid_wire_def)
    from packet_id_read_long[OF b1(2) this] b1(1) True show ?thesis by (auto simp: uint_word_of_int)
  next
    case False
    then have "buf_content b1 = be32 (ps_id p') @ buf_content b" using b1(3) by (simp add: pid_wire_def)
    from packet_id_read_short[OF b1(2) this] b1(1) False show ?thesis by auto
  qed
qed

theorem packet_id_roundtrip_witness:
  "\<exists>b1 b2. packet_id_write 1700000000 \<lparr>ps_id = 41, ps_time = 1600000000\<rparr>
        \<lparr>b_capacity = 12, b_offset = 9, b_len = 2, b_data = Some (replicate 12 7)\<rparr> True True
      = Inr (True, \<lparr>ps_id = 42, ps_time = 1600000000\<rparr>, b1)
    \<and> packet_id_read b1 True = Inr (True, \<lparr>pin_id = 42, pin_time = 1600000000\<rparr>, b2)
    \<and> buf_content b2 = [7, 7]"
proof -
  let ?b = "\<lparr>b_capacity = 12, b_offset = 9, b_len = 2, b_data = Some (replicate 12 7)\<rparr>"
  let ?p = "\<lparr>ps_id = 41, ps_time = 1600000000\<rparr> :: packet_id_send"
  have "buf_wf ?b" by (simp add: buf_wf_def BUF_SIZE_MAX_def)
  moreover have "packet_id_send_update 1700000000 ?p True = (True, \<lparr>ps_id = 42, ps_time = 1600000000\<rparr>)"
    by code_simp
  moreover have "packet_id_size True \<le> b_offset ?b" by (simp add: packet_id_size_def)
  moreover have "buf_content ?b = [7, 7]" by code_simp
  ultimately show ?thesis using packet_id_roundtrip[of ?b 1700000000 ?p True] by fastforce
qed

section \<open>Identifiers are never reused\<close>

text \<open>The identifiers handed out by a sequence of calls at the given clock readings.\<close>

fun send_run :: "bool \<Rightarrow> packet_id_send \<Rightarrow> int list \<Rightarrow> (int \<times> u32) list" where
  "send_run lf p [] = []"
| "send_run lf p (now # ts) =
     (case packet_id_send_update now p lf of
        (True, p') \<Rightarrow> (ps_time p', ps_id p') # send_run lf p' ts
      | (False, p') \<Rightarrow> send_run lf p' ts)"

definition pid_less :: "int \<times> u32 \<Rightarrow> int \<times> u32 \<Rightarrow> bool" where
  "pid_less x y \<longleftrightarrow> fst x < fst y \<or> (fst x = fst y \<and> snd x < snd y)"

lemma u32_succ_less: "(i :: u32) \<noteq> PACKET_ID_MAX \<Longrightarrow> i < i + 1"
proof (rule u32_less_succ, rule notI)
  assume "i \<noteq> PACKET_ID_MAX" "i + 1 = 0"
  then show False by (simp add: PACKET_ID_MAX_def eq_neg_iff_add_eq_0)
qed

lemma send_update_less:
  assumes "packet_id_send_update now p lf = (ok, p')" "0 < now"
  shows "ok \<Longrightarrow> pid_less (ps_time p, ps_id p) (ps_time p', ps_id p') \<and> (\<not> lf \<longrightarrow> ps_id p < ps_id p')"
    and "\<not> ok \<Longrightarrow> (ps_time p' = ps_time p \<or> ps_time p = 0 \<and> 0 < ps_time p') \<and> ps_id p' = ps_id p"
  using assms u32_succ_less[of "ps_id p"]
  by (auto simp: packet_id_send_update_def Let_def pid_less_def split: if_splits)

lemma pid_less_trans: "pid_less x y \<Longrightarrow> pid_less y z \<Longrightarrow> pid_less x z"
  by (auto simp: pid_less_def)

lemma send_run_above:
  assumes "list_all (\<lambda>t. 0 < t) ts"
  shows "sorted_wrt pid_less (send_run lf p ts)
    \<and> (\<forall>x \<in> set (send_run lf p ts). pid_less (ps_time p, ps_id p) x)
    \<and> (\<not> lf \<longrightarrow> sorted_wrt (<) (map snd (send_run lf p ts)) \<and> (\<forall>x \<in> set (send_run lf p ts). ps_id p < snd x))"
  using assms
proof (induction ts arbitrary: p)
  case (Cons now ts)
  obtain ok p' where u: "packet_id_send_update now p lf = (ok, p')" by fastforce
  note l = send_update_less[OF u]
  have now: "0 < now" using Cons.prems by simp
  show ?case
  proof (cases ok)
    case True
    have a: "pid_less (ps_time p, ps_id p) (ps_time p', ps_id p')" and b: "\<not> lf \<longrightarrow> ps_id p < ps_id p'"
      using l(1)[OF now True] by simp_all
    have IH: "sorted_wrt pid_less (send_run lf p' ts)" "\<forall>x \<in> set (send_run lf p' ts). pid_less (ps_time p', ps_id p') x"
      "\<not> lf \<longrightarrow> sorted_wrt (<) (map snd (send_run lf p' ts)) \<and> (\<forall>x \<in> set (send_run lf p' ts). ps_id p' < snd x)"
      using Cons.IH[of p'] Cons.prems by auto
    have "\<forall>x \<in> set (send_run lf p' ts). pid_less (ps_time p, ps_id p) x"
      using IH(2) a pid_less_trans by blast
    moreover have "\<not> lf \<longrightarrow> (\<forall>x \<in> set (send_run lf p' ts). ps_id p < snd x)"
      using IH(3) b by (meson order.strict_trans)
    moreover have r: "send_run lf p (now # ts) = (ps_time p', ps_id p') # send_run lf p' ts"
      using u True by simp
    ultimately show ?thesis unfolding r using IH a b by (simp del: send_run.simps)
  next
    case False
    then have "pid_less (ps_time p', ps_id p') x \<longrightarrow> pid_less (ps_time p, ps_id p) x" for x
      using l(2)[OF now False] by (auto simp: pid_less_def)
    moreover have r: "send_run lf p (now # ts) = send_run lf p' ts" using u False by simp
    ultimately show ?thesis unfolding r using Cons.IH[of p'] Cons.prems l(2)[OF now False] by simp
  qed
qed simp

text \<open>
  C27. A sender never numbers two packets alike. However the clock moves, the pairs of time stamp and
  identifier that successive calls of \<open>packet_id_send_update\<close> hand out increase strictly, and in the
  short form the identifiers alone do: the call fails instead of wrapping.
\<close>

theorem packet_id_send_no_reuse:
  assumes "list_all (\<lambda>t. 0 < t) ts"
  shows "sorted_wrt pid_less (send_run lf p ts) \<and> (\<not> lf \<longrightarrow> sorted_wrt (<) (map snd (send_run lf p ts)))"
  using send_run_above[OF assms] by blast

theorem packet_id_send_no_reuse_witness:
  "send_run True \<lparr>ps_id = 0xFFFFFFFE, ps_time = 5\<rparr> [6, 5, 7] = [(5, 0xFFFFFFFF), (7, 1)]
   \<and> sorted_wrt pid_less (send_run True \<lparr>ps_id = 0xFFFFFFFE, ps_time = 5\<rparr> [6, 5, 7])
   \<and> sorted_wrt (<) (map snd (send_run False \<lparr>ps_id = 7, ps_time = 0\<rparr> [6, 5, 7]))"
proof (intro conjI)
  show "send_run True \<lparr>ps_id = 0xFFFFFFFE, ps_time = 5\<rparr> [6, 5, 7] = [(5, 0xFFFFFFFF), (7, 1)]"
    by (simp add: packet_id_send_update_def PACKET_ID_MAX_def)
  have t: "list_all (\<lambda>t. 0 < t) [6, 5, 7 :: int]" by simp
  show "sorted_wrt pid_less (send_run True \<lparr>ps_id = 0xFFFFFFFE, ps_time = 5\<rparr> [6, 5, 7])"
    using packet_id_send_no_reuse[OF t] by blast
  show "sorted_wrt (<) (map snd (send_run False \<lparr>ps_id = 7, ps_time = 0\<rparr> [6, 5, 7]))"
    using packet_id_send_no_reuse[OF t] by blast
qed

section \<open>Sender and receiver together\<close>

definition seq_synced :: "packet_id_send \<Rightarrow> packet_id_rec \<Rightarrow> bool" where
  "seq_synced s p \<longleftrightarrow> seq_inv p \<and> ps_id s = pr_id p \<and> ps_time s = pr_time p
     \<and> (ps_time s = 0 \<and> ps_id s = 0 \<or> 0 < ps_time s)"

lemma seq_accept:
  assumes "seq_inv (pid_rec pid)" "pin_id pin \<noteq> 0"
    and "pin_time pin = pr_time (pid_rec pid) \<and> pin_id pin = pr_id (pid_rec pid) + 1
      \<or> pin_time pin > pr_time (pid_rec pid) \<and> pin_id pin = 1"
  shows "\<exists>pid'. replay_step lf pid (now, pin) = Inr (Some (pin_time pin, pin_id pin), pid')
    \<and> seq_inv (pid_rec pid') \<and> pr_time (pid_rec pid') = pin_time pin \<and> pr_id (pid_rec pid') = pin_id pin"
  using assms
  by (auto simp: replay_step_def crypto_check_replay_def packet_id_reap_test_def packet_id_reap_def
      packet_id_test_def packet_id_add_def Let_def seq_inv_def)

text \<open>
  Over TCP everything sent is accepted. A fresh receiver in sequential mode that gets, in order, the
  long-form identifiers a fresh sender hands out accepts every one of them, also across the wrap of the
  identifier, whatever the clocks of the two sides show.
\<close>

theorem replay_sequential_accepts_sender:
  assumes "list_all (\<lambda>t. 0 < t) ts"
  shows "\<exists>pid pid'. packet_id_init 0 tb nm unit = Inr pid
    \<and> filter_run (replay_step True) pid
        (map (\<lambda>(t, i). (now, \<lparr>pin_id = i, pin_time = t\<rparr>)) (send_run True \<lparr>ps_id = 0, ps_time = 0\<rparr> ts))
      = Inr (send_run True \<lparr>ps_id = 0, ps_time = 0\<rparr> ts, pid')"
proof -
  have main: "\<exists>pid'. filter_run (replay_step True) pid
      (map (\<lambda>(t, i). (now, \<lparr>pin_id = i, pin_time = t\<rparr>)) (send_run True s ts)) = Inr (send_run True s ts, pid')"
    if "seq_synced s (pid_rec pid)" "list_all (\<lambda>t. 0 < t) ts" for s pid
    using that
  proof (induction ts arbitrary: s pid)
    case (Cons t ts)
    obtain ok s' where u: "packet_id_send_update t s True = (ok, s')" by fastforce
    have t: "0 < t" using Cons.prems by simp
    show ?case
    proof (cases ok)
      case False
      then have "s' = s" using u t Cons.prems(1)
        by (auto simp: packet_id_send_update_def Let_def seq_synced_def PACKET_ID_MAX_def split: if_splits)
      then show ?thesis using u False Cons by simp
    next
      case True
      have *: "ps_time s' = pr_time (pid_rec pid) \<and> ps_id s' = pr_id (pid_rec pid) + 1
          \<or> ps_time s' > pr_time (pid_rec pid) \<and> ps_id s' = 1" "ps_id s' \<noteq> 0" "0 < ps_time s'"
        using u True t Cons.prems(1) u32_succ_less[of "ps_id s"]
        by (auto simp: packet_id_send_update_def Let_def seq_synced_def split: if_splits)
      let ?pin = "\<lparr>pin_id = ps_id s', pin_time = ps_time s'\<rparr>"
      have "seq_inv (pid_rec pid)" using Cons.prems(1) by (simp add: seq_synced_def)
      then obtain pid' where p': "replay_step True pid (now, ?pin) = Inr (Some (ps_time s', ps_id s'), pid')"
        "seq_inv (pid_rec pid')" "pr_time (pid_rec pid') = ps_time s'" "pr_id (pid_rec pid') = ps_id s'"
        using seq_accept[of pid ?pin True now] *(1,2) by auto
      then have sy: "seq_synced s' (pid_rec pid')" using *(3) by (simp add: seq_synced_def)
      from Cons.IH[OF sy] Cons.prems(2) show ?thesis using u True p'(1) by auto
    qed
  qed simp
  have "\<exists>pid. packet_id_init 0 tb nm unit = Inr pid \<and> seq_synced \<lparr>ps_id = 0, ps_time = 0\<rparr> (pid_rec pid)"
    by (simp add: packet_id_init_def packet_id_zero_def seq_inv_def Let_def seq_synced_def)
  with main assms show ?thesis by blast
qed

theorem replay_sequential_accepts_sender_witness:
  "\<exists>pid pid'. packet_id_init 0 0 ''TCP'' 0 = Inr pid
    \<and> filter_run (replay_step True) pid
        (map (\<lambda>(t, i). (9, \<lparr>pin_id = i, pin_time = t\<rparr>)) (send_run True \<lparr>ps_id = 0, ps_time = 0\<rparr> [5, 6]))
      = Inr (send_run True \<lparr>ps_id = 0, ps_time = 0\<rparr> [5, 6], pid')"
  by (rule replay_sequential_accepts_sender) simp

end
