(* ===== verification/Session_Id.thy ===== *)
theory Session_Id
  imports Buffer_Codec
begin

text \<open>
  Session identifiers (\<open>session_id.h\<close>, \<open>session_id.c\<close>): eight random bytes that name a TLS session
  on the control channel. The random bytes are an argument.
\<close>

definition SID_SIZE :: nat where "SID_SIZE = 8"

record session_id =
  sid_id :: "byte list"

definition x_session_id_zero :: session_id where
  "x_session_id_zero = \<lparr>sid_id = replicate SID_SIZE 0\<rparr>"

definition session_id_equal :: "session_id \<Rightarrow> session_id \<Rightarrow> bool" where
  "session_id_equal sid1 sid2 \<longleftrightarrow> take SID_SIZE (sid_id sid1) = take SID_SIZE (sid_id sid2)"

definition session_id_defined :: "session_id \<Rightarrow> bool" where
  "session_id_defined sid1 \<longleftrightarrow> take SID_SIZE (sid_id sid1) \<noteq> sid_id x_session_id_zero"

definition session_id_read :: "session_id \<Rightarrow> buffer \<Rightarrow> (bool \<times> session_id \<times> buffer) res" where
  "session_id_read sid b =
     bindE (buf_read b (int SID_SIZE)) (\<lambda>(r, b'). case r of
       None \<Rightarrow> Inr (False, sid, b')
     | Some bs \<Rightarrow> Inr (True, sid\<lparr>sid_id := bs\<rparr>, b'))"

definition session_id_write_prepend :: "session_id \<Rightarrow> buffer \<Rightarrow> (bool \<times> buffer) res" where
  "session_id_write_prepend sid b = buf_write_prepend b (sid_id sid)"

definition session_id_write :: "session_id \<Rightarrow> buffer \<Rightarrow> (bool \<times> buffer) res" where
  "session_id_write sid b = buf_write b (sid_id sid)"

definition session_id_random :: "byte list \<Rightarrow> session_id \<Rightarrow> session_id" where
  "session_id_random rnd sid = sid\<lparr>sid_id := take SID_SIZE rnd\<rparr>"

text \<open>The array has its declared size.\<close>

definition sid_wf :: "session_id \<Rightarrow> bool" where
  "sid_wf sid \<longleftrightarrow> length (sid_id sid) = SID_SIZE"

lemma session_id_equal_iff: "sid_wf a \<Longrightarrow> sid_wf b \<Longrightarrow> session_id_equal a b \<longleftrightarrow> a = b"
  by (cases a, cases b) (simp add: session_id_equal_def sid_wf_def)

lemma session_id_read_content:
  assumes "buf_wf b" "buf_content b = sid_id s @ c" "sid_wf s"
  shows "session_id_read sid b = Inr (True, s, buf_drop b 8)"
    and "buf_wf (buf_drop b 8)" "buf_content (buf_drop b 8) = c"
proof -
  have "8 \<le> b_len b" using content_prefix_len[OF assms(1,2)] assms(3) by (simp add: sid_wf_def SID_SIZE_def)
  then show "session_id_read sid b = Inr (True, s, buf_drop b 8)"
    "buf_wf (buf_drop b 8)" "buf_content (buf_drop b 8) = c"
    using assms by (simp_all add: session_id_read_def buf_read_take wf_intros buf_drop_content sid_wf_def SID_SIZE_def)
qed

end
