(* ===== verification/Reliable.thy ===== *)
theory Reliable
  imports Session_Id Packet_Id
begin

text \<open>
  The reliability layer of the control channel (\<open>reliable.h\<close>, \<open>reliable.c\<close>) and the part of
  \<open>tls_pre_decrypt\<close> (\<open>ssl.c\<close>) that drives its receiving side. A pointer to an entry's buffer is the
  entry's index. The global clock is an argument.
\<close>

section \<open>State\<close>

definition RELIABLE_ACK_SIZE :: int where "RELIABLE_ACK_SIZE = 8"
definition RELIABLE_CAPACITY :: int where "RELIABLE_CAPACITY = 8"
definition BIG_TIMEOUT :: int where "BIG_TIMEOUT = 60 * 60 * 24 * 7"

record reliable_ack =
  ra_len :: int
  ra_packet_id :: "u32 list"

record reliable_entry =
  re_active :: bool
  re_timeout :: int
  re_next_try :: int
  re_packet_id :: u32
  re_opcode :: int
  re_buf :: buffer

record reliable =
  rl_size :: int
  rl_initial_timeout :: int
  rl_packet_id :: u32
  rl_offset :: int
  rl_hold :: bool
  rl_array :: "reliable_entry list"

section \<open>Comparing identifiers\<close>

definition reliable_pid_in_range1 :: "u32 \<Rightarrow> u32 \<Rightarrow> u32 \<Rightarrow> bool" where
  "reliable_pid_in_range1 test base extent =
     (if test \<ge> base then test - base < extent
      else (test + 0x80000000) - (base + 0x80000000) < extent)"

definition reliable_pid_in_range2 :: "u32 \<Rightarrow> u32 \<Rightarrow> u32 \<Rightarrow> bool" where
  "reliable_pid_in_range2 test base extent =
     (if base + extent \<ge> base then test < base + extent
      else test + 0x80000000 < (base + 0x80000000) + extent)"

definition reliable_pid_min :: "u32 \<Rightarrow> u32 \<Rightarrow> bool" where
  "reliable_pid_min p1 p2 \<longleftrightarrow> \<not> reliable_pid_in_range1 p1 p2 0x80000000"

section \<open>Acknowledgment records\<close>

definition reliable_ack_packet_id_present :: "reliable_ack \<Rightarrow> u32 \<Rightarrow> bool" where
  "reliable_ack_packet_id_present ack pid \<longleftrightarrow> pid \<in> set (take (nat (ra_len ack)) (ra_packet_id ack))"

definition reliable_ack_read_packet_id :: "buffer \<Rightarrow> (u32 option \<times> buffer) res" where
  "reliable_ack_read_packet_id b =
     bindE (buf_read b 4) (\<lambda>(r, b'). Inr (map_option of_be32 r, b'))"

definition ack_push :: "reliable_ack \<Rightarrow> u32 \<Rightarrow> reliable_ack res" where
  "ack_push ack pid =
     bindE (arr_set (ra_packet_id ack) (ra_len ack) pid) (\<lambda>a.
       Inr (ack\<lparr>ra_packet_id := a, ra_len := ra_len ack + 1\<rparr>))"

definition reliable_ack_acknowledge_packet_id :: "reliable_ack \<Rightarrow> u32 \<Rightarrow> (bool \<times> reliable_ack) res" where
  "reliable_ack_acknowledge_packet_id ack pid =
     (if \<not> reliable_ack_packet_id_present ack pid \<and> ra_len ack < RELIABLE_ACK_SIZE
      then bindE (ack_push ack pid) (\<lambda>a. Inr (True, a))
      else Inr (False, ack))"

definition reliable_ack_empty :: "reliable_ack \<Rightarrow> bool" where
  "reliable_ack_empty ack \<longleftrightarrow> ra_len ack = 0"

fun ack_read_loop :: "nat \<Rightarrow> reliable_ack \<Rightarrow> buffer \<Rightarrow> (bool \<times> reliable_ack \<times> buffer) res" where
  "ack_read_loop 0 ack b = Inr (True, ack, b)"
| "ack_read_loop (Suc k) ack b =
     bindE (buf_read b 4) (\<lambda>(r, b1). case r of
       None \<Rightarrow> Inr (False, ack, b1)
     | Some bs \<Rightarrow>
         if ra_len ack \<ge> RELIABLE_ACK_SIZE then Inr (False, ack, b1)
         else bindE (ack_push ack (of_be32 bs)) (\<lambda>ack1. ack_read_loop k ack1 b1))"

definition reliable_ack_read ::
    "reliable_ack \<Rightarrow> buffer \<Rightarrow> session_id \<Rightarrow> (bool \<times> reliable_ack \<times> buffer) res" where
  "reliable_ack_read ack b sid =
     bindE (buf_read b 1) (\<lambda>(r, b1). case r of
       None \<Rightarrow> Inr (False, ack, b1)
     | Some bs \<Rightarrow>
         let count = hd bs in
         bindE (ack_read_loop (unat count) ack b1) (\<lambda>(ok, ack1, b2).
           if \<not> ok then Inr (False, ack1, b2)
           else if count \<noteq> 0 then
             bindE (session_id_read x_session_id_zero b2) (\<lambda>(ok, sr, b3).
               if \<not> ok then Inr (False, ack1, b3)
               else if \<not> session_id_defined sr \<or> \<not> session_id_equal sr sid then Inr (False, ack1, b3)
               else Inr (True, ack1, b3))
           else Inr (True, ack1, b2)))"

definition ACK_SIZE :: "int \<Rightarrow> int" where
  "ACK_SIZE n = 1 + (if n \<noteq> 0 then int SID_SIZE else 0) + 4 * n"

text \<open>The two loops of \<open>reliable_ack_write\<close>: write the first identifiers, move up the rest.\<close>

fun ack_write_loop :: "u32 list \<Rightarrow> nat \<Rightarrow> nat \<Rightarrow> buffer \<Rightarrow> buffer res" where
  "ack_write_loop ids i 0 sub = Inr sub"
| "ack_write_loop ids i (Suc k) sub =
     bindE (arr_get ids (int i)) (\<lambda>pid.
     bindE (buf_write sub (be32 pid)) (\<lambda>(ok, sub1).
     bindE (assertE ok) (\<lambda>_. ack_write_loop ids (Suc i) k sub1)))"

function ack_shift_loop :: "int \<Rightarrow> int \<Rightarrow> int \<Rightarrow> u32 list \<Rightarrow> (int \<times> u32 list) res" where
  "ack_shift_loop i j n ids =
     (if j < n then
        bindE (arr_get ids j) (\<lambda>x. bindE (arr_set ids i x) (\<lambda>ids'. ack_shift_loop (i + 1) (j + 1) n ids'))
      else Inr (i, ids))"
  by pat_completeness auto
termination by (relation "measure (\<lambda>(i, j, n, ids). nat (n - j))") auto

declare ack_shift_loop.simps [simp del]

definition reliable_ack_write ::
    "reliable_ack \<Rightarrow> buffer \<Rightarrow> session_id \<Rightarrow> int \<Rightarrow> bool \<Rightarrow> (bool \<times> reliable_ack \<times> buffer) res" where
  "reliable_ack_write ack b sid mx prepend =
     (let n0 = word_of_int (ra_len ack) :: byte;
          n = (if uint n0 > mx then word_of_int mx else n0) in
      bindE (buf_sub b (ACK_SIZE (uint n)) prepend) (\<lambda>(b1, r). case r of
        None \<Rightarrow> Inr (False, ack, b1)
      | Some (p, sub) \<Rightarrow>
          if \<not> buf_defined sub then Inr (False, ack, b1)
          else
            bindE (buf_write sub [n]) (\<lambda>(ok, sub1).
            bindE (assertE ok) (\<lambda>_.
            bindE (ack_write_loop (ra_packet_id ack) 0 (unat n) sub1) (\<lambda>sub2.
            bindE (if n \<noteq> 0 then
                     bindE (assertE (session_id_defined sid)) (\<lambda>_.
                     bindE (session_id_write sid sub2) (\<lambda>(ok, sub3).
                     bindE (assertE ok) (\<lambda>_.
                     bindE (ack_shift_loop 0 (uint n) (ra_len ack) (ra_packet_id ack)) (\<lambda>(i, ids).
                       Inr (sub3, ack\<lparr>ra_packet_id := ids, ra_len := i\<rparr>)))))
                   else Inr (sub2, ack)) (\<lambda>(sub4, ack').
            bindE (buf_sub_sync b1 p sub4) (\<lambda>b2.
              Inr (True, ack', b2))))))))"

section \<open>The entry array\<close>

text \<open>
  The loops over \<open>rel->array\<close> stop at the first entry that meets a condition: \<open>rel_find\<close> is its
  index. \<open>rel_map\<close> updates one entry.
\<close>

definition rel_indices :: "reliable \<Rightarrow> nat list" where
  "rel_indices rel = [0..<nat (rl_size rel)]"

definition rel_entry :: "reliable \<Rightarrow> nat \<Rightarrow> reliable_entry" where
  "rel_entry rel i = rl_array rel ! i"

definition rel_find :: "(reliable_entry \<Rightarrow> bool) \<Rightarrow> reliable \<Rightarrow> nat option" where
  "rel_find P rel = find (\<lambda>i. P (rel_entry rel i)) (rel_indices rel)"

definition rel_map :: "nat \<Rightarrow> (reliable_entry \<Rightarrow> reliable_entry) \<Rightarrow> reliable \<Rightarrow> reliable" where
  "rel_map i f rel = rel\<lparr>rl_array := (rl_array rel)[i := f (rel_entry rel i)]\<rparr>"

definition null_entry :: reliable_entry where
  "null_entry = \<lparr>re_active = False, re_timeout = 0, re_next_try = 0, re_packet_id = 0, re_opcode = 0,
     re_buf = \<lparr>b_capacity = 0, b_offset = 0, b_len = 0, b_data = None\<rparr>\<rparr>"

fun init_entries :: "int \<Rightarrow> int \<Rightarrow> nat \<Rightarrow> reliable_entry list res" where
  "init_entries buf_size offset 0 = Inr []"
| "init_entries buf_size offset (Suc n) =
     bindE (alloc_buf buf_size) (\<lambda>b. case buf_init_dowork b offset of (ok, b') \<Rightarrow>
       bindE (assertE ok) (\<lambda>_. bindE (init_entries buf_size offset n) (\<lambda>es.
         Inr (null_entry\<lparr>re_buf := b'\<rparr> # es))))"

definition reliable_init :: "int \<Rightarrow> int \<Rightarrow> int \<Rightarrow> bool \<Rightarrow> reliable res" where
  "reliable_init buf_size offset array_size hold =
     bindE (assertE (array_size > 0 \<and> array_size \<le> RELIABLE_CAPACITY)) (\<lambda>_.
     bindE (init_entries buf_size offset (nat array_size)) (\<lambda>es.
       Inr \<lparr>rl_size = array_size, rl_initial_timeout = 0, rl_packet_id = 0, rl_offset = offset, rl_hold = hold,
         rl_array = es @ replicate (nat RELIABLE_CAPACITY - nat array_size) null_entry\<rparr>))"

definition reliable_free :: "reliable \<Rightarrow> reliable" where
  "reliable_free rel = foldl (\<lambda>r i. rel_map i (\<lambda>e. e\<lparr>re_buf := free_buf (re_buf e)\<rparr>) r) rel (rel_indices rel)"

definition reliable_set_timeout :: "reliable \<Rightarrow> int \<Rightarrow> reliable" where
  "reliable_set_timeout rel timeout = rel\<lparr>rl_initial_timeout := timeout\<rparr>"

definition reliable_empty :: "reliable \<Rightarrow> bool" where
  "reliable_empty rel \<longleftrightarrow> rel_find re_active rel = None"

definition reliable_can_get :: "reliable \<Rightarrow> bool" where
  "reliable_can_get rel \<longleftrightarrow> rel_find (\<lambda>e. \<not> re_active e) rel \<noteq> None"

section \<open>Sending\<close>

definition purge_one :: "reliable \<Rightarrow> u32 \<Rightarrow> reliable" where
  "purge_one rel pid =
     (case rel_find (\<lambda>e. re_active e \<and> re_packet_id e = pid) rel of
        None \<Rightarrow> rel
      | Some j \<Rightarrow> rel_map j (\<lambda>e. e\<lparr>re_active := False\<rparr>) rel)"

definition reliable_send_purge :: "reliable \<Rightarrow> reliable_ack \<Rightarrow> reliable" where
  "reliable_send_purge rel ack = foldl purge_one rel (take (nat (ra_len ack)) (ra_packet_id ack))"

definition reliable_get_buf :: "reliable \<Rightarrow> (nat option \<times> reliable) res" where
  "reliable_get_buf rel =
     (case rel_find (\<lambda>e. \<not> re_active e) rel of
        None \<Rightarrow> Inr (None, rel)
      | Some i \<Rightarrow>
          (case buf_init_dowork (re_buf (rel_entry rel i)) (rl_offset rel) of (ok, b') \<Rightarrow>
             bindE (assertE ok) (\<lambda>_. Inr (Some i, rel_map i (\<lambda>e. e\<lparr>re_buf := b'\<rparr>) rel))))"

definition min_active_id :: "reliable \<Rightarrow> u32 option" where
  "min_active_id rel =
     foldl (\<lambda>m i. let e = rel_entry rel i in
              if re_active e \<and> (case m of None \<Rightarrow> True | Some x \<Rightarrow> reliable_pid_min (re_packet_id e) x)
              then Some (re_packet_id e) else m)
       None (rel_indices rel)"

definition reliable_get_buf_output_sequenced :: "reliable \<Rightarrow> (nat option \<times> reliable) res" where
  "reliable_get_buf_output_sequenced rel =
     (case min_active_id rel of
        None \<Rightarrow> reliable_get_buf rel
      | Some min_id \<Rightarrow>
          if reliable_pid_in_range1 (rl_packet_id rel) min_id (word_of_int (rl_size rel)) then reliable_get_buf rel
          else Inr (None, rel))"

definition reliable_mark_active_outgoing :: "reliable \<Rightarrow> nat \<Rightarrow> int \<Rightarrow> reliable res" where
  "reliable_mark_active_outgoing rel i opcode =
     (if i < nat (rl_size rel) then
        let e = rel_entry rel i; pid = rl_packet_id rel in
        bindE (buf_write_prepend (re_buf e) (be32 pid)) (\<lambda>(ok, b').
        bindE (assertE ok) (\<lambda>_.
          Inr ((rel_map i (\<lambda>e. e\<lparr>re_packet_id := pid, re_buf := b', re_active := True, re_opcode := opcode,
                 re_next_try := 0, re_timeout := rl_initial_timeout rel\<rparr>) rel)\<lparr>rl_packet_id := pid + 1\<rparr>)))
      else Inl Assert_Failed)"

definition reliable_can_send :: "int \<Rightarrow> reliable \<Rightarrow> bool" where
  "reliable_can_send now rel \<longleftrightarrow>
     rel_find (\<lambda>e. re_active e \<and> now \<ge> re_next_try e) rel \<noteq> None \<and> \<not> rl_hold rel"

definition send_best :: "int \<Rightarrow> reliable \<Rightarrow> nat option" where
  "send_best now rel =
     foldl (\<lambda>best i. let e = rel_entry rel i in
              if re_active e \<and> now \<ge> re_next_try e
                \<and> (case best of None \<Rightarrow> True
                    | Some j \<Rightarrow> reliable_pid_min (re_packet_id e) (re_packet_id (rel_entry rel j)))
              then Some i else best)
       None (rel_indices rel)"

text \<open>The entry to send and its opcode; each transmission doubles the entry's timeout.\<close>

definition reliable_send :: "int \<Rightarrow> reliable \<Rightarrow> (nat \<times> int) option \<times> reliable" where
  "reliable_send now rel =
     (case send_best now rel of
        None \<Rightarrow> (None, rel)
      | Some i \<Rightarrow>
          (Some (i, re_opcode (rel_entry rel i)),
           rel_map i (\<lambda>e. e\<lparr>re_next_try := now + re_timeout e, re_timeout := re_timeout e * 2\<rparr>) rel))"

definition reliable_schedule_now :: "int \<Rightarrow> reliable \<Rightarrow> reliable" where
  "reliable_schedule_now now rel =
     foldl (\<lambda>r i. if re_active (rel_entry r i)
                  then rel_map i (\<lambda>e. e\<lparr>re_next_try := now, re_timeout := rl_initial_timeout rel\<rparr>) r else r)
       (rel\<lparr>rl_hold := False\<rparr>) (rel_indices rel)"

text \<open>The difference of two times is passed to \<open>min_int\<close> as an \<open>int\<close>.\<close>

fun timeout_loop :: "int \<Rightarrow> int \<Rightarrow> reliable_entry list \<Rightarrow> int" where
  "timeout_loop now ret [] = ret"
| "timeout_loop now ret (e # es) =
     (if re_active e then
        (if re_next_try e \<le> now then 0
         else timeout_loop now (min_int ret (signed_take_bit 31 (re_next_try e - now))) es)
      else timeout_loop now ret es)"

definition reliable_send_timeout :: "int \<Rightarrow> reliable \<Rightarrow> int" where
  "reliable_send_timeout now rel = timeout_loop now BIG_TIMEOUT (take (nat (rl_size rel)) (rl_array rel))"

section \<open>Receiving\<close>

definition reliable_not_replay :: "reliable \<Rightarrow> u32 \<Rightarrow> bool" where
  "reliable_not_replay rel pid \<longleftrightarrow>
     \<not> reliable_pid_min pid (rl_packet_id rel) \<and> rel_find (\<lambda>e. re_active e \<and> re_packet_id e = pid) rel = None"

definition reliable_wont_break_sequentiality :: "reliable \<Rightarrow> u32 \<Rightarrow> bool" where
  "reliable_wont_break_sequentiality rel pid =
     reliable_pid_in_range2 pid (rl_packet_id rel) (word_of_int (rl_size rel))"

definition reliable_get_buf_sequenced :: "reliable \<Rightarrow> nat option" where
  "reliable_get_buf_sequenced rel = rel_find (\<lambda>e. re_active e \<and> re_packet_id e = rl_packet_id rel) rel"

definition reliable_mark_active_incoming :: "reliable \<Rightarrow> nat \<Rightarrow> u32 \<Rightarrow> int \<Rightarrow> reliable res" where
  "reliable_mark_active_incoming rel i pid opcode =
     (if i < nat (rl_size rel) then
        bindE (assertE (\<not> reliable_pid_min pid (rl_packet_id rel))) (\<lambda>_.
          Inr (rel_map i (\<lambda>e. e\<lparr>re_active := True, re_packet_id := pid, re_opcode := opcode,
                 re_next_try := 0, re_timeout := 0\<rparr>) rel))
      else Inl Assert_Failed)"

definition reliable_mark_deleted :: "reliable \<Rightarrow> nat \<Rightarrow> bool \<Rightarrow> reliable res" where
  "reliable_mark_deleted rel i inc_pid =
     (if i < nat (rl_size rel) then
        let r = rel_map i (\<lambda>e. e\<lparr>re_active := False\<rparr>) rel in
        Inr (if inc_pid then r\<lparr>rl_packet_id := re_packet_id (rel_entry rel i) + 1\<rparr> else r)
      else Inl Assert_Failed)"

text \<open>
  The end of \<open>tls_pre_decrypt\<close>: the acknowledgments in a control packet purge the send window, and
  its payload, if there is room for it, goes into the receive window and is acknowledged. The answer
  is \<open>False\<close> for the exit through \<open>error\<close>; \<open>is_ack\<close> says that the opcode is \<open>P_ACK_V1\<close>.
\<close>

record rel_session =
  rs_send :: reliable
  rs_rec :: reliable
  rs_ack :: reliable_ack

definition control_store ::
    "rel_session \<Rightarrow> u32 \<Rightarrow> buffer \<Rightarrow> int \<Rightarrow> (bool \<times> rel_session) res" where
  "control_store s pid b opcode =
     (if reliable_wont_break_sequentiality (rs_rec s) pid then
        bindE (if reliable_not_replay (rs_rec s) pid then
                 bindE (reliable_get_buf (rs_rec s)) (\<lambda>(i, r1). case i of
                   None \<Rightarrow> Inl Assert_Failed
                 | Some i \<Rightarrow>
                     bindE (buf_copy (re_buf (rel_entry r1 i)) b) (\<lambda>(ok, b').
                     let r2 = rel_map i (\<lambda>e. e\<lparr>re_buf := b'\<rparr>) r1 in
                     if \<not> ok then Inr (False, s\<lparr>rs_rec := r2\<rparr>)
                     else bindE (reliable_mark_active_incoming r2 i pid opcode) (\<lambda>r3.
                       Inr (True, s\<lparr>rs_rec := r3\<rparr>))))
               else Inr (True, s)) (\<lambda>(ok, s1).
          if \<not> ok then Inr (False, s1)
          else bindE (reliable_ack_acknowledge_packet_id (rs_ack s1) pid) (\<lambda>(_, a).
            Inr (True, s1\<lparr>rs_ack := a\<rparr>)))
      else Inr (True, s))"

definition control_receive ::
    "rel_session \<Rightarrow> session_id \<Rightarrow> buffer \<Rightarrow> int \<Rightarrow> bool \<Rightarrow> (bool \<times> rel_session) res" where
  "control_receive s sid b opcode is_ack =
     bindE (reliable_ack_read \<lparr>ra_len = 0, ra_packet_id = replicate 8 0\<rparr> b sid) (\<lambda>(ok, send_ack, b1).
       if \<not> ok then Inr (False, s)
       else
         let s1 = s\<lparr>rs_send := reliable_send_purge (rs_send s) send_ack\<rparr> in
         if \<not> is_ack \<and> reliable_can_get (rs_rec s1) then
           bindE (reliable_ack_read_packet_id b1) (\<lambda>(r, b2). case r of
             None \<Rightarrow> Inr (True, s1)
           | Some pid \<Rightarrow> control_store s1 pid b2 opcode)
         else Inr (True, s1))"

end
