(* ===== verification/Reliable_Ack.thy ===== *)
theory Reliable_Ack
  imports Reliable
begin

text \<open>
  The acknowledgment record on the wire: what \<open>reliable_ack_write\<close> emits, \<open>reliable_ack_read\<close> on
  the other side recovers, and the writer keeps exactly the identifiers it did not send.
\<close>

section \<open>Extending a buffer\<close>

definition buf_extends :: "buffer \<Rightarrow> byte list \<Rightarrow> buffer \<Rightarrow> bool" where
  "buf_extends b bs b' \<longleftrightarrow> buf_wf b' \<and> buf_content b' = buf_content b @ bs
     \<and> b_offset b' = b_offset b \<and> b_capacity b' = b_capacity b \<and> b_len b' = b_len b + int (length bs)"

lemma buf_write_extends:
  "buf_wf b \<Longrightarrow> int (length bs) \<le> buf_room b \<Longrightarrow> \<exists>b'. buf_write b bs = Inr (True, b') \<and> buf_extends b bs b'"
  by (simp add: buf_write_append buf_extends_def buf_append_wf buf_append_content)

lemma buf_extends_trans: "buf_extends a x b \<Longrightarrow> buf_extends b y c \<Longrightarrow> buf_extends a (x @ y) c"
  by (simp add: buf_extends_def)

lemma buf_extends_room: "buf_extends b bs b' \<Longrightarrow> buf_room b' = buf_room b - int (length bs)"
  by (simp add: buf_extends_def)

text \<open>A sub-buffer that has been filled completely extends its parent.\<close>

lemma buf_sub_fill:
  assumes "buf_wf b" "0 \<le> sz" "sz \<le> (if prepend then b_offset b else buf_room b)"
  shows "\<exists>b' p sub. buf_sub b sz prepend = Inr (b', Some (p, sub)) \<and> buf_defined sub \<and> buf_wf sub
    \<and> b_len sub = 0 \<and> b_offset sub = 0 \<and> b_capacity sub = sz
    \<and> (\<forall>d sub'. int (length d) = sz \<longrightarrow> buf_extends sub d sub' \<longrightarrow>
         buf_sub_sync b' p sub' = Inr (if prepend then buf_push_front b d else buf_append b d))"
proof -
  from assms(1) obtain d where d: "b_data b = Some d" "int (length d) = b_capacity b" "b_capacity b < 2097152"
    "0 \<le> b_offset b" "0 \<le> b_len b" "b_offset b + b_len b \<le> b_capacity b" by (rule buf_wfE)
  define p where "p = (if prepend then b_offset b - sz else b_offset b + b_len b)"
  define b' where "b' = (if prepend then b\<lparr>b_offset := b_offset b - sz, b_len := b_len b + sz\<rparr>
    else b\<lparr>b_len := b_len b + sz\<rparr>)"
  have alloc: "(if prepend then buf_prepend b sz else buf_write_alloc b sz) = (Some p, b')"
  proof (cases prepend)
    case True
    then show ?thesis using assms d
      by (simp add: buf_prepend_def Let_def buf_bptr_def buf_valid_def p_def b'_def)
  next
    case False
    then show ?thesis using assms d buf_safe_room[of b sz]
      by (simp add: buf_write_alloc_def buf_bend_def p_def b'_def)
  qed
  have range: "0 \<le> p" "p + sz \<le> int (length d)" using assms d by (auto simp: p_def split: if_splits)
  have data: "b_data b' = Some d" using d by (simp add: b'_def)
  define sub where "sub = \<lparr>b_capacity = sz, b_offset = 0, b_len = 0, b_data = Some (segment d (nat p) (nat sz))\<rparr>"
  have run: "buf_sub b sz prepend = Inr (b', Some (p, sub))"
    using alloc data range assms(2) by (simp add: buf_sub_def buf_peek_def mem_simps sub_def)
  have len: "length (segment d (nat p) (nat sz)) = nat sz" using range assms(2) by (intro length_segment) linarith
  have wf: "buf_wf sub" using len assms d range by (auto simp: sub_def buf_wf_def BUF_SIZE_MAX_def)
  have "buf_sub_sync b' p sub' = Inr (if prepend then buf_push_front b e else buf_append b e)"
    if e: "int (length e) = sz" and ext: "buf_extends sub e sub'" for e sub'
  proof -
    have "buf_wf sub'" "buf_content sub' = e" "b_offset sub' = 0" "b_len sub' = sz" "b_capacity sub' = sz"
      using ext e len by (simp_all add: buf_extends_def sub_def buf_content_def)
    then have "b_data sub' = Some e"
      by (elim buf_wfE) (auto simp: buf_content_def segment_def)
    then show ?thesis using e data range d
      by (auto simp: buf_sub_sync_def buf_poke_def mem_simps b'_def p_def buf_push_front_def buf_append_def)
  qed
  then show ?thesis using run wf by (fastforce simp: sub_def buf_defined_def)
qed

section \<open>The loops\<close>

definition ack_ids :: "reliable_ack \<Rightarrow> u32 list" where
  "ack_ids a = take (nat (ra_len a)) (ra_packet_id a)"

definition ack_wf :: "reliable_ack \<Rightarrow> bool" where
  "ack_wf a \<longleftrightarrow> 0 \<le> ra_len a \<and> ra_len a \<le> 8 \<and> length (ra_packet_id a) = 8"

lemma length_ack_ids: "ack_wf a \<Longrightarrow> int (length (ack_ids a)) = ra_len a"
  by (auto simp: ack_wf_def ack_ids_def min_def)

definition ids_wire :: "u32 list \<Rightarrow> byte list" where
  "ids_wire ids = concat (map be32 ids)"

lemma length_ids_wire [simp]: "length (ids_wire ids) = 4 * length ids"
  by (induction ids) (simp_all add: ids_wire_def)

lemma ids_wire_simps [simp]: "ids_wire [] = []" "ids_wire (i # ids) = be32 i @ ids_wire ids"
  by (simp_all add: ids_wire_def)

lemma ack_write_loop_ok:
  assumes "buf_wf sub" "i + k \<le> length ids" "int (4 * k) \<le> buf_room sub"
  shows "\<exists>sub'. ack_write_loop ids i k sub = Inr sub' \<and> buf_extends sub (ids_wire (take k (drop i ids))) sub'"
  using assms
proof (induction k arbitrary: i sub)
  case 0
  then show ?case by (simp add: buf_extends_def)
next
  case (Suc k)
  then obtain s1 where s1: "buf_write sub (be32 (ids ! i)) = Inr (True, s1)" "buf_extends sub (be32 (ids ! i)) s1"
    using buf_write_extends[of sub "be32 (ids ! i)"] by auto
  have "buf_wf s1" "int (4 * k) \<le> buf_room s1"
    using s1(2) Suc.prems(3) by (simp_all add: buf_extends_def)
  then obtain s2 where s2: "ack_write_loop ids (Suc i) k s1 = Inr s2"
    "buf_extends s1 (ids_wire (take k (drop (Suc i) ids))) s2"
    using Suc.IH[of s1 "Suc i"] Suc.prems by auto
  have "take (Suc k) (drop i ids) = ids ! i # take k (drop (Suc i) ids)"
    using Suc.prems(2) by (simp add: Cons_nth_drop_Suc[symmetric])
  then show ?case using Suc.prems(2) s1 s2 buf_extends_trans[OF s1(2) s2(2)] by (simp add: arr_get_ok)
qed

lemma ack_shift_loop_ok:
  assumes "0 \<le> i" "i \<le> j" "j \<le> n" "n \<le> int (length ids)"
  shows "\<exists>ids'. ack_shift_loop i j n ids = Inr (i + (n - j), ids') \<and> length ids' = length ids
    \<and> take (nat (i + (n - j))) ids' = take (nat i) ids @ take (nat (n - j)) (drop (nat j) ids)"
  using assms
proof (induction "nat (n - j)" arbitrary: i j ids)
  case 0
  then show ?case by (simp add: ack_shift_loop.simps)
next
  case (Suc m)
  then have lt: "j < n" by simp
  let ?ids = "ids[nat i := ids ! nat j]"
  have m: "m = nat (n - (j + 1))" using Suc.hyps(2) by linarith
  have p: "0 \<le> i + 1" "i + 1 \<le> j + 1" "j + 1 \<le> n" "n \<le> int (length ?ids)"
    using Suc.prems lt by simp_all
  obtain ids' where r: "ack_shift_loop (i + 1) (j + 1) n ?ids = Inr (i + 1 + (n - (j + 1)), ids')"
    "length ids' = length ?ids"
    "take (nat (i + 1 + (n - (j + 1)))) ids' = take (nat (i + 1)) ?ids @ take (nat (n - (j + 1))) (drop (nat (j + 1)) ?ids)"
    using Suc.hyps(1)[OF m p] by blast
  have n: "nat (i + 1) = Suc (nat i)" "nat (j + 1) = Suc (nat j)" "nat (n - j) = Suc (nat (n - (j + 1)))"
    "nat i < length ids" "nat i \<le> nat j" "nat j < length ids"
    using Suc.prems lt by linarith+
  have "take (nat (n - j)) (drop (nat j) ids) = ids ! nat j # take (nat (n - (j + 1))) (drop (nat (j + 1)) ids)"
    unfolding n(2,3) using n(6) by (simp add: Cons_nth_drop_Suc[symmetric])
  moreover have "take (nat (i + 1)) ?ids = take (nat i) ids @ [ids ! nat j]"
    unfolding n(1) using n(4) by (simp add: take_Suc_conv_app_nth)
  moreover have "drop (nat (j + 1)) ?ids = drop (nat (j + 1)) ids"
    unfolding n(2) using n(5) by simp
  ultimately have "take (nat (i + (n - j))) ids' = take (nat i) ids @ take (nat (n - j)) (drop (nat j) ids)"
    using r(3) by (simp add: algebra_simps)
  moreover have "ack_shift_loop i j n ids = Inr (i + (n - j), ids')"
    using lt r(1) n Suc.prems by (subst ack_shift_loop.simps) (simp add: arr_get_ok arr_set_ok algebra_simps)
  ultimately show ?case using r(2) by auto
qed

lemma ack_push_ok:
  assumes "ack_wf a" "ra_len a < 8"
  shows "\<exists>a'. ack_push a pid = Inr a' \<and> ack_wf a' \<and> ack_ids a' = ack_ids a @ [pid] \<and> ra_len a' = ra_len a + 1"
proof -
  have l: "nat (ra_len a) < length (ra_packet_id a)" "nat (ra_len a + 1) = Suc (nat (ra_len a))"
    using assms by (auto simp: ack_wf_def)
  then show ?thesis using assms
    by (simp add: ack_push_def ack_wf_def arr_set_ok ack_ids_def take_Suc_conv_app_nth)
qed

lemma ack_read_loop_ok:
  assumes "buf_wf b" "buf_content b = ids_wire ids @ c" "ack_wf a" "ra_len a + int (length ids) \<le> 8"
  shows "\<exists>a' b'. ack_read_loop (length ids) a b = Inr (True, a', b') \<and> ack_wf a' \<and> ack_ids a' = ack_ids a @ ids
    \<and> buf_wf b' \<and> buf_content b' = c"
  using assms
proof (induction ids arbitrary: a b)
  case (Cons i ids)
  have l: "4 \<le> b_len b" using content_prefix_len[of b "be32 i" "ids_wire ids @ c"] Cons.prems by simp
  have b1: "buf_wf (buf_drop b 4)" "buf_content (buf_drop b 4) = ids_wire ids @ c"
    "buf_read b 4 = Inr (Some (be32 i), buf_drop b 4)"
    using l Cons.prems by (simp_all add: wf_intros buf_drop_content buf_read_take)
  obtain a1 where a1: "ack_push a i = Inr a1" "ack_wf a1" "ack_ids a1 = ack_ids a @ [i]" "ra_len a1 = ra_len a + 1"
    using ack_push_ok[OF Cons.prems(3), of i] Cons.prems(4) by auto
  from Cons.IH[OF b1(1,2) a1(2)] Cons.prems(4) a1(3,4) show ?case
    using b1(3) a1(1) by (auto simp: RELIABLE_ACK_SIZE_def)
qed simp

section \<open>The record\<close>

definition ack_wire :: "u32 list \<Rightarrow> session_id \<Rightarrow> byte list" where
  "ack_wire ids sid = of_nat (length ids) # ids_wire ids @ (if ids = [] then [] else sid_id sid)"

lemma length_ack_wire: "sid_wf sid \<Longrightarrow> int (length (ack_wire ids sid)) = ACK_SIZE (int (length ids))"
  by (simp add: ack_wire_def ACK_SIZE_def sid_wf_def)

lemma ack_count:
  assumes "ack_wf a" "0 \<le> mx"
  shows "(if uint (word_of_int (ra_len a) :: byte) > mx then word_of_int mx else word_of_int (ra_len a))
    = (of_nat (length (take (nat mx) (ack_ids a))) :: byte)"
proof -
  have l: "int (length (ack_ids a)) = ra_len a" "ra_len a \<le> 8" "0 \<le> ra_len a"
    using assms(1) length_ack_ids by (auto simp: ack_wf_def)
  have "uint (word_of_int (ra_len a) :: byte) = ra_len a" using l by (simp add: unsigned_of_int take_bit_eq_mod)
  moreover have "int (length (take (nat mx) (ack_ids a))) = min mx (ra_len a)"
    using l assms(2) by (simp add: min_def) arith
  then have "(of_nat (length (take (nat mx) (ack_ids a))) :: byte) = word_of_int (min mx (ra_len a))"
    by (metis of_int_of_nat_eq)
  ultimately show ?thesis by (simp add: min_def)
qed

lemma unat_of_nat_small: "n < 256 \<Longrightarrow> unat (of_nat n :: byte) = n"
  by (simp add: unsigned_of_nat take_bit_eq_mod)

lemma ack_write_ok:
  assumes b: "buf_wf b" and a: "ack_wf a" and sid: "sid_wf sid" "session_id_defined sid" and mx: "0 \<le> mx"
    and ids: "ids = take (nat mx) (ack_ids a)"
    and room: "ACK_SIZE (int (length ids)) \<le> (if prepend then b_offset b else buf_room b)"
  shows "\<exists>a'. reliable_ack_write a b sid mx prepend =
      Inr (True, a', if prepend then buf_push_front b (ack_wire ids sid) else buf_append b (ack_wire ids sid))
    \<and> ack_wf a' \<and> ack_ids a' = drop (length ids) (ack_ids a)"
proof -
  define n where "n = (of_nat (length ids) :: byte)"
  have l: "length ids \<le> length (ack_ids a)" "int (length (ack_ids a)) = ra_len a" "ra_len a \<le> 8"
    using a length_ack_ids ids by (auto simp: ack_wf_def)
  then have l8: "length ids \<le> 8" by linarith
  then have n1: "unat n = length ids" unfolding n_def by (intro unat_of_nat_small) linarith
  have n: "unat n = length ids" "uint n = int (length ids)" "n = 0 \<longleftrightarrow> ids = []"
    by (rule n1, metis n1 uint_nat, metis n1 length_0_conv unat_eq_zero)
  note cnt = ack_count[OF a mx, folded ids n_def]
  have sz: "0 \<le> ACK_SIZE (uint n)" "ACK_SIZE (uint n) \<le> (if prepend then b_offset b else buf_room b)"
    "int (length (ack_wire ids sid)) = ACK_SIZE (uint n)"
    using room n(2) length_ack_wire[OF sid(1), of ids] by (simp_all add: ACK_SIZE_def)
  obtain b1 p sub where sub: "buf_sub b (ACK_SIZE (uint n)) prepend = Inr (b1, Some (p, sub))" "buf_defined sub"
    "buf_wf sub" "b_len sub = 0" "b_offset sub = 0" "b_capacity sub = ACK_SIZE (uint n)"
    and sync: "\<And>sub'. buf_extends sub (ack_wire ids sid) sub' \<Longrightarrow>
         buf_sub_sync b1 p sub' = Inr (if prepend then buf_push_front b (ack_wire ids sid) else buf_append b (ack_wire ids sid))"
    using buf_sub_fill[OF b sz(1,2)] sz(3) by blast
  have room0: "buf_room sub = 1 + 4 * int (length ids) + (if ids = [] then 0 else 8)"
    using sub(4-6) n by (auto simp: ACK_SIZE_def SID_SIZE_def)
  obtain s1 where s1: "buf_write sub [n] = Inr (True, s1)" "buf_extends sub [n] s1"
    using buf_write_extends[OF sub(3), of "[n]"] room0 by auto
  have s1': "buf_wf s1" "buf_room s1 = 4 * int (length ids) + (if ids = [] then 0 else 8)"
    using s1(2) buf_extends_room[OF s1(2)] room0 by (auto simp: buf_extends_def)
  have pre: "take (length ids) (ra_packet_id a) = ids" using l unfolding ids ack_ids_def by (simp add: min_def)
  obtain s2 where s2: "ack_write_loop (ra_packet_id a) 0 (unat n) s1 = Inr s2" "buf_extends s1 (ids_wire ids) s2"
  proof -
    have "0 + length ids \<le> length (ra_packet_id a)" "int (4 * length ids) \<le> buf_room s1"
      using s1'(2) l8 a by (auto simp: ack_wf_def)
    from ack_write_loop_ok[OF s1'(1) this] show ?thesis using that n(1) pre by auto
  qed
  have e2: "buf_extends sub (n # ids_wire ids) s2" using buf_extends_trans[OF s1(2) s2(2)] by simp
  show ?thesis
  proof (cases "ids = []")
    case True
    then have "buf_extends sub (ack_wire ids sid) s2" using e2 n_def by (simp add: ack_wire_def)
    from sync[OF this] show ?thesis
      using True sub(1,2) s1(1) s2(1) n(3) a by (simp add: reliable_ack_write_def Let_def cnt)
  next
    case False
    have s2': "buf_wf s2" "buf_room s2 = 8"
      using s2(2) buf_extends_room[OF s2(2)] s1'(2) False by (auto simp: buf_extends_def)
    obtain s3 where s3: "buf_write s2 (sid_id sid) = Inr (True, s3)" "buf_extends s2 (sid_id sid) s3"
      using buf_write_extends[OF s2'(1), of "sid_id sid"] s2'(2) sid(1) by (auto simp: sid_wf_def SID_SIZE_def)
    have e3: "buf_extends sub (ack_wire ids sid) s3"
      using buf_extends_trans[OF e2 s3(2)] False n_def by (simp add: ack_wire_def)
    obtain ids' where sh: "ack_shift_loop 0 (uint n) (ra_len a) (ra_packet_id a) = Inr (ra_len a - uint n, ids')"
      "length ids' = length (ra_packet_id a)"
      "take (nat (ra_len a - uint n)) ids' = take (nat (ra_len a - uint n)) (drop (length ids) (ra_packet_id a))"
      using ack_shift_loop_ok[of 0 "uint n" "ra_len a" "ra_packet_id a"] n(2) l a by (auto simp: ack_wf_def)
    let ?a' = "a\<lparr>ra_packet_id := ids', ra_len := ra_len a - uint n\<rparr>"
    have "ack_ids ?a' = drop (length ids) (ack_ids a)"
    proof -
      have "nat (ra_len a - uint n) = nat (ra_len a) - length ids" using n(2) by simp
      then show ?thesis using sh(3) by (simp add: ack_ids_def drop_take)
    qed
    moreover have "ack_wf ?a'" using a sh(2) l n(2) by (auto simp: ack_wf_def)
    ultimately show ?thesis
      using False sub(1,2) s1(1) s2(1) s3(1) n(3) sh(1) sid(2) sync[OF e3]
      by (simp add: reliable_ack_write_def Let_def cnt session_id_write_def)
  qed
qed

text \<open>A successful call had the room it needed.\<close>

lemma ack_write_inv:
  assumes "buf_wf b" "ack_wf a" "sid_wf sid" "session_id_defined sid" "0 \<le> mx"
    and run: "reliable_ack_write a b sid mx prepend = Inr (True, a', b')"
    and ids: "ids = take (nat mx) (ack_ids a)"
  shows "ack_wf a'" "ack_ids a' = drop (length ids) (ack_ids a)"
    "buf_content b' = (if prepend then ack_wire ids sid @ buf_content b else buf_content b @ ack_wire ids sid)"
proof -
  define n where "n = (of_nat (length ids) :: byte)"
  have l8: "length ids \<le> 8" using assms(2) length_ack_ids[OF assms(2)] ids by (auto simp: ack_wf_def)
  then have "unat n = length ids" unfolding n_def by (intro unat_of_nat_small) linarith
  then have n: "uint n = int (length ids)" by (metis uint_nat)
  note cnt = ack_count[OF assms(2,5), folded ids n_def]
  have room: "ACK_SIZE (int (length ids)) \<le> (if prepend then b_offset b else buf_room b)"
  proof (rule ccontr)
    assume no: "\<not> ?thesis"
    moreover have "ACK_SIZE (int (length ids)) \<le> INT_MAX" "0 \<le> ACK_SIZE (int (length ids))"
      using l8 by (simp_all add: ACK_SIZE_def SID_SIZE_def INT_MAX_def)
    ultimately have "buf_sub b (ACK_SIZE (uint n)) prepend = Inr (b, None)"
      using assms(1) n by (cases prepend) (auto simp: buf_sub_def buf_prepend_def buf_write_alloc_def buf_safe_iff)
    then show False using run by (simp add: reliable_ack_write_def Let_def cnt)
  qed
  from ack_write_ok[OF assms(1-5) ids room] run
  have "ack_wf a'" "ack_ids a' = drop (length ids) (ack_ids a)"
    "b' = (if prepend then buf_push_front b (ack_wire ids sid) else buf_append b (ack_wire ids sid))" by auto
  moreover have "int (length (ack_wire ids sid)) \<le> (if prepend then b_offset b else buf_room b)"
    using room length_ack_wire[OF assms(3)] by simp
  ultimately show "ack_wf a'" "ack_ids a' = drop (length ids) (ack_ids a)"
    "buf_content b' = (if prepend then ack_wire ids sid @ buf_content b else buf_content b @ ack_wire ids sid)"
    using assms(1) by (auto simp: buf_push_front_content buf_append_content)
qed

lemma ack_read_ok:
  assumes "buf_wf b" "buf_content b = ack_wire ids sid @ c" "sid_wf sid" "session_id_defined sid"
    and "ack_wf a" "ra_len a + int (length ids) \<le> 8"
  shows "\<exists>a' b'. reliable_ack_read a b sid = Inr (True, a', b') \<and> ack_wf a' \<and> ack_ids a' = ack_ids a @ ids
    \<and> buf_wf b' \<and> buf_content b' = c"
proof -
  let ?n = "of_nat (length ids) :: byte"
  let ?t = "(if ids = [] then [] else sid_id sid) @ c"
  have l8: "length ids \<le> 8" using assms(5,6) by (simp add: ack_wf_def)
  then have n1: "unat ?n = length ids" by (intro unat_of_nat_small) linarith
  have n: "unat ?n = length ids" "?n = 0 \<longleftrightarrow> ids = []"
    by (rule n1, metis n1 length_0_conv unat_eq_zero)
  have c0: "buf_content b = ?n # ids_wire ids @ ?t" using assms(2) by (simp add: ack_wire_def)
  have l: "1 \<le> b_len b" using content_prefix_len[of b "[?n]"] c0 assms(1) by simp
  let ?b1 = "buf_drop b 1"
  have b1: "buf_read b 1 = Inr (Some [?n], ?b1)" "buf_wf ?b1" "buf_content ?b1 = ids_wire ids @ ?t"
    using l assms(1) c0 by (simp_all add: buf_read_take wf_intros buf_drop_content)
  obtain a1 b2 where r: "ack_read_loop (length ids) a ?b1 = Inr (True, a1, b2)" "ack_wf a1"
    "ack_ids a1 = ack_ids a @ ids" "buf_wf b2" "buf_content b2 = ?t"
    using ack_read_loop_ok[OF b1(2,3) assms(5,6)] by blast
  show ?thesis
  proof (cases "ids = []")
    case True
    then show ?thesis using b1(1) r n by (simp add: reliable_ack_read_def)
  next
    case False
    then have "buf_content b2 = sid_id sid @ c" using r(5) by simp
    note s = session_id_read_content[OF r(4) this assms(3)]
    show ?thesis using False b1(1) r n s assms(4) session_id_equal_iff[OF assms(3,3)]
      by (auto simp: reliable_ack_read_def)
  qed
qed

text \<open>
  C28. An acknowledgment record survives the wire. \<open>reliable_ack_write\<close> in front of a packet sends the
  oldest \<open>max\<close> pending identifiers and keeps exactly the others; \<open>reliable_ack_read\<close> with the same
  session identifier returns those identifiers in order and leaves the packet as it was.
\<close>

theorem reliable_ack_roundtrip:
  assumes "buf_wf b" "ack_wf a" "sid_wf sid" "session_id_defined sid" "0 \<le> mx"
    and "ACK_SIZE (min mx (ra_len a)) \<le> b_offset b"
  shows "\<exists>a' b' a2 b2. reliable_ack_write a b sid mx True = Inr (True, a', b')
    \<and> ack_ids a' = drop (nat mx) (ack_ids a)
    \<and> reliable_ack_read \<lparr>ra_len = 0, ra_packet_id = replicate 8 0\<rparr> b' sid = Inr (True, a2, b2)
    \<and> ack_ids a2 = take (nat mx) (ack_ids a) \<and> buf_content b2 = buf_content b"
proof -
  let ?ids = "take (nat mx) (ack_ids a)" and ?z = "\<lparr>ra_len = 0, ra_packet_id = replicate 8 0\<rparr>"
  have l: "int (length (ack_ids a)) = ra_len a" "ra_len a \<le> 8" using assms(2) length_ack_ids by (auto simp: ack_wf_def)
  then have len: "int (length ?ids) = min mx (ra_len a)" using assms(5) by (simp add: min_def) arith
  have room: "int (length (ack_wire ?ids sid)) \<le> b_offset b"
    using assms(6) length_ack_wire[OF assms(3), of ?ids] len by simp
  obtain a' where w: "reliable_ack_write a b sid mx True = Inr (True, a', buf_push_front b (ack_wire ?ids sid))"
    "ack_ids a' = drop (length ?ids) (ack_ids a)"
    using ack_write_ok[OF assms(1-5) refl, of True] assms(6) len by auto
  have b': "buf_wf (buf_push_front b (ack_wire ?ids sid))"
    "buf_content (buf_push_front b (ack_wire ?ids sid)) = ack_wire ?ids sid @ buf_content b"
    using assms(1) room by (simp_all add: buf_push_front_wf buf_push_front_content)
  have z: "ack_wf ?z" "ack_ids ?z = []" by (simp_all add: ack_wf_def ack_ids_def)
  have "ra_len ?z + int (length ?ids) \<le> 8" using l len by simp
  from ack_read_ok[OF b' assms(3,4) z(1) this] z(2) w show ?thesis by (auto simp: min_def)
qed

theorem reliable_ack_roundtrip_witness:
  "\<exists>a' b' a2 b2. reliable_ack_write \<lparr>ra_len = 3, ra_packet_id = [7, 8, 9, 0, 0, 0, 0, 0]\<rparr>
        \<lparr>b_capacity = 32, b_offset = 20, b_len = 2, b_data = Some (replicate 32 5)\<rparr>
        \<lparr>sid_id = [1, 2, 3, 4, 5, 6, 7, 8]\<rparr> 2 True = Inr (True, a', b')
    \<and> ack_ids a' = drop (nat 2) (ack_ids \<lparr>ra_len = 3, ra_packet_id = [7, 8, 9, 0, 0, 0, 0, 0]\<rparr>)
    \<and> reliable_ack_read \<lparr>ra_len = 0, ra_packet_id = replicate 8 0\<rparr> b' \<lparr>sid_id = [1, 2, 3, 4, 5, 6, 7, 8]\<rparr>
        = Inr (True, a2, b2)
    \<and> ack_ids a2 = take (nat 2) (ack_ids \<lparr>ra_len = 3, ra_packet_id = [7, 8, 9, 0, 0, 0, 0, 0]\<rparr>)
    \<and> buf_content b2 = buf_content \<lparr>b_capacity = 32, b_offset = 20, b_len = 2, b_data = Some (replicate 32 5)\<rparr>"
  by (rule reliable_ack_roundtrip)
    (simp_all add: buf_wf_def BUF_SIZE_MAX_def ack_wf_def sid_wf_def SID_SIZE_def session_id_defined_def
      x_session_id_zero_def numeral_eq_Suc ACK_SIZE_def)

end
