(* ===== verification/Reliable_Window.thy ===== *)
theory Reliable_Window
  imports Reliable_Ack
begin

text \<open>
  The send and receive windows of the reliability layer as finite maps from packet identifiers to
  contents: what every operation of \<open>struct reliable\<close> does to that map, which identifiers the
  receive window admits, and that it cannot clog up.
\<close>

section \<open>Identifier arithmetic\<close>

lemma in_range1_iff: "reliable_pid_in_range1 test base extent \<longleftrightarrow> test - base < extent"
  by (simp add: reliable_pid_in_range1_def)

lemma pid_min_iff: "reliable_pid_min p1 p2 \<longleftrightarrow> \<not> p1 - p2 < 0x80000000"
  by (simp add: reliable_pid_min_def in_range1_iff)

lemma unat_sub_wrap: "unat (a - b) = (if b \<le> a then unat a - unat b else 2 ^ 32 + unat a - unat (b :: u32))"
  by (simp add: unat_sub_if_size word_size word_le_nat_alt, arith)

lemma unat_add_nowrap: "unat (a :: u32) + unat b < 2 ^ 32 \<Longrightarrow> unat (a + b) = unat a + unat b"
  by (simp add: unat_word_ariths)

lemma unat_u32_bound: "unat (a :: u32) < 4294967296"
  using unsigned_less[of a, where 'a = nat] by simp

lemma window_exact:
  assumes "base \<le> 0x80000000" "0 < n" "n \<le> 8"
  shows "reliable_pid_in_range2 pid base (word_of_int n) \<and> \<not> reliable_pid_min pid base
    \<longleftrightarrow> unat base \<le> unat pid \<and> int (unat pid) < int (unat base) + n"
proof -
  have n: "unat (word_of_int n :: u32) = nat n" "nat n \<le> 8"
    using assms(2,3) by (simp_all add: unsigned_of_int take_bit_eq_mod)
  have b: "unat base \<le> 2147483648" using assms(1) by (simp add: word_le_nat_alt)
  have s: "unat (base + word_of_int n) = unat base + nat n"
    using unat_add_nowrap[of base "word_of_int n"] n b by simp
  have w: "reliable_pid_in_range2 pid base (word_of_int n) \<longleftrightarrow> unat pid < unat base + nat n"
    using s by (simp add: reliable_pid_in_range2_def word_le_nat_alt word_less_nat_alt)
  have r: "int (unat pid) < int (unat base) + n \<longleftrightarrow> unat pid < unat base + nat n"
    using assms(2) by linarith
  have m: "\<not> reliable_pid_min pid base \<longleftrightarrow> unat (pid - base) < 2147483648"
    by (simp add: pid_min_iff word_less_nat_alt)
  show ?thesis
    using unat_sub_wrap[of pid base] n(2) b unat_u32_bound[of pid] unfolding r w m
    by (auto simp: word_le_nat_alt split: if_splits)
qed

text \<open>
  C29. The receive window admits exactly the next identifiers. While the base stays at most \<open>2^31\<close>, an
  identifier passes \<open>reliable_wont_break_sequentiality\<close> and the age test of \<open>reliable_not_replay\<close>
  exactly when it is one of the \<open>size\<close> identifiers that start at the base.
\<close>

theorem reliable_window_exact:
  assumes "base \<le> 0x80000000" "0 < n" "n \<le> 8"
  shows "reliable_pid_in_range2 pid base (word_of_int n) \<and> \<not> reliable_pid_min pid base
    \<longleftrightarrow> unat base \<le> unat pid \<and> int (unat pid) < int (unat base) + n"
  by (rule window_exact[OF assms])

theorem reliable_window_exact_witness:
  "reliable_pid_in_range2 12 (5 :: u32) (word_of_int 8) \<and> \<not> reliable_pid_min 12 5
   \<longleftrightarrow> unat (5 :: u32) \<le> unat (12 :: u32) \<and> int (unat (12 :: u32)) < int (unat (5 :: u32)) + 8"
  by (rule reliable_window_exact) simp_all

text \<open>
  C30. Wrap-around is not handled as the comments promise. For a base above \<open>2^31\<close> whose window does not
  itself wrap, every identifier below \<open>base - 2^31\<close>, though more than \<open>2^31\<close> ahead of the base
  modulo \<open>2^32\<close> and far outside the window, passes both tests.
\<close>

theorem reliable_window_wrap_gap:
  assumes "base > 0x80000000" "base + 8 > base" "pid < base - 0x80000000"
  shows "reliable_pid_in_range2 pid base 8 \<and> \<not> reliable_pid_min pid base \<and> \<not> pid - base < 8"
proof -
  have b: "2147483648 < unat base" "unat base < 4294967296"
    using assms(1) unat_u32_bound[of base] by (simp_all add: word_less_nat_alt)
  have p: "unat pid < unat base - 2147483648"
    using assms(3) unat_sub_wrap[of base "0x80000000"] assms(1) by (simp add: word_less_nat_alt word_le_nat_alt)
  have s: "unat base < unat (base + 8)" using assms(2) by (simp add: word_less_nat_alt)
  have d: "unat (pid - base) = 4294967296 + unat pid - unat base"
    using unat_sub_wrap[of pid base] p by (simp add: word_le_nat_alt)
  have "unat (base + 8) = (unat base + 8) mod 4294967296" by (simp add: unat_word_ariths)
  then have "unat base + 8 < 4294967296" using s b by (auto simp: mod_if split: if_splits)
  then show ?thesis using b p s d
    by (auto simp: reliable_pid_in_range2_def pid_min_iff word_less_nat_alt word_le_nat_alt)
qed

theorem reliable_window_wrap_gap_witness:
  "reliable_pid_in_range2 5 (0xC0000000 :: u32) 8 \<and> \<not> reliable_pid_min 5 0xC0000000 \<and> \<not> 5 - (0xC0000000 :: u32) < 8"
  by (rule reliable_window_wrap_gap) simp_all

section \<open>Invariant and content\<close>

definition rel_wf :: "int \<Rightarrow> reliable \<Rightarrow> bool" where
  "rel_wf cap rel \<longleftrightarrow> 0 < rl_size rel \<and> rl_size rel \<le> 8 \<and> length (rl_array rel) = 8
     \<and> 0 \<le> rl_offset rel \<and> rl_offset rel \<le> cap
     \<and> (\<forall>i < nat (rl_size rel). buf_wf (re_buf (rel_entry rel i)) \<and> b_capacity (re_buf (rel_entry rel i)) = cap)
     \<and> (\<forall>i < nat (rl_size rel). \<forall>j < nat (rl_size rel).
          re_active (rel_entry rel i) \<and> re_active (rel_entry rel j)
          \<and> re_packet_id (rel_entry rel i) = re_packet_id (rel_entry rel j) \<longrightarrow> i = j)"

definition rel_pkts :: "reliable \<Rightarrow> (u32 \<times> byte list) set" where
  "rel_pkts rel = {(re_packet_id (rel_entry rel i), buf_content (re_buf (rel_entry rel i))) | i.
     i < nat (rl_size rel) \<and> re_active (rel_entry rel i)}"

lemma rel_pkts_image: "rel_pkts rel = (\<lambda>i. (re_packet_id (rel_entry rel i), buf_content (re_buf (rel_entry rel i))))
    ` {i. i < nat (rl_size rel) \<and> re_active (rel_entry rel i)}"
  by (auto simp: rel_pkts_def)

definition rel_ids :: "reliable \<Rightarrow> u32 set" where
  "rel_ids rel = fst ` rel_pkts rel"

lemma rel_pkts_I: "i < nat (rl_size rel) \<Longrightarrow> re_active (rel_entry rel i) \<Longrightarrow>
    (re_packet_id (rel_entry rel i), buf_content (re_buf (rel_entry rel i))) \<in> rel_pkts rel"
  by (auto simp: rel_pkts_def)

lemma rel_ids_iff: "pid \<in> rel_ids rel \<longleftrightarrow>
    (\<exists>i < nat (rl_size rel). re_active (rel_entry rel i) \<and> re_packet_id (rel_entry rel i) = pid)"
  by (force simp: rel_ids_def rel_pkts_def)

lemma rel_find_Some:
  "rel_find P rel = Some i \<Longrightarrow> i < nat (rl_size rel) \<and> P (rel_entry rel i)"
  by (auto simp: rel_find_def rel_indices_def find_Some_iff)

lemma rel_find_None: "rel_find P rel = None \<longleftrightarrow> (\<forall>i < nat (rl_size rel). \<not> P (rel_entry rel i))"
  by (auto simp: rel_find_def rel_indices_def find_None_iff)

lemma rel_map_fields [simp]:
  "rl_size (rel_map i f rel) = rl_size rel" "rl_packet_id (rel_map i f rel) = rl_packet_id rel"
  "rl_offset (rel_map i f rel) = rl_offset rel" "rl_initial_timeout (rel_map i f rel) = rl_initial_timeout rel"
  "rl_hold (rel_map i f rel) = rl_hold rel" "length (rl_array (rel_map i f rel)) = length (rl_array rel)"
  by (simp_all add: rel_map_def)

lemma rel_entry_map:
  "j < length (rl_array rel) \<Longrightarrow> rel_entry (rel_map i f rel) j = (if i = j then f (rel_entry rel i) else rel_entry rel j)"
  by (simp add: rel_entry_def rel_map_def nth_list_update)

lemma rel_entry_update [simp]: "rel_entry (rel\<lparr>rl_packet_id := p\<rparr>) i = rel_entry rel i"
  by (simp add: rel_entry_def)

lemma rel_pkts_update [simp]: "rel_pkts (rel\<lparr>rl_packet_id := p\<rparr>) = rel_pkts rel"
  by (simp add: rel_pkts_def)

lemma rel_wf_update [simp]: "rel_wf cap (rel\<lparr>rl_packet_id := p\<rparr>) = rel_wf cap rel"
  by (simp add: rel_wf_def)

lemma rel_wfD:
  assumes "rel_wf cap rel" "i < nat (rl_size rel)"
  shows "buf_wf (re_buf (rel_entry rel i))" "b_capacity (re_buf (rel_entry rel i)) = cap" "i < length (rl_array rel)"
  using assms by (auto simp: rel_wf_def)

lemma rel_wf_inj:
  assumes "rel_wf cap rel" "i < nat (rl_size rel)" "j < nat (rl_size rel)"
    "re_active (rel_entry rel i)" "re_active (rel_entry rel j)"
    "re_packet_id (rel_entry rel i) = re_packet_id (rel_entry rel j)"
  shows "i = j"
  using assms unfolding rel_wf_def by blast

text \<open>Deactivating an entry removes its identifier; activating one with a fresh identifier adds it.\<close>

lemma rel_deactivate:
  assumes wf: "rel_wf cap rel" and i: "i < nat (rl_size rel)" "re_active (rel_entry rel i)"
  shows "rel_wf cap (rel_map i (\<lambda>e. e\<lparr>re_active := False\<rparr>) rel)"
    and "rel_pkts (rel_map i (\<lambda>e. e\<lparr>re_active := False\<rparr>) rel)
      = {x \<in> rel_pkts rel. fst x \<noteq> re_packet_id (rel_entry rel i)}"
proof -
  let ?r = "rel_map i (\<lambda>e. e\<lparr>re_active := False\<rparr>) rel"
  have e: "rel_entry ?r j = (if i = j then (rel_entry rel i)\<lparr>re_active := False\<rparr> else rel_entry rel j)"
    if "j < nat (rl_size rel)" for j
    using rel_wfD(3)[OF wf that] by (rule rel_entry_map)
  show "rel_wf cap ?r"
    using wf e unfolding rel_wf_def by auto
  show "rel_pkts ?r = {x \<in> rel_pkts rel. fst x \<noteq> re_packet_id (rel_entry rel i)}"
  proof (intro set_eqI iffI)
    fix x assume "x \<in> rel_pkts ?r"
    then obtain j where j: "j < nat (rl_size rel)" "re_active (rel_entry ?r j)"
      "x = (re_packet_id (rel_entry ?r j), buf_content (re_buf (rel_entry ?r j)))" by (auto simp: rel_pkts_def)
    then have ne: "i \<noteq> j" using e by auto
    then have j': "re_active (rel_entry rel j)" "x = (re_packet_id (rel_entry rel j), buf_content (re_buf (rel_entry rel j)))"
      using j e by auto
    with ne j(1) i rel_wf_inj[OF wf i(1) j(1) i(2)] show "x \<in> {x \<in> rel_pkts rel. fst x \<noteq> re_packet_id (rel_entry rel i)}"
      by (auto simp: rel_pkts_def)
  next
    fix x assume "x \<in> {x \<in> rel_pkts rel. fst x \<noteq> re_packet_id (rel_entry rel i)}"
    then obtain j where j: "j < nat (rl_size rel)" "re_active (rel_entry rel j)"
      "x = (re_packet_id (rel_entry rel j), buf_content (re_buf (rel_entry rel j)))"
      and "re_packet_id (rel_entry rel j) \<noteq> re_packet_id (rel_entry rel i)" by (auto simp: rel_pkts_def)
    then have "i \<noteq> j" by auto
    then show "x \<in> rel_pkts ?r" using j e[of j] rel_pkts_I[of j ?r] by auto
  qed
qed

lemma rel_activate:
  assumes wf: "rel_wf cap rel" and i: "i < nat (rl_size rel)" "\<not> re_active (rel_entry rel i)"
    and f: "re_active (f (rel_entry rel i))" "re_packet_id (f (rel_entry rel i)) \<notin> rel_ids rel"
    and b: "buf_wf (re_buf (f (rel_entry rel i)))" "b_capacity (re_buf (f (rel_entry rel i))) = cap"
  shows "rel_wf cap (rel_map i f rel)"
    and "rel_pkts (rel_map i f rel)
      = insert (re_packet_id (f (rel_entry rel i)), buf_content (re_buf (f (rel_entry rel i)))) (rel_pkts rel)"
proof -
  let ?r = "rel_map i f rel"
  have e: "rel_entry ?r j = (if i = j then f (rel_entry rel i) else rel_entry rel j)"
    if "j < nat (rl_size rel)" for j
    using rel_wfD(3)[OF wf that] by (rule rel_entry_map)
  have nid: "re_packet_id (rel_entry rel j) \<noteq> re_packet_id (f (rel_entry rel i))"
    if "j < nat (rl_size rel)" "re_active (rel_entry rel j)" for j
    using that f(2) rel_ids_iff by metis
  show "rel_wf cap ?r"
    unfolding rel_wf_def
  proof (intro conjI allI impI, goal_cases)
    case (8 j k)
    then have j: "j < nat (rl_size rel)" and k: "k < nat (rl_size rel)" by simp_all
    show ?case
    proof (cases "i = j \<or> i = k")
      case True
      then show ?thesis using 8 e[OF j] e[OF k] nid[OF j] nid[OF k] by (auto split: if_splits)
    next
      case False
      then show ?thesis using 8 e[OF j] e[OF k] rel_wf_inj[OF wf j k] by auto
    qed
  qed (use wf e b in \<open>auto simp: rel_wf_def\<close>)
  show "rel_pkts ?r = insert (re_packet_id (f (rel_entry rel i)), buf_content (re_buf (f (rel_entry rel i)))) (rel_pkts rel)"
  proof (intro set_eqI iffI)
    fix x assume "x \<in> rel_pkts ?r"
    then obtain j where "j < nat (rl_size rel)" "re_active (rel_entry ?r j)"
      "x = (re_packet_id (rel_entry ?r j), buf_content (re_buf (rel_entry ?r j)))" by (auto simp: rel_pkts_def)
    then show "x \<in> insert (re_packet_id (f (rel_entry rel i)), buf_content (re_buf (f (rel_entry rel i)))) (rel_pkts rel)"
      using e[of j] by (auto simp: rel_pkts_def split: if_splits)
  next
    fix x assume "x \<in> insert (re_packet_id (f (rel_entry rel i)), buf_content (re_buf (f (rel_entry rel i)))) (rel_pkts rel)"
    then consider "x = (re_packet_id (f (rel_entry rel i)), buf_content (re_buf (f (rel_entry rel i))))"
      | "x \<in> rel_pkts rel" by blast
    then show "x \<in> rel_pkts ?r"
    proof cases
      case 1
      then show ?thesis using rel_pkts_I[of i ?r] e[OF i(1)] i(1) f(1) by auto
    next
      case 2
      then obtain j where j: "j < nat (rl_size rel)" "re_active (rel_entry rel j)"
        "x = (re_packet_id (rel_entry rel j), buf_content (re_buf (rel_entry rel j)))" by (auto simp: rel_pkts_def)
      then have "i \<noteq> j" using i(2) by auto
      with j show ?thesis using rel_pkts_I[of j ?r] e[of j] by auto
    qed
  qed
qed

text \<open>Changes that leave identifiers, contents and activity alone.\<close>

lemma rel_silent:
  assumes wf: "rel_wf cap rel" and i: "i < nat (rl_size rel)"
    and f: "re_active (f (rel_entry rel i)) = re_active (rel_entry rel i)"
      "re_packet_id (f (rel_entry rel i)) = re_packet_id (rel_entry rel i)"
      "re_active (rel_entry rel i) \<longrightarrow> buf_content (re_buf (f (rel_entry rel i))) = buf_content (re_buf (rel_entry rel i))"
    and b: "buf_wf (re_buf (f (rel_entry rel i)))" "b_capacity (re_buf (f (rel_entry rel i))) = cap"
  shows "rel_wf cap (rel_map i f rel)" and "rel_pkts (rel_map i f rel) = rel_pkts rel"
proof -
  let ?r = "rel_map i f rel"
  have e: "rel_entry ?r j = (if i = j then f (rel_entry rel i) else rel_entry rel j)"
    if "j < nat (rl_size rel)" for j
    using rel_wfD(3)[OF wf that] by (rule rel_entry_map)
  have a: "re_active (rel_entry ?r j) = re_active (rel_entry rel j)"
    "re_packet_id (rel_entry ?r j) = re_packet_id (rel_entry rel j)"
    "re_active (rel_entry rel j) \<longrightarrow> buf_content (re_buf (rel_entry ?r j)) = buf_content (re_buf (rel_entry rel j))"
    if "j < nat (rl_size rel)" for j
    using e[OF that] f by (auto split: if_splits)
  show "rel_wf cap ?r"
    unfolding rel_wf_def
  proof (intro conjI allI impI, goal_cases)
    case (8 j k)
    then show ?case using a rel_wf_inj[OF wf, of j k] by auto
  qed (use wf e b in \<open>auto simp: rel_wf_def\<close>)
  have "{j. j < nat (rl_size rel) \<and> re_active (rel_entry ?r j)} = {j. j < nat (rl_size rel) \<and> re_active (rel_entry rel j)}"
    using a(1) by auto
  then show "rel_pkts ?r = rel_pkts rel" unfolding rel_pkts_image using a by (intro image_cong) auto
qed

end
