(* ===== verification/Reliable_Receive.thy ===== *)
theory Reliable_Receive
  imports Reliable_Ops
begin

text \<open>
  The receiving side as \<open>tls_pre_decrypt\<close> drives it: what storing a control packet does, and the
  invariant of the receive window under which a full window can always deliver.
\<close>

section \<open>Storing a packet\<close>

lemma acknowledge_ok:
  assumes "ack_wf a"
  shows "\<exists>r a'. reliable_ack_acknowledge_packet_id a pid = Inr (r, a') \<and> ack_wf a'
    \<and> set (ack_ids a') \<subseteq> insert pid (set (ack_ids a))"
proof (cases "\<not> reliable_ack_packet_id_present a pid \<and> ra_len a < RELIABLE_ACK_SIZE")
  case True
  then obtain a' where "ack_push a pid = Inr a'" "ack_wf a'" "ack_ids a' = ack_ids a @ [pid]"
    using ack_push_ok[OF assms] by (auto simp: RELIABLE_ACK_SIZE_def)
  then show ?thesis using True by (auto simp: reliable_ack_acknowledge_packet_id_def)
next
  case False
  then show ?thesis using assms by (auto simp: reliable_ack_acknowledge_packet_id_def)
qed

definition store_admits :: "reliable \<Rightarrow> u32 \<Rightarrow> bool" where
  "store_admits rel pid \<longleftrightarrow> reliable_wont_break_sequentiality rel pid \<and> reliable_not_replay rel pid"

lemma copy_into:
  assumes "buf_wf d" "buf_wf b"
  shows "\<exists>ok d'. buf_copy d b = Inr (ok, d') \<and> buf_wf d' \<and> b_capacity d' = b_capacity d
    \<and> buf_content d' = (if ok then buf_content d @ buf_content b else buf_content d)"
proof (cases "int (length (buf_content b)) \<le> buf_room d")
  case True
  then show ?thesis using assms
    by (auto simp: buf_copy_def buf_write_append buf_append_wf buf_append_content)
next
  case False
  moreover have "int (length (buf_content b)) \<le> INT_MAX"
    using buf_wf_bounds[OF assms(2)] length_buf_content[OF assms(2)] by (simp add: INT_MAX_def)
  ultimately have "buf_write d (buf_content b) = Inr (False, d)" using assms(1) by (intro buf_write_full) auto
  then show ?thesis using assms by (auto simp: buf_copy_def)
qed

lemma store_new_ok:
  assumes wf: "rel_wf cap rel" and b: "buf_wf b" and adm: "store_admits rel pid" and free: "reliable_can_get rel"
  shows "\<exists>i r1 ok b'. reliable_get_buf rel = Inr (Some i, r1) \<and> buf_copy (re_buf (rel_entry r1 i)) b = Inr (ok, b')
    \<and> rel_wf cap (rel_map i (\<lambda>e. e\<lparr>re_buf := b'\<rparr>) r1)
    \<and> rel_pkts (rel_map i (\<lambda>e. e\<lparr>re_buf := b'\<rparr>) r1) = rel_pkts rel
    \<and> rl_packet_id r1 = rl_packet_id rel \<and> same_frame r1 rel
    \<and> (ok \<longrightarrow> (\<exists>r3. reliable_mark_active_incoming (rel_map i (\<lambda>e. e\<lparr>re_buf := b'\<rparr>) r1) i pid opcode = Inr r3
          \<and> rel_wf cap r3 \<and> rel_pkts r3 = insert (pid, buf_content b) (rel_pkts rel)
          \<and> rl_packet_id r3 = rl_packet_id rel \<and> same_frame r3 rel))"
proof -
  obtain i r1 where g: "reliable_get_buf rel = Inr (Some i, r1)" "i < nat (rl_size r1)" "\<not> re_active (rel_entry r1 i)"
    "buf_wf (re_buf (rel_entry r1 i))" "buf_content (re_buf (rel_entry r1 i)) = []"
    "b_capacity (re_buf (rel_entry r1 i)) = cap" "rel_wf cap r1" "rel_pkts r1 = rel_pkts rel"
    "rl_packet_id r1 = rl_packet_id rel" "same_frame r1 rel"
    using get_buf_ok[OF wf free] by blast
  obtain ok b' where c: "buf_copy (re_buf (rel_entry r1 i)) b = Inr (ok, b')" "buf_wf b'" "b_capacity b' = cap"
    "ok \<longrightarrow> buf_content b' = buf_content b"
    using copy_into[OF g(4) b] g(5,6) by auto
  let ?r2 = "rel_map i (\<lambda>e. e\<lparr>re_buf := b'\<rparr>) r1"
  note s = set_buf_silent[OF g(7,2,3) c(2,3)]
  have ids: "pid \<notin> rel_ids ?r2" and mn: "\<not> reliable_pid_min pid (rl_packet_id ?r2)"
    using adm g(8,9) s(2) by (simp_all add: store_admits_def not_replay_iff rel_ids_def)
  have act: "\<not> re_active (rel_entry ?r2 i)" "i < nat (rl_size ?r2)" using g(2,3) s(3) by simp_all
  obtain r3 where "reliable_mark_active_incoming ?r2 i pid opcode = Inr r3" "rel_wf cap r3"
    "rel_pkts r3 = insert (pid, buf_content b') (rel_pkts ?r2)" "rl_packet_id r3 = rl_packet_id ?r2" "same_frame r3 ?r2"
    using mark_active_incoming_ok[OF s(1) act(2,1) ids mn, of opcode] s(3) by auto
  then show ?thesis using g c s by (fastforce simp: same_frame_def)
qed

lemma control_store_ok:
  assumes wf: "rel_wf cap (rs_rec s)" and a: "ack_wf (rs_ack s)" and b: "buf_wf b" and free: "reliable_can_get (rs_rec s)"
  shows "\<exists>ok s'. control_store s pid b opcode = Inr (ok, s') \<and> rs_send s' = rs_send s
    \<and> rel_wf cap (rs_rec s') \<and> rl_packet_id (rs_rec s') = rl_packet_id (rs_rec s)
    \<and> same_frame (rs_rec s') (rs_rec s) \<and> ack_wf (rs_ack s')
    \<and> (rel_pkts (rs_rec s') = rel_pkts (rs_rec s)
       \<or> store_admits (rs_rec s) pid \<and> rel_pkts (rs_rec s') = insert (pid, buf_content b) (rel_pkts (rs_rec s)))
    \<and> (\<forall>j \<in> set (ack_ids (rs_ack s')). j \<in> set (ack_ids (rs_ack s))
         \<or> j = pid \<and> reliable_wont_break_sequentiality (rs_rec s) pid
           \<and> (pid \<in> rel_ids (rs_rec s') \<or> reliable_pid_min pid (rl_packet_id (rs_rec s))))"
proof (cases "reliable_wont_break_sequentiality (rs_rec s) pid")
  case False
  then show ?thesis using assms by (auto simp: control_store_def)
next
  case seq: True
  obtain r a' where ack: "reliable_ack_acknowledge_packet_id (rs_ack s) pid = Inr (r, a')" "ack_wf a'"
    "set (ack_ids a') \<subseteq> insert pid (set (ack_ids (rs_ack s)))" using acknowledge_ok[OF a] by blast
  show ?thesis
  proof (cases "reliable_not_replay (rs_rec s) pid")
    case False
    then have "pid \<in> rel_ids (rs_rec s) \<or> reliable_pid_min pid (rl_packet_id (rs_rec s))"
      by (auto simp: not_replay_iff)
    then show ?thesis using False seq ack wf by (auto simp: control_store_def)
  next
    case True
    then have adm: "store_admits (rs_rec s) pid" using seq by (simp add: store_admits_def)
    obtain i r1 ok b' where st: "reliable_get_buf (rs_rec s) = Inr (Some i, r1)"
      "buf_copy (re_buf (rel_entry r1 i)) b = Inr (ok, b')"
      "rel_wf cap (rel_map i (\<lambda>e. e\<lparr>re_buf := b'\<rparr>) r1)"
      "rel_pkts (rel_map i (\<lambda>e. e\<lparr>re_buf := b'\<rparr>) r1) = rel_pkts (rs_rec s)"
      "rl_packet_id r1 = rl_packet_id (rs_rec s)" "same_frame r1 (rs_rec s)"
      "ok \<Longrightarrow> \<exists>r3. reliable_mark_active_incoming (rel_map i (\<lambda>e. e\<lparr>re_buf := b'\<rparr>) r1) i pid opcode = Inr r3
          \<and> rel_wf cap r3 \<and> rel_pkts r3 = insert (pid, buf_content b) (rel_pkts (rs_rec s))
          \<and> rl_packet_id r3 = rl_packet_id (rs_rec s) \<and> same_frame r3 (rs_rec s)"
      using store_new_ok[OF wf b adm free, of opcode] by blast
    show ?thesis
    proof (cases ok)
      case False
      then show ?thesis using True seq st a
        by (auto simp: control_store_def Let_def same_frame_def)
    next
      case ok: True
      then obtain r3 where r3: "reliable_mark_active_incoming (rel_map i (\<lambda>e. e\<lparr>re_buf := b'\<rparr>) r1) i pid opcode = Inr r3"
        "rel_wf cap r3" "rel_pkts r3 = insert (pid, buf_content b) (rel_pkts (rs_rec s))"
        "rl_packet_id r3 = rl_packet_id (rs_rec s)" "same_frame r3 (rs_rec s)" using st(7) by blast
      have "control_store s pid b opcode = Inr (True, s\<lparr>rs_rec := r3, rs_ack := a'\<rparr>)"
        using True seq st(1,2) ok r3(1) ack(1) by (simp add: control_store_def Let_def)
      moreover have "pid \<in> rel_ids r3" using r3(3) by (simp add: rel_ids_def)
      ultimately show ?thesis using r3 ack(2,3) adm seq by auto
    qed
  qed
qed

section \<open>The window never clogs up\<close>

text \<open>Every stored identifier lies among the \<open>size\<close> identifiers from the base on.\<close>

definition rec_window :: "reliable \<Rightarrow> bool" where
  "rec_window rel \<longleftrightarrow> (\<forall>pid \<in> rel_ids rel. unat (rl_packet_id rel) \<le> unat pid
     \<and> int (unat pid) < int (unat (rl_packet_id rel)) + rl_size rel)"

lemma store_admits_window:
  assumes "rel_wf cap rel" "rl_packet_id rel \<le> 0x80000000" "store_admits rel pid"
  shows "unat (rl_packet_id rel) \<le> unat pid \<and> int (unat pid) < int (unat (rl_packet_id rel)) + rl_size rel"
proof -
  let ?P = "unat (rl_packet_id rel) \<le> unat pid \<and> int (unat pid) < int (unat (rl_packet_id rel)) + rl_size rel"
  have sz: "0 < rl_size rel" "rl_size rel \<le> 8" using assms(1) by (simp_all add: rel_wf_def)
  have n: "unat (word_of_int (rl_size rel) :: u32) = nat (rl_size rel)"
    using sz by (simp add: unsigned_of_int take_bit_eq_mod)
  have "reliable_pid_in_range2 pid (rl_packet_id rel) (word_of_int (rl_size rel))"
    "\<not> reliable_pid_min pid (rl_packet_id rel)"
    using assms(3) by (simp_all only: store_admits_def reliable_wont_break_sequentiality_def not_replay_iff simp_thms)
  then show ?thesis using window_exact[OF assms(2) sz, of pid] by blast
qed

text \<open>
  A full receive window can always deliver. When the identifiers held are within the window and no
  entry is free, the packet due next is among them, so \<open>reliable_get_buf_sequenced\<close> finds it: refusing
  identifiers beyond the window is what prevents the deadlock.
\<close>

theorem reliable_receive_no_deadlock:
  assumes "rel_wf cap rel" "rec_window rel" "\<not> reliable_can_get rel"
  shows "\<exists>i. reliable_get_buf_sequenced rel = Some i"
proof (rule ccontr)
  let ?n = "nat (rl_size rel)" and ?base = "unat (rl_packet_id rel)"
  let ?k = "\<lambda>i. unat (re_packet_id (rel_entry rel i)) - ?base"
  assume "\<not> ?thesis"
  then have none: "rl_packet_id rel \<notin> rel_ids rel" using sequenced_none by auto
  have sz: "0 < rl_size rel" using assms(1) by (simp add: rel_wf_def)
  have act: "re_active (rel_entry rel i)" if "i < ?n" for i
    using assms(3) that by (auto simp: reliable_can_get_def rel_find_None)
  then have ids: "re_packet_id (rel_entry rel i) \<in> rel_ids rel" if "i < ?n" for i
    using that rel_ids_iff by blast
  then have bnd: "?base \<le> unat (re_packet_id (rel_entry rel i))"
    "int (unat (re_packet_id (rel_entry rel i))) < int ?base + rl_size rel" if "i < ?n" for i
    using that assms(2) unfolding rec_window_def by blast+
  have ne: "?k i \<noteq> 0" if "i < ?n" for i
  proof
    assume "?k i = 0"
    then have "unat (re_packet_id (rel_entry rel i)) = ?base" using bnd(1)[OF that] by linarith
    then have "re_packet_id (rel_entry rel i) = rl_packet_id rel" by (simp add: word_unat_eq_iff)
    with none ids[OF that] show False by simp
  qed
  have lt: "?k i < ?n" if "i < ?n" for i
    using bnd[OF that] sz by linarith
  have inj: "inj_on ?k {..<?n}"
  proof (rule inj_onI)
    fix i j assume ij: "i \<in> {..<?n}" "j \<in> {..<?n}" "?k i = ?k j"
    then have "unat (re_packet_id (rel_entry rel i)) = unat (re_packet_id (rel_entry rel j))"
      using bnd(1)[of i] bnd(1)[of j] by auto
    then have "re_packet_id (rel_entry rel i) = re_packet_id (rel_entry rel j)" by (simp add: word_unat_eq_iff)
    then show "i = j" using ij act rel_wf_inj[OF assms(1), of i j] by simp
  qed
  have "?k ` {..<?n} \<subseteq> {1..<?n}"
  proof
    fix x assume "x \<in> ?k ` {..<?n}"
    then obtain i where "i < ?n" "x = ?k i" by auto
    with ne[of i] lt[of i] show "x \<in> {1..<?n}" by auto
  qed
  then have "card (?k ` {..<?n}) \<le> card {1..<?n}" by (intro card_mono) auto
  then show False using card_image[OF inj] sz by simp
qed

theorem reliable_receive_no_deadlock_witness:
  "\<exists>i. reliable_get_buf_sequenced (rel_example\<lparr>rl_size := 1, rl_packet_id := 4\<rparr>) = Some i"
proof (rule reliable_receive_no_deadlock)
  show "rel_wf 8 (rel_example\<lparr>rl_size := 1, rl_packet_id := 4\<rparr>)"
    by (simp add: rel_wf_def rel_example_def rel_entry_def null_entry_def buf_wf_def BUF_SIZE_MAX_def)
  show "rec_window (rel_example\<lparr>rl_size := 1, rl_packet_id := 4\<rparr>)"
    by (auto simp: rec_window_def rel_ids_iff rel_example_def rel_entry_def)
  show "\<not> reliable_can_get (rel_example\<lparr>rl_size := 1, rl_packet_id := 4\<rparr>)"
    by (auto simp: reliable_can_get_def rel_find_None rel_example_def rel_entry_def)
qed

end
