(* ===== verification/Reliable_Channel.thy ===== *)
theory Reliable_Channel
  imports Reliable_Receive
begin

text \<open>
  Two peers that exchange control packets over a network that may lose, duplicate, delay and reorder
  them. The moves of a peer are the excerpts of \<open>tls_process\<close>, \<open>write_control_auth\<close> and
  \<open>tls_pre_decrypt\<close> (\<open>ssl.c\<close>) that use the reliability layer; the packet authentication around them
  only decides which packets of the network are looked at. A sent packet stays in the network for ever.
\<close>

section \<open>The moves of a peer\<close>

definition CONTROL_SEND_ACK_MAX :: int where "CONTROL_SEND_ACK_MAX = 4"
definition TLS_RELIABLE_N_SEND_BUFFERS :: int where "TLS_RELIABLE_N_SEND_BUFFERS = 4"
definition TLS_RELIABLE_N_REC_BUFFERS :: int where "TLS_RELIABLE_N_REC_BUFFERS = 8"

record ctl_state =
  cs_rel :: rel_session
  cs_ack_write_buf :: buffer
  cs_session_id :: session_id
  cs_session_id_remote :: session_id

definition ctl_init :: "int \<Rightarrow> int \<Rightarrow> bool \<Rightarrow> session_id \<Rightarrow> session_id \<Rightarrow> ctl_state res" where
  "ctl_init buf_size headroom hold sid remote =
     bindE (alloc_buf buf_size) (\<lambda>ab.
     bindE (reliable_init buf_size headroom TLS_RELIABLE_N_SEND_BUFFERS hold) (\<lambda>sr.
     bindE (reliable_init buf_size headroom TLS_RELIABLE_N_REC_BUFFERS False) (\<lambda>rec.
       Inr \<lparr>cs_rel = \<lparr>rs_send = sr, rs_rec = rec, rs_ack = \<lparr>ra_len = 0, ra_packet_id = replicate 8 0\<rparr>\<rparr>,
            cs_ack_write_buf = ab, cs_session_id = sid, cs_session_id_remote = remote\<rparr>)))"

text \<open>Ciphertext \<open>p\<close> of the TLS object goes into a send buffer, if there is one.\<close>

definition ctl_submit :: "ctl_state \<Rightarrow> byte list \<Rightarrow> int \<Rightarrow> (bool \<times> ctl_state) res" where
  "ctl_submit c p opcode =
     bindE (reliable_get_buf_output_sequenced (rs_send (cs_rel c))) (\<lambda>(i, s1). case i of
       None \<Rightarrow> Inr (False, c\<lparr>cs_rel := (cs_rel c)\<lparr>rs_send := s1\<rparr>\<rparr>)
     | Some i \<Rightarrow>
         bindE (buf_write (re_buf (rel_entry s1 i)) p) (\<lambda>(ok, b').
           let s2 = rel_map i (\<lambda>e. e\<lparr>re_buf := b'\<rparr>) s1 in
           if \<not> ok then Inr (False, c\<lparr>cs_rel := (cs_rel c)\<lparr>rs_send := s2\<rparr>\<rparr>)
           else bindE (reliable_mark_active_outgoing s2 i opcode) (\<lambda>s3.
             Inr (True, c\<lparr>cs_rel := (cs_rel c)\<lparr>rs_send := s3\<rparr>\<rparr>))))"

text \<open>The head of \<open>write_control_auth\<close>.\<close>

definition ctl_write_acks :: "ctl_state \<Rightarrow> buffer \<Rightarrow> int \<Rightarrow> bool \<Rightarrow> (buffer \<times> ctl_state) res" where
  "ctl_write_acks c b max_ack prepend_ack =
     bindE (reliable_ack_write (rs_ack (cs_rel c)) b (cs_session_id_remote c) max_ack prepend_ack) (\<lambda>(ok, a, b').
     bindE (assertE ok) (\<lambda>_. Inr (b', c\<lparr>cs_rel := (cs_rel c)\<lparr>rs_ack := a\<rparr>\<rparr>)))"

definition ctl_transmit :: "int \<Rightarrow> ctl_state \<Rightarrow> (buffer option \<times> ctl_state) res" where
  "ctl_transmit now c =
     (if reliable_can_send now (rs_send (cs_rel c)) then
        (case reliable_send now (rs_send (cs_rel c)) of
           (None, s1) \<Rightarrow> Inl Assert_Failed
         | (Some (i, opcode), s1) \<Rightarrow>
             bindE (ctl_write_acks (c\<lparr>cs_rel := (cs_rel c)\<lparr>rs_send := s1\<rparr>\<rparr>) (re_buf (rel_entry s1 i))
                      CONTROL_SEND_ACK_MAX True) (\<lambda>(b, c'). Inr (Some b, c')))
      else Inr (None, c))"

definition ctl_send_ack :: "int \<Rightarrow> ctl_state \<Rightarrow> (buffer option \<times> ctl_state) res" where
  "ctl_send_ack headroom c =
     (if \<not> reliable_ack_empty (rs_ack (cs_rel c)) then
        (case buf_init_dowork (cs_ack_write_buf c) headroom of (ok, b) \<Rightarrow>
           bindE (assertE ok) (\<lambda>_.
           bindE (ctl_write_acks c b RELIABLE_ACK_SIZE False) (\<lambda>(b', c'). Inr (Some b', c'))))
      else Inr (None, c))"

definition ctl_receive :: "ctl_state \<Rightarrow> buffer \<Rightarrow> int \<Rightarrow> bool \<Rightarrow> (bool \<times> ctl_state) res" where
  "ctl_receive c b opcode is_ack =
     bindE (control_receive (cs_rel c) (cs_session_id c) b opcode is_ack) (\<lambda>(ok, r).
       Inr (ok, c\<lparr>cs_rel := r\<rparr>))"

text \<open>The next packet in sequence goes to the TLS object, which takes it.\<close>

definition ctl_deliver :: "ctl_state \<Rightarrow> (byte list option \<times> ctl_state) res" where
  "ctl_deliver c =
     (case reliable_get_buf_sequenced (rs_rec (cs_rel c)) of
        None \<Rightarrow> Inr (None, c)
      | Some i \<Rightarrow>
          bindE (buf_bytes (re_buf (rel_entry (rs_rec (cs_rel c)) i))) (\<lambda>bs.
          bindE (reliable_mark_deleted (rs_rec (cs_rel c)) i True) (\<lambda>r.
            Inr (Some bs, c\<lparr>cs_rel := (cs_rel c)\<lparr>rs_rec := r\<rparr>\<rparr>))))"

section \<open>The channel\<close>

text \<open>
  The two sides are the truth values. Besides the peers and the packets sent so far the state records,
  per side, what was submitted for sending and what was delivered.
\<close>

record chan =
  ch_peer :: "bool \<Rightarrow> ctl_state"
  ch_net :: "bool \<Rightarrow> (bool \<times> byte list) set"
  ch_sent :: "bool \<Rightarrow> byte list list"
  ch_out :: "bool \<Rightarrow> byte list list"

definition chan_init :: "ctl_state \<Rightarrow> ctl_state \<Rightarrow> chan" where
  "chan_init a b = \<lparr>ch_peer = (\<lambda>d. if d then a else b), ch_net = (\<lambda>d. {}), ch_sent = (\<lambda>d. []), ch_out = (\<lambda>d. [])\<rparr>"

inductive chan_step :: "chan \<Rightarrow> chan \<Rightarrow> bool" where
  submit: "ctl_submit (ch_peer s d) p opcode = Inr (ok, c) \<Longrightarrow>
    chan_step s (s\<lparr>ch_peer := (ch_peer s)(d := c),
                   ch_sent := (ch_sent s)(d := ch_sent s d @ (if ok then [p] else []))\<rparr>)"
| transmit: "ctl_transmit now (ch_peer s d) = Inr (Some b, c) \<Longrightarrow>
    chan_step s (s\<lparr>ch_peer := (ch_peer s)(d := c), ch_net := (ch_net s)(d := insert (False, buf_content b) (ch_net s d))\<rparr>)"
| send_ack: "ctl_send_ack headroom (ch_peer s d) = Inr (Some b, c) \<Longrightarrow>
    chan_step s (s\<lparr>ch_peer := (ch_peer s)(d := c), ch_net := (ch_net s)(d := insert (True, buf_content b) (ch_net s d))\<rparr>)"
| receive: "(is_ack, m) \<in> ch_net s (\<not> d) \<Longrightarrow> buf_wf b \<Longrightarrow> buf_content b = m \<Longrightarrow>
    ctl_receive (ch_peer s d) b opcode is_ack = Inr (ok, c) \<Longrightarrow>
    chan_step s (s\<lparr>ch_peer := (ch_peer s)(d := c)\<rparr>)"
| deliver: "ctl_deliver (ch_peer s d) = Inr (Some p, c) \<Longrightarrow>
    chan_step s (s\<lparr>ch_peer := (ch_peer s)(d := c), ch_out := (ch_out s)(d := ch_out s d @ [p])\<rparr>)"

section \<open>The invariant\<close>

text \<open>Each part speaks about one component; \<open>got\<close> is what a receiver has, delivered or waiting.\<close>

definition got :: "reliable \<Rightarrow> byte list list \<Rightarrow> u32 \<Rightarrow> bool" where
  "got r out pid \<longleftrightarrow> unat pid < length out \<or> pid \<in> rel_ids r"

definition send_ok :: "int \<Rightarrow> reliable \<Rightarrow> byte list list \<Rightarrow> bool" where
  "send_ok cap r sent \<longleftrightarrow> rel_wf cap r \<and> rl_packet_id r = of_nat (length sent)
     \<and> (\<forall>(pid, m) \<in> rel_pkts r. unat pid < length sent \<and> m = be32 pid @ sent ! unat pid)"

definition rec_ok :: "int \<Rightarrow> reliable \<Rightarrow> byte list list \<Rightarrow> byte list list \<Rightarrow> bool" where
  "rec_ok cap r out sent \<longleftrightarrow> rel_wf cap r \<and> rl_packet_id r = of_nat (length out)
     \<and> length out \<le> length sent \<and> out = take (length out) sent \<and> rec_window r
     \<and> (\<forall>(pid, m) \<in> rel_pkts r. unat pid < length sent \<and> m = sent ! unat pid)"

definition ack_ok :: "reliable_ack \<Rightarrow> reliable \<Rightarrow> byte list list \<Rightarrow> bool" where
  "ack_ok a r out \<longleftrightarrow> ack_wf a \<and> (\<forall>pid \<in> set (ack_ids a). got r out pid)"

definition packet_ok :: "session_id \<Rightarrow> byte list list \<Rightarrow> reliable \<Rightarrow> byte list list \<Rightarrow> bool \<times> byte list \<Rightarrow> bool" where
  "packet_ok remote sent r out x \<longleftrightarrow>
     (\<exists>ids rest. snd x = ack_wire ids remote @ rest \<and> length ids \<le> 8 \<and> (\<forall>pid \<in> set ids. got r out pid)
        \<and> (if fst x then rest = [] else \<exists>pid. unat pid < length sent \<and> rest = be32 pid @ sent ! unat pid))"

definition loss_ok :: "reliable \<Rightarrow> byte list list \<Rightarrow> reliable \<Rightarrow> byte list list \<Rightarrow> bool" where
  "loss_ok sr sent r out \<longleftrightarrow> (\<forall>k < length sent. of_nat k \<in> rel_ids sr \<or> got r out (of_nat k))"

definition side_inv :: "int \<Rightarrow> chan \<Rightarrow> bool \<Rightarrow> bool" where
  "side_inv cap s d \<longleftrightarrow>
     (let c = ch_peer s d; r = cs_rel c; c' = ch_peer s (\<not> d); r' = cs_rel c' in
      send_ok cap (rs_send r) (ch_sent s d)
      \<and> rec_ok cap (rs_rec r) (ch_out s d) (ch_sent s (\<not> d))
      \<and> ack_ok (rs_ack r) (rs_rec r) (ch_out s d)
      \<and> (\<forall>x \<in> ch_net s d. packet_ok (cs_session_id c') (ch_sent s d) (rs_rec r) (ch_out s d) x)
      \<and> loss_ok (rs_send r) (ch_sent s d) (rs_rec r') (ch_out s (\<not> d))
      \<and> cs_session_id_remote c = cs_session_id c' \<and> sid_wf (cs_session_id c) \<and> session_id_defined (cs_session_id c)
      \<and> buf_wf (cs_ack_write_buf c))"

definition chan_inv :: "int \<Rightarrow> chan \<Rightarrow> bool" where
  "chan_inv cap s \<longleftrightarrow> (\<forall>d. side_inv cap s d)"

end
