(* ===== verification/Reliable_Correct.thy ===== *)
theory Reliable_Correct
  imports Reliable_Channel
begin

text \<open>
  The control channel delivers in order, exactly once and without loss. Every move keeps the invariant
  \<open>chan_inv\<close> as long as no side has submitted more than \<open>2^31\<close> packets, which keeps identifiers
  away from the wrap-around gap of the receive window.
\<close>

section \<open>Each move on its component\<close>

lemma unat_of_nat_u32: "n < 4294967296 \<Longrightarrow> unat (of_nat n :: u32) = n"
  by (simp add: unsigned_of_nat take_bit_eq_mod)

lemma of_nat_unat_u32: "of_nat (unat (pid :: u32)) = pid"
  by simp

lemma got_mono:
  assumes "got r out pid" "rel_ids r - rel_ids r' \<subseteq> {p. unat p < length out'}" "length out \<le> length out'"
  shows "got r' out' pid"
  using assms by (auto simp: got_def)

lemma send_ok_fresh:
  assumes "send_ok cap r sent" "length sent < 2147483648"
  shows "rl_packet_id r \<notin> rel_ids r"
  using assms unat_of_nat_u32[of "length sent"] by (force simp: send_ok_def rel_ids_def)

lemma get_buf_out_cases:
  "reliable_get_buf_output_sequenced r = Inr (i, r') \<Longrightarrow>
     (i = None \<and> r' = r) \<or> (\<exists>j. i = Some j \<and> reliable_can_get r \<and> reliable_get_buf r = Inr (Some j, r'))"
  by (auto simp: reliable_get_buf_output_sequenced_def reliable_get_buf_def reliable_can_get_def bindE_eq_Inr
      split: option.splits prod.splits if_splits)

lemma buf_write_result:
  assumes "buf_wf b" "buf_write b p = Inr (ok, b')" "b_len b = 0"
  shows "buf_wf b'" "b_capacity b' = b_capacity b" "b_offset b' = b_offset b"
    "ok \<Longrightarrow> buf_content b' = buf_content b @ p" "\<not> ok \<Longrightarrow> b' = b"
proof -
  have "buf_wf b' \<and> b_capacity b' = b_capacity b \<and> b_offset b' = b_offset b
    \<and> (ok \<longrightarrow> buf_content b' = buf_content b @ p) \<and> (\<not> ok \<longrightarrow> b' = b)"
  proof (cases "buf_safe b (int (length p))")
    case True
    then have "int (length p) \<le> buf_room b" using buf_wf_bounds[OF assms(1)] by (auto simp: buf_safe_def)
    then show ?thesis using assms by (auto simp: buf_write_append buf_append_wf buf_append_content)
  next
    case False
    then show ?thesis using assms by (simp add: buf_write_def buf_write_alloc_def)
  qed
  then show "buf_wf b'" "b_capacity b' = b_capacity b" "b_offset b' = b_offset b"
    "ok \<Longrightarrow> buf_content b' = buf_content b @ p" "\<not> ok \<Longrightarrow> b' = b" by simp_all
qed

lemma submit_ok:
  assumes "send_ok cap (rs_send (cs_rel c)) sent" "ctl_submit c p opcode = Inr (ok, c')"
    and "length sent < 2147483648"
  shows "\<exists>r. c' = c\<lparr>cs_rel := (cs_rel c)\<lparr>rs_send := r\<rparr>\<rparr> \<and> send_ok cap r (sent @ (if ok then [p] else []))
    \<and> rel_ids r = (if ok then insert (of_nat (length sent)) (rel_ids (rs_send (cs_rel c))) else rel_ids (rs_send (cs_rel c)))"
proof -
  let ?r = "rs_send (cs_rel c)"
  obtain i s1 where g: "reliable_get_buf_output_sequenced ?r = Inr (i, s1)"
    using assms(2) by (auto simp: ctl_submit_def bindE_eq_Inr)
  have wf: "rel_wf cap ?r" using assms(1) by (simp add: send_ok_def)
  from get_buf_out_cases[OF g] show ?thesis
  proof (elim disjE exE conjE)
    assume "i = None" "s1 = ?r"
    then show ?thesis using assms g by (intro exI[of _ ?r]) (auto simp: ctl_submit_def)
  next
    fix j assume j: "i = Some j" "reliable_can_get ?r" "reliable_get_buf ?r = Inr (Some j, s1)"
    then have s1: "j < nat (rl_size s1)" "\<not> re_active (rel_entry s1 j)" "buf_wf (re_buf (rel_entry s1 j))"
      "buf_content (re_buf (rel_entry s1 j)) = []" "b_len (re_buf (rel_entry s1 j)) = 0"
      "b_capacity (re_buf (rel_entry s1 j)) = cap" "rel_wf cap s1" "rel_pkts s1 = rel_pkts ?r"
      "rl_packet_id s1 = rl_packet_id ?r"
      using get_buf_ok[OF wf j(2)] by auto
    obtain w b' where w: "buf_write (re_buf (rel_entry s1 j)) p = Inr (w, b')"
      using assms(2) g j(1) by (auto simp: ctl_submit_def bindE_eq_Inr)
    note b' = buf_write_result[OF s1(3) w s1(5)]
    let ?s2 = "rel_map j (\<lambda>e. e\<lparr>re_buf := b'\<rparr>) s1"
    note s2 = set_buf_silent[OF s1(7,1,2) b'(1), unfolded b'(2), OF s1(6)]
    show ?thesis
    proof (cases w)
      case False
      then have "\<not> ok" "c' = c\<lparr>cs_rel := (cs_rel c)\<lparr>rs_send := ?s2\<rparr>\<rparr>"
        using assms(2) g j(1) w by (auto simp: ctl_submit_def)
      moreover have "send_ok cap ?s2 sent" "rel_ids ?s2 = rel_ids ?r"
        using assms(1) s1(8,9) s2(1,2) by (simp_all add: send_ok_def rel_ids_def)
      ultimately show ?thesis by auto
    next
      case True
      let ?e = "rel_entry ?s2 j"
      obtain s3 where s3: "reliable_mark_active_outgoing ?s2 j opcode = Inr s3" and ok: "ok"
        and c': "c' = c\<lparr>cs_rel := (cs_rel c)\<lparr>rs_send := s3\<rparr>\<rparr>"
        using assms(2) g j(1) w True by (auto simp: ctl_submit_def bindE_eq_Inr Let_def)
      have off: "4 \<le> b_offset (re_buf ?e)"
      proof (rule ccontr)
        assume "\<not> ?thesis"
        then have "buf_write_prepend (re_buf ?e) (be32 (rl_packet_id ?s2)) = Inr (False, re_buf ?e)"
          using s2(3) b'(1) by (intro buf_write_prepend_full) auto
        then show False using s3 by (simp add: reliable_mark_active_outgoing_def Let_def split: if_splits)
      qed
      have ids: "rl_packet_id ?s2 \<notin> rel_ids ?s2"
        using send_ok_fresh[OF assms(1,3)] s1(8,9) s2(2) by (simp add: rel_ids_def)
      have act: "j < nat (rl_size ?s2)" "\<not> re_active ?e" using s1(1,2) s2(3) by simp_all
      have pid: "rl_packet_id ?r = of_nat (length sent)" using assms(1) by (simp add: send_ok_def)
      have post: "rel_wf cap s3" "rel_pkts s3 = insert (of_nat (length sent), be32 (of_nat (length sent)) @ p) (rel_pkts ?r)"
        "rl_packet_id s3 = of_nat (length sent) + 1"
        using mark_active_outgoing_ok[OF s2(1) act ids off, of opcode] s3 s2(2,3) s1(4,8,9) b'(4) True pid by simp_all
      have un: "unat (of_nat (length sent) :: u32) = length sent" using assms(3) by (intro unat_of_nat_u32) simp
      have "send_ok cap s3 (sent @ [p])"
        using assms(1) post un by (fastforce simp: send_ok_def nth_append)
      moreover have "rel_ids s3 = insert (of_nat (length sent)) (rel_ids ?r)" using post(2) by (simp add: rel_ids_def)
      ultimately show ?thesis using ok c' by auto
    qed
  qed
qed

lemma write_acks_ok:
  assumes "ack_ok (rs_ack (cs_rel c)) r out" "buf_wf b" "sid_wf (cs_session_id_remote c)"
    and "session_id_defined (cs_session_id_remote c)" "0 \<le> mx" "mx \<le> 8"
    and "ctl_write_acks c b mx prepend = Inr (b', c')"
  shows "\<exists>a ids. c' = c\<lparr>cs_rel := (cs_rel c)\<lparr>rs_ack := a\<rparr>\<rparr> \<and> ack_ok a r out \<and> length ids \<le> 8
    \<and> (\<forall>pid \<in> set ids. got r out pid)
    \<and> buf_content b' = (if prepend then ack_wire ids (cs_session_id_remote c) @ buf_content b
                        else buf_content b @ ack_wire ids (cs_session_id_remote c))"
proof -
  let ?a = "rs_ack (cs_rel c)" and ?sid = "cs_session_id_remote c"
  let ?ids = "take (nat mx) (ack_ids ?a)"
  have a: "ack_wf ?a" using assms(1) by (simp add: ack_ok_def)
  obtain a' where run: "reliable_ack_write ?a b ?sid mx prepend = Inr (True, a', b')"
    and c': "c' = c\<lparr>cs_rel := (cs_rel c)\<lparr>rs_ack := a'\<rparr>\<rparr>"
    using assms(7) by (auto simp: ctl_write_acks_def bindE_eq_Inr assertE_eq_Inr)
  have len: "length ?ids \<le> 8" using assms(6) by simp
  have got_ids: "\<forall>pid \<in> set ?ids. got r out pid" using assms(1) by (auto simp: ack_ok_def dest: in_set_takeD)
  note inv = ack_write_inv[OF assms(2) a assms(3-5) run refl]
  have "ack_ok a' r out" using assms(1) inv(1,2) by (auto simp: ack_ok_def dest: in_set_dropD)
  then show ?thesis using c' len got_ids inv(3) by blast
qed

lemma transmit_ok:
  assumes "send_ok cap (rs_send (cs_rel c)) sent" "ack_ok (rs_ack (cs_rel c)) r out"
    and "sid_wf (cs_session_id_remote c)" "session_id_defined (cs_session_id_remote c)"
    and "ctl_transmit now c = Inr (Some b, c')"
  shows "\<exists>s a. c' = c\<lparr>cs_rel := (cs_rel c)\<lparr>rs_send := s, rs_ack := a\<rparr>\<rparr> \<and> send_ok cap s sent
    \<and> rel_ids s = rel_ids (rs_send (cs_rel c)) \<and> ack_ok a r out
    \<and> packet_ok (cs_session_id_remote c) sent r out (False, buf_content b)"
proof -
  let ?s = "rs_send (cs_rel c)"
  have wf: "rel_wf cap ?s" using assms(1) by (simp add: send_ok_def)
  obtain i opcode s1 where snd: "reliable_send now ?s = (Some (i, opcode), s1)"
    and wa: "ctl_write_acks (c\<lparr>cs_rel := (cs_rel c)\<lparr>rs_send := s1\<rparr>\<rparr>) (re_buf (rel_entry s1 i)) CONTROL_SEND_ACK_MAX True
      = Inr (b, c')"
    using assms(5) by (auto simp: ctl_transmit_def bindE_eq_Inr split: if_splits prod.splits option.splits)
  note rs = reliable_send_ok[OF wf snd]
  have e: "i < nat (rl_size s1)" "re_active (rel_entry s1 i)"
    using rs(5)[OF refl] rs(4) by (simp_all add: same_frame_def)
  note b = rel_wfD(1)[OF rs(1) e(1)]
  let ?c = "c\<lparr>cs_rel := (cs_rel c)\<lparr>rs_send := s1\<rparr>\<rparr>"
  obtain a ids where w: "c' = ?c\<lparr>cs_rel := (cs_rel ?c)\<lparr>rs_ack := a\<rparr>\<rparr>" "ack_ok a r out" "length ids \<le> 8"
    "\<forall>pid \<in> set ids. got r out pid"
    "buf_content b = ack_wire ids (cs_session_id_remote c) @ buf_content (re_buf (rel_entry s1 i))"
    using write_acks_ok[of ?c r out "re_buf (rel_entry s1 i)" 4 True b c'] assms(2-4) b wa
    by (auto simp: CONTROL_SEND_ACK_MAX_def)
  have "(re_packet_id (rel_entry s1 i), buf_content (re_buf (rel_entry s1 i))) \<in> rel_pkts ?s"
    using rel_pkts_I[OF e] rs(2) by simp
  then have "unat (re_packet_id (rel_entry s1 i)) < length sent"
    "buf_content (re_buf (rel_entry s1 i)) = be32 (re_packet_id (rel_entry s1 i)) @ sent ! unat (re_packet_id (rel_entry s1 i))"
    using assms(1) by (auto simp: send_ok_def)
  then have "packet_ok (cs_session_id_remote c) sent r out (False, buf_content b)"
    using w(3-5) by (auto simp: packet_ok_def)
  moreover have "send_ok cap s1 sent" "rel_ids s1 = rel_ids ?s"
    using assms(1) rs(1-3) by (simp_all add: send_ok_def rel_ids_def)
  ultimately show ?thesis using w(1,2) by auto
qed

lemma send_ack_ok:
  assumes "ack_ok (rs_ack (cs_rel c)) r out" "buf_wf (cs_ack_write_buf c)"
    and "sid_wf (cs_session_id_remote c)" "session_id_defined (cs_session_id_remote c)"
    and "ctl_send_ack headroom c = Inr (Some b, c')"
  shows "\<exists>a. c' = c\<lparr>cs_rel := (cs_rel c)\<lparr>rs_ack := a\<rparr>\<rparr> \<and> ack_ok a r out
    \<and> packet_ok (cs_session_id_remote c) sent r out (True, buf_content b)"
proof -
  obtain b1 where init: "buf_init_dowork (cs_ack_write_buf c) headroom = (True, b1)"
    and wa: "ctl_write_acks c b1 RELIABLE_ACK_SIZE False = Inr (b, c')"
    using assms(5) by (auto simp: ctl_send_ack_def bindE_eq_Inr assertE_eq_Inr split: if_splits prod.splits)
  have b1: "buf_wf b1" "buf_content b1 = []"
  proof -
    have rng: "0 \<le> headroom" "headroom \<le> b_capacity (cs_ack_write_buf c)"
      and eq: "b1 = (cs_ack_write_buf c)\<lparr>b_len := 0, b_offset := headroom\<rparr>"
      using init by (auto simp: buf_init_dowork_def split: if_splits)
    show "buf_wf b1" unfolding eq by (rule buf_init_wf[OF assms(2) rng])
    then show "buf_content b1 = []" using length_buf_content_nat[of b1] by (simp add: eq)
  qed
  obtain a ids where "c' = c\<lparr>cs_rel := (cs_rel c)\<lparr>rs_ack := a\<rparr>\<rparr>" "ack_ok a r out" "length ids \<le> 8"
    "\<forall>pid \<in> set ids. got r out pid" "buf_content b = ack_wire ids (cs_session_id_remote c)"
    using write_acks_ok[OF assms(1) b1(1) assms(3,4) _ _ wa] b1(2) by (auto simp: RELIABLE_ACK_SIZE_def)
  then show ?thesis by (auto simp: packet_ok_def)
qed

lemma deliver_ok:
  assumes "rec_ok cap (rs_rec (cs_rel c)) out sent" "ctl_deliver c = Inr (Some p, c')" "length sent < 4294967296"
  shows "\<exists>r. c' = c\<lparr>cs_rel := (cs_rel c)\<lparr>rs_rec := r\<rparr>\<rparr> \<and> rec_ok cap r (out @ [p]) sent
    \<and> rel_ids (rs_rec (cs_rel c)) - rel_ids r \<subseteq> {q. unat q < length (out @ [p])}"
proof -
  let ?r = "rs_rec (cs_rel c)"
  have wf: "rel_wf cap ?r" and base: "rl_packet_id ?r = of_nat (length out)" using assms(1) by (simp_all add: rec_ok_def)
  obtain i where i: "reliable_get_buf_sequenced ?r = Some i"
    using assms(2) by (auto simp: ctl_deliver_def split: option.splits)
  note act = sequenced_some[OF i]
  have lo: "length out \<le> length sent" using assms(1) by (simp add: rec_ok_def)
  then have un: "unat (of_nat (length out) :: u32) = length out" using assms(3) by (intro unat_of_nat_u32) simp
  have mem: "(of_nat (length out), buf_content (re_buf (rel_entry ?r i))) \<in> rel_pkts ?r"
    using act base rel_pkts_I[of i ?r] by auto
  then have lt: "length out < length sent" and content: "buf_content (re_buf (rel_entry ?r i)) = sent ! length out"
    using assms(1) un by (auto simp: rec_ok_def)
  obtain r where r: "reliable_mark_deleted ?r i True = Inr r" "rel_wf cap r"
    "rel_pkts r = {x \<in> rel_pkts ?r. fst x \<noteq> of_nat (length out)}" "rl_packet_id r = of_nat (length out) + 1"
    "same_frame r ?r"
    using mark_deleted_ok[OF wf, of i] act base by auto
  have run: "p = sent ! length out" "c' = c\<lparr>cs_rel := (cs_rel c)\<lparr>rs_rec := r\<rparr>\<rparr>"
    using assms(2) i r(1) rel_wfD(1)[OF wf] act content by (auto simp: ctl_deliver_def)
  have un1: "unat (of_nat (length out) + 1 :: u32) = Suc (length out)"
    using unat_of_nat_u32[of "Suc (length out)"] lt assms(3) by (simp add: add.commute)
  have ids: "rel_ids r = rel_ids ?r - {of_nat (length out)}" using r(3) by (auto simp: rel_ids_def)
  have "rec_window r"
    unfolding rec_window_def
  proof
    fix pid assume "pid \<in> rel_ids r"
    then have pid: "pid \<in> rel_ids ?r" "pid \<noteq> of_nat (length out)" using ids by auto
    then have "length out \<le> unat pid \<and> int (unat pid) < int (length out) + rl_size ?r"
      using assms(1) un unfolding rec_ok_def rec_window_def base by metis
    moreover have "unat pid \<noteq> length out" using pid(2) of_nat_unat_u32[of pid] by metis
    ultimately show "unat (rl_packet_id r) \<le> unat pid \<and> int (unat pid) < int (unat (rl_packet_id r)) + rl_size r"
      unfolding r(4) un1 using r(5) by (simp add: same_frame_def)
  qed
  moreover have "out @ [p] = take (length (out @ [p])) sent"
  proof -
    have "out = take (length out) sent" using assms(1) unfolding rec_ok_def by blast
    then have "out @ [sent ! length out] = take (Suc (length out)) sent"
      using take_Suc_conv_app_nth[OF lt] by metis
    then show ?thesis unfolding run(1) length_append_singleton .
  qed
  moreover have "length (out @ [p]) \<le> length sent" "rl_packet_id r = of_nat (length (out @ [p]))"
    using lt r(4) by (simp_all add: add.commute)
  moreover have "\<forall>(pid, m) \<in> rel_pkts r. unat pid < length sent \<and> m = sent ! unat pid"
    using assms(1) r(3) unfolding rec_ok_def by blast
  ultimately have "rec_ok cap r (out @ [p]) sent" using r(2) unfolding rec_ok_def by blast
  moreover have "rel_ids ?r - rel_ids r \<subseteq> {q. unat q < length (out @ [p])}"
  proof
    fix q assume "q \<in> rel_ids ?r - rel_ids r"
    then have "q = of_nat (length out)" using ids by blast
    then have "unat q = length out" using un by simp
    then show "q \<in> {q. unat q < length (out @ [p])}" by simp
  qed
  ultimately show ?thesis using run(2) by blast
qed

lemma read_packet_id_ok:
  assumes "buf_wf b" "buf_content b = be32 pid @ m"
  shows "reliable_ack_read_packet_id b = Inr (Some pid, buf_drop b 4)" "buf_wf (buf_drop b 4)" "buf_content (buf_drop b 4) = m"
proof -
  have "4 \<le> b_len b" using content_prefix_len[OF assms] by simp
  then show "reliable_ack_read_packet_id b = Inr (Some pid, buf_drop b 4)" "buf_wf (buf_drop b 4)"
    "buf_content (buf_drop b 4) = m"
    using assms by (simp_all add: reliable_ack_read_packet_id_def buf_read_take wf_intros buf_drop_content)
qed

lemma store_ok:
  assumes "rec_ok cap (rs_rec s) out sent" "ack_ok (rs_ack s) (rs_rec s) out" "length sent \<le> 2147483648"
    and "buf_wf b" "unat pid < length sent" "buf_content b = sent ! unat pid" "reliable_can_get (rs_rec s)"
  shows "\<exists>ok s'. control_store s pid b opcode = Inr (ok, s') \<and> rs_send s' = rs_send s
    \<and> rec_ok cap (rs_rec s') out sent \<and> rel_ids (rs_rec s) \<subseteq> rel_ids (rs_rec s')
    \<and> ack_ok (rs_ack s') (rs_rec s') out"
proof -
  let ?r = "rs_rec s"
  have wf: "rel_wf cap ?r" and base: "rl_packet_id ?r = of_nat (length out)" and a: "ack_wf (rs_ack s)"
    and lo: "length out \<le> length sent" and win: "rec_window ?r"
    using assms(1,2) by (simp_all add: rec_ok_def ack_ok_def)
  have un: "unat (of_nat (length out) :: u32) = length out" using lo assms(3) by (intro unat_of_nat_u32) simp
  have b31: "rl_packet_id ?r \<le> 0x80000000" using un lo assms(3) by (simp add: base word_le_nat_alt)
  obtain ok s' where st: "control_store s pid b opcode = Inr (ok, s')" "rs_send s' = rs_send s"
    "rel_wf cap (rs_rec s')" "rl_packet_id (rs_rec s') = rl_packet_id ?r" "same_frame (rs_rec s') ?r" "ack_wf (rs_ack s')"
    and pk: "rel_pkts (rs_rec s') = rel_pkts ?r
       \<or> store_admits ?r pid \<and> rel_pkts (rs_rec s') = insert (pid, buf_content b) (rel_pkts ?r)"
    and ak: "\<And>j. j \<in> set (ack_ids (rs_ack s')) \<Longrightarrow> j \<in> set (ack_ids (rs_ack s))
         \<or> j = pid \<and> (pid \<in> rel_ids (rs_rec s') \<or> reliable_pid_min pid (rl_packet_id ?r))"
    using control_store_ok[OF wf a assms(4,7), of pid opcode] by blast
  have sub: "rel_ids ?r \<subseteq> rel_ids (rs_rec s')" using pk by (auto simp: rel_ids_def)
  have ids: "rel_ids (rs_rec s') \<subseteq> insert pid (rel_ids ?r)" using pk by (auto simp: rel_ids_def)
  have win': "rec_window (rs_rec s')"
    unfolding rec_window_def
  proof
    fix q assume q: "q \<in> rel_ids (rs_rec s')"
    have "unat (rl_packet_id ?r) \<le> unat q \<and> int (unat q) < int (unat (rl_packet_id ?r)) + rl_size ?r"
    proof (cases "q \<in> rel_ids ?r")
      case True
      then show ?thesis using win by (simp add: rec_window_def)
    next
      case False
      then have "q = pid" "store_admits ?r pid" using q ids pk by (auto simp: rel_ids_def)
      then show ?thesis using store_admits_window[OF wf b31] by simp
    qed
    then show "unat (rl_packet_id (rs_rec s')) \<le> unat q
        \<and> int (unat q) < int (unat (rl_packet_id (rs_rec s'))) + rl_size (rs_rec s')"
      using st(4,5) by (simp add: same_frame_def)
  qed
  have rec': "rec_ok cap (rs_rec s') out sent"
    using assms(1,5,6) st(3,4) win' pk unfolding rec_ok_def by auto
  have "got (rs_rec s') out j" if j: "j \<in> set (ack_ids (rs_ack s'))" for j
  proof -
    consider "j \<in> set (ack_ids (rs_ack s))" | "j = pid" "pid \<in> rel_ids (rs_rec s')"
      | "j = pid" "reliable_pid_min pid (rl_packet_id ?r)" using ak[OF j] by blast
    then show ?thesis
    proof cases
      case 1
      then have "got ?r out j" using assms(2) by (simp add: ack_ok_def)
      then show ?thesis using sub by (auto simp: got_def)
    next
      case 2
      then show ?thesis by (simp add: got_def)
    next
      case 3
      then have "\<not> unat (pid - rl_packet_id ?r) < 2147483648" by (simp add: pid_min_iff word_less_nat_alt)
      then have "unat pid < length out"
        using unat_sub_wrap[of pid "rl_packet_id ?r"] un assms(3,5) by (auto simp: base word_le_nat_alt split: if_splits)
      then show ?thesis using 3 by (simp add: got_def)
    qed
  qed
  then have "ack_ok (rs_ack s') (rs_rec s') out" using st(6) by (simp add: ack_ok_def)
  then show ?thesis using st(1,2) rec' sub by blast
qed

lemma receive_ok:
  assumes pkt: "packet_ok (cs_session_id c) sent' r' out' (is_ack, buf_content b)" and b: "buf_wf b"
    and snd: "send_ok cap (rs_send (cs_rel c)) sent" and rcv: "rec_ok cap (rs_rec (cs_rel c)) out sent'"
    and ack: "ack_ok (rs_ack (cs_rel c)) (rs_rec (cs_rel c)) out"
    and loss: "loss_ok (rs_send (cs_rel c)) sent r' out'"
    and sid: "sid_wf (cs_session_id c)" "session_id_defined (cs_session_id c)"
    and len: "length sent' \<le> 2147483648"
  shows "\<exists>ok s. ctl_receive c b opcode is_ack = Inr (ok, c\<lparr>cs_rel := s\<rparr>) \<and> send_ok cap (rs_send s) sent
    \<and> rec_ok cap (rs_rec s) out sent' \<and> rel_ids (rs_rec (cs_rel c)) \<subseteq> rel_ids (rs_rec s)
    \<and> ack_ok (rs_ack s) (rs_rec s) out \<and> loss_ok (rs_send s) sent r' out'"
proof -
  let ?z = "\<lparr>ra_len = 0, ra_packet_id = replicate 8 0\<rparr>" and ?s = "cs_rel c"
  obtain ids rest where m: "buf_content b = ack_wire ids (cs_session_id c) @ rest" "length ids \<le> 8"
    "\<forall>pid \<in> set ids. got r' out' pid" "is_ack \<longrightarrow> rest = []"
    "\<not> is_ack \<longrightarrow> (\<exists>pid. unat pid < length sent' \<and> rest = be32 pid @ sent' ! unat pid)"
    using pkt by (auto simp: packet_ok_def split: if_splits)
  have z: "ack_wf ?z" "ack_ids ?z = []" "ra_len ?z + int (length ids) \<le> 8"
    using m(2) by (simp_all add: ack_wf_def ack_ids_def)
  obtain a b1 where rd: "reliable_ack_read ?z b (cs_session_id c) = Inr (True, a, b1)" "ack_ids a = ids"
    "buf_wf b1" "buf_content b1 = rest"
    using ack_read_ok[OF b m(1) sid z(1,3)] z(2) by auto
  let ?s1 = "?s\<lparr>rs_send := reliable_send_purge (rs_send ?s) a\<rparr>"
  have wf: "rel_wf cap (rs_send ?s)" using snd by (simp add: send_ok_def)
  note pg = send_purge_ok[OF wf, of a]
  have snd1: "send_ok cap (rs_send ?s1) sent" using snd pg by (auto simp: send_ok_def)
  have ids1: "rel_ids (rs_send ?s) - set ids \<subseteq> rel_ids (rs_send ?s1)"
    using pg(2) rd(2) by (auto simp: rel_ids_def)
  have loss1: "loss_ok (rs_send ?s1) sent r' out'"
    using loss ids1 m(3) unfolding loss_ok_def by blast
  show ?thesis
  proof (cases "\<not> is_ack \<and> reliable_can_get (rs_rec ?s)")
    case False
    then have "ctl_receive c b opcode is_ack = Inr (True, c\<lparr>cs_rel := ?s1\<rparr>)"
      using rd(1) by (auto simp: ctl_receive_def control_receive_def Let_def)
    then show ?thesis using snd1 rcv ack loss1 by auto
  next
    case True
    then obtain pid where pid: "unat pid < length sent'" "rest = be32 pid @ sent' ! unat pid" using m(5) by blast
    note rp = read_packet_id_ok[OF rd(3), of pid "sent' ! unat pid"]
    have c1: "buf_content b1 = be32 pid @ sent' ! unat pid" using rd(4) pid(2) by simp
    obtain ok s' where st: "control_store ?s1 pid (buf_drop b1 4) opcode = Inr (ok, s')" "rs_send s' = rs_send ?s1"
      "rec_ok cap (rs_rec s') out sent'" "rel_ids (rs_rec ?s1) \<subseteq> rel_ids (rs_rec s')" "ack_ok (rs_ack s') (rs_rec s') out"
      using store_ok[of cap ?s1 out sent' "buf_drop b1 4" pid opcode] rcv ack len rp(2,3)[OF c1] pid(1) True by auto
    have "ctl_receive c b opcode is_ack = Inr (ok, c\<lparr>cs_rel := s'\<rparr>)"
      using rd(1) True rp(1)[OF c1] st(1) by (simp add: ctl_receive_def control_receive_def Let_def)
    then show ?thesis using st snd1 loss1 by auto
  qed
qed

section \<open>The invariant along a run\<close>

lemma got_append: "got r out pid \<Longrightarrow> rel_ids r - rel_ids r' \<subseteq> {p. unat p < length (out @ ys)} \<Longrightarrow> got r' (out @ ys) pid"
  by (rule got_mono) auto

lemma packet_ok_mono:
  assumes "packet_ok sid sent r out x" "rel_ids r - rel_ids r' \<subseteq> {p. unat p < length (out @ ys)}"
  shows "packet_ok sid (sent @ xs) r' (out @ ys) x"
proof -
  obtain ids rest where m: "snd x = ack_wire ids sid @ rest" "length ids \<le> 8" "\<forall>pid \<in> set ids. got r out pid"
    "if fst x then rest = [] else \<exists>pid. unat pid < length sent \<and> rest = be32 pid @ sent ! unat pid"
    using assms(1) by (auto simp: packet_ok_def)
  have "\<forall>pid \<in> set ids. got r' (out @ ys) pid" using m(3) got_append[OF _ assms(2)] by blast
  moreover have "if fst x then rest = []
      else \<exists>pid. unat pid < length (sent @ xs) \<and> rest = be32 pid @ (sent @ xs) ! unat pid"
    using m(4) by (auto simp: nth_append split: if_splits intro: trans_less_add1)
  ultimately show ?thesis using m(1,2) unfolding packet_ok_def by blast
qed

lemma rec_ok_mono: "rec_ok cap r out sent \<Longrightarrow> rec_ok cap r out (sent @ xs)"
  by (auto simp: rec_ok_def nth_append intro: trans_le_add1)

lemma loss_ok_mono:
  "loss_ok s sent r out \<Longrightarrow> rel_ids r - rel_ids r' \<subseteq> {p. unat p < length (out @ ys)} \<Longrightarrow> loss_ok s sent r' (out @ ys)"
  using got_append unfolding loss_ok_def by blast

text \<open>One peer moves: what its new state must satisfy for the invariant to hold again.\<close>

lemma chan_update:
  assumes inv: "chan_inv cap s"
    and s': "s' = \<lparr>ch_peer = (ch_peer s)(d := (ch_peer s d)\<lparr>cs_rel := r\<rparr>), ch_net = (ch_net s)(d := net'),
       ch_sent = (ch_sent s)(d := ch_sent s d @ xs), ch_out = (ch_out s)(d := ch_out s d @ ys)\<rparr>"
    and snd: "send_ok cap (rs_send r) (ch_sent s d @ xs)"
    and rcv: "rec_ok cap (rs_rec r) (ch_out s d @ ys) (ch_sent s (\<not> d))"
    and ack: "ack_ok (rs_ack r) (rs_rec r) (ch_out s d @ ys)"
    and keep: "rel_ids (rs_rec (cs_rel (ch_peer s d))) - rel_ids (rs_rec r) \<subseteq> {p. unat p < length (ch_out s d @ ys)}"
    and net: "\<And>x. x \<in> net' \<Longrightarrow> x \<in> ch_net s d
      \<or> packet_ok (cs_session_id_remote (ch_peer s d)) (ch_sent s d @ xs) (rs_rec r) (ch_out s d @ ys) x"
    and loss: "loss_ok (rs_send r) (ch_sent s d @ xs) (rs_rec (cs_rel (ch_peer s (\<not> d)))) (ch_out s (\<not> d))"
  shows "chan_inv cap s'"
proof -
  have i: "side_inv cap s e" for e using inv by (simp add: chan_inv_def)
  note own = i[of d, unfolded side_inv_def Let_def] and oth = i[of "\<not> d", unfolded side_inv_def Let_def not_not]
  have "packet_ok (cs_session_id (ch_peer s (\<not> d))) (ch_sent s d @ xs) (rs_rec r) (ch_out s d @ ys) x"
    if "x \<in> net'" for x
    using net[OF that] own packet_ok_mono[OF _ keep] by metis
  then have "side_inv cap s' d"
    using snd rcv ack loss own by (simp add: s' side_inv_def)
  moreover have "rec_ok cap (rs_rec (cs_rel (ch_peer s (\<not> d)))) (ch_out s (\<not> d)) (ch_sent s d @ xs)"
    "loss_ok (rs_send (cs_rel (ch_peer s (\<not> d)))) (ch_sent s (\<not> d)) (rs_rec r) (ch_out s d @ ys)"
    using oth rec_ok_mono loss_ok_mono[OF _ keep] by blast+
  then have "side_inv cap s' (\<not> d)"
    using oth by (simp add: s' side_inv_def)
  ultimately have "side_inv cap s' e" for e
  proof (cases "e = d")
    case False
    then have "e = (\<not> d)" by auto
    with \<open>side_inv cap s' (\<not> d)\<close> show ?thesis by simp
  qed simp
  then show ?thesis by (simp add: chan_inv_def)
qed

lemma chan_step_sent:
  "chan_step s s' \<Longrightarrow> length (ch_sent s d) \<le> length (ch_sent s' d)"
  by (erule chan_step.cases) auto

definition chan_bounded :: "chan \<Rightarrow> bool" where
  "chan_bounded s \<longleftrightarrow> (\<forall>d. length (ch_sent s d) \<le> 2147483647)"

lemma chan_step_inv:
  assumes "chan_step s s'" "chan_inv cap s" "chan_bounded s"
  shows "chan_inv cap s'"
  using assms
proof (cases rule: chan_step.cases)
  case (submit d p opcode ok c)
  have i: "side_inv cap s d" using assms(2) by (simp add: chan_inv_def)
  note own = i[unfolded side_inv_def Let_def]
  have len: "length (ch_sent s d) < 2147483648" using assms(3) by (auto simp: chan_bounded_def intro: le_less_trans)
  let ?sr = "rs_send (cs_rel (ch_peer s d))" and ?xs = "if ok then [p] else []"
  obtain r where r: "c = (ch_peer s d)\<lparr>cs_rel := (cs_rel (ch_peer s d))\<lparr>rs_send := r\<rparr>\<rparr>"
    "send_ok cap r (ch_sent s d @ ?xs)"
    "rel_ids r = (if ok then insert (of_nat (length (ch_sent s d))) (rel_ids ?sr) else rel_ids ?sr)"
    using submit_ok[OF _ submit(2) len] own by blast
  have "loss_ok r (ch_sent s d @ ?xs) (rs_rec (cs_rel (ch_peer s (\<not> d)))) (ch_out s (\<not> d))"
    using own r(3) by (auto simp: loss_ok_def less_Suc_eq)
  then show ?thesis
    using own r(2)
    by (intro chan_update[OF assms(2), where d = d and r = "(cs_rel (ch_peer s d))\<lparr>rs_send := r\<rparr>" and xs = ?xs
          and ys = "[]" and net' = "ch_net s d"])
      (simp_all add: submit(1) r(1))
next
  case (transmit now d b c)
  have i: "side_inv cap s d" using assms(2) by (simp add: chan_inv_def)
  have i': "side_inv cap s (\<not> d)" using assms(2) by (simp add: chan_inv_def)
  note own = i[unfolded side_inv_def Let_def] and oth = i'[unfolded side_inv_def Let_def]
  obtain sr a where t: "c = (ch_peer s d)\<lparr>cs_rel := (cs_rel (ch_peer s d))\<lparr>rs_send := sr, rs_ack := a\<rparr>\<rparr>"
    "send_ok cap sr (ch_sent s d)" "rel_ids sr = rel_ids (rs_send (cs_rel (ch_peer s d)))"
    "ack_ok a (rs_rec (cs_rel (ch_peer s d))) (ch_out s d)"
    "packet_ok (cs_session_id_remote (ch_peer s d)) (ch_sent s d) (rs_rec (cs_rel (ch_peer s d))) (ch_out s d)
       (False, buf_content b)"
    using transmit_ok[of cap "ch_peer s d" "ch_sent s d" "rs_rec (cs_rel (ch_peer s d))" "ch_out s d" now b c]
      transmit(2) own oth by auto
  then show ?thesis
    using own
    by (intro chan_update[OF assms(2), where d = d and r = "(cs_rel (ch_peer s d))\<lparr>rs_send := sr, rs_ack := a\<rparr>"
          and xs = "[]" and ys = "[]" and net' = "insert (False, buf_content b) (ch_net s d)"])
      (auto simp: transmit(1) loss_ok_def)
next
  case (send_ack headroom d b c)
  have i: "side_inv cap s d" using assms(2) by (simp add: chan_inv_def)
  have i': "side_inv cap s (\<not> d)" using assms(2) by (simp add: chan_inv_def)
  note own = i[unfolded side_inv_def Let_def] and oth = i'[unfolded side_inv_def Let_def]
  obtain a where t: "c = (ch_peer s d)\<lparr>cs_rel := (cs_rel (ch_peer s d))\<lparr>rs_ack := a\<rparr>\<rparr>"
    "ack_ok a (rs_rec (cs_rel (ch_peer s d))) (ch_out s d)"
    "packet_ok (cs_session_id_remote (ch_peer s d)) (ch_sent s d) (rs_rec (cs_rel (ch_peer s d))) (ch_out s d)
       (True, buf_content b)"
    using send_ack_ok[of "ch_peer s d" "rs_rec (cs_rel (ch_peer s d))" "ch_out s d" headroom b c "ch_sent s d"]
      send_ack(2) own oth by auto
  then show ?thesis
    using own
    by (intro chan_update[OF assms(2), where d = d and r = "(cs_rel (ch_peer s d))\<lparr>rs_ack := a\<rparr>"
          and xs = "[]" and ys = "[]" and net' = "insert (True, buf_content b) (ch_net s d)"])
      (auto simp: send_ack(1))
next
  case (receive is_ack m d b opcode ok c)
  have i: "side_inv cap s d" using assms(2) by (simp add: chan_inv_def)
  have i': "side_inv cap s (\<not> d)" using assms(2) by (simp add: chan_inv_def)
  note own = i[unfolded side_inv_def Let_def] and oth = i'[unfolded side_inv_def Let_def not_not]
  have "length (ch_sent s (\<not> d)) \<le> 2147483647" using assms(3) by (simp add: chan_bounded_def)
  then have len: "length (ch_sent s (\<not> d)) \<le> 2147483648" by linarith
  have pk: "packet_ok (cs_session_id (ch_peer s d)) (ch_sent s (\<not> d)) (rs_rec (cs_rel (ch_peer s (\<not> d))))
      (ch_out s (\<not> d)) (is_ack, buf_content b)"
    using oth receive(2,4) by blast
  obtain r where r: "c = (ch_peer s d)\<lparr>cs_rel := r\<rparr>" "send_ok cap (rs_send r) (ch_sent s d)"
    "rec_ok cap (rs_rec r) (ch_out s d) (ch_sent s (\<not> d))"
    "rel_ids (rs_rec (cs_rel (ch_peer s d))) \<subseteq> rel_ids (rs_rec r)" "ack_ok (rs_ack r) (rs_rec r) (ch_out s d)"
    "loss_ok (rs_send r) (ch_sent s d) (rs_rec (cs_rel (ch_peer s (\<not> d)))) (ch_out s (\<not> d))"
    using receive_ok[OF pk receive(3), of cap "ch_sent s d" "ch_out s d" opcode] receive(5) own len by auto
  then show ?thesis
    by (intro chan_update[OF assms(2), where d = d and r = r
          and xs = "[]" and ys = "[]" and net' = "ch_net s d"])
      (auto simp: receive(1))
next
  case (deliver d p c)
  have i: "side_inv cap s d" using assms(2) by (simp add: chan_inv_def)
  note own = i[unfolded side_inv_def Let_def]
  have len: "length (ch_sent s (\<not> d)) < 4294967296" using assms(3) by (auto simp: chan_bounded_def intro: le_less_trans)
  obtain r where r: "c = (ch_peer s d)\<lparr>cs_rel := (cs_rel (ch_peer s d))\<lparr>rs_rec := r\<rparr>\<rparr>"
    "rec_ok cap r (ch_out s d @ [p]) (ch_sent s (\<not> d))"
    "rel_ids (rs_rec (cs_rel (ch_peer s d))) - rel_ids r \<subseteq> {q. unat q < length (ch_out s d @ [p])}"
    using deliver_ok[OF _ deliver(2) len] own by blast
  have "ack_ok (rs_ack (cs_rel (ch_peer s d))) r (ch_out s d @ [p])"
    using own got_append[OF _ r(3)] unfolding ack_ok_def by blast
  then show ?thesis
    using own r(2,3)
    by (intro chan_update[OF assms(2), where d = d and r = "(cs_rel (ch_peer s d))\<lparr>rs_rec := r\<rparr>" and xs = "[]"
          and ys = "[p]" and net' = "ch_net s d"])
      (simp_all add: deliver(1) r(1))
qed

end
