(* ===== verification/Reliable_Delivery.thy ===== *)
theory Reliable_Delivery
  imports Reliable_Correct
begin

text \<open>
  The properties of the control channel: from two freshly initialised peers, in every reachable state,
  what one side has delivered is a prefix of what the other has submitted, nothing submitted is lost,
  and processing a packet of the network never fails an assertion.
\<close>

section \<open>Initial states\<close>

lemma alloc_buf_inv:
  assumes "alloc_buf n = Inr b" "in_int_range n"
  shows "buf_wf b" "b_capacity b = n"
proof -
  have "buf_size_valid n" and b: "b = \<lparr>b_capacity = n, b_offset = 0, b_len = 0, b_data = Some (replicate (nat n) 0)\<rparr>"
    using assms(1) by (auto simp: alloc_buf_def split: if_splits)
  then have "0 \<le> n" using buf_size_valid_neg[OF assms(2)] by linarith
  then have "n < 2097152" using \<open>buf_size_valid n\<close> assms(2) by (simp add: in_int_range_def)
  then show "buf_wf b" "b_capacity b = n" using \<open>0 \<le> n\<close> by (simp_all add: b buf_wf_def BUF_SIZE_MAX_def)
qed

lemma init_entries_ok:
  "init_entries buf_size offset n = Inr es \<Longrightarrow> in_int_range buf_size \<Longrightarrow>
     length es = n \<and> (\<forall>e \<in> set es. \<not> re_active e \<and> buf_wf (re_buf e) \<and> b_capacity (re_buf e) = buf_size)
     \<and> (0 < n \<longrightarrow> 0 \<le> offset \<and> offset \<le> buf_size)"
proof (induction n arbitrary: es)
  case (Suc n)
  obtain b ok b' es' where r: "alloc_buf buf_size = Inr b" "buf_init_dowork b offset = (ok, b')" "ok"
    "init_entries buf_size offset n = Inr es'" "es = null_entry\<lparr>re_buf := b'\<rparr> # es'"
    using Suc.prems(1) by (cases "alloc_buf buf_size") (auto simp: bindE_eq_Inr assertE_eq_Inr split: prod.splits)
  note b = alloc_buf_inv[OF r(1) Suc.prems(2)]
  have o: "0 \<le> offset" "offset \<le> b_capacity b" "b' = b\<lparr>b_len := 0, b_offset := offset\<rparr>"
    using r(2,3) by (auto simp: buf_init_dowork_def split: if_splits)
  then have "buf_wf b'" "b_capacity b' = buf_size" using buf_init_wf[OF b(1) o(1,2)] b(2) by simp_all
  then show ?case using Suc.IH[OF r(4) Suc.prems(2)] r(5) o b(2) by (simp add: null_entry_def)
qed simp

lemma reliable_init_ok:
  assumes "reliable_init buf_size offset n hold = Inr r" "in_int_range buf_size"
  shows "rel_wf buf_size r" "rel_pkts r = {}" "rl_packet_id r = 0" "rl_size r = n"
proof -
  obtain es where es: "init_entries buf_size offset (nat n) = Inr es" "0 < n" "n \<le> 8"
    and r: "r = \<lparr>rl_size = n, rl_initial_timeout = 0, rl_packet_id = 0, rl_offset = offset, rl_hold = hold,
         rl_array = es @ replicate (8 - nat n) null_entry\<rparr>"
    using assms(1) by (auto simp: reliable_init_def bindE_eq_Inr assertE_eq_Inr RELIABLE_CAPACITY_def)
  note e = init_entries_ok[OF es(1) assms(2)]
  have el: "rel_entry r i \<in> set es" if "i < nat n" for i
    using that e by (simp add: r rel_entry_def nth_append)
  have na: "\<not> re_active (rel_entry r i)" if "i < nat n" for i using el[OF that] e by blast
  show "rel_wf buf_size r"
    using e es(2,3) el na by (auto simp: rel_wf_def r)
  show "rel_pkts r = {}" using na by (auto simp: rel_pkts_def r)
  show "rl_packet_id r = 0" "rl_size r = n" by (simp_all add: r)
qed

lemma ctl_init_ok:
  assumes "ctl_init cap headroom hold sid remote = Inr c" "in_int_range cap"
  shows "rel_wf cap (rs_send (cs_rel c))" "rel_wf cap (rs_rec (cs_rel c))"
    "rel_pkts (rs_send (cs_rel c)) = {}" "rel_pkts (rs_rec (cs_rel c)) = {}"
    "rl_packet_id (rs_send (cs_rel c)) = 0" "rl_packet_id (rs_rec (cs_rel c)) = 0"
    "ack_wf (rs_ack (cs_rel c))" "ack_ids (rs_ack (cs_rel c)) = []"
    "cs_session_id c = sid" "cs_session_id_remote c = remote" "buf_wf (cs_ack_write_buf c)"
proof -
  obtain ab s r where i: "alloc_buf cap = Inr ab" "reliable_init cap headroom TLS_RELIABLE_N_SEND_BUFFERS hold = Inr s"
    "reliable_init cap headroom TLS_RELIABLE_N_REC_BUFFERS False = Inr r"
    and c: "c = \<lparr>cs_rel = \<lparr>rs_send = s, rs_rec = r, rs_ack = \<lparr>ra_len = 0, ra_packet_id = replicate 8 0\<rparr>\<rparr>,
            cs_ack_write_buf = ab, cs_session_id = sid, cs_session_id_remote = remote\<rparr>"
    using assms(1) by (auto simp: ctl_init_def bindE_eq_Inr)
  show "rel_wf cap (rs_send (cs_rel c))" "rel_wf cap (rs_rec (cs_rel c))"
    "rel_pkts (rs_send (cs_rel c)) = {}" "rel_pkts (rs_rec (cs_rel c)) = {}"
    "rl_packet_id (rs_send (cs_rel c)) = 0" "rl_packet_id (rs_rec (cs_rel c)) = 0"
    "ack_wf (rs_ack (cs_rel c))" "ack_ids (rs_ack (cs_rel c)) = []"
    "cs_session_id c = sid" "cs_session_id_remote c = remote" "buf_wf (cs_ack_write_buf c)"
    using reliable_init_ok[OF i(2) assms(2)] reliable_init_ok[OF i(3) assms(2)] alloc_buf_inv[OF i(1) assms(2)]
    by (simp_all add: c ack_wf_def ack_ids_def)
qed

lemma chan_init_inv:
  assumes "ctl_init cap headroom hold_a sid_a sid_b = Inr a" "ctl_init cap headroom hold_b sid_b sid_a = Inr b"
    and "in_int_range cap"
    and "sid_wf sid_a" "sid_wf sid_b" "session_id_defined sid_a" "session_id_defined sid_b"
  shows "chan_inv cap (chan_init a b)"
  using ctl_init_ok[OF assms(1,3)] ctl_init_ok[OF assms(2,3)] assms(4-7)
  by (simp add: chan_inv_def side_inv_def chan_init_def send_ok_def rec_ok_def ack_ok_def loss_ok_def rec_window_def
      rel_ids_def all_bool_eq)

definition chan_reachable :: "ctl_state \<Rightarrow> ctl_state \<Rightarrow> chan \<Rightarrow> bool" where
  "chan_reachable a b s \<longleftrightarrow> rtranclp chan_step (chan_init a b) s"

lemma chan_reachable_inv:
  assumes "chan_inv cap (chan_init a b)" "chan_reachable a b s" "chan_bounded s"
  shows "chan_inv cap s"
  using assms(2,3) unfolding chan_reachable_def
proof (induction rule: rtranclp_induct)
  case base
  then show ?case using assms(1) by simp
next
  case (step s s')
  have "chan_bounded s"
    using step.prems chan_step_sent[OF step.hyps(2)] unfolding chan_bounded_def by (meson le_trans)
  then show ?case using chan_step_inv[OF step.hyps(2)] step.IH by blast
qed

text \<open>Two peers set up against each other.\<close>

definition peers :: "int \<Rightarrow> ctl_state \<Rightarrow> ctl_state \<Rightarrow> bool" where
  "peers cap a b \<longleftrightarrow> in_int_range cap \<and> (\<exists>headroom hold_a hold_b sid_a sid_b.
     ctl_init cap headroom hold_a sid_a sid_b = Inr a \<and> ctl_init cap headroom hold_b sid_b sid_a = Inr b
     \<and> sid_wf sid_a \<and> sid_wf sid_b \<and> session_id_defined sid_a \<and> session_id_defined sid_b)"

lemma reachable_side_inv:
  assumes "peers cap a b" "chan_reachable a b s" "chan_bounded s"
  shows "side_inv cap s d"
proof -
  have "chan_inv cap (chan_init a b)" using assms(1) chan_init_inv unfolding peers_def by blast
  from chan_reachable_inv[OF this assms(2,3)] show ?thesis by (simp add: chan_inv_def)
qed

section \<open>A run\<close>

definition ex_a :: ctl_state where
  "ex_a = projr (ctl_init 64 40 False \<lparr>sid_id = replicate 8 1\<rparr> \<lparr>sid_id = replicate 8 2\<rparr>)"

definition ex_b :: ctl_state where
  "ex_b = projr (ctl_init 64 40 False \<lparr>sid_id = replicate 8 2\<rparr> \<lparr>sid_id = replicate 8 1\<rparr>)"

definition ex_a1 :: ctl_state where "ex_a1 = snd (projr (ctl_submit ex_a [9, 7] 4))"
definition ex_pkt :: buffer where "ex_pkt = the (fst (projr (ctl_transmit 5 ex_a1)))"
definition ex_a2 :: ctl_state where "ex_a2 = snd (projr (ctl_transmit 5 ex_a1))"
definition ex_b1 :: ctl_state where "ex_b1 = snd (projr (ctl_receive ex_b ex_pkt 4 False))"
definition ex_b2 :: ctl_state where "ex_b2 = snd (projr (ctl_deliver ex_b1))"

definition ex_ack :: buffer where "ex_ack = the (fst (projr (ctl_send_ack 8 ex_b2)))"
definition ex_b3 :: ctl_state where "ex_b3 = snd (projr (ctl_send_ack 8 ex_b2))"
definition ex_a3 :: ctl_state where "ex_a3 = snd (projr (ctl_receive ex_a2 ex_ack 5 True))"

lemma ex_peers: "peers 64 ex_a ex_b"
proof -
  have "ctl_init 64 40 False \<lparr>sid_id = replicate 8 1\<rparr> \<lparr>sid_id = replicate 8 2\<rparr> = Inr ex_a" by code_simp
  moreover have "ctl_init 64 40 False \<lparr>sid_id = replicate 8 2\<rparr> \<lparr>sid_id = replicate 8 1\<rparr> = Inr ex_b" by code_simp
  moreover have "sid_wf \<lparr>sid_id = replicate 8 1\<rparr>" "sid_wf \<lparr>sid_id = replicate 8 2\<rparr>"
    "session_id_defined \<lparr>sid_id = replicate 8 1\<rparr>" "session_id_defined \<lparr>sid_id = replicate 8 2\<rparr>" by code_simp+
  moreover have "in_int_range 64" by (simp add: in_int_range_def INT_MIN_def INT_MAX_def)
  ultimately show ?thesis unfolding peers_def by blast
qed

lemma ex_moves:
  "ctl_submit ex_a [9, 7] 4 = Inr (True, ex_a1)" "ctl_transmit 5 ex_a1 = Inr (Some ex_pkt, ex_a2)"
  "ctl_receive ex_b ex_pkt 4 False = Inr (True, ex_b1)" "ctl_deliver ex_b1 = Inr (Some [9, 7], ex_b2)"
  "buf_wf ex_pkt" "ctl_send_ack 8 ex_b2 = Inr (Some ex_ack, ex_b3)"
  "ctl_receive ex_a2 ex_ack 5 True = Inr (True, ex_a3)" "buf_wf ex_ack"
  by code_simp+

definition ex_chan :: chan where
  "ex_chan = \<lparr>ch_peer = (\<lambda>d. if d then ex_a3 else ex_b3),
     ch_net = (\<lambda>d. if d then {(False, buf_content ex_pkt)} else {(True, buf_content ex_ack)}),
     ch_sent = (\<lambda>d. if d then [[9, 7]] else []), ch_out = (\<lambda>d. if \<not> d then [[9, 7]] else [])\<rparr>"

lemma ex_reachable: "chan_reachable ex_a ex_b ex_chan" and ex_bounded: "chan_bounded ex_chan"
proof -
  let ?s1 = "\<lparr>ch_peer = (\<lambda>d. if d then ex_a1 else ex_b), ch_net = (\<lambda>d. {}),
     ch_sent = (\<lambda>d. if d then [[9, 7]] else []), ch_out = (\<lambda>d. [])\<rparr>"
  let ?s2 = "?s1\<lparr>ch_peer := (\<lambda>d. if d then ex_a2 else ex_b), ch_net := (\<lambda>d. if d then {(False, buf_content ex_pkt)} else {})\<rparr>"
  let ?s3 = "?s2\<lparr>ch_peer := (\<lambda>d. if d then ex_a2 else ex_b1)\<rparr>"
  have st1: "chan_step (chan_init ex_a ex_b) ?s1"
    using chan_step.submit[of "chan_init ex_a ex_b" True "[9, 7]" 4 True ex_a1] ex_moves(1)
    by (simp add: chan_init_def fun_upd_def if_distrib cong: if_cong)
  have st2: "chan_step ?s1 ?s2"
    using chan_step.transmit[of 5 ?s1 True ex_pkt ex_a2] ex_moves(2) by (simp add: fun_upd_def if_distrib cong: if_cong)
  have st3: "chan_step ?s2 ?s3"
    using chan_step.receive[of False "buf_content ex_pkt" ?s2 False ex_pkt 4 True ex_b1] ex_moves(3,5)
    by (simp add: fun_upd_def if_distrib cong: if_cong)
  let ?s4 = "?s3\<lparr>ch_peer := (\<lambda>d. if d then ex_a2 else ex_b2), ch_out := (\<lambda>d. if \<not> d then [[9, 7]] else [])\<rparr>"
  have st4: "chan_step ?s3 ?s4"
    using chan_step.deliver[of ?s3 False "[9, 7]" ex_b2] ex_moves(4)
    by (simp add: fun_upd_def if_distrib cong: if_cong)
  let ?s5 = "?s4\<lparr>ch_peer := (\<lambda>d. if d then ex_a2 else ex_b3),
     ch_net := (\<lambda>d. if d then {(False, buf_content ex_pkt)} else {(True, buf_content ex_ack)})\<rparr>"
  have up: "(\<lambda>x. if \<not> x then {y} else if x then A else {}) = (\<lambda>x. if x then A else {y})"
    "(\<lambda>x. if \<not> x then u else if x then v else w) = (\<lambda>x. if x then v else u)" for y A u v w
    by (simp_all add: fun_eq_iff)
  have st5: "chan_step ?s4 ?s5"
    using chan_step.send_ack[of 8 ?s4 False ex_ack ex_b3] ex_moves(6)
    by (simp add: fun_upd_def up if_distrib cong: if_cong)
  have st6: "chan_step ?s5 ex_chan"
    using chan_step.receive[of True "buf_content ex_ack" ?s5 True ex_ack 5 True ex_a3] ex_moves(7,8)
    by (simp add: ex_chan_def fun_upd_def if_distrib cong: if_cong)
  have "rtranclp chan_step ?s5 ex_chan" using st6 by (rule r_into_rtranclp)
  with st5 have "rtranclp chan_step ?s4 ex_chan" by (rule converse_rtranclp_into_rtranclp)
  with st4 have "rtranclp chan_step ?s3 ex_chan" by (rule converse_rtranclp_into_rtranclp)
  with st3 have "rtranclp chan_step ?s2 ex_chan" by (rule converse_rtranclp_into_rtranclp)
  with st2 have "rtranclp chan_step ?s1 ex_chan" by (rule converse_rtranclp_into_rtranclp)
  with st1 show "chan_reachable ex_a ex_b ex_chan"
    unfolding chan_reachable_def by (rule converse_rtranclp_into_rtranclp)
  show "chan_bounded ex_chan" by (simp add: chan_bounded_def ex_chan_def)
qed

section \<open>Safety and liveness\<close>

text \<open>
  C1. The control channel delivers in order and at most once. In every state two peers can reach over a
  network that loses, duplicates, delays and reorders packets, while neither has submitted more than
  \<open>2^31 - 1\<close> packets, the packets a side has handed to TLS are exactly the first ones the other side
  submitted, in that order.
\<close>

theorem reliable_channel_in_order:
  assumes "peers cap a b" "chan_reachable a b s" "chan_bounded s"
  shows "ch_out s d = take (length (ch_out s d)) (ch_sent s (\<not> d))"
  using reachable_side_inv[OF assms, of d] unfolding side_inv_def Let_def rec_ok_def by blast

theorem reliable_channel_in_order_witness:
  "ch_out ex_chan False = [[9, 7]]
   \<and> ch_out ex_chan False = take (length (ch_out ex_chan False)) (ch_sent ex_chan (\<not> False))"
  by (rule conjI, (simp add: ex_chan_def; fail), rule reliable_channel_in_order[OF ex_peers ex_reachable ex_bounded])

text \<open>
  C2. The control channel loses nothing. In every such state each submitted packet is still in the
  send window, or waits in the other side's receive window, or has been delivered; and once the send
  window is empty and the receiver finds nothing more to deliver, everything submitted has been
  delivered.
\<close>

theorem reliable_channel_no_loss:
  assumes "peers cap a b" "chan_reachable a b s" "chan_bounded s"
  shows "(\<forall>k < length (ch_sent s d). of_nat k \<in> rel_ids (rs_send (cs_rel (ch_peer s d)))
      \<or> of_nat k \<in> rel_ids (rs_rec (cs_rel (ch_peer s (\<not> d)))) \<or> k < length (ch_out s (\<not> d)))
    \<and> (reliable_empty (rs_send (cs_rel (ch_peer s d)))
        \<and> reliable_get_buf_sequenced (rs_rec (cs_rel (ch_peer s (\<not> d)))) = None
       \<longrightarrow> ch_out s (\<not> d) = ch_sent s d)"
proof -
  let ?s = "rs_send (cs_rel (ch_peer s d))" and ?r = "rs_rec (cs_rel (ch_peer s (\<not> d)))"
  note i = reachable_side_inv[OF assms, of d, unfolded side_inv_def Let_def]
  note o = reachable_side_inv[OF assms, of "\<not> d", unfolded side_inv_def Let_def not_not]
  have len: "length (ch_sent s d) < 4294967296" using assms(3) by (auto simp: chan_bounded_def intro: le_less_trans)
  have un: "unat (of_nat k :: u32) = k" if "k < length (ch_sent s d)" for k
    using that len by (intro unat_of_nat_u32) simp
  have all: "of_nat k \<in> rel_ids ?s \<or> of_nat k \<in> rel_ids ?r \<or> k < length (ch_out s (\<not> d))"
    if "k < length (ch_sent s d)" for k
    using i un[OF that] that unfolding loss_ok_def got_def by metis
  moreover have "ch_out s (\<not> d) = ch_sent s d"
    if e: "reliable_empty ?s" and n: "reliable_get_buf_sequenced ?r = None"
  proof -
    have "rel_ids ?s = {}" using e by (auto simp: reliable_empty_def rel_find_None rel_ids_iff)
    moreover have "of_nat (length (ch_out s (\<not> d))) \<notin> rel_ids ?r"
      using n o by (simp add: sequenced_none rec_ok_def)
    ultimately have "\<not> length (ch_out s (\<not> d)) < length (ch_sent s d)"
      using all[of "length (ch_out s (\<not> d))"] by auto
    then show ?thesis using o unfolding rec_ok_def by (metis le_neq_implies_less take_all_iff order_refl)
  qed
  ultimately show ?thesis by blast
qed

theorem reliable_channel_no_loss_witness:
  "reliable_empty (rs_send (cs_rel (ch_peer ex_chan True)))
   \<and> ch_out ex_chan (\<not> True) = ch_sent ex_chan True \<and> ch_sent ex_chan True = [[9, 7]]"
proof -
  have e: "reliable_empty (rs_send (cs_rel ex_a3))" "reliable_get_buf_sequenced (rs_rec (cs_rel ex_b3)) = None"
    by code_simp+
  then have "ch_out ex_chan (\<not> True) = ch_sent ex_chan True"
    using reliable_channel_no_loss[OF ex_peers ex_reachable ex_bounded, of True] by (simp add: ex_chan_def)
  then show ?thesis using e(1) by (simp add: ex_chan_def)
qed

text \<open>
  C3. Processing a packet of the channel never fails an assertion. In every such state the receiving code
  completes on every packet the other side ever sent, however often it arrives.
\<close>

theorem reliable_channel_receive_total:
  assumes "peers cap a b" "chan_reachable a b s" "chan_bounded s"
    and "(is_ack, buf_content pkt) \<in> ch_net s (\<not> d)" "buf_wf pkt"
  shows "\<exists>ok c. ctl_receive (ch_peer s d) pkt opcode is_ack = Inr (ok, c)"
proof -
  note i = reachable_side_inv[OF assms(1-3), of d, unfolded side_inv_def Let_def]
  note o = reachable_side_inv[OF assms(1-3), of "\<not> d", unfolded side_inv_def Let_def not_not]
  have "length (ch_sent s (\<not> d)) \<le> 2147483647" using assms(3) by (simp add: chan_bounded_def)
  then have len: "length (ch_sent s (\<not> d)) \<le> 2147483648" by linarith
  have pk: "packet_ok (cs_session_id (ch_peer s d)) (ch_sent s (\<not> d)) (rs_rec (cs_rel (ch_peer s (\<not> d))))
      (ch_out s (\<not> d)) (is_ack, buf_content pkt)"
    using o assms(4) by blast
  show ?thesis using receive_ok[OF pk assms(5), of cap "ch_sent s d" "ch_out s d" opcode] i len by auto
qed

theorem reliable_channel_receive_total_witness:
  "\<exists>ok c. ctl_receive (ch_peer ex_chan False) ex_pkt 4 False = Inr (ok, c)"
  by (rule reliable_channel_receive_total[OF ex_peers ex_reachable ex_bounded _ ex_moves(5)]) (simp add: ex_chan_def)

end
