(* ===== verification/Mbuf.thy ===== *)
theory Mbuf
  imports Buffer Integers Fifo
begin

text \<open>
  Queues of reference-counted packets for the clients of a server (\<open>mbuf.h\<close>, \<open>mbuf.c\<close>). Packet buffers
  live in an explicit store, since one buffer may sit in the queue several times; a pointer to a client
  instance is its number. Using a freed buffer is a memory fault.
\<close>

section \<open>Definitions\<close>

record mbuf_buffer =
  mb_buf :: buffer
  mb_refcount :: int
  mb_flags :: u32

type_synonym mbuf_heap = "nat \<Rightarrow> mbuf_buffer option"

record mbuf_item =
  mi_buffer :: "nat option"
  mi_instance :: "nat option"

record mbuf_set =
  ms_head :: u32
  ms_len :: u32
  ms_capacity :: u32
  ms_max_queued :: u32
  ms_array :: "mbuf_item list"

definition MBUF_INDEX :: "u32 \<Rightarrow> u32 \<Rightarrow> u32 \<Rightarrow> u32" where
  "MBUF_INDEX head offset sz = (head + offset) AND (sz - 1)"

definition null_item :: mbuf_item where
  "null_item = \<lparr>mi_buffer = None, mi_instance = None\<rparr>"

definition mbuf_init :: "u32 \<Rightarrow> mbuf_set res" where
  "mbuf_init sz =
     bindE (adjust_power_of_2 (ucast sz)) (\<lambda>c.
       let cap = ucast c :: u32 in
       Inr \<lparr>ms_head = 0, ms_len = 0, ms_capacity = cap, ms_max_queued = 0,
            ms_array = replicate (unat cap) null_item\<rparr>)"

definition mbuf_get :: "mbuf_set \<Rightarrow> u32 \<Rightarrow> mbuf_item res" where
  "mbuf_get ms i = arr_get (ms_array ms) (uint (MBUF_INDEX (ms_head ms) i (ms_capacity ms)))"

text \<open>\<open>a\<close> is the address \<open>malloc\<close> returns.\<close>

definition mbuf_alloc_buf :: "(nat \<Rightarrow> byte) \<Rightarrow> nat \<Rightarrow> mbuf_heap \<Rightarrow> buffer \<Rightarrow> mbuf_heap res" where
  "mbuf_alloc_buf junk a h b =
     bindE (clone_buf junk b) (\<lambda>b'. Inr (h(a := Some \<lparr>mb_buf = b', mb_refcount = 1, mb_flags = 0\<rparr>)))"

definition mbuf_free_buf :: "mbuf_heap \<Rightarrow> nat option \<Rightarrow> mbuf_heap res" where
  "mbuf_free_buf h p =
     (case p of
        None \<Rightarrow> Inr h
      | Some a \<Rightarrow> (case h a of
          None \<Rightarrow> Inl Mem_Fault
        | Some mb \<Rightarrow>
            let rc = mb_refcount mb - 1 in
            if rc \<le> 0 then Inr (h(a := None)) else Inr (h(a := Some (mb\<lparr>mb_refcount := rc\<rparr>)))))"

fun free_items :: "mbuf_heap \<Rightarrow> mbuf_set \<Rightarrow> u32 list \<Rightarrow> mbuf_heap res" where
  "free_items h ms [] = Inr h"
| "free_items h ms (i # is) =
     bindE (mbuf_get ms i) (\<lambda>it. bindE (mbuf_free_buf h (mi_buffer it)) (\<lambda>h'. free_items h' ms is))"

definition mbuf_free :: "mbuf_heap \<Rightarrow> mbuf_set \<Rightarrow> mbuf_heap res" where
  "mbuf_free h ms = free_items h ms (map of_nat [0..<unat (ms_len ms)])"

text \<open>The loop of \<open>mbuf_extract_item\<close> skips items whose instance has gone away.\<close>

function extract_loop :: "mbuf_set \<Rightarrow> (mbuf_item option \<times> mbuf_set) res" where
  "extract_loop ms =
     (if ms_len ms = 0 then Inr (None, ms)
      else bindE (arr_get (ms_array ms) (uint (ms_head ms))) (\<lambda>it.
        let ms' = ms\<lparr>ms_head := MBUF_INDEX (ms_head ms) 1 (ms_capacity ms), ms_len := ms_len ms - 1\<rparr> in
        if mi_instance it \<noteq> None then Inr (Some it, ms') else extract_loop ms'))"
  by pat_completeness auto
termination
  by (relation "measure (\<lambda>ms. unat (ms_len ms))") (auto simp: unat_gt_0 unat_minus_one)

declare extract_loop.simps [simp del]

definition mbuf_extract_item :: "mbuf_set \<Rightarrow> (mbuf_item option \<times> mbuf_set) res" where
  "mbuf_extract_item ms = extract_loop ms"

definition mbuf_add_item :: "mbuf_heap \<Rightarrow> mbuf_set \<Rightarrow> mbuf_item \<Rightarrow> (mbuf_heap \<times> mbuf_set) res" where
  "mbuf_add_item h ms it =
     bindE (if ms_len ms = ms_capacity ms then
              bindE (mbuf_extract_item ms) (\<lambda>(r, ms1). case r of
                None \<Rightarrow> Inl Assert_Failed
              | Some rm \<Rightarrow> bindE (mbuf_free_buf h (mi_buffer rm)) (\<lambda>h1. Inr (h1, ms1)))
            else Inr (h, ms)) (\<lambda>(h1, ms1).
     bindE (assertE (ms_len ms1 < ms_capacity ms1)) (\<lambda>_.
     bindE (arr_set (ms_array ms1) (uint (MBUF_INDEX (ms_head ms1) (ms_len ms1) (ms_capacity ms1))) it) (\<lambda>arr.
     let len = ms_len ms1 + 1;
         ms2 = ms1\<lparr>ms_array := arr, ms_len := len,
                   ms_max_queued := (if len > ms_max_queued ms1 then len else ms_max_queued ms1)\<rparr> in
     case mi_buffer it of
       None \<Rightarrow> Inl Mem_Fault
     | Some a \<Rightarrow> (case h1 a of
         None \<Rightarrow> Inl Mem_Fault
       | Some mb \<Rightarrow> Inr (h1(a := Some (mb\<lparr>mb_refcount := mb_refcount mb + 1\<rparr>)), ms2)))))"

fun peek_loop :: "mbuf_set \<Rightarrow> u32 list \<Rightarrow> nat option res" where
  "peek_loop ms [] = Inr None"
| "peek_loop ms (i # is) =
     bindE (mbuf_get ms i) (\<lambda>it. if mi_instance it \<noteq> None then Inr (mi_instance it) else peek_loop ms is)"

definition mbuf_peek_dowork :: "mbuf_set \<Rightarrow> nat option res" where
  "mbuf_peek_dowork ms = peek_loop ms (map of_nat [0..<unat (ms_len ms)])"

definition mbuf_defined :: "mbuf_set \<Rightarrow> bool" where
  "mbuf_defined ms \<longleftrightarrow> ms_len ms \<noteq> 0"

definition mbuf_len :: "mbuf_set \<Rightarrow> u32" where
  "mbuf_len ms = ms_len ms"

definition mbuf_maximum_queued :: "mbuf_set \<Rightarrow> int" where
  "mbuf_maximum_queued ms = sint (ms_max_queued ms)"

definition mbuf_peek :: "mbuf_set \<Rightarrow> nat option res" where
  "mbuf_peek ms = (if mbuf_defined ms then mbuf_peek_dowork ms else Inr None)"

fun deref_loop :: "nat \<Rightarrow> mbuf_heap \<Rightarrow> mbuf_set \<Rightarrow> u32 list \<Rightarrow> (mbuf_heap \<times> mbuf_set) res" where
  "deref_loop mi h ms [] = Inr (h, ms)"
| "deref_loop mi h ms (i # is) =
     bindE (mbuf_get ms i) (\<lambda>it.
       if mi_instance it = Some mi then
         bindE (mbuf_free_buf h (mi_buffer it)) (\<lambda>h'.
         bindE (arr_set (ms_array ms) (uint (MBUF_INDEX (ms_head ms) i (ms_capacity ms))) null_item) (\<lambda>arr.
           deref_loop mi h' (ms\<lparr>ms_array := arr\<rparr>) is))
       else deref_loop mi h ms is)"

definition mbuf_dereference_instance :: "nat \<Rightarrow> mbuf_heap \<Rightarrow> mbuf_set \<Rightarrow> (mbuf_heap \<times> mbuf_set) res" where
  "mbuf_dereference_instance mi h ms = deref_loop mi h ms (map of_nat [0..<unat (ms_len ms)])"

section \<open>The queue as a list\<close>

definition mbuf_wf :: "mbuf_set \<Rightarrow> bool" where
  "mbuf_wf ms \<longleftrightarrow> (\<exists>k < 31. ms_capacity ms = 2 ^ k) \<and> ms_len ms \<le> ms_capacity ms \<and> ms_head ms < ms_capacity ms
     \<and> length (ms_array ms) = unat (ms_capacity ms)"

definition mbuf_pos :: "mbuf_set \<Rightarrow> nat \<Rightarrow> nat" where
  "mbuf_pos ms i = (unat (ms_head ms) + i) mod unat (ms_capacity ms)"

definition mbuf_items :: "mbuf_set \<Rightarrow> mbuf_item list" where
  "mbuf_items ms = map (\<lambda>i. ms_array ms ! mbuf_pos ms i) [0..<unat (ms_len ms)]"

definition item_live :: "mbuf_item \<Rightarrow> bool" where
  "item_live it \<longleftrightarrow> mi_instance it \<noteq> None"

definition mbuf_live :: "mbuf_set \<Rightarrow> mbuf_item list" where
  "mbuf_live ms = filter item_live (mbuf_items ms)"

lemma unat_mbuf_index:
  assumes "k < 32"
  shows "unat (MBUF_INDEX h i (2 ^ k)) = (unat h + unat i) mod 2 ^ k"
proof -
  have "MBUF_INDEX h i (2 ^ k) = take_bit k (h + i)"
    by (simp add: MBUF_INDEX_def take_bit_eq_mask mask_eq_exp_minus_1)
  then have "unat (MBUF_INDEX h i (2 ^ k)) = take_bit k (unat (h + i))"
    by (simp only: unsigned_take_bit_eq)
  also have "unat (h + i) = (unat h + unat i) mod 2 ^ 32" by (simp add: unat_word_ariths)
  also have "take_bit k \<dots> = (unat h + unat i) mod 2 ^ 32 mod 2 ^ k" by (rule take_bit_eq_mod)
  also have "\<dots> = (unat h + unat i) mod 2 ^ k"
    using assms by (intro mod_mod_cancel le_imp_power_dvd) simp
  finally show ?thesis .
qed

lemma mbuf_wfE:
  assumes "mbuf_wf ms"
  obtains k where "k < 31" "ms_capacity ms = 2 ^ k" "unat (ms_capacity ms) = 2 ^ k" "unat (ms_len ms) \<le> 2 ^ k"
    "unat (ms_head ms) < 2 ^ k" "length (ms_array ms) = 2 ^ k"
proof -
  from assms obtain k where k: "k < 31" "ms_capacity ms = 2 ^ k" by (auto simp: mbuf_wf_def)
  then have "unat (ms_capacity ms) = 2 ^ k" using unat_pow2[of k, where 'a = 32] by simp
  then show ?thesis using that[OF k] assms by (simp add: mbuf_wf_def word_le_nat_alt word_less_nat_alt)
qed

lemma mbuf_index_pos:
  assumes "mbuf_wf ms"
  shows "unat (MBUF_INDEX (ms_head ms) i (ms_capacity ms)) = mbuf_pos ms (unat i)"
    and "mbuf_pos ms j < length (ms_array ms)"
    and "uint (MBUF_INDEX (ms_head ms) i (ms_capacity ms)) = int (mbuf_pos ms (unat i))"
proof -
  from assms obtain k where k: "k < 31" "ms_capacity ms = 2 ^ k" "unat (ms_capacity ms) = 2 ^ k"
    "length (ms_array ms) = 2 ^ k" by (rule mbuf_wfE)
  show a: "unat (MBUF_INDEX (ms_head ms) i (ms_capacity ms)) = mbuf_pos ms (unat i)"
    using k unat_mbuf_index[of k "ms_head ms" i] by (simp add: mbuf_pos_def)
  show "mbuf_pos ms j < length (ms_array ms)" using k by (simp add: mbuf_pos_def)
  show "uint (MBUF_INDEX (ms_head ms) i (ms_capacity ms)) = int (mbuf_pos ms (unat i))"
    by (metis a uint_nat)
qed

lemma mbuf_get_ok:
  assumes "mbuf_wf ms" "i < ms_len ms"
  shows "mbuf_get ms i = Inr (mbuf_items ms ! unat i)"
  using mbuf_index_pos(2)[OF assms(1), of "unat i"] assms(2) unfolding mbuf_get_def mbuf_index_pos(3)[OF assms(1)]
  by (simp add: arr_get_def mbuf_items_def word_less_nat_alt)

lemma length_mbuf_items [simp]: "length (mbuf_items ms) = unat (ms_len ms)"
  by (simp add: mbuf_items_def)

lemma mbuf_pos_shift:
  assumes "mbuf_wf ms"
  shows "mbuf_pos (ms\<lparr>ms_head := MBUF_INDEX (ms_head ms) 1 (ms_capacity ms), ms_len := l\<rparr>) i = mbuf_pos ms (Suc i)"
proof -
  have "unat (MBUF_INDEX (ms_head ms) 1 (ms_capacity ms)) = (unat (ms_head ms) + 1) mod unat (ms_capacity ms)"
    using mbuf_index_pos(1)[OF assms, of 1] by (simp add: mbuf_pos_def)
  then show ?thesis by (simp add: mbuf_pos_def mod_simps)
qed

lemma mbuf_pop_items:
  assumes "mbuf_wf ms" "ms_len ms \<noteq> 0"
  shows "arr_get (ms_array ms) (uint (ms_head ms)) = Inr (hd (mbuf_items ms))"
    and "mbuf_wf (ms\<lparr>ms_head := MBUF_INDEX (ms_head ms) 1 (ms_capacity ms), ms_len := ms_len ms - 1\<rparr>)"
    and "mbuf_items (ms\<lparr>ms_head := MBUF_INDEX (ms_head ms) 1 (ms_capacity ms), ms_len := ms_len ms - 1\<rparr>) = tl (mbuf_items ms)"
    and "mbuf_items ms \<noteq> []"
proof -
  let ?ms = "ms\<lparr>ms_head := MBUF_INDEX (ms_head ms) 1 (ms_capacity ms), ms_len := ms_len ms - 1\<rparr>"
  have len: "unat (ms_len ms) = Suc (unat (ms_len ms - 1))"
    using assms(2) by (simp add: unat_minus_one unat_gt_0)
  have upt: "[0..<Suc n] = 0 # map Suc [0..<n]" for n by (simp add: upt_conv_Cons map_Suc_upt)
  have items: "mbuf_items ms = ms_array ms ! mbuf_pos ms 0 # map (\<lambda>i. ms_array ms ! mbuf_pos ms (Suc i)) [0..<unat (ms_len ms - 1)]"
    unfolding mbuf_items_def len upt by (simp add: comp_def)
  from assms(1) obtain k where k: "unat (ms_capacity ms) = 2 ^ k" "unat (ms_head ms) < 2 ^ k" "length (ms_array ms) = 2 ^ k"
    by (rule mbuf_wfE)
  have p0: "mbuf_pos ms 0 = unat (ms_head ms)" using k by (simp add: mbuf_pos_def)
  show "arr_get (ms_array ms) (uint (ms_head ms)) = Inr (hd (mbuf_items ms))"
    using k by (simp add: items p0 arr_get_unat)
  have "unat (MBUF_INDEX (ms_head ms) 1 (ms_capacity ms)) < unat (ms_capacity ms)"
    unfolding mbuf_index_pos(1)[OF assms(1)] using mbuf_index_pos(2)[OF assms(1)] k by simp
  moreover have "ms_len ms - 1 \<le> ms_capacity ms"
    using assms(1) len by (simp add: mbuf_wf_def word_le_nat_alt)
  ultimately show "mbuf_wf ?ms" using assms(1) by (simp add: mbuf_wf_def word_less_nat_alt)
  show "mbuf_items ?ms = tl (mbuf_items ms)"
    unfolding items mbuf_items_def[of ?ms] by (simp add: mbuf_pos_shift[OF assms(1)])
  show "mbuf_items ms \<noteq> []" by (simp add: items)
qed

lemma extract_ok:
  assumes "mbuf_wf ms"
  shows "\<exists>ms'. mbuf_extract_item ms = Inr (case mbuf_live ms of [] \<Rightarrow> None | it # _ \<Rightarrow> Some it, ms')
    \<and> mbuf_wf ms' \<and> mbuf_live ms' = tl (mbuf_live ms) \<and> ms_capacity ms' = ms_capacity ms
    \<and> mbuf_items ms' = (case mbuf_live ms of [] \<Rightarrow> [] | it # _ \<Rightarrow> tl (dropWhile (\<lambda>x. \<not> item_live x) (mbuf_items ms)))"
  using assms unfolding mbuf_extract_item_def
proof (induction ms rule: extract_loop.induct)
  case (1 ms)
  show ?case
  proof (cases "ms_len ms = 0")
    case True
    then have "mbuf_items ms = []" by (simp add: mbuf_items_def)
    then show ?thesis using True 1 by (simp add: extract_loop.simps mbuf_live_def)
  next
    case False
    note p = mbuf_pop_items[OF 1(2) False]
    let ?ms = "ms\<lparr>ms_head := MBUF_INDEX (ms_head ms) 1 (ms_capacity ms), ms_len := ms_len ms - 1\<rparr>"
    obtain x xs where xs: "mbuf_items ms = x # xs" using p(4) by (cases "mbuf_items ms") auto
    show ?thesis
    proof (cases "item_live x")
      case True
      then show ?thesis using False p xs
        by (subst extract_loop.simps) (auto simp: mbuf_live_def item_live_def Let_def)
    next
      case dead: False
      have "extract_loop ms = extract_loop ?ms"
        using False p(1) xs dead by (subst extract_loop.simps) (auto simp: item_live_def Let_def)
      moreover have "mbuf_live ms = mbuf_live ?ms" using xs dead p(3) by (simp add: mbuf_live_def)
      moreover have "dropWhile (\<lambda>x. \<not> item_live x) (mbuf_items ms) = dropWhile (\<lambda>x. \<not> item_live x) (mbuf_items ?ms)"
        using xs dead p(3) by simp
      moreover have "\<not> mi_instance (hd (mbuf_items ms)) \<noteq> None" using xs dead by (simp add: item_live_def)
      from "1.IH"[OF False p(1) refl this p(2)] have "\<exists>ms'. extract_loop ?ms = Inr (case mbuf_live ?ms of [] \<Rightarrow> None | it # _ \<Rightarrow> Some it, ms')
        \<and> mbuf_wf ms' \<and> mbuf_live ms' = tl (mbuf_live ?ms) \<and> ms_capacity ms' = ms_capacity ?ms
        \<and> mbuf_items ms' = (case mbuf_live ?ms of [] \<Rightarrow> [] | it # _ \<Rightarrow> tl (dropWhile (\<lambda>x. \<not> item_live x) (mbuf_items ?ms)))" .
      moreover have "ms_capacity ?ms = ms_capacity ms" by simp
      ultimately show ?thesis by (simp only:)
    qed
  qed
qed

end
