(* ===== verification/Mbuf_Refs.thy ===== *)
theory Mbuf_Refs
  imports Mbuf
begin

text \<open>
  Correctness of the packet queue: it is a first-in first-out queue of the packets whose client still
  exists, and reference counting is exact, so no run uses or frees a buffer twice.
\<close>

section \<open>The queue discipline\<close>

lemma mbuf_put_ok:
  assumes "mbuf_wf ms" "ms_len ms < ms_capacity ms"
  shows "\<exists>arr. arr_set (ms_array ms) (uint (MBUF_INDEX (ms_head ms) (ms_len ms) (ms_capacity ms))) it = Inr arr
    \<and> (\<forall>m. mbuf_wf (ms\<lparr>ms_array := arr, ms_len := ms_len ms + 1, ms_max_queued := m\<rparr>)
         \<and> mbuf_items (ms\<lparr>ms_array := arr, ms_len := ms_len ms + 1, ms_max_queued := m\<rparr>) = mbuf_items ms @ [it])"
proof -
  let ?p = "mbuf_pos ms (unat (ms_len ms))"
  let ?arr = "(ms_array ms)[?p := it]"
  note ix = mbuf_index_pos[OF assms(1)]
  have set: "arr_set (ms_array ms) (uint (MBUF_INDEX (ms_head ms) (ms_len ms) (ms_capacity ms))) it = Inr ?arr"
    unfolding ix(3) by (rule arr_set_nat) (rule ix(2))
  have len: "unat (ms_len ms + 1) = Suc (unat (ms_len ms))" using assms(2) by (rule unat_inc)
  from assms(1) obtain k where k: "unat (ms_capacity ms) = 2 ^ k" "unat (ms_head ms) < 2 ^ k" by (rule mbuf_wfE)
  have lt: "unat (ms_len ms) < 2 ^ k" using assms(2) k(1) by (simp add: word_less_nat_alt)
  have ne: "mbuf_pos ms i \<noteq> ?p" if "i < unat (ms_len ms)" for i
  proof
    assume "mbuf_pos ms i = ?p"
    then have "(i + unat (ms_head ms)) mod 2 ^ k = (unat (ms_len ms) + unat (ms_head ms)) mod 2 ^ k"
      by (simp add: mbuf_pos_def k(1) add.commute)
    then have "i mod 2 ^ k = unat (ms_len ms) mod 2 ^ k" by (simp add: nat_mod_eq_iff)  
    then show False using that lt by simp
  qed
  have "mbuf_items (ms\<lparr>ms_array := ?arr, ms_len := ms_len ms + 1, ms_max_queued := m\<rparr>) = mbuf_items ms @ [it]" for m
    using ne[THEN not_sym] ix(2) by (simp add: mbuf_items_def len mbuf_pos_def)
  moreover have "mbuf_wf (ms\<lparr>ms_array := ?arr, ms_len := ms_len ms + 1, ms_max_queued := m\<rparr>)" for m
    using assms len by (auto simp: mbuf_wf_def word_le_nat_alt word_less_nat_alt)
  ultimately show ?thesis using set by blast
qed

section \<open>Reference counts\<close>

definition buf_refs :: "mbuf_set \<Rightarrow> nat \<Rightarrow> nat" where
  "buf_refs ms a = length (filter (\<lambda>it. mi_buffer it = Some a) (mbuf_items ms))"

text \<open>
  \<open>ext a\<close> counts the references the rest of the program holds. An allocated buffer's count is the number
  of its references, and an item is either live with a buffer or dead without one.
\<close>

definition count_ok :: "nat \<Rightarrow> mbuf_buffer option \<Rightarrow> bool" where
  "count_ok n c \<longleftrightarrow> (case c of None \<Rightarrow> n = 0 | Some mb \<Rightarrow> mb_refcount mb = int n \<and> 0 < n)"

definition refs_ok :: "(nat \<Rightarrow> nat) \<Rightarrow> mbuf_heap \<Rightarrow> mbuf_set \<Rightarrow> bool" where
  "refs_ok ext h ms \<longleftrightarrow> mbuf_wf ms \<and> (\<forall>a. count_ok (buf_refs ms a + ext a) (h a))
     \<and> (\<forall>it \<in> set (mbuf_items ms). item_live it \<longleftrightarrow> mi_buffer it \<noteq> None)"

lemma count_ok_pos: "count_ok n c \<Longrightarrow> 0 < n \<Longrightarrow> \<exists>mb. c = Some mb \<and> mb_refcount mb = int n"
  by (auto simp: count_ok_def split: option.splits)

lemma refs_okD:
  assumes "refs_ok ext h ms"
  shows "mbuf_wf ms" "count_ok (buf_refs ms a + ext a) (h a)"
    "it \<in> set (mbuf_items ms) \<Longrightarrow> item_live it \<longleftrightarrow> mi_buffer it \<noteq> None"
  using assms by (simp_all add: refs_ok_def)

text \<open>Dropping a reference to an allocated buffer, whoever holds it.\<close>

lemma free_count:
  assumes "count_ok n (h a)" "0 < n"
  shows "\<exists>h'. mbuf_free_buf h (Some a) = Inr h' \<and> count_ok (n - 1) (h' a) \<and> (\<forall>b. b \<noteq> a \<longrightarrow> h' b = h b)"
proof -
  obtain mb where mb: "h a = Some mb" "mb_refcount mb = int n" using count_ok_pos[OF assms] by blast
  show ?thesis
  proof (cases "n = 1")
    case True
    then show ?thesis using mb
      by (intro exI[of _ "h(a := None)"]) (simp add: mbuf_free_buf_def count_ok_def)
  next
    case False
    then show ?thesis using mb assms(2)
      by (intro exI[of _ "h(a := Some (mb\<lparr>mb_refcount := mb_refcount mb - 1\<rparr>))"])
        (auto simp: mbuf_free_buf_def count_ok_def Let_def)
  qed
qed

lemma refs_ok_update:
  assumes "refs_ok ext h ms" "mbuf_wf ms'"
    and "count_ok (buf_refs ms' a + ext' a) (h' a)"
    and "\<And>b. b \<noteq> a \<Longrightarrow> h' b = h b \<and> buf_refs ms' b + ext' b = buf_refs ms b + ext b"
    and "\<And>it. it \<in> set (mbuf_items ms') \<Longrightarrow> item_live it \<longleftrightarrow> mi_buffer it \<noteq> None"
  shows "refs_ok ext' h' ms'"
proof -
  have "count_ok (buf_refs ms' b + ext' b) (h' b)" for b
    using assms(3,4) refs_okD(2)[OF assms(1), of b] by (cases "b = a") auto
  then show ?thesis using assms(2,5) by (simp add: refs_ok_def)
qed

text \<open>Releasing one external reference.\<close>

lemma free_buf_ok:
  assumes "refs_ok ext h ms" "0 < ext a"
  shows "\<exists>h'. mbuf_free_buf h (Some a) = Inr h' \<and> refs_ok (ext(a := ext a - 1)) h' ms"
proof -
  have "0 < buf_refs ms a + ext a" using assms(2) by simp
  from free_count[where h = h and a = a, OF refs_okD(2)[OF assms(1)] this] obtain h' where h': "mbuf_free_buf h (Some a) = Inr h'"
    "count_ok (buf_refs ms a + ext a - 1) (h' a)" "\<And>b. b \<noteq> a \<Longrightarrow> h' b = h b" by blast
  have "refs_ok (ext(a := ext a - 1)) h' ms"
    using h'(2,3) assms refs_okD(1,3)[OF assms(1)] by (intro refs_ok_update[OF assms(1)]) auto
  then show ?thesis using h'(1) by blast
qed

lemma refs_transfer:
  assumes "refs_ok ext h ms" "mbuf_wf ms'" "\<And>b. buf_refs ms' b + ext' b = buf_refs ms b + ext b"
    and "set (mbuf_items ms') \<subseteq> set (mbuf_items ms)"
  shows "refs_ok ext' h ms'"
  using assms by (auto simp: refs_ok_def)

text \<open>An extracted packet's reference passes to the caller.\<close>

lemma dead_no_refs:
  assumes "\<forall>it \<in> set xs. item_live it \<longleftrightarrow> mi_buffer it \<noteq> None"
  shows "filter (\<lambda>it. mi_buffer it = Some a) (takeWhile (\<lambda>x. \<not> item_live x) xs) = []"
  using assms by (auto simp: filter_empty_conv dest: set_takeWhileD)

lemma extract_refs:
  assumes "refs_ok ext h ms"
  shows "\<exists>ms'. (case mbuf_live ms of
      [] \<Rightarrow> mbuf_extract_item ms = Inr (None, ms') \<and> refs_ok ext h ms'
    | it # _ \<Rightarrow> \<exists>a. mi_buffer it = Some a \<and> mbuf_extract_item ms = Inr (Some it, ms')
        \<and> refs_ok (ext(a := ext a + 1)) h ms')
    \<and> mbuf_live ms' = tl (mbuf_live ms) \<and> ms_capacity ms' = ms_capacity ms
    \<and> (mbuf_live ms \<noteq> [] \<longrightarrow> ms_len ms' < ms_len ms)"
proof -
  let ?D = "\<lambda>x. \<not> item_live x" and ?xs = "mbuf_items ms"
  note wf = refs_okD(1)[OF assms]
  have lv: "\<forall>it \<in> set ?xs. item_live it \<longleftrightarrow> mi_buffer it \<noteq> None" using refs_okD(3)[OF assms] by blast
  obtain ms' where x: "mbuf_extract_item ms = Inr (case mbuf_live ms of [] \<Rightarrow> None | it # _ \<Rightarrow> Some it, ms')"
    "mbuf_wf ms'" "mbuf_live ms' = tl (mbuf_live ms)" "ms_capacity ms' = ms_capacity ms"
    "mbuf_items ms' = (case mbuf_live ms of [] \<Rightarrow> [] | it # _ \<Rightarrow> tl (dropWhile ?D ?xs))"
    using extract_ok[OF wf] by blast
  have split: "?xs = takeWhile ?D ?xs @ dropWhile ?D ?xs" by simp
  have refs: "buf_refs ms b = length (filter (\<lambda>it. mi_buffer it = Some b) (dropWhile ?D ?xs))" for b
    unfolding buf_refs_def by (subst split) (simp only: filter_append dead_no_refs[OF lv] append_Nil)
  show ?thesis
  proof (cases "mbuf_live ms")
    case Nil
    then have "\<forall>x \<in> set ?xs. ?D x" by (auto simp: mbuf_live_def filter_empty_conv)
    then have dw: "dropWhile ?D ?xs = []" by (simp only: dropWhile_eq_Nil_conv)
    have r0: "buf_refs ms b = 0" for b unfolding refs dw by simp
    have "buf_refs ms' b = 0" for b using x(5) Nil by (simp add: buf_refs_def)
    note r0 = r0 this
    have "refs_ok ext h ms'" using r0 x(5) Nil by (intro refs_transfer[OF assms x(2)]) simp_all
    then show ?thesis using x Nil by auto
  next
    case (Cons it its)
    then obtain ys where ys: "dropWhile ?D ?xs = it # ys"
    proof -
      have "filter item_live (dropWhile ?D ?xs) = it # its"
      proof -
        have "filter item_live (takeWhile ?D ?xs) = []" by (auto simp: filter_empty_conv dest: set_takeWhileD)
        moreover have "filter item_live ?xs = filter item_live (takeWhile ?D ?xs) @ filter item_live (dropWhile ?D ?xs)"
          by (metis split filter_append)
        ultimately show ?thesis using Cons by (simp add: mbuf_live_def)
      qed
      then have "dropWhile ?D ?xs \<noteq> []" by (metis filter.simps(1) list.distinct(1))
      then obtain y ys where y: "dropWhile ?D ?xs = y # ys" by (cases "dropWhile ?D ?xs") auto
      then have "item_live y" using hd_dropWhile[of ?D ?xs] by auto
      then have "y = it" using y \<open>filter item_live _ = _\<close> by simp
      then show ?thesis using that y by simp
    qed
    have "it \<in> set ?xs" using ys by (metis list.set_intros(1) set_dropWhileD)
    moreover have "item_live it" using Cons unfolding mbuf_live_def by (metis Cons_eq_filterD)
    ultimately obtain a where a: "mi_buffer it = Some a" using lv by auto
    have items': "mbuf_items ms' = ys" using x(5) Cons ys by simp
    have "refs_ok (ext(a := ext a + 1)) h ms'"
    proof (rule refs_transfer[OF assms x(2)])
      show "buf_refs ms' b + (ext(a := ext a + 1)) b = buf_refs ms b + ext b" for b
        unfolding refs ys using a by (simp add: buf_refs_def items')
      show "set (mbuf_items ms') \<subseteq> set ?xs" unfolding items' using ys by (metis list.set_intros(2) set_dropWhileD subsetI)
    qed
    moreover have "length ys < length ?xs" 
      using length_dropWhile_le[of ?D ?xs] unfolding ys by simp
    then have "ms_len ms' < ms_len ms" using items' by (simp add: word_less_nat_alt flip: length_mbuf_items)
    ultimately show ?thesis using x(1,3,4) Cons a by auto
  qed
qed

section \<open>Adding and dereferencing\<close>

lemma add_item_room:
  assumes "refs_ok ext h ms" "ms_len ms < ms_capacity ms" "mi_buffer it = Some a" "mi_instance it \<noteq> None" "0 < ext a"
  shows "\<exists>h' ms'. mbuf_add_item h ms it = Inr (h', ms') \<and> refs_ok ext h' ms'
    \<and> mbuf_items ms' = mbuf_items ms @ [it] \<and> ms_capacity ms' = ms_capacity ms"
proof -
  obtain arr where put: "arr_set (ms_array ms) (uint (MBUF_INDEX (ms_head ms) (ms_len ms) (ms_capacity ms))) it = Inr arr"
    "\<And>m. mbuf_wf (ms\<lparr>ms_array := arr, ms_len := ms_len ms + 1, ms_max_queued := m\<rparr>)"
    "\<And>m. mbuf_items (ms\<lparr>ms_array := arr, ms_len := ms_len ms + 1, ms_max_queued := m\<rparr>) = mbuf_items ms @ [it]"
    using mbuf_put_ok[OF refs_okD(1)[OF assms(1)] assms(2), of it] by blast
  have "0 < buf_refs ms a + ext a" using assms(5) by simp
  then obtain mb where mb: "h a = Some mb" "mb_refcount mb = int (buf_refs ms a + ext a)"
    using count_ok_pos[OF refs_okD(2)[OF assms(1), of a]] by metis
  let ?m = "if ms_len ms + 1 > ms_max_queued ms then ms_len ms + 1 else ms_max_queued ms"
  let ?ms = "ms\<lparr>ms_array := arr, ms_len := ms_len ms + 1, ms_max_queued := ?m\<rparr>"
  let ?h = "h(a := Some (mb\<lparr>mb_refcount := mb_refcount mb + 1\<rparr>))"
  have "ms_len ms \<noteq> ms_capacity ms" using assms(2) by auto
  then have "mbuf_add_item h ms it = Inr (?h, ?ms)"
    using assms(2,3) put(1) mb(1) by (simp add: mbuf_add_item_def Let_def)
  moreover have "refs_ok ext ?h ?ms"
  proof (rule refs_ok_update[OF assms(1) put(2), where a = a])
    show "count_ok (buf_refs ?ms a + ext a) (?h a)"
      using mb(2) assms(3) by (simp add: count_ok_def buf_refs_def put(3))
    show "b \<noteq> a \<Longrightarrow> ?h b = h b \<and> buf_refs ?ms b + ext b = buf_refs ms b + ext b" for b
      using assms(3) by (simp add: buf_refs_def put(3))
    show "it' \<in> set (mbuf_items ?ms) \<Longrightarrow> item_live it' \<longleftrightarrow> mi_buffer it' \<noteq> None" for it'
      using refs_okD(3)[OF assms(1)] assms(3,4) by (auto simp: put(3) item_live_def)
  qed
  ultimately show ?thesis using put(3) by auto
qed

text \<open>On a full queue the oldest live packet is dropped first.\<close>

lemma add_item_ok:
  assumes "refs_ok ext h ms" "mi_buffer it = Some a" "mi_instance it \<noteq> None" "0 < ext a"
    and "ms_len ms < ms_capacity ms \<or> mbuf_live ms \<noteq> []"
  shows "\<exists>h' ms'. mbuf_add_item h ms it = Inr (h', ms') \<and> refs_ok ext h' ms'
    \<and> mbuf_live ms' = (if ms_len ms = ms_capacity ms then tl (mbuf_live ms) else mbuf_live ms) @ [it]
    \<and> ms_capacity ms' = ms_capacity ms"
proof (cases "ms_len ms = ms_capacity ms")
  case False
  then have "ms_len ms < ms_capacity ms" using refs_okD(1)[OF assms(1)] by (simp add: mbuf_wf_def order.strict_iff_order)
  from add_item_room[OF assms(1) this assms(2-4)] False assms(3) show ?thesis
    by (auto simp: mbuf_live_def item_live_def)
next
  case True
  then obtain rm rest where lv: "mbuf_live ms = rm # rest" using assms(5) by (cases "mbuf_live ms") auto
  obtain ms1 b where x: "mi_buffer rm = Some b" "mbuf_extract_item ms = Inr (Some rm, ms1)"
    "refs_ok (ext(b := ext b + 1)) h ms1" "mbuf_live ms1 = rest" "ms_capacity ms1 = ms_capacity ms" "ms_len ms1 < ms_len ms"
    using extract_refs[OF assms(1)] lv by auto
  obtain h1 where h1: "mbuf_free_buf h (Some b) = Inr h1" "refs_ok ext h1 ms1"
    using free_buf_ok[OF x(3), of b] by auto
  have lt: "ms_len ms1 < ms_capacity ms1" using x(5,6) True by simp
  obtain h' ms' where r: "mbuf_add_item h1 ms1 it = Inr (h', ms')" "refs_ok ext h' ms'"
    "mbuf_items ms' = mbuf_items ms1 @ [it]" "ms_capacity ms' = ms_capacity ms1"
    using add_item_room[OF h1(2) lt assms(2-4)] by blast
  have "ms_len ms1 \<noteq> ms_capacity ms1" using lt by auto
  then have "mbuf_add_item h ms it = mbuf_add_item h1 ms1 it"
    using True x(1,2) h1(1) by (simp add: mbuf_add_item_def)
  then show ?thesis using r True lv x(4,5) assms(3) by (auto simp: mbuf_live_def item_live_def)
qed

lemma deref_loop_ok:
  assumes "refs_ok ext h ms" "n \<le> unat (ms_len ms)"
  shows "\<exists>h' ms'. deref_loop mi h ms (map of_nat [k..<n]) = Inr (h', ms') \<and> refs_ok ext h' ms'
    \<and> ms_capacity ms' = ms_capacity ms \<and> ms_len ms' = ms_len ms
    \<and> mbuf_items ms' = map (\<lambda>i. if k \<le> i \<and> i < n \<and> mi_instance (mbuf_items ms ! i) = Some mi then null_item
                                  else mbuf_items ms ! i) [0..<unat (ms_len ms)]"
  using assms
proof (induction "n - k" arbitrary: k h ms)
  case 0
  then have e: "map of_nat [k..<n] = ([] :: u32 list)" by simp
  have "(\<lambda>i. if k \<le> i \<and> i < n \<and> mi_instance (mbuf_items ms ! i) = Some mi then null_item
      else mbuf_items ms ! i) = (!) (mbuf_items ms)"
    using 0(1) by (auto simp: fun_eq_iff)
  then show ?case unfolding e using 0(2) map_nth[of "mbuf_items ms"] by simp
next
  case (Suc m)
  then have kn: "k < n" by simp
  let ?i = "of_nat k :: u32" and ?xs = "mbuf_items ms"
  have k32: "k < 2 ^ 32" using kn Suc.prems(2) unsigned_less[of "ms_len ms", where 'a = nat] by simp
  then have ui: "unat ?i = k" by (simp add: unsigned_of_nat take_bit_eq_mod)
  then have lt: "?i < ms_len ms" using kn Suc.prems(2) by (simp add: word_less_nat_alt)
  note wf = refs_okD(1)[OF Suc.prems(1)]
  have get: "mbuf_get ms ?i = Inr (?xs ! k)" using mbuf_get_ok[OF wf lt] ui by simp
  have upt: "map of_nat [k..<n] = ?i # map of_nat [Suc k..<n]" using kn by (simp add: upt_conv_Cons)
  show ?case
  proof (cases "mi_instance (?xs ! k) = Some mi")
    case False
    have "deref_loop mi h ms (map of_nat [k..<n]) = deref_loop mi h ms (map of_nat [Suc k..<n])"
      unfolding upt using get False by simp
    moreover have "(\<lambda>i. if Suc k \<le> i \<and> i < n \<and> mi_instance (?xs ! i) = Some mi then null_item else ?xs ! i)
      = (\<lambda>i. if k \<le> i \<and> i < n \<and> mi_instance (?xs ! i) = Some mi then null_item else ?xs ! i)"
      using False by (auto simp: fun_eq_iff Suc_le_eq le_less)
    ultimately show ?thesis using Suc.hyps(1)[of "Suc k" h ms] Suc.hyps(2) Suc.prems by simp
  next
    case True
    have mem: "?xs ! k \<in> set ?xs" using kn Suc.prems(2) by (intro nth_mem) simp
    then obtain a where a: "mi_buffer (?xs ! k) = Some a"
      using refs_okD(3)[OF Suc.prems(1) mem] True by (auto simp: item_live_def)
    have "0 < buf_refs ms a" using mem a by (auto simp: buf_refs_def filter_empty_conv)
    then have pos: "0 < buf_refs ms a + ext a" by simp
    obtain h1 where h1: "mbuf_free_buf h (Some a) = Inr h1" "count_ok (buf_refs ms a + ext a - 1) (h1 a)"
      "\<And>b. b \<noteq> a \<Longrightarrow> h1 b = h b"
      using free_count[where h = h and a = a, OF refs_okD(2)[OF Suc.prems(1)] pos] by blast
    let ?arr = "(ms_array ms)[mbuf_pos ms k := null_item]"
    let ?ms = "ms\<lparr>ms_array := ?arr\<rparr>"
    have set: "arr_set (ms_array ms) (uint (MBUF_INDEX (ms_head ms) ?i (ms_capacity ms))) null_item = Inr ?arr"
      unfolding mbuf_index_pos(3)[OF wf] ui by (rule arr_set_nat) (rule mbuf_index_pos(2)[OF wf])
    have wf': "mbuf_wf ?ms" using wf by (simp add: mbuf_wf_def)
    have items: "mbuf_items ?ms = ?xs[k := null_item]"
    proof (rule nth_equalityI)
      fix i assume "i < length (mbuf_items ?ms)"
      then have i: "i < unat (ms_len ms)" by (simp add: mbuf_items_def)
      have "mbuf_pos ms k = mbuf_pos ms i \<longleftrightarrow> k = i"
      proof
        assume e: "mbuf_pos ms k = mbuf_pos ms i"
        from wf obtain j where j: "unat (ms_capacity ms) = 2 ^ j" "unat (ms_len ms) \<le> 2 ^ j" by (rule mbuf_wfE)
        have "(k + unat (ms_head ms)) mod 2 ^ j = (i + unat (ms_head ms)) mod 2 ^ j"
          using e by (simp add: mbuf_pos_def j(1) add.commute)
        then have "k mod 2 ^ j = i mod 2 ^ j" by (simp add: nat_mod_eq_iff)
        then show "k = i" using i kn Suc.prems(2) j(2) by simp
      qed simp
      then show "mbuf_items ?ms ! i = ?xs[k := null_item] ! i"
        using i mbuf_index_pos(2)[OF wf, of k] by (auto simp: mbuf_items_def mbuf_pos_def nth_list_update)
    qed (simp add: mbuf_items_def)
    have split: "?xs = take k ?xs @ ?xs ! k # drop (Suc k) ?xs"
      using kn Suc.prems(2) by (intro id_take_nth_drop) simp
    have upd: "?xs[k := null_item] = take k ?xs @ null_item # drop (Suc k) ?xs"
      using kn Suc.prems(2) by (intro upd_conv_take_nth_drop) simp
    have refs: "buf_refs ms b = (if b = a then 1 else 0) + buf_refs ?ms b" for b
    proof -
      have "buf_refs ms b = length (filter (\<lambda>it. mi_buffer it = Some b) (take k ?xs @ ?xs ! k # drop (Suc k) ?xs))"
        unfolding buf_refs_def by (subst split) (rule refl)
      moreover have "buf_refs ?ms b
          = length (filter (\<lambda>it. mi_buffer it = Some b) (take k ?xs @ null_item # drop (Suc k) ?xs))"
        unfolding buf_refs_def items upd ..
      ultimately show ?thesis using a by (simp add: null_item_def)
    qed
    have ok: "refs_ok ext h1 ?ms"
    proof (rule refs_ok_update[OF Suc.prems(1) wf', where a = a])
      show "count_ok (buf_refs ?ms a + ext a) (h1 a)"
        using h1(2) \<open>0 < buf_refs ms a\<close> by (simp add: refs)
      show "b \<noteq> a \<Longrightarrow> h1 b = h b \<and> buf_refs ?ms b + ext b = buf_refs ms b + ext b" for b
        using h1(3) by (simp add: refs)
      show "item_live it \<longleftrightarrow> mi_buffer it \<noteq> None"
        if "it \<in> set (mbuf_items ?ms)" for it
      proof -
        have "it = null_item \<or> it \<in> set ?xs"
          using that set_update_subset_insert[of ?xs k null_item] unfolding items by blast
        then show ?thesis using refs_okD(3)[OF Suc.prems(1)] by (auto simp: null_item_def item_live_def)
      qed
    qed
    have step: "deref_loop mi h ms (map of_nat [k..<n]) = deref_loop mi h1 ?ms (map of_nat [Suc k..<n])"
      unfolding upt using get True a h1(1) set by simp
    have eq: "map (\<lambda>i. if Suc k \<le> i \<and> i < n \<and> mi_instance (mbuf_items ?ms ! i) = Some mi then null_item
          else mbuf_items ?ms ! i) [0..<unat (ms_len ms)]
      = map (\<lambda>i. if k \<le> i \<and> i < n \<and> mi_instance (?xs ! i) = Some mi then null_item else ?xs ! i) [0..<unat (ms_len ms)]"
    proof (rule map_cong[OF refl])
      fix i assume "i \<in> set [0..<unat (ms_len ms)]"
      then have "(mbuf_items ?ms) ! i = (if i = k then null_item else ?xs ! i)"
        unfolding items using kn Suc.prems(2) by (simp add: nth_list_update)
      then show "(if Suc k \<le> i \<and> i < n \<and> mi_instance (mbuf_items ?ms ! i) = Some mi then null_item else mbuf_items ?ms ! i)
        = (if k \<le> i \<and> i < n \<and> mi_instance (?xs ! i) = Some mi then null_item else ?xs ! i)"
        using kn True by (cases "i = k") auto
    qed
    have "m = n - Suc k" "n \<le> unat (ms_len ?ms)" using Suc.hyps(2) Suc.prems(2) by simp_all
    from Suc.hyps(1)[OF this(1) ok this(2)] show ?thesis unfolding step eq[symmetric] by simp
  qed
qed

end
