(* ===== verification/Mbuf_Runs.thy ===== *)
theory Mbuf_Runs
  imports Mbuf_Refs
begin

text \<open>
  Runs of the packet queue under the client contract of \<open>multi.c\<close>: a buffer is queued or released only by
  a caller that holds a reference to it. The queue meets the queue contract of \<open>Fifo\<close>, its reference
  counts stay exact, and a full queue of packets of vanished clients ends the process.
\<close>

section \<open>Initialisation\<close>

lemma mbuf_init_ok:
  assumes "sz \<le> 2 ^ 30"
  shows "\<exists>ms. mbuf_init sz = Inr ms \<and> mbuf_wf ms \<and> mbuf_items ms = [] \<and> sz \<le> ms_capacity ms"
proof -
  let ?L = "LEAST j. unat sz \<le> 2 ^ j"
  have u: "unat (ucast sz :: u64) = unat sz"
    using unsigned_less[of sz, where 'a = nat] by (simp add: unsigned_ucast_eq take_bit_nat_eq_self)
  have le: "unat sz \<le> 2 ^ 30" using assms by (simp add: word_le_nat_alt)
  have L30: "?L \<le> 30" by (rule Least_le) (rule le)
  have fit: "unat sz \<le> 2 ^ ?L" by (rule LeastI[of _ 30]) (rule le)
  have "unat sz \<le> 2 ^ 63" using le by (rule order_trans) simp
  then have "adjust_power_of_2 (ucast sz) = Inr (2 ^ ?L)"
    using adjust_power_of_2_least[of "ucast sz"] by (simp only: u)
  moreover have "ucast (2 ^ ?L :: u64) = (2 ^ ?L :: u32)"
    using L30 by (intro word_unat_eq_iff[THEN iffD2]) (simp add: unsigned_ucast_eq unat_pow2 take_bit_nat_eq_self)
  moreover have un: "unat (2 ^ ?L :: u32) = 2 ^ ?L" using L30 by (intro unat_pow2) simp
  ultimately have "mbuf_init sz = Inr \<lparr>ms_head = 0, ms_len = 0, ms_capacity = 2 ^ ?L, ms_max_queued = 0,
      ms_array = replicate (2 ^ ?L) null_item\<rparr>"
    by (simp add: mbuf_init_def Let_def)
  then show ?thesis using L30 fit un
    by (auto simp: mbuf_wf_def mbuf_items_def word_le_nat_alt word_less_nat_alt intro!: exI[of _ ?L])
qed

section \<open>Runs under the client contract\<close>

text \<open>
  What the caller does with the queue. \<open>ext\<close> records the references it holds: one for each allocated
  or extracted buffer, given up by \<open>mbuf_free_buf\<close>. A call the contract forbids is skipped.
\<close>

datatype mbuf_op = Alloc nat buffer | Add nat nat | Extract | Release nat | Dereference nat

type_synonym mbuf_state = "(nat \<Rightarrow> nat) \<times> mbuf_heap \<times> mbuf_set"

fun mbuf_client_ok :: "mbuf_state \<Rightarrow> mbuf_op \<Rightarrow> bool" where
  "mbuf_client_ok (ext, h, ms) (Alloc a b) \<longleftrightarrow> h a = None \<and> buf_wf b"
| "mbuf_client_ok (ext, h, ms) (Add a mi) \<longleftrightarrow> 0 < ext a \<and> (ms_len ms < ms_capacity ms \<or> mbuf_live ms \<noteq> [])"
| "mbuf_client_ok (ext, h, ms) Extract \<longleftrightarrow> True"
| "mbuf_client_ok (ext, h, ms) (Release a) \<longleftrightarrow> 0 < ext a"
| "mbuf_client_ok (ext, h, ms) (Dereference mi) \<longleftrightarrow> True"

fun mbuf_do :: "(nat \<Rightarrow> byte) \<Rightarrow> mbuf_state \<Rightarrow> mbuf_op \<Rightarrow> mbuf_state res" where
  "mbuf_do junk (ext, h, ms) (Alloc a b) =
     bindE (mbuf_alloc_buf junk a h b) (\<lambda>h'. Inr (ext(a := ext a + 1), h', ms))"
| "mbuf_do junk (ext, h, ms) (Add a mi) =
     bindE (mbuf_add_item h ms \<lparr>mi_buffer = Some a, mi_instance = Some mi\<rparr>) (\<lambda>(h', ms'). Inr (ext, h', ms'))"
| "mbuf_do junk (ext, h, ms) Extract =
     bindE (mbuf_extract_item ms) (\<lambda>(r, ms'). Inr (case r of
         None \<Rightarrow> ext
       | Some it \<Rightarrow> (case mi_buffer it of None \<Rightarrow> ext | Some a \<Rightarrow> ext(a := ext a + 1)), h, ms'))"
| "mbuf_do junk (ext, h, ms) (Release a) =
     bindE (mbuf_free_buf h (Some a)) (\<lambda>h'. Inr (ext(a := ext a - 1), h', ms))"
| "mbuf_do junk (ext, h, ms) (Dereference mi) =
     bindE (mbuf_dereference_instance mi h ms) (\<lambda>(h', ms'). Inr (ext, h', ms'))"

fun mbuf_run :: "(nat \<Rightarrow> byte) \<Rightarrow> mbuf_op list \<Rightarrow> mbuf_state \<Rightarrow> mbuf_state res" where
  "mbuf_run junk [] s = Inr s"
| "mbuf_run junk (op # ops) s =
     (if mbuf_client_ok s op then bindE (mbuf_do junk s op) (mbuf_run junk ops) else mbuf_run junk ops s)"

fun mbuf_state_ok :: "mbuf_state \<Rightarrow> bool" where
  "mbuf_state_ok (ext, h, ms) \<longleftrightarrow> refs_ok ext h ms"

lemma alloc_ok:
  assumes "refs_ok ext h ms" "h a = None" "buf_wf b"
  shows "\<exists>h'. mbuf_alloc_buf junk a h b = Inr h' \<and> refs_ok (ext(a := ext a + 1)) h' ms"
proof -
  obtain b' where b': "clone_buf junk b = Inr b'" using clone_buf_ok[OF assms(3)] by blast
  let ?h = "h(a := Some \<lparr>mb_buf = b', mb_refcount = 1, mb_flags = 0\<rparr>)"
  have z: "buf_refs ms a + ext a = 0" using refs_okD(2)[OF assms(1), of a] assms(2) by (simp add: count_ok_def)
  have "refs_ok (ext(a := ext a + 1)) ?h ms"
    using z refs_okD(1,3)[OF assms(1)] by (intro refs_ok_update[OF assms(1), where a = a]) (auto simp: count_ok_def)
  then show ?thesis using b' by (simp add: mbuf_alloc_buf_def)
qed

lemma live_dereferenced:
  "filter item_live (map (\<lambda>it. if mi_instance it = Some mi then null_item else it) xs)
    = filter (\<lambda>it. mi_instance it \<noteq> Some mi) (filter item_live xs)"
  by (induction xs) (auto simp: item_live_def null_item_def)

lemma dereference_ok:
  assumes "refs_ok ext h ms"
  shows "\<exists>h' ms'. mbuf_dereference_instance mi h ms = Inr (h', ms') \<and> refs_ok ext h' ms'
    \<and> ms_capacity ms' = ms_capacity ms \<and> mbuf_live ms' = filter (\<lambda>it. mi_instance it \<noteq> Some mi) (mbuf_live ms)"
proof -
  let ?N = "\<lambda>it. if mi_instance it = Some mi then null_item else it"
  obtain h' ms' where d: "mbuf_dereference_instance mi h ms = Inr (h', ms')" "refs_ok ext h' ms'"
    "ms_capacity ms' = ms_capacity ms"
    "mbuf_items ms' = map (\<lambda>i. if mi_instance (mbuf_items ms ! i) = Some mi then null_item else mbuf_items ms ! i) [0..<unat (ms_len ms)]"
    using deref_loop_ok[OF assms order.refl, of mi 0] unfolding mbuf_dereference_instance_def
    by (auto cong: map_cong)
  have "mbuf_items ms' = map ?N (map ((!) (mbuf_items ms)) [0..<length (mbuf_items ms)])" using d(4) by simp
  then have "mbuf_items ms' = map ?N (mbuf_items ms)" unfolding map_nth .
  then have "mbuf_live ms' = filter (\<lambda>it. mi_instance it \<noteq> Some mi) (mbuf_live ms)"
    unfolding mbuf_live_def by (simp only: live_dereferenced)
  then show ?thesis using d by blast
qed

lemma mbuf_do_ok:
  assumes "mbuf_state_ok s" "mbuf_client_ok s op"
  shows "\<exists>s'. mbuf_do junk s op = Inr s' \<and> mbuf_state_ok s'"
proof (cases s)
  case (fields ext h ms)
  then have inv: "refs_ok ext h ms" using assms(1) by simp
  show ?thesis
  proof (cases op)
    case (Alloc a b)
    then show ?thesis using alloc_ok[OF inv, of a b junk] assms(2) fields by auto
  next
    case (Add a mi)
    then show ?thesis using add_item_ok[OF inv, of "\<lparr>mi_buffer = Some a, mi_instance = Some mi\<rparr>" a] assms(2) fields by auto
  next
    case Extract
    then show ?thesis using extract_refs[OF inv] fields by (cases "mbuf_live ms") auto
  next
    case (Release a)
    then show ?thesis using free_buf_ok[OF inv, of a] assms(2) fields by auto
  next
    case (Dereference mi)
    then show ?thesis using dereference_ok[OF inv, of mi] fields by auto
  qed
qed

lemma mbuf_run_ok:
  assumes "mbuf_state_ok s"
  shows "\<exists>s'. mbuf_run junk ops s = Inr s' \<and> mbuf_state_ok s'"
  using assms
proof (induction ops arbitrary: s)
  case (Cons op ops)
  show ?case
  proof (cases "mbuf_client_ok s op")
    case True
    then obtain s1 where "mbuf_do junk s op = Inr s1" "mbuf_state_ok s1"
      using mbuf_do_ok[OF Cons.prems True] by blast
    then show ?thesis using Cons.IH[of s1] True by simp
  next
    case False
    then show ?thesis using Cons by simp
  qed
qed simp

section \<open>Destroying the queue\<close>

lemma free_items_ok:
  assumes "mbuf_wf ms" "\<forall>it \<in> set (mbuf_items ms). item_live it \<longleftrightarrow> mi_buffer it \<noteq> None"
    and "\<forall>a. count_ok (length (filter (\<lambda>it. mi_buffer it = Some a) (drop k (mbuf_items ms))) + ext a) (h a)"
    and "k \<le> unat (ms_len ms)"
  shows "\<exists>h'. free_items h ms (map of_nat [k..<unat (ms_len ms)]) = Inr h' \<and> (\<forall>a. count_ok (ext a) (h' a))"
  using assms(3,4)
proof (induction "unat (ms_len ms) - k" arbitrary: k h)
  case 0
  then show ?case by simp
next
  case (Suc m)
  let ?xs = "mbuf_items ms" and ?i = "of_nat k :: u32"
  have kn: "k < unat (ms_len ms)" using Suc.hyps(2) by simp
  have "k < 2 ^ 32" using kn unsigned_less[of "ms_len ms", where 'a = nat] by simp
  then have ui: "unat ?i = k" by (simp add: unsigned_of_nat take_bit_eq_mod)
  then have get: "mbuf_get ms ?i = Inr (?xs ! k)" using mbuf_get_ok[OF assms(1), of ?i] kn by (simp add: word_less_nat_alt)
  have upt: "map of_nat [k..<unat (ms_len ms)] = ?i # map of_nat [Suc k..<unat (ms_len ms)]"
    using kn by (simp add: upt_conv_Cons)
  have drop: "drop k ?xs = ?xs ! k # drop (Suc k) ?xs" using kn by (simp add: Cons_nth_drop_Suc)
  have m: "m = unat (ms_len ms) - Suc k" "Suc k \<le> unat (ms_len ms)" using Suc.hyps(2) kn by simp_all
  show ?case
  proof (cases "mi_buffer (?xs ! k)")
    case None
    then have "\<forall>a. count_ok (length (filter (\<lambda>it. mi_buffer it = Some a) (drop (Suc k) ?xs)) + ext a) (h a)"
      using Suc.prems(1) unfolding drop by simp
    from Suc.hyps(1)[OF m(1) this m(2)] show ?thesis unfolding upt using get None by (simp add: mbuf_free_buf_def)
  next
    case (Some a)
    let ?n = "length (filter (\<lambda>it. mi_buffer it = Some a) (drop (Suc k) ?xs)) + ext a"
    have "count_ok (Suc ?n) (h a)" using Suc.prems(1) Some unfolding drop by (auto dest: spec[of _ a])
    from free_count[where h = h and a = a, OF this] obtain h1 where h1: "mbuf_free_buf h (Some a) = Inr h1" "count_ok ?n (h1 a)"
      "\<And>b. b \<noteq> a \<Longrightarrow> h1 b = h b" by auto
    have "count_ok (length (filter (\<lambda>it. mi_buffer it = Some b) (drop (Suc k) ?xs)) + ext b) (h1 b)" for b
      using h1(2,3) Suc.prems(1)[rule_format, of b] Some unfolding drop by (cases "b = a") auto
    with Suc.hyps(1)[OF m(1) _ m(2)] show ?thesis unfolding upt using get Some h1(1) by simp
  qed
qed

lemma mbuf_free_ok:
  assumes "refs_ok ext h ms"
  shows "\<exists>h'. mbuf_free h ms = Inr h' \<and> (\<forall>a. count_ok (ext a) (h' a))"
  unfolding mbuf_free_def using assms by (intro free_items_ok) (auto simp: refs_ok_def buf_refs_def)

section \<open>The queue contract\<close>

fun mbuf_room :: "mbuf_state \<Rightarrow> mbuf_item \<Rightarrow> bool" where
  "mbuf_room (ext, h, ms) it \<longleftrightarrow> ms_len ms < ms_capacity ms \<and> mi_instance it \<noteq> None
     \<and> (case mi_buffer it of None \<Rightarrow> False | Some a \<Rightarrow> 0 < ext a)"

fun mbuf_push :: "mbuf_state \<Rightarrow> mbuf_item \<Rightarrow> mbuf_state res" where
  "mbuf_push (ext, h, ms) it = bindE (mbuf_add_item h ms it) (\<lambda>(h', ms'). Inr (ext, h', ms'))"

fun mbuf_pop :: "mbuf_state \<Rightarrow> (mbuf_item option \<times> mbuf_state) res" where
  "mbuf_pop (ext, h, ms) = bindE (mbuf_extract_item ms) (\<lambda>(r, ms'). Inr (r, case r of
         None \<Rightarrow> ext
       | Some it \<Rightarrow> (case mi_buffer it of None \<Rightarrow> ext | Some a \<Rightarrow> ext(a := ext a + 1)), h, ms'))"

fun mbuf_queued :: "mbuf_state \<Rightarrow> mbuf_item list" where
  "mbuf_queued (ext, h, ms) = mbuf_live ms"

lemma mbuf_push_queued:
  assumes "mbuf_state_ok s" "mbuf_room s it"
  shows "\<exists>s'. mbuf_push s it = Inr s' \<and> mbuf_state_ok s' \<and> mbuf_queued s' = mbuf_queued s @ [it]"
proof (cases s)
  case (fields ext h ms)
  with assms obtain a where a: "mi_buffer it = Some a" "0 < ext a" "mi_instance it \<noteq> None" "ms_len ms < ms_capacity ms"
    by (auto split: option.splits)
  from assms(1) fields have "refs_ok ext h ms" by simp
  from add_item_ok[OF this a(1,3,2)] a(4) fields show ?thesis by auto
qed

interpretation mq: fifo mbuf_state_ok mbuf_queued mbuf_room mbuf_push mbuf_pop
proof
  fix s assume inv: "mbuf_state_ok s"
  obtain ext h ms where s: "s = (ext, h, ms)" by (cases s)
  from inv s have r: "refs_ok ext h ms" by simp
  show "mbuf_room s it \<Longrightarrow> \<exists>s'. mbuf_push s it = Inr s' \<and> mbuf_state_ok s' \<and> mbuf_queued s' = mbuf_queued s @ [it]" for it
    using mbuf_push_queued[OF inv] .
  show "mbuf_queued s = [] \<Longrightarrow> \<exists>s'. mbuf_pop s = Inr (None, s') \<and> mbuf_state_ok s' \<and> mbuf_queued s' = []"
    using extract_refs[OF r] s by auto
  show "mbuf_queued s = it # its \<Longrightarrow> \<exists>s'. mbuf_pop s = Inr (Some it, s') \<and> mbuf_state_ok s' \<and> mbuf_queued s' = its" for it its
    using extract_refs[OF r] s by auto
qed

lemma mbuf_start_ok:
  assumes "sz \<le> 2 ^ 30"
  shows "\<exists>ms0. mbuf_init sz = Inr ms0 \<and> mbuf_state_ok (\<lambda>_. 0, \<lambda>_. None, ms0)"
  using mbuf_init_ok[OF assms] by (auto simp: refs_ok_def buf_refs_def count_ok_def)

text \<open>What \<open>mbuf_peek\<close> reports is the instance of the packet \<open>mbuf_extract_item\<close> returns next.\<close>

lemma peek_loop_ok:
  assumes "mbuf_wf ms" "k \<le> unat (ms_len ms)"
  shows "peek_loop ms (map of_nat [k..<unat (ms_len ms)])
    = Inr (case filter item_live (drop k (mbuf_items ms)) of [] \<Rightarrow> None | it # _ \<Rightarrow> mi_instance it)"
  using assms(2)
proof (induction "unat (ms_len ms) - k" arbitrary: k)
  case 0
  then show ?case by simp
next
  case (Suc m)
  let ?xs = "mbuf_items ms" and ?i = "of_nat k :: u32"
  have kn: "k < unat (ms_len ms)" using Suc.hyps(2) by simp
  have "k < 2 ^ 32" using kn unsigned_less[of "ms_len ms", where 'a = nat] by simp
  then have ui: "unat ?i = k" by (simp add: unsigned_of_nat take_bit_eq_mod)
  then have get: "mbuf_get ms ?i = Inr (?xs ! k)" using mbuf_get_ok[OF assms(1), of ?i] kn by (simp add: word_less_nat_alt)
  have upt: "map of_nat [k..<unat (ms_len ms)] = ?i # map of_nat [Suc k..<unat (ms_len ms)]"
    using kn by (simp add: upt_conv_Cons)
  have drop: "drop k ?xs = ?xs ! k # drop (Suc k) ?xs" using kn by (simp add: Cons_nth_drop_Suc)
  have "m = unat (ms_len ms) - Suc k" "Suc k \<le> unat (ms_len ms)" using Suc.hyps(2) kn by simp_all
  then show ?case using Suc.hyps(1)[of "Suc k"] unfolding upt drop by (simp add: get item_live_def)
qed

lemma mbuf_peek_next:
  assumes "mbuf_wf ms"
  shows "mbuf_peek ms = Inr (case mbuf_live ms of [] \<Rightarrow> None | it # _ \<Rightarrow> mi_instance it)"
proof (cases "ms_len ms = 0")
  case True
  then have "mbuf_live ms = []" by (simp add: mbuf_live_def mbuf_items_def)
  then show ?thesis using True by (simp add: mbuf_peek_def mbuf_defined_def)
next
  case False
  then show ?thesis using peek_loop_ok[OF assms, of 0]
    by (simp add: mbuf_peek_def mbuf_defined_def mbuf_peek_dowork_def mbuf_live_def)
qed

section \<open>Properties\<close>

text \<open>
  C31. From \<open>mbuf_init\<close>, no run of allocations, insertions, extractions, releases and instance removals that keeps
  to the client contract uses a freed buffer, fails an assertion or leaves the array. At its end every
  allocated buffer's count is the number of references in the queue and in the caller's hands and is
  positive, every other buffer is free, and destroying the queue leaves exactly the caller's references.
\<close>

theorem mbuf_refcount_exact:
  assumes "sz \<le> 2 ^ 30"
  shows "\<exists>ms0 ext h ms h'. mbuf_init sz = Inr ms0 \<and> mbuf_run junk ops (\<lambda>_. 0, \<lambda>_. None, ms0) = Inr (ext, h, ms)
    \<and> (\<forall>a. count_ok (buf_refs ms a + ext a) (h a)) \<and> mbuf_free h ms = Inr h' \<and> (\<forall>a. count_ok (ext a) (h' a))"
proof -
  obtain ms0 where ms0: "mbuf_init sz = Inr ms0" "mbuf_state_ok (\<lambda>_. 0, \<lambda>_. None, ms0)"
    using mbuf_start_ok[OF assms] by blast
  obtain s where s: "mbuf_run junk ops (\<lambda>_. 0, \<lambda>_. None, ms0) = Inr s" "mbuf_state_ok s"
    using mbuf_run_ok[OF ms0(2)] by blast
  obtain ext h ms where f: "s = (ext, h, ms)" by (cases s)
  with s(2) have r: "refs_ok ext h ms" by simp
  obtain h' where "mbuf_free h ms = Inr h'" "\<forall>a. count_ok (ext a) (h' a)" using mbuf_free_ok[OF r] by blast
  then show ?thesis using ms0(1) s(1) f refs_okD(2)[OF r] by blast
qed

theorem mbuf_refcount_exact_witness:
  "\<exists>ms0 ext h ms h'. mbuf_init 3 = Inr ms0 \<and> mbuf_run (\<lambda>_. 7)
      [Alloc 1 \<lparr>b_capacity = 2, b_offset = 0, b_len = 1, b_data = Some [5, 6]\<rparr>, Add 1 9, Add 1 8, Release 1, Dereference 9, Extract]
      (\<lambda>_. 0, \<lambda>_. None, ms0) = Inr (ext, h, ms)
    \<and> (\<forall>a. count_ok (buf_refs ms a + ext a) (h a)) \<and> mbuf_free h ms = Inr h' \<and> (\<forall>a. count_ok (ext a) (h' a))"
  by (rule mbuf_refcount_exact) (simp add: word_le_nat_alt)



text \<open>
  When the queue is full of packets whose clients have all been removed, adding one more packet fails the
  assertion on \<open>mbuf_extract_item\<close> and ends the server, although dropping the dead entries would
  have made room.
\<close>

theorem mbuf_add_full_of_dead:
  assumes "mbuf_wf ms" "ms_len ms = ms_capacity ms" "mbuf_live ms = []"
  shows "mbuf_add_item h ms it = Inl Assert_Failed"
  using extract_ok[OF assms(1)] assms(2,3) by (auto simp: mbuf_add_item_def)

theorem mbuf_add_full_of_dead_witness:
  "\<exists>ms0 ext h ms. mbuf_init 1 = Inr ms0
    \<and> mbuf_run (\<lambda>_. 7) [Alloc 1 \<lparr>b_capacity = 2, b_offset = 0, b_len = 1, b_data = Some [5, 6]\<rparr>, Add 1 9, Dereference 9]
        (\<lambda>_. 0, \<lambda>_. None, ms0) = Inr (ext, h, ms)
    \<and> mbuf_add_item h ms \<lparr>mi_buffer = Some 1, mi_instance = Some 4\<rparr> = Inl Assert_Failed"
proof -
  let ?e = "\<lparr>ms_head = 0, ms_len = 0, ms_capacity = 1, ms_max_queued = 0, ms_array = [null_item]\<rparr>"
  let ?ms = "\<lparr>ms_head = 0, ms_len = 1, ms_capacity = 1, ms_max_queued = 1, ms_array = [null_item]\<rparr>"
  let ?ops = "[Alloc 1 \<lparr>b_capacity = 2, b_offset = 0, b_len = 1, b_data = Some [5, 6]\<rparr>, Add 1 9, Dereference 9]"
  have init: "mbuf_init 1 = Inr ?e"
    by (simp add: mbuf_init_def adjust_power_of_2_def adjust_loop.simps numeral_eq_Suc)
  have wf: "buf_wf \<lparr>b_capacity = 2, b_offset = 0, b_len = 1, b_data = Some [5, 6]\<rparr>"
    by (simp add: buf_wf_def BUF_SIZE_MAX_def)
  obtain b' where b': "clone_buf (\<lambda>_. 7) \<lparr>b_capacity = 2, b_offset = 0, b_len = 1, b_data = Some [5, 6]\<rparr> = Inr b'"
    using clone_buf_ok[OF wf] by blast
  have run: "\<exists>ext h. mbuf_run (\<lambda>_. 7) ?ops (\<lambda>_. 0, \<lambda>_. None, ?e) = Inr (ext, h, ?ms)"
    by (simp add: wf mbuf_alloc_buf_def b' mbuf_add_item_def MBUF_INDEX_def arr_set_def arr_get_def
        mbuf_dereference_instance_def mbuf_get_def mbuf_free_buf_def Let_def null_item_def)
  have "mbuf_wf ?ms" by (auto simp: mbuf_wf_def intro!: exI[of _ 0])
  moreover have "mbuf_live ?ms = []" by (simp add: mbuf_live_def mbuf_items_def mbuf_pos_def item_live_def null_item_def)
  ultimately have "mbuf_add_item h ?ms it = Inl Assert_Failed" for h it
    by (intro mbuf_add_full_of_dead) simp_all
  then show ?thesis using init run by blast
qed

end
