(* ===== verification/Otime.thy ===== *)
theory Otime
  imports Integers
begin

text \<open>
  The clock (\<open>otime.h\<close>, \<open>otime.c\<close>): a wall clock filtered against backward and forward jumps, arithmetic on
  \<open>struct timeval\<close> and the frequency limit for new connections. The global variables \<open>now\<close>, \<open>now_adj\<close> and
  \<open>now_usec\<close> are one record, and each reading of the system clock is an argument. \<open>time_t\<close> and \<open>long\<close>
  are unbounded; a conversion to \<open>int\<close> is written out as \<open>wrap_int\<close>.
\<close>

section \<open>Definitions\<close>

definition wrap_int :: "int \<Rightarrow> int" where
  "wrap_int x = (x + 2 ^ 31) mod 2 ^ 32 - 2 ^ 31"

record timeval =
  tv_sec :: int
  tv_usec :: int

record clock =
  ck_now :: int
  ck_adj :: int
  ck_usec :: int

definition clock_init :: clock where
  "clock_init = \<lparr>ck_now = 0, ck_adj = 0, ck_usec = 0\<rparr>"

definition update_now :: "clock \<Rightarrow> int \<Rightarrow> clock" where
  "update_now c system_time =
     (let forward_threshold = 86400; backward_trigger = 10;
          real_time = system_time + ck_adj c in
      if real_time > ck_now c then
        (let overshoot = real_time - ck_now c - 1 in
         if overshoot > forward_threshold \<and> ck_adj c \<ge> overshoot
         then c\<lparr>ck_adj := ck_adj c - overshoot, ck_now := real_time - overshoot\<rparr>
         else c\<lparr>ck_now := real_time\<rparr>)
      else if real_time < ck_now c - backward_trigger
      then c\<lparr>ck_adj := ck_adj c + (ck_now c - real_time)\<rparr>
      else c)"

definition update_now_usec :: "clock \<Rightarrow> timeval \<Rightarrow> clock" where
  "update_now_usec c tv =
     (let last = ck_now c; c' = update_now c (tv_sec tv) in
      if ck_now c' > last \<or> (ck_now c' = last \<and> tv_usec tv > ck_usec c')
      then c'\<lparr>ck_usec := tv_usec tv\<rparr> else c')"

text \<open>\<open>sys\<close> is what \<open>gettimeofday\<close> reports, \<open>None\<close> when it fails.\<close>

definition openvpn_gettimeofday :: "clock \<Rightarrow> timeval option \<Rightarrow> (timeval option \<times> clock)" where
  "openvpn_gettimeofday c sys =
     (case sys of
        None \<Rightarrow> (None, c)
      | Some tv \<Rightarrow> let c' = update_now_usec c tv in
          (Some \<lparr>tv_sec = ck_now c', tv_usec = ck_usec c'\<rparr>, c'))"

definition update_time :: "clock \<Rightarrow> int \<Rightarrow> clock" where
  "update_time c t = (update_now c t)\<lparr>ck_usec := 0\<rparr>"

definition openvpn_time :: "clock \<Rightarrow> int \<Rightarrow> int \<times> clock" where
  "openvpn_time c t = (let c' = update_time c t in (ck_now c', c'))"

definition tv_clear :: timeval where
  "tv_clear = \<lparr>tv_sec = 0, tv_usec = 0\<rparr>"

definition tv_defined :: "timeval \<Rightarrow> bool" where
  "tv_defined tv \<longleftrightarrow> tv_sec tv > 0 \<and> tv_usec tv > 0"

definition tv_subtract :: "timeval \<Rightarrow> timeval \<Rightarrow> u32 \<Rightarrow> int" where
  "tv_subtract tv1 tv2 max_seconds =
     (let max_usec = sint (max_seconds * 1000000);
          sec_diff = wrap_int (tv_sec tv1 - tv_sec tv2) in
      if sec_diff > sint max_seconds + 10 then max_usec
      else if sec_diff < - (sint max_seconds + 10) then - max_usec
      else constrain_int (wrap_int (sec_diff * 1000000 + (tv_usec tv1 - tv_usec tv2))) (- max_usec) max_usec)"

definition tv_add :: "timeval \<Rightarrow> timeval \<Rightarrow> timeval" where
  "tv_add dest src =
     (let sec = tv_sec dest + tv_sec src; usec = tv_usec dest + tv_usec src;
          sec = sec + drop_bit 20 usec; usec = usec AND 0x000FFFFF in
      if usec \<ge> 1000000 then \<lparr>tv_sec = sec + 1, tv_usec = usec - 1000000\<rparr>
      else \<lparr>tv_sec = sec, tv_usec = usec\<rparr>)"

definition tv_lt :: "timeval \<Rightarrow> timeval \<Rightarrow> bool" where
  "tv_lt t1 t2 \<longleftrightarrow> (if tv_sec t1 < tv_sec t2 then True else if tv_sec t1 > tv_sec t2 then False
     else tv_usec t1 < tv_usec t2)"

definition tv_le :: "timeval \<Rightarrow> timeval \<Rightarrow> bool" where
  "tv_le t1 t2 \<longleftrightarrow> (if tv_sec t1 < tv_sec t2 then True else if tv_sec t1 > tv_sec t2 then False
     else tv_usec t1 \<le> tv_usec t2)"

definition tv_ge :: "timeval \<Rightarrow> timeval \<Rightarrow> bool" where
  "tv_ge t1 t2 \<longleftrightarrow> (if tv_sec t1 > tv_sec t2 then True else if tv_sec t1 < tv_sec t2 then False
     else tv_usec t1 \<ge> tv_usec t2)"

definition tv_gt :: "timeval \<Rightarrow> timeval \<Rightarrow> bool" where
  "tv_gt t1 t2 \<longleftrightarrow> (if tv_sec t1 > tv_sec t2 then True else if tv_sec t1 < tv_sec t2 then False
     else tv_usec t1 > tv_usec t2)"

definition tv_eq :: "timeval \<Rightarrow> timeval \<Rightarrow> bool" where
  "tv_eq t1 t2 \<longleftrightarrow> tv_sec t1 = tv_sec t2 \<and> tv_usec t1 = tv_usec t2"

function delta_loop :: "int \<Rightarrow> int \<Rightarrow> int \<times> int" where
  "delta_loop sec usec = (if usec < 0 then delta_loop (sec - 1) (usec + 1000000) else (sec, usec))"
  by pat_completeness auto
termination by (relation "measure (\<lambda>(sec, usec). nat (- usec))") auto

declare delta_loop.simps [simp del]

definition tv_delta :: "timeval \<Rightarrow> timeval \<Rightarrow> timeval" where
  "tv_delta t1 t2 =
     (let (sec, usec) = delta_loop (wrap_int (tv_sec t2 - tv_sec t1)) (wrap_int (tv_usec t2 - tv_usec t1)) in
      if sec < 0 then \<lparr>tv_sec = 0, tv_usec = 0\<rparr> else \<lparr>tv_sec = sec, tv_usec = usec\<rparr>)"

definition TV_WITHIN_SIGMA_MAX_SEC :: u32 where
  "TV_WITHIN_SIGMA_MAX_SEC = 600"

definition tv_within_sigma :: "timeval \<Rightarrow> timeval \<Rightarrow> u32 \<Rightarrow> bool" where
  "tv_within_sigma t1 t2 sigma \<longleftrightarrow>
     (let delta = tv_subtract t1 t2 TV_WITHIN_SIGMA_MAX_SEC in - sint sigma \<le> delta \<and> delta \<le> sint sigma)"

definition interval_earliest_wakeup :: "int \<Rightarrow> int \<Rightarrow> int \<Rightarrow> int" where
  "interval_earliest_wakeup wakeup at current =
     (if at > current then
        (let delta = wrap_int (at - current);
             w = (if delta < wakeup then delta else wakeup) in
         if w < 0 then 0 else w)
      else wakeup)"

record frequency_limit =
  fl_max :: int
  fl_per :: int
  fl_n :: int
  fl_reset :: int

definition frequency_limit_init :: "int \<Rightarrow> int \<Rightarrow> frequency_limit res" where
  "frequency_limit_init mx per =
     bindE (assertE (mx \<ge> 0 \<and> per \<ge> 0)) (\<lambda>_. Inr \<lparr>fl_max = mx, fl_per = per, fl_n = 0, fl_reset = 0\<rparr>)"

definition frequency_limit_event_allowed :: "int \<Rightarrow> frequency_limit \<Rightarrow> bool \<times> frequency_limit" where
  "frequency_limit_event_allowed now f =
     (if fl_per f \<noteq> 0 then
        (let f1 = (if now \<ge> fl_reset f + fl_per f then f\<lparr>fl_reset := now, fl_n := 0\<rparr> else f);
             f2 = f1\<lparr>fl_n := fl_n f1 + 1\<rparr> in
         (fl_n f2 \<le> fl_max f2, f2))
      else (True, f))"

section \<open>The filtered clock\<close>

text \<open>A clock state tracks a reading when the adjusted reading is at most the backward trigger behind it.\<close>

definition clock_tracks :: "clock \<Rightarrow> int \<Rightarrow> bool" where
  "clock_tracks c t \<longleftrightarrow> ck_now c - 10 \<le> t + ck_adj c \<and> t + ck_adj c \<le> ck_now c \<and> 0 \<le> ck_adj c"

lemma update_now_facts:
  "ck_now c \<le> ck_now (update_now c t)" "ck_usec (update_now c t) = ck_usec c"
  "0 \<le> ck_adj c \<Longrightarrow> clock_tracks (update_now c t) t"
  by (auto simp: update_now_def Let_def clock_tracks_def)

lemma update_now_usec_facts:
  "tv_le \<lparr>tv_sec = ck_now c, tv_usec = ck_usec c\<rparr>
     \<lparr>tv_sec = ck_now (update_now_usec c tv), tv_usec = ck_usec (update_now_usec c tv)\<rparr>"
  "0 \<le> ck_adj c \<Longrightarrow> clock_tracks (update_now_usec c tv) (tv_sec tv)"
  using update_now_facts[of c "tv_sec tv"]
  by (auto simp: update_now_usec_def Let_def tv_le_def clock_tracks_def)

lemma tv_le_trans: "tv_le a b \<Longrightarrow> tv_le b c \<Longrightarrow> tv_le a c"
  by (auto simp: tv_le_def split: if_splits)

lemma tv_le_refl [simp]: "tv_le a a"
  by (simp add: tv_le_def)

text \<open>Successive calls of \<open>openvpn_gettimeofday\<close>, with what the system clock reports at each.\<close>

fun clock_run :: "clock \<Rightarrow> timeval list \<Rightarrow> timeval list \<times> clock" where
  "clock_run c [] = ([], c)"
| "clock_run c (tv # tvs) =
     (case openvpn_gettimeofday c (Some tv) of
        (r, c') \<Rightarrow> (case clock_run c' tvs of (rs, c'') \<Rightarrow> (the r # rs, c'')))"

lemma clock_run_above:
  "r \<in> set (fst (clock_run c tvs)) \<Longrightarrow> tv_le \<lparr>tv_sec = ck_now c, tv_usec = ck_usec c\<rparr> r"
proof (induction tvs arbitrary: c)
  case (Cons tv tvs)
  then show ?case using update_now_usec_facts(1)[of c tv]
    by (auto simp: openvpn_gettimeofday_def Let_def split: prod.splits intro: tv_le_trans)
qed simp

lemma clock_run_sorted: "sorted_wrt tv_le (fst (clock_run c tvs))"
proof (induction tvs arbitrary: c)
  case (Cons tv tvs)
  then show ?case using clock_run_above[of _ "update_now_usec c tv" tvs]
    Cons.IH[of "update_now_usec c tv"] by (simp add: openvpn_gettimeofday_def Let_def case_prod_beta)
qed simp

lemma clock_run_tracks:
  "0 \<le> ck_adj c \<Longrightarrow> clock_tracks (snd (clock_run c (tvs @ [tv]))) (tv_sec tv)"
proof (induction tvs arbitrary: c)
  case Nil
  then show ?case using update_now_usec_facts(2)[of c tv] by (simp add: openvpn_gettimeofday_def Let_def)
next
  case (Cons t tvs)
  have "0 \<le> ck_adj (update_now_usec c t)" using update_now_usec_facts(2)[OF Cons.prems, of t] by (simp add: clock_tracks_def)
  from Cons.IH[OF this] show ?case by (simp add: openvpn_gettimeofday_def Let_def case_prod_beta)
qed


section \<open>Time arithmetic\<close>

definition tv_micros :: "timeval \<Rightarrow> int" where
  "tv_micros t = tv_sec t * 1000000 + tv_usec t"

text \<open>
  \<open>tv_add\<close> carries microseconds into seconds in units of 2^20 instead of 10^6: the result is always
  normalised, but too early by 48576 microseconds for each unit carried, so the sum is exact only
  while the microsecond parts add up to less than 2^20.
\<close>

theorem tv_add_shortfall:
  "tv_micros (tv_add d s) = tv_micros d + tv_micros s - 48576 * ((tv_usec d + tv_usec s) div 2 ^ 20)
    \<and> 0 \<le> tv_usec (tv_add d s) \<and> tv_usec (tv_add d s) < 1000000"
proof -
  let ?u = "tv_usec d + tv_usec s"
  have m: "?u AND 0x000FFFFF = ?u mod 2 ^ 20"
    using take_bit_eq_mask[of 20 ?u] by (simp add: take_bit_eq_mod mask_eq_exp_minus_1)
  have "?u = 2 ^ 20 * (?u div 2 ^ 20) + ?u mod 2 ^ 20" by simp
  moreover have "0 \<le> ?u mod 2 ^ 20" "?u mod 2 ^ 20 < 2 ^ 20" by simp_all
  ultimately show ?thesis unfolding tv_add_def m Let_def tv_micros_def drop_bit_eq_div by auto
qed

lemma delta_loop_ok: "\<exists>s u. delta_loop sec usec = (s, u) \<and> s * 1000000 + u = sec * 1000000 + usec \<and> 0 \<le> u
    \<and> (usec < 1000000 \<longrightarrow> u < 1000000)"
proof (induction sec usec rule: delta_loop.induct)
  case (1 sec usec)
  show ?case
  proof (cases "usec < 0")
    case True
    obtain s u where "delta_loop (sec - 1) (usec + 1000000) = (s, u)"
      "s * 1000000 + u = (sec - 1) * 1000000 + (usec + 1000000)" "0 \<le> u" "usec + 1000000 < 1000000 \<longrightarrow> u < 1000000"
      using "1.IH"[OF True] by blast
    then show ?thesis using True by (subst delta_loop.simps) simp
  qed (simp add: delta_loop.simps)
qed

lemma wrap_int_id: "in_int_range x \<Longrightarrow> wrap_int x = x"
  by (simp add: wrap_int_def in_int_range_def INT_MIN_def INT_MAX_def)

text \<open>\<open>tv_delta\<close> is the exact difference of normalised times, or zero when the second is earlier.\<close>

lemma tv_delta_exact:
  assumes "0 \<le> tv_usec t1" "tv_usec t1 < 1000000" "0 \<le> tv_usec t2" "tv_usec t2 < 1000000"
    and "in_int_range (tv_sec t2 - tv_sec t1)"
  shows "tv_micros (tv_delta t1 t2) = max 0 (tv_micros t2 - tv_micros t1)"
proof -
  have w: "wrap_int (tv_usec t2 - tv_usec t1) = tv_usec t2 - tv_usec t1"
    using assms by (intro wrap_int_id) (simp add: in_int_range_def INT_MIN_def INT_MAX_def)
  obtain s u where d: "delta_loop (tv_sec t2 - tv_sec t1) (tv_usec t2 - tv_usec t1) = (s, u)"
    "s * 1000000 + u = (tv_sec t2 - tv_sec t1) * 1000000 + (tv_usec t2 - tv_usec t1)" "0 \<le> u" "u < 1000000"
    using delta_loop_ok[of "tv_sec t2 - tv_sec t1" "tv_usec t2 - tv_usec t1"] assms by auto
  have "tv_micros t2 - tv_micros t1 = s * 1000000 + u" unfolding d(2) by (simp add: tv_micros_def algebra_simps)
  then show ?thesis using d(1,3,4)
    by (simp add: tv_delta_def w wrap_int_id[OF assms(5)] tv_micros_def max_def)
qed

section \<open>The frequency limit\<close>

text \<open>How many of a sequence of events, given by their times, are allowed.\<close>

fun fl_allowed :: "frequency_limit \<Rightarrow> int list \<Rightarrow> int" where
  "fl_allowed f [] = 0"
| "fl_allowed f (t # ts) =
     (case frequency_limit_event_allowed t f of (ok, f') \<Rightarrow> (if ok then 1 else 0) + fl_allowed f' ts)"

fun fl_after :: "frequency_limit \<Rightarrow> int list \<Rightarrow> frequency_limit" where
  "fl_after f [] = f"
| "fl_after f (t # ts) = fl_after (snd (frequency_limit_event_allowed t f)) ts"

lemma fl_after_facts:
  "fl_max (fl_after f ts) = fl_max f" "fl_per (fl_after f ts) = fl_per f" "0 \<le> fl_n f \<Longrightarrow> 0 \<le> fl_n (fl_after f ts)"
  by (induction ts arbitrary: f) (auto simp: frequency_limit_event_allowed_def Let_def)

lemma fl_no_reset:
  assumes "\<forall>t \<in> set ts. t < fl_reset f + fl_per f" "0 < fl_per f" "0 \<le> fl_max f"
  shows "fl_allowed f ts \<le> max 0 (fl_max f - fl_n f)"
  using assms
proof (induction ts arbitrary: f)
  case (Cons t ts)
  let ?f = "f\<lparr>fl_n := fl_n f + 1\<rparr>"
  have "fl_allowed ?f ts \<le> max 0 (fl_max ?f - fl_n ?f)" using Cons.prems by (intro Cons.IH) auto
  then show ?case using Cons.prems by (auto simp: frequency_limit_event_allowed_def Let_def)
qed simp

lemma fl_one_reset:
  assumes "\<forall>t \<in> set ts. T \<le> t \<and> t < T + fl_per f" "0 < fl_per f" "0 \<le> fl_max f" "0 \<le> fl_n f"
  shows "fl_allowed f ts \<le> max 0 (fl_max f - fl_n f) + fl_max f"
  using assms
proof (induction ts arbitrary: f)
  case (Cons t ts)
  show ?case
  proof (cases "t \<ge> fl_reset f + fl_per f")
    case True
    let ?f = "f\<lparr>fl_reset := t, fl_n := 1\<rparr>"
    have "fl_allowed ?f ts \<le> max 0 (fl_max ?f - fl_n ?f)"
      using Cons.prems by (intro fl_no_reset) force+
    then show ?thesis using Cons.prems True by (auto simp: frequency_limit_event_allowed_def Let_def)
  next
    case False
    let ?f = "f\<lparr>fl_n := fl_n f + 1\<rparr>"
    have "fl_allowed ?f ts \<le> max 0 (fl_max ?f - fl_n ?f) + fl_max ?f"
      using Cons.prems by (intro Cons.IH) auto
    then show ?thesis using Cons.prems False by (auto simp: frequency_limit_event_allowed_def Let_def)
  qed
qed simp

text \<open>
  Whatever came before, at most twice \<open>max\<close> of the events that fall into any window of \<open>per\<close> seconds are
  allowed.
\<close>

theorem frequency_limit_window:
  assumes "frequency_limit_init mx per = Inr f" "0 < per" "\<forall>t \<in> set ts. T \<le> t \<and> t < T + per"
  shows "fl_allowed (fl_after f earlier) ts \<le> 2 * mx"
proof -
  have f: "fl_max f = mx" "fl_per f = per" "fl_n f = 0" "0 \<le> mx"
    using assms(1) by (auto simp: frequency_limit_init_def assertE_def split: if_splits)
  then show ?thesis
    using fl_one_reset[of ts T "fl_after f earlier"] fl_after_facts[of f earlier] assms(2,3) by simp
qed

theorem frequency_limit_window_witness:
  "\<exists>f. frequency_limit_init 2 10 = Inr f \<and> fl_allowed (fl_after f [100, 101]) [109, 110, 112, 113] \<le> 2 * 2"
  using frequency_limit_window[of 2 10 "\<lparr>fl_max = 2, fl_per = 10, fl_n = 0, fl_reset = 0\<rparr>" "[109, 110, 112, 113]" 109 "[100, 101]"]
  by (simp add: frequency_limit_init_def)

end
