(* ===== verification/Mtu.thy ===== *)
theory Mtu
  imports Buffer_Safety Otime
begin

text \<open>
  Packet geometry (\<open>mtu.h\<close>, \<open>mtu.c\<close>): the sizes from which every buffer of the data path is cut. The lemmas
  show that the head room is aligned and that the buffers allocated from a sane geometry hold a
  whole packet behind their head room.
\<close>

section \<open>Definitions\<close>

definition TUN_MTU_MIN :: int where "TUN_MTU_MIN = 100"
definition PAYLOAD_ALIGN :: int where "PAYLOAD_ALIGN = 4"

record frame =
  link_mtu :: int
  link_mtu_dynamic :: int
  extra_frame :: int
  extra_buffer :: int
  extra_tun :: int
  extra_link :: int
  align_flags :: u32
  align_adjust :: int

definition FRAME_HEADROOM_MARKER_DECRYPT :: u32 where "FRAME_HEADROOM_MARKER_DECRYPT = 1"
definition FRAME_HEADROOM_MARKER_FRAGMENT :: u32 where "FRAME_HEADROOM_MARKER_FRAGMENT = 2"
definition FRAME_HEADROOM_MARKER_READ_LINK :: u32 where "FRAME_HEADROOM_MARKER_READ_LINK = 4"
definition FRAME_HEADROOM_MARKER_READ_STREAM :: u32 where "FRAME_HEADROOM_MARKER_READ_STREAM = 8"

definition EXTRA_FRAME :: "frame \<Rightarrow> int" where "EXTRA_FRAME f = extra_frame f"
definition TUN_LINK_DELTA :: "frame \<Rightarrow> int" where "TUN_LINK_DELTA f = extra_frame f + extra_tun f"
definition TUN_MTU_SIZE :: "frame \<Rightarrow> int" where "TUN_MTU_SIZE f = link_mtu f - TUN_LINK_DELTA f"
definition TUN_MTU_SIZE_DYNAMIC :: "frame \<Rightarrow> int" where
  "TUN_MTU_SIZE_DYNAMIC f = link_mtu_dynamic f - TUN_LINK_DELTA f"
definition PAYLOAD_SIZE :: "frame \<Rightarrow> int" where "PAYLOAD_SIZE f = link_mtu f - extra_frame f"
definition PAYLOAD_SIZE_DYNAMIC :: "frame \<Rightarrow> int" where
  "PAYLOAD_SIZE_DYNAMIC f = link_mtu_dynamic f - extra_frame f"
definition EXPANDED_SIZE :: "frame \<Rightarrow> int" where "EXPANDED_SIZE f = link_mtu f"
definition EXPANDED_SIZE_DYNAMIC :: "frame \<Rightarrow> int" where "EXPANDED_SIZE_DYNAMIC f = link_mtu_dynamic f"
definition EXPANDED_SIZE_MIN :: "frame \<Rightarrow> int" where "EXPANDED_SIZE_MIN f = TUN_MTU_MIN + TUN_LINK_DELTA f"
definition MAX_RW_SIZE_TUN :: "frame \<Rightarrow> int" where "MAX_RW_SIZE_TUN f = PAYLOAD_SIZE f"
definition MAX_RW_SIZE_LINK :: "frame \<Rightarrow> int" where "MAX_RW_SIZE_LINK f = EXPANDED_SIZE f + extra_link f"
definition FRAME_HEADROOM_BASE :: "frame \<Rightarrow> int" where
  "FRAME_HEADROOM_BASE f = TUN_LINK_DELTA f + extra_buffer f + extra_link f"

definition frame_headroom :: "frame \<Rightarrow> u32 \<Rightarrow> int" where
  "frame_headroom f flag_mask =
     (let off = FRAME_HEADROOM_BASE f;
          adjust = (if flag_mask AND align_flags f \<noteq> 0 then align_adjust f else 0);
          delta = (push_bit 24 PAYLOAD_ALIGN - (off + adjust)) AND (PAYLOAD_ALIGN - 1) in
      off + delta)"

definition FRAME_HEADROOM :: "frame \<Rightarrow> int" where "FRAME_HEADROOM f = frame_headroom f 0"
definition FRAME_HEADROOM_ADJ :: "frame \<Rightarrow> u32 \<Rightarrow> int" where "FRAME_HEADROOM_ADJ f fm = frame_headroom f fm"
definition BUF_SIZE :: "frame \<Rightarrow> int" where "BUF_SIZE f = TUN_MTU_SIZE f + FRAME_HEADROOM_BASE f * 2"

definition SET_MTU_TUN :: u32 where "SET_MTU_TUN = 1"
definition SET_MTU_UPPER_BOUND :: u32 where "SET_MTU_UPPER_BOUND = 2"

definition frame_add_to_link_mtu :: "frame \<Rightarrow> int \<Rightarrow> frame" where
  "frame_add_to_link_mtu f n = f\<lparr>link_mtu := link_mtu f + n\<rparr>"
definition frame_add_to_extra_frame :: "frame \<Rightarrow> u32 \<Rightarrow> frame" where
  "frame_add_to_extra_frame f n = f\<lparr>extra_frame := wrap_int (extra_frame f + uint n)\<rparr>"
definition frame_remove_from_extra_frame :: "frame \<Rightarrow> u32 \<Rightarrow> frame" where
  "frame_remove_from_extra_frame f n = f\<lparr>extra_frame := wrap_int (extra_frame f - uint n)\<rparr>"
definition frame_add_to_extra_tun :: "frame \<Rightarrow> int \<Rightarrow> frame" where
  "frame_add_to_extra_tun f n = f\<lparr>extra_tun := extra_tun f + n\<rparr>"
definition frame_add_to_extra_link :: "frame \<Rightarrow> int \<Rightarrow> frame" where
  "frame_add_to_extra_link f n = f\<lparr>extra_link := extra_link f + n\<rparr>"
definition frame_add_to_extra_buffer :: "frame \<Rightarrow> int \<Rightarrow> frame" where
  "frame_add_to_extra_buffer f n = f\<lparr>extra_buffer := extra_buffer f + n\<rparr>"
definition frame_add_to_align_adjust :: "frame \<Rightarrow> int \<Rightarrow> frame" where
  "frame_add_to_align_adjust f n = f\<lparr>align_adjust := align_adjust f + n\<rparr>"
definition frame_align_to_extra_frame :: "frame \<Rightarrow> frame" where
  "frame_align_to_extra_frame f = f\<lparr>align_adjust := extra_frame f + extra_link f\<rparr>"
definition frame_or_align_flags :: "frame \<Rightarrow> u32 \<Rightarrow> frame" where
  "frame_or_align_flags f m = f\<lparr>align_flags := align_flags f OR m\<rparr>"
definition frame_defined :: "frame \<Rightarrow> bool" where
  "frame_defined f \<longleftrightarrow> link_mtu f > 0"

definition alloc_buf_sock_tun :: "frame \<Rightarrow> bool \<Rightarrow> u32 \<Rightarrow> buffer res" where
  "alloc_buf_sock_tun f tuntap_buffer align_mask =
     bindE (alloc_buf (BUF_SIZE f)) (\<lambda>b0.
     let (ok, b1) = buf_init_dowork b0 (FRAME_HEADROOM_ADJ f align_mask) in
     bindE (assertE ok) (\<lambda>_.
     let b2 = b1\<lparr>b_len := (if tuntap_buffer then MAX_RW_SIZE_TUN f else MAX_RW_SIZE_LINK f)\<rparr> in
     bindE (assertE (buf_safe b2 0)) (\<lambda>_. Inr b2)))"

definition frame_finalize :: "frame \<Rightarrow> bool \<Rightarrow> int \<Rightarrow> bool \<Rightarrow> int \<Rightarrow> frame res" where
  "frame_finalize f link_mtu_defined lmtu tun_mtu_defined tun_mtu =
     bindE (if tun_mtu_defined
            then bindE (assertE (\<not> link_mtu_defined)) (\<lambda>_. Inr (f\<lparr>link_mtu := tun_mtu + TUN_LINK_DELTA f\<rparr>))
            else bindE (assertE link_mtu_defined) (\<lambda>_. Inr (f\<lparr>link_mtu := lmtu\<rparr>))) (\<lambda>f1.
     if TUN_MTU_SIZE f1 < TUN_MTU_MIN then Inl Msg_Fatal
     else Inr (f1\<lparr>link_mtu_dynamic := link_mtu f1\<rparr>))"

definition frame_set_mtu_dynamic :: "frame \<Rightarrow> int \<Rightarrow> u32 \<Rightarrow> frame res" where
  "frame_set_mtu_dynamic f mtu flags =
     bindE (assertE (mtu \<ge> 0)) (\<lambda>_.
     let mtu = (if flags AND SET_MTU_TUN \<noteq> 0 then mtu + TUN_LINK_DELTA f else mtu) in
     Inr (if \<not> flags AND SET_MTU_UPPER_BOUND \<noteq> 0 \<or> mtu < link_mtu_dynamic f
          then f\<lparr>link_mtu_dynamic := constrain_int mtu (EXPANDED_SIZE_MIN f) (EXPANDED_SIZE f)\<rparr> else f))"

definition frame_subtract_extra :: "frame \<Rightarrow> frame \<Rightarrow> frame" where
  "frame_subtract_extra f src =
     f\<lparr>extra_frame := extra_frame f - extra_frame src, extra_tun := extra_tun f + extra_frame src\<rparr>"

definition frame_init_mssfix :: "frame \<Rightarrow> int \<Rightarrow> frame res" where
  "frame_init_mssfix f mssfix =
     (if mssfix \<noteq> 0 then frame_set_mtu_dynamic f mssfix SET_MTU_UPPER_BOUND else Inr f)"

text \<open>The Linux values of \<open>IP_PMTUDISC_DO\<close>, \<open>IP_PMTUDISC_WANT\<close> and \<open>IP_PMTUDISC_DONT\<close> are 2, 1 and 0.\<close>

definition translate_mtu_discover_type_name :: "byte list \<Rightarrow> int res" where
  "translate_mtu_discover_type_name name =
     (if name = [121, 101, 115] then Inr 2
      else if name = [109, 97, 121, 98, 101] then Inr 1
      else if name = [110, 111] then Inr 0
      else Inl Msg_Fatal)"

section \<open>Sane geometries\<close>

text \<open>\<open>do_init_frame\<close> adds the alignment to \<open>extra_buffer\<close>.\<close>

definition frame_sane :: "frame \<Rightarrow> bool" where
  "frame_sane f \<longleftrightarrow> 0 \<le> extra_frame f \<and> 0 \<le> extra_tun f \<and> PAYLOAD_ALIGN \<le> extra_buffer f \<and> 0 \<le> extra_link f
     \<and> TUN_MTU_MIN \<le> TUN_MTU_SIZE f \<and> BUF_SIZE f < BUF_SIZE_MAX
     \<and> EXPANDED_SIZE_MIN f \<le> link_mtu_dynamic f \<and> link_mtu_dynamic f \<le> link_mtu f"

lemma frame_headroom_bounds:
  "FRAME_HEADROOM_BASE f \<le> frame_headroom f m" "frame_headroom f m < FRAME_HEADROOM_BASE f + 4"
proof -
  have "x AND 3 = x mod 4" for x :: int
    using take_bit_eq_mask[of 2 x] by (simp add: take_bit_eq_mod mask_eq_exp_minus_1)
  then show "FRAME_HEADROOM_BASE f \<le> frame_headroom f m" "frame_headroom f m < FRAME_HEADROOM_BASE f + 4"
    by (simp_all add: frame_headroom_def Let_def PAYLOAD_ALIGN_def)
qed

lemma frame_sane_room:
  assumes "frame_sane f"
  shows "4 \<le> frame_headroom f m" "frame_headroom f m + PAYLOAD_SIZE f \<le> BUF_SIZE f" "0 \<le> BUF_SIZE f"
    "BUF_SIZE f < 2097152" "100 \<le> PAYLOAD_SIZE_DYNAMIC f" "PAYLOAD_SIZE_DYNAMIC f \<le> PAYLOAD_SIZE f"
  using assms frame_headroom_bounds[of f m]
  by (auto simp: frame_sane_def BUF_SIZE_MAX_def TUN_MTU_MIN_def EXPANDED_SIZE_MIN_def PAYLOAD_ALIGN_def FRAME_HEADROOM_BASE_def
      TUN_LINK_DELTA_def TUN_MTU_SIZE_def BUF_SIZE_def PAYLOAD_SIZE_def PAYLOAD_SIZE_DYNAMIC_def)

text \<open>The head room plus the adjustment is a multiple of the alignment.\<close>

lemma frame_headroom_aligned:
  "(frame_headroom f m + (if m AND align_flags f \<noteq> 0 then align_adjust f else 0)) mod PAYLOAD_ALIGN = 0"
proof -
  have a: "x AND 3 = x mod 4" for x :: int
    using take_bit_eq_mask[of 2 x] by (simp add: take_bit_eq_mod mask_eq_exp_minus_1)
  have "(u + (67108864 - (u + v)) mod 4 + v) mod 4 = 0" for u v :: int
    by presburger
  then show ?thesis unfolding frame_headroom_def Let_def PAYLOAD_ALIGN_def by (simp add: a)
qed

lemma alloc_buf_sock_tun_geometry:
  assumes "frame_sane f"
  shows "\<exists>b. alloc_buf_sock_tun f tun m = Inr b \<and> buf_wf b \<and> b_offset b = frame_headroom f m
    \<and> b_capacity b = BUF_SIZE f \<and> b_len b = (if tun then MAX_RW_SIZE_TUN f else MAX_RW_SIZE_LINK f)"
proof -
  note s = assms[unfolded frame_sane_def BUF_SIZE_MAX_def TUN_MTU_MIN_def EXPANDED_SIZE_MIN_def PAYLOAD_ALIGN_def]
  note hb = frame_headroom_bounds[of f m]
  have d: "FRAME_HEADROOM_BASE f = TUN_LINK_DELTA f + extra_buffer f + extra_link f"
    "TUN_LINK_DELTA f = extra_frame f + extra_tun f" "TUN_MTU_SIZE f = link_mtu f - TUN_LINK_DELTA f"
    "BUF_SIZE f = TUN_MTU_SIZE f + FRAME_HEADROOM_BASE f * 2"
    by (simp_all add: FRAME_HEADROOM_BASE_def TUN_LINK_DELTA_def TUN_MTU_SIZE_def BUF_SIZE_def)
  have "0 \<le> BUF_SIZE f" "BUF_SIZE f < 2097152" using s d by auto
  then obtain b0 where b0: "alloc_buf (BUF_SIZE f) = Inr b0" "buf_wf b0" "b_capacity b0 = BUF_SIZE f"
    using alloc_buf_wf by blast
  let ?h = "frame_headroom f m"
  define n where "n = (if tun then MAX_RW_SIZE_TUN f else MAX_RW_SIZE_LINK f)"
  have n: "0 \<le> n" "?h + n \<le> BUF_SIZE f" "0 \<le> ?h" "?h \<le> BUF_SIZE f"
    using s d hb by (auto simp: n_def MAX_RW_SIZE_TUN_def PAYLOAD_SIZE_def MAX_RW_SIZE_LINK_def EXPANDED_SIZE_def)
  let ?b = "b0\<lparr>b_offset := ?h, b_len := n\<rparr>"
  have wf: "buf_wf ?b" using b0 n by (auto simp: buf_wf_def split: option.splits)
  moreover have "buf_safe ?b 0" using n b0(3) by (intro buf_safe_room[OF wf]) auto
  ultimately have "alloc_buf_sock_tun f tun m = Inr ?b"
    using b0 n(3,4) by (simp add: alloc_buf_sock_tun_def FRAME_HEADROOM_ADJ_def buf_init_dowork_ok Let_def n_def[symmetric])
  then show ?thesis using wf b0(3) by (auto simp: n_def)
qed

text \<open>
  C38. From a sane geometry \<open>alloc_buf_sock_tun\<close> returns, for either device and any alignment, a well-formed buffer
  whose data starts behind the whole head room and whose length is what is read or written; no
  assertion fails.
\<close>

theorem alloc_buf_sock_tun_ok:
  assumes "frame_sane f"
  shows "\<exists>b. alloc_buf_sock_tun f tun m = Inr b \<and> buf_wf b \<and> b_offset b \<ge> FRAME_HEADROOM_BASE f
    \<and> b_len b = (if tun then MAX_RW_SIZE_TUN f else MAX_RW_SIZE_LINK f)"
  using alloc_buf_sock_tun_geometry[OF assms, of tun m] frame_headroom_bounds(1)[of f m] by auto

definition frame_example :: frame where
  "frame_example = \<lparr>link_mtu = 1541, link_mtu_dynamic = 1400, extra_frame = 41, extra_buffer = 4, extra_tun = 0,
     extra_link = 2, align_flags = 2, align_adjust = 3\<rparr>"

lemma frame_example_sane: "frame_sane frame_example"
  by (simp add: frame_sane_def frame_example_def FRAME_HEADROOM_BASE_def TUN_LINK_DELTA_def TUN_MTU_MIN_def
      TUN_MTU_SIZE_def BUF_SIZE_def EXPANDED_SIZE_MIN_def BUF_SIZE_MAX_def PAYLOAD_ALIGN_def)

theorem alloc_buf_sock_tun_ok_witness:
  "\<exists>b. alloc_buf_sock_tun frame_example False 2 = Inr b \<and> buf_wf b \<and> b_offset b \<ge> FRAME_HEADROOM_BASE frame_example
    \<and> b_len b = (if False then MAX_RW_SIZE_TUN frame_example else MAX_RW_SIZE_LINK frame_example)"
  using alloc_buf_sock_tun_ok[OF frame_example_sane] .

text \<open>The dynamic limit stays inside the range the geometry allows.\<close>

lemma frame_set_mtu_dynamic_sane:
  assumes "frame_sane f" "0 \<le> mtu"
  shows "\<exists>f'. frame_set_mtu_dynamic f mtu flags = Inr f' \<and> frame_sane f'"
proof -
  have "EXPANDED_SIZE_MIN f \<le> EXPANDED_SIZE f"
    using assms(1) by (simp add: frame_sane_def EXPANDED_SIZE_def)
  note c = constrain_int_bounds[OF this]
  have "frame_sane (f\<lparr>link_mtu_dynamic := constrain_int m (EXPANDED_SIZE_MIN f) (EXPANDED_SIZE f)\<rparr>)" for m
    using c[of m] assms(1)
    by (simp add: frame_sane_def FRAME_HEADROOM_BASE_def TUN_LINK_DELTA_def TUN_MTU_SIZE_def BUF_SIZE_def
        EXPANDED_SIZE_MIN_def EXPANDED_SIZE_def)
  then show ?thesis using assms by (simp add: frame_set_mtu_dynamic_def Let_def)
qed

end
