(* ===== verification/Interval.thy ===== *)
theory Interval
  imports Otime
begin

text \<open>
  Timers (\<open>interval.h\<close>, \<open>interval.c\<close>) and the output traffic shaper (\<open>shaper.h\<close>, \<open>shaper.c\<close>). The global
  \<open>now\<close> is an argument. The lemmas show that a recurring timer fires at least its interval apart and is
  never due without firing, and that the select timeout becomes the smaller of two delays.
\<close>

section \<open>Intervals\<close>

record interval =
  iv_refresh :: int
  iv_horizon :: int
  iv_future_trigger :: int
  iv_last_action :: int
  iv_last_test_true :: int

definition interval_init :: "int \<Rightarrow> int \<Rightarrow> interval" where
  "interval_init horizon refresh =
     \<lparr>iv_refresh = refresh, iv_horizon = horizon, iv_future_trigger = 0, iv_last_action = 0, iv_last_test_true = 0\<rparr>"

definition interval_test :: "int \<Rightarrow> interval \<Rightarrow> bool \<times> interval" where
  "interval_test now iv =
     (let trigger = (iv_future_trigger iv \<noteq> 0 \<and> now \<ge> iv_future_trigger iv);
          iv1 = (if trigger then iv\<lparr>iv_future_trigger := 0\<rparr> else iv) in
      if iv_last_action iv1 + iv_horizon iv1 > now \<or> iv_last_test_true iv1 + iv_refresh iv1 \<le> now \<or> trigger
      then (True, iv1\<lparr>iv_last_test_true := now\<rparr>) else (False, iv1))"

definition interval_schedule_wakeup :: "int \<Rightarrow> interval \<Rightarrow> int \<Rightarrow> int" where
  "interval_schedule_wakeup now iv wakeup =
     interval_earliest_wakeup
       (interval_earliest_wakeup wakeup (iv_last_test_true iv + iv_refresh iv) now) (iv_future_trigger iv) now"

definition interval_future_trigger :: "int \<Rightarrow> interval \<Rightarrow> int \<Rightarrow> interval" where
  "interval_future_trigger now iv wakeup = (if wakeup \<noteq> 0 then iv\<lparr>iv_future_trigger := now + wakeup\<rparr> else iv)"

definition interval_action :: "int \<Rightarrow> interval \<Rightarrow> interval" where
  "interval_action now iv = iv\<lparr>iv_last_action := now\<rparr>"

section \<open>Recurring timers\<close>

record event_timeout =
  et_defined :: bool
  et_n :: int
  et_last :: int

definition event_timeout_defined :: "event_timeout \<Rightarrow> bool" where
  "event_timeout_defined et = et_defined et"

definition event_timeout_clear :: event_timeout where
  "event_timeout_clear = \<lparr>et_defined = False, et_n = 0, et_last = 0\<rparr>"

definition event_timeout_clear_ret :: event_timeout where
  "event_timeout_clear_ret = event_timeout_clear"

definition event_timeout_init :: "int \<Rightarrow> int \<Rightarrow> event_timeout" where
  "event_timeout_init n local_now = \<lparr>et_defined = True, et_n = (if n \<ge> 0 then n else 0), et_last = local_now\<rparr>"

definition event_timeout_reset :: "int \<Rightarrow> event_timeout \<Rightarrow> event_timeout" where
  "event_timeout_reset now et = (if et_defined et then et\<lparr>et_last := now\<rparr> else et)"

definition event_timeout_modify_wakeup :: "event_timeout \<Rightarrow> int \<Rightarrow> event_timeout" where
  "event_timeout_modify_wakeup et n = (if et_defined et then et\<lparr>et_n := (if n \<ge> 0 then n else 0)\<rparr> else et)"

definition event_timeout_remaining :: "int \<Rightarrow> event_timeout \<Rightarrow> int" where
  "event_timeout_remaining now et = wrap_int (et_last et - now + et_n et)"

definition ETT_DEFAULT :: int where
  "ETT_DEFAULT = -1"

definition event_timeout_trigger :: "int \<Rightarrow> event_timeout \<Rightarrow> timeval option \<Rightarrow> int \<Rightarrow> bool \<times> event_timeout \<times> timeval option" where
  "event_timeout_trigger now et tv const_retry =
     (if et_defined et then
        (let wakeup = et_last et - now + et_n et;
             (ret, et', wakeup') =
               (if wakeup \<le> 0 then
                  (if const_retry < 0 then (True, et\<lparr>et_last := now\<rparr>, et_n et) else (False, et, const_retry))
                else (False, et, wakeup)) in
         (ret, et', (case tv of
            None \<Rightarrow> None
          | Some t \<Rightarrow> Some (if wakeup' < tv_sec t then \<lparr>tv_sec = wakeup', tv_usec = 0\<rparr> else t))))
      else (False, et, tv))"

section \<open>Microsecond timers\<close>

definition USEC_TIMER_MAX :: u32 where
  "USEC_TIMER_MAX = 60"

record usec_timer =
  ut_start :: timeval
  ut_end :: timeval

definition usec_timer_interval_defined :: "usec_timer \<Rightarrow> bool" where
  "usec_timer_interval_defined obj \<longleftrightarrow> tv_sec (ut_start obj) \<noteq> 0 \<and> tv_sec (ut_end obj) \<noteq> 0"

definition usec_timer_interval :: "usec_timer \<Rightarrow> int" where
  "usec_timer_interval obj = tv_subtract (ut_end obj) (ut_start obj) USEC_TIMER_MAX"

section \<open>The traffic shaper\<close>

definition SHAPER_MIN :: int where "SHAPER_MIN = 100"
definition SHAPER_MAX :: int where "SHAPER_MAX = 100000000"
definition SHAPER_MAX_TIMEOUT :: u32 where "SHAPER_MAX_TIMEOUT = 10"

text \<open>
  The factor is a \<open>double\<close>; \<open>cost n bps\<close> stands for the truncated product of \<open>n\<close> and \<open>1000000.0 / bps\<close>
  in that arithmetic.
\<close>

record shaper =
  sh_bytes_per_second :: int
  sh_wakeup :: timeval

definition shaper_reset_wakeup :: "shaper \<Rightarrow> shaper" where
  "shaper_reset_wakeup s = s\<lparr>sh_wakeup := tv_clear\<rparr>"

definition shaper_reset :: "shaper \<Rightarrow> int \<Rightarrow> shaper" where
  "shaper_reset s bytes_per_second =
     s\<lparr>sh_bytes_per_second := constrain_int bytes_per_second SHAPER_MIN SHAPER_MAX\<rparr>"

definition shaper_init :: "shaper \<Rightarrow> int \<Rightarrow> shaper" where
  "shaper_init s bytes_per_second = shaper_reset_wakeup (shaper_reset s bytes_per_second)"

definition shaper_current_bandwidth :: "shaper \<Rightarrow> int" where
  "shaper_current_bandwidth s = sh_bytes_per_second s"

definition shaper_delay :: "clock \<Rightarrow> timeval option \<Rightarrow> shaper \<Rightarrow> (int \<times> clock) res" where
  "shaper_delay c sys s =
     (if tv_defined (sh_wakeup s) then
        (case openvpn_gettimeofday c sys of
           (None, _) \<Rightarrow> Inl Assert_Failed
         | (Some tv, c') \<Rightarrow>
             let delay = tv_subtract (sh_wakeup s) tv SHAPER_MAX_TIMEOUT in
             Inr (if delay > 0 then delay else 0, c'))
      else Inr (0, c))"

definition shaper_wrote_bytes :: "(int \<Rightarrow> int \<Rightarrow> int) \<Rightarrow> clock \<Rightarrow> timeval option \<Rightarrow> shaper \<Rightarrow> int \<Rightarrow> (shaper \<times> clock) res" where
  "shaper_wrote_bytes cost c sys s nbytes =
     (let tv = \<lparr>tv_sec = 0,
                tv_usec = min_int (cost (max_int nbytes 100) (sh_bytes_per_second s)) (uint SHAPER_MAX_TIMEOUT * 1000000)\<rparr> in
      if tv_usec tv \<noteq> 0 then
        (case openvpn_gettimeofday c sys of
           (None, _) \<Rightarrow> Inl Assert_Failed
         | (Some t, c') \<Rightarrow> Inr (s\<lparr>sh_wakeup := tv_add t tv\<rparr>, c'))
      else Inr (s, c))"

definition shaper_soonest_event :: "timeval \<Rightarrow> int \<Rightarrow> bool \<times> timeval" where
  "shaper_soonest_event tv delay =
     (if delay < 1000000 then
        (if tv_sec tv \<noteq> 0 then (True, \<lparr>tv_sec = 0, tv_usec = delay\<rparr>)
         else if delay < tv_usec tv then (True, tv\<lparr>tv_usec := delay\<rparr>)
         else (False, tv))
      else
        (let sec = delay div 1000000; usec = delay mod 1000000 in
         if sec < tv_sec tv then (True, \<lparr>tv_sec = sec, tv_usec = usec\<rparr>)
         else if sec = tv_sec tv then (if usec < tv_usec tv then (True, tv\<lparr>tv_usec := usec\<rparr>) else (False, tv))
         else (False, tv)))"

section \<open>Properties\<close>

text \<open>The times at which a polled timer fires, and the timer afterwards.\<close>

fun event_fires :: "event_timeout \<Rightarrow> int list \<Rightarrow> int list \<times> event_timeout" where
  "event_fires et [] = ([], et)"
| "event_fires et (t # ts) =
     (case event_timeout_trigger t et None ETT_DEFAULT of
        (fired, et', _) \<Rightarrow> (case event_fires et' ts of (fs, et'') \<Rightarrow> (if fired then t # fs else fs, et'')))"

lemma trigger_default:
  "et_defined et \<Longrightarrow> event_timeout_trigger t et None ETT_DEFAULT
     = (if et_last et + et_n et \<le> t then (True, et\<lparr>et_last := t\<rparr>, None) else (False, et, None))"
  by (auto simp: event_timeout_trigger_def ETT_DEFAULT_def)

lemma event_fires_spaced:
  assumes "et_defined et" "0 \<le> et_n et"
  shows "sorted_wrt (\<lambda>a b. a + et_n et \<le> b) (et_last et # fst (event_fires et ts))
    \<and> et_defined (snd (event_fires et ts)) \<and> et_n (snd (event_fires et ts)) = et_n et
    \<and> et_last (snd (event_fires et ts)) = last (et_last et # fst (event_fires et ts))"
  using assms
proof (induction ts arbitrary: et)
  case (Cons t ts)
  show ?case
  proof (cases "et_last et + et_n et \<le> t")
    case True
    then show ?thesis using Cons.IH[of "et\<lparr>et_last := t\<rparr>"] Cons.prems
      by (auto simp: trigger_default case_prod_beta)
  next
    case False
    then show ?thesis using Cons.IH[of et] Cons.prems by (simp add: trigger_default case_prod_beta)
  qed
qed simp

lemma event_fires_append:
  "event_fires et (xs @ ys) = (case event_fires et xs of (fs, et') \<Rightarrow>
     (case event_fires et' ys of (gs, et'') \<Rightarrow> (fs @ gs, et'')))"
  by (induction xs arbitrary: et) (simp_all add: case_prod_beta)

text \<open>
  C40. A timer armed at \<open>t0\<close> with interval \<open>n\<close> and polled at any times fires only at least \<open>n\<close> seconds after it
  was armed and after it last fired, and right after each poll less than \<open>n\<close> seconds (or no time at
  all) have passed since then, so no due time goes by unnoticed.
\<close>

theorem event_timeout_periodic:
  assumes "0 \<le> n"
  shows "sorted_wrt (\<lambda>a b. a + n \<le> b) (t0 # fst (event_fires (event_timeout_init n t0) ts))
    \<and> t - last (t0 # fst (event_fires (event_timeout_init n t0) (ts @ [t]))) < max 1 n"
proof -
  let ?et = "event_timeout_init n t0"
  have et: "et_defined ?et" "et_n ?et = n" "et_last ?et = t0" using assms by (simp_all add: event_timeout_init_def)
  note sp = event_fires_spaced[of ?et, unfolded et, OF et(1) assms]
  obtain fs et' where f: "event_fires ?et ts = (fs, et')" by (cases "event_fires ?et ts")
  then have e: "et_defined et'" "et_n et' = n" "et_last et' = last (t0 # fs)" using sp[of ts] by simp_all
  show ?thesis
  proof (cases "et_last et' + n \<le> t")
    case True
    then have "event_fires ?et (ts @ [t]) = (fs @ [t], et'\<lparr>et_last := t\<rparr>)"
      using e by (simp add: event_fires_append f trigger_default)
    then show ?thesis using sp[of ts] f by simp
  next
    case False
    then have "event_fires ?et (ts @ [t]) = (fs, et')" using e by (simp add: event_fires_append f trigger_default)
    then show ?thesis using sp[of ts] f False e(3) by simp
  qed
qed

theorem event_timeout_periodic_witness:
  "sorted_wrt (\<lambda>a b. a + 10 \<le> b) (100 # fst (event_fires (event_timeout_init 10 100) [105, 112, 115]))
    \<and> 123 - last (100 # fst (event_fires (event_timeout_init 10 100) ([105, 112, 115] @ [123]))) < max 1 10"
  by (rule event_timeout_periodic) simp

text \<open>A polled timer bounds the caller's sleep by the time it has left.\<close>

lemma trigger_wakeup:
  assumes "et_defined et" "event_timeout_trigger now et (Some tv) ETT_DEFAULT = (r, et', Some tv')"
  shows "tv_sec tv' \<le> et_last et' + et_n et' - now" "tv_sec tv' \<le> tv_sec tv"
  using assms by (cases "et_last et - now + et_n et \<le> 0"; auto simp: event_timeout_trigger_def ETT_DEFAULT_def Let_def)+

lemma soonest_event_min:
  assumes "0 \<le> delay" "0 \<le> tv_sec tv" "0 \<le> tv_usec tv" "tv_usec tv < 1000000"
  shows "tv_micros (snd (shaper_soonest_event tv delay)) = min (tv_micros tv) delay
    \<and> (fst (shaper_soonest_event tv delay) \<longleftrightarrow> delay < tv_micros tv)"
proof (cases "delay < 1000000")
  case True
  then show ?thesis using assms by (auto simp: shaper_soonest_event_def tv_micros_def)
next
  case False
  define q r where "q = delay div 1000000" and "r = delay mod 1000000"
  then have d: "delay = q * 1000000 + r" "0 \<le> r" "r < 1000000" by simp_all
  have s: "shaper_soonest_event tv delay =
     (if q < tv_sec tv then (True, \<lparr>tv_sec = q, tv_usec = r\<rparr>)
      else if q = tv_sec tv then (if r < tv_usec tv then (True, tv\<lparr>tv_usec := r\<rparr>) else (False, tv))
      else (False, tv))"
    using False by (simp add: shaper_soonest_event_def Let_def q_def r_def)
  show ?thesis unfolding s using assms d by (auto simp: tv_micros_def)
qed

text \<open>
  \<open>shaper_soonest_event\<close> replaces the timeout by the shaping delay exactly when the delay is shorter, so the
  result is the minimum of the two.
\<close>

theorem shaper_soonest_event_min:
  assumes "0 \<le> delay" "0 \<le> tv_sec tv" "0 \<le> tv_usec tv" "tv_usec tv < 1000000"
  shows "tv_micros (snd (shaper_soonest_event tv delay)) = min (tv_micros tv) delay
    \<and> (fst (shaper_soonest_event tv delay) \<longleftrightarrow> delay < tv_micros tv)"
  using soonest_event_min[OF assms] .

theorem shaper_soonest_event_min_witness:
  "tv_micros (snd (shaper_soonest_event \<lparr>tv_sec = 3, tv_usec = 7\<rparr> 2500000)) = min (tv_micros \<lparr>tv_sec = 3, tv_usec = 7\<rparr>) 2500000
    \<and> (fst (shaper_soonest_event \<lparr>tv_sec = 3, tv_usec = 7\<rparr> 2500000) \<longleftrightarrow> 2500000 < tv_micros \<lparr>tv_sec = 3, tv_usec = 7\<rparr>)"
  by (rule shaper_soonest_event_min) simp_all

text \<open>
  A wakeup that falls on a whole second counts as undefined, since \<open>tv_defined\<close> asks for nonzero seconds and
  microseconds: no delay is reported however far ahead it lies.
\<close>

lemma shaper_delay_whole_second:
  "tv_usec (sh_wakeup s) = 0 \<Longrightarrow> shaper_delay c sys s = Inr (0, c)"
  by (simp add: shaper_delay_def tv_defined_def)

end
