(* ===== verification/Fragment.thy ===== *)
theory Fragment
  imports Mtu Interval "HOL-Library.Signed_Division"
begin

text \<open>
  Internal fragmentation of datagrams (\<open>fragment.h\<close>, \<open>fragment.c\<close>): the sender cuts a packet into at most 32
  pieces of equal size, each behind a 32-bit header, and the receiver collects them in one of 25
  buffers selected by a sliding window over 8-bit sequence numbers.
\<close>

section \<open>Constants and state\<close>

definition N_FRAG_BUF :: int where "N_FRAG_BUF = 25"
definition FRAG_TTL_SEC :: int where "FRAG_TTL_SEC = 10"
definition FRAG_WAKEUP_INTERVAL :: int where "FRAG_WAKEUP_INTERVAL = 5"
definition FRAG_MAP_MASK :: u32 where "FRAG_MAP_MASK = 0xFFFFFFFF"
definition MAX_FRAGS :: int where "MAX_FRAGS = 32"
definition N_SEQ_ID :: int where "N_SEQ_ID = 256"
definition FRAG_TYPE_MASK :: u32 where "FRAG_TYPE_MASK = 0x00000003"
definition FRAG_TYPE_SHIFT :: nat where "FRAG_TYPE_SHIFT = 0"
definition FRAG_WHOLE :: u32 where "FRAG_WHOLE = 0"
definition FRAG_YES_NOTLAST :: u32 where "FRAG_YES_NOTLAST = 1"
definition FRAG_YES_LAST :: u32 where "FRAG_YES_LAST = 2"
definition FRAG_TEST :: u32 where "FRAG_TEST = 3"
definition FRAG_SEQ_ID_MASK :: u32 where "FRAG_SEQ_ID_MASK = 0x000000ff"
definition FRAG_SEQ_ID_SHIFT :: nat where "FRAG_SEQ_ID_SHIFT = 2"
definition FRAG_ID_MASK :: u32 where "FRAG_ID_MASK = 0x0000001f"
definition FRAG_ID_SHIFT :: nat where "FRAG_ID_SHIFT = 10"
definition FRAG_SIZE_MASK :: u32 where "FRAG_SIZE_MASK = 0x00003fff"
definition FRAG_SIZE_SHIFT :: nat where "FRAG_SIZE_SHIFT = 15"
definition FRAG_SIZE_ROUND_SHIFT :: nat where "FRAG_SIZE_ROUND_SHIFT = 2"
definition FRAG_SIZE_ROUND_MASK :: int where "FRAG_SIZE_ROUND_MASK = 3"

record fragment =
  fr_defined :: bool
  fr_max_frag_size :: int
  fr_map :: u32
  fr_timestamp :: int
  fr_buf :: buffer

record fragment_list =
  fls_seq_id :: int
  fls_index :: int
  fls_fragments :: "fragment list"

record fragment_master =
  fm_wakeup :: event_timeout
  fm_received_os_mtu_hint :: bool
  fm_outgoing_seq_id :: int
  fm_outgoing_frag_size :: int
  fm_outgoing_frag_id :: int
  fm_outgoing :: buffer
  fm_outgoing_return :: buffer
  fm_incoming :: fragment_list

definition clear_fragment :: fragment where
  "clear_fragment = \<lparr>fr_defined = False, fr_max_frag_size = 0, fr_map = 0, fr_timestamp = 0, fr_buf = clear_buf\<rparr>"

section \<open>Set-up\<close>

fun list_buf_init :: "int \<Rightarrow> fragment list \<Rightarrow> fragment list res" where
  "list_buf_init sz [] = Inr []"
| "list_buf_init sz (fr # frs) =
     bindE (alloc_buf sz) (\<lambda>b. bindE (list_buf_init sz frs) (\<lambda>frs'. Inr (fr\<lparr>fr_buf := b\<rparr> # frs')))"

definition fragment_list_buf_init :: "fragment_list \<Rightarrow> frame \<Rightarrow> fragment_list res" where
  "fragment_list_buf_init l f =
     bindE (list_buf_init (BUF_SIZE f) (fls_fragments l)) (\<lambda>frs. Inr (l\<lparr>fls_fragments := frs\<rparr>))"

definition fragment_list_buf_free :: "fragment_list \<Rightarrow> fragment_list" where
  "fragment_list_buf_free l = l\<lparr>fls_fragments := map (\<lambda>fr. fr\<lparr>fr_buf := free_buf (fr_buf fr)\<rparr>) (fls_fragments l)\<rparr>"

text \<open>\<open>rnd\<close> is what \<open>get_random\<close> returns.\<close>

definition fragment_init :: "int \<Rightarrow> int \<Rightarrow> frame \<Rightarrow> fragment_master \<times> frame" where
  "fragment_init now rnd f =
     (\<lparr>fm_wakeup = event_timeout_init FRAG_WAKEUP_INTERVAL now, fm_received_os_mtu_hint = False,
       fm_outgoing_seq_id = rnd AND (N_SEQ_ID - 1), fm_outgoing_frag_size = 0, fm_outgoing_frag_id = 0,
       fm_outgoing = clear_buf, fm_outgoing_return = clear_buf,
       fm_incoming = \<lparr>fls_seq_id = 0, fls_index = 0, fls_fragments = replicate (nat N_FRAG_BUF) clear_fragment\<rparr>\<rparr>,
      frame_add_to_extra_frame f 4)"

definition fragment_frame_init :: "fragment_master \<Rightarrow> frame \<Rightarrow> fragment_master res" where
  "fragment_frame_init f fr =
     bindE (fragment_list_buf_init (fm_incoming f) fr) (\<lambda>l.
     bindE (alloc_buf (BUF_SIZE fr)) (\<lambda>o1.
     bindE (alloc_buf (BUF_SIZE fr)) (\<lambda>o2.
     Inr (f\<lparr>fm_incoming := l, fm_outgoing := o1, fm_outgoing_return := o2\<rparr>))))"

section \<open>Receiving\<close>

text \<open>The window: \<open>fragment_list_get_buf\<close> returns the index of the buffer for a sequence number.\<close>

definition undefine :: "fragment_list \<Rightarrow> nat \<Rightarrow> fragment_list" where
  "undefine l i = l\<lparr>fls_fragments := (fls_fragments l)[i := (fls_fragments l ! i)\<lparr>fr_defined := False\<rparr>]\<rparr>"

function get_buf_loop :: "int \<Rightarrow> fragment_list \<Rightarrow> (int \<times> fragment_list) res" where
  "get_buf_loop diff l =
     (if diff > 0 then
        bindE (modulo_add (fls_index l) 1 N_FRAG_BUF) (\<lambda>i.
        bindE (arr_get (fls_fragments l) i) (\<lambda>_.
        bindE (modulo_add (fls_seq_id l) 1 N_SEQ_ID) (\<lambda>s.
        get_buf_loop (diff - 1) ((undefine l (nat i))\<lparr>fls_index := i, fls_seq_id := s\<rparr>))))
      else Inr (diff, l))"
  by pat_completeness auto
termination by (relation "measure (\<lambda>(diff, l). nat diff)") auto

declare get_buf_loop.simps [simp del]

definition fragment_list_get_buf :: "fragment_list \<Rightarrow> int \<Rightarrow> (int \<times> fragment_list) res" where
  "fragment_list_get_buf l seq_id =
     bindE (modulo_subtract seq_id (fls_seq_id l) N_SEQ_ID) (\<lambda>diff.
     let (diff, l) =
       (if \<bar>diff\<bar> \<ge> N_FRAG_BUF
        then (0, l\<lparr>fls_fragments := map (\<lambda>fr. fr\<lparr>fr_defined := False\<rparr>) (fls_fragments l),
                  fls_index := 0, fls_seq_id := seq_id\<rparr>)
        else (diff, l)) in
     bindE (get_buf_loop diff l) (\<lambda>(diff, l).
     bindE (modulo_add (fls_index l) diff N_FRAG_BUF) (\<lambda>i. Inr (i, l))))"

text \<open>
  \<open>fragment_store\<close> is the branch of \<open>fragment_incoming\<close> for a fragment proper; \<open>buf\<close> has lost its header. The
  buffer handed back on completion shares its block with the slot, whose contents are not read
  again before the slot is reinitialised. A packet in error is dropped by setting its length to 0.
\<close>

definition fragment_store :: "int \<Rightarrow> frame \<Rightarrow> u32 \<Rightarrow> bool \<Rightarrow> fragment_master \<Rightarrow> buffer \<Rightarrow> (fragment_master \<times> buffer) res" where
  "fragment_store now fr flags is_last f buf =
     (let seq_id = uint (drop_bit FRAG_SEQ_ID_SHIFT flags AND FRAG_SEQ_ID_MASK);
          n = unat (drop_bit FRAG_ID_SHIFT flags AND FRAG_ID_MASK);
          sz = (if is_last then uint (push_bit FRAG_SIZE_ROUND_SHIFT (drop_bit FRAG_SIZE_SHIFT flags AND FRAG_SIZE_MASK))
                else b_len buf) in
      bindE (fragment_list_get_buf (fm_incoming f) seq_id) (\<lambda>(i, l).
      bindE (arr_get (fls_fragments l) i) (\<lambda>frag.
      if sz AND FRAG_SIZE_ROUND_MASK \<noteq> 0 then Inr (f\<lparr>fm_incoming := l\<rparr>, buf\<lparr>b_len := 0\<rparr>)
      else
        bindE (if \<not> fr_defined frag \<or> fr_max_frag_size frag \<noteq> sz
               then (let (ok, b) = buf_init_dowork (fr_buf frag) (FRAME_HEADROOM_ADJ fr FRAME_HEADROOM_MARKER_FRAGMENT) in
                     bindE (assertE ok) (\<lambda>_. Inr (frag\<lparr>fr_defined := True, fr_max_frag_size := sz, fr_map := 0, fr_buf := b\<rparr>)))
               else Inr frag) (\<lambda>frag1.
        bindE (buf_copy_range (fr_buf frag1) (int n * sz) buf 0 (b_len buf)) (\<lambda>(ok, b).
        if \<not> ok then
          bindE (arr_set (fls_fragments l) i (frag1\<lparr>fr_buf := b\<rparr>)) (\<lambda>frs.
          Inr (f\<lparr>fm_incoming := l\<lparr>fls_fragments := frs\<rparr>\<rparr>, buf\<lparr>b_len := 0\<rparr>))
        else
          let frag2 = frag1\<lparr>fr_buf := b,
                fr_map := fr_map frag1 OR push_bit n (if is_last then FRAG_MAP_MASK else 1),
                fr_timestamp := now\<rparr>;
              full = (fr_map frag2 AND FRAG_MAP_MASK = FRAG_MAP_MASK);
              frag3 = (if full then frag2\<lparr>fr_defined := False\<rparr> else frag2) in
          bindE (arr_set (fls_fragments l) i frag3) (\<lambda>frs.
          Inr (f\<lparr>fm_incoming := l\<lparr>fls_fragments := frs\<rparr>\<rparr>,
               if full then fr_buf frag3 else buf\<lparr>b_len := 0\<rparr>)))))))"

definition fragment_incoming :: "int \<Rightarrow> frame \<Rightarrow> fragment_master \<Rightarrow> buffer \<Rightarrow> (fragment_master \<times> buffer) res" where
  "fragment_incoming now fr f buf =
     (if b_len buf > 0 then
        bindE (buf_read buf 4) (\<lambda>(r, buf).
          case r of
            None \<Rightarrow> Inr (f, buf\<lparr>b_len := 0\<rparr>)
          | Some bs \<Rightarrow>
              let flags = of_be32 bs;
                  frag_type = drop_bit FRAG_TYPE_SHIFT flags AND FRAG_TYPE_MASK in
              if frag_type = FRAG_WHOLE then
                (if flags AND (FRAG_SEQ_ID_MASK OR FRAG_ID_MASK) \<noteq> 0 then Inr (f, buf\<lparr>b_len := 0\<rparr>) else Inr (f, buf))
              else if frag_type = FRAG_YES_NOTLAST \<or> frag_type = FRAG_YES_LAST
              then fragment_store now fr flags (frag_type = FRAG_YES_LAST) f buf
              else Inr (f, buf\<lparr>b_len := 0\<rparr>))
      else Inr (f, buf))"

section \<open>Sending\<close>

definition fragment_flags :: "u32 \<Rightarrow> int \<Rightarrow> int \<Rightarrow> int \<Rightarrow> u32" where
  "fragment_flags typ seq_id frag_id frag_size =
     (let flags = push_bit FRAG_TYPE_SHIFT (typ AND FRAG_TYPE_MASK)
                  OR push_bit FRAG_SEQ_ID_SHIFT (word_of_int seq_id AND FRAG_SEQ_ID_MASK)
                  OR push_bit FRAG_ID_SHIFT (word_of_int frag_id AND FRAG_ID_MASK) in
      if typ = FRAG_WHOLE \<or> typ = FRAG_YES_NOTLAST then flags
      else flags OR push_bit FRAG_SIZE_SHIFT (word_of_int (drop_bit FRAG_SIZE_ROUND_SHIFT frag_size) AND FRAG_SIZE_MASK))"

definition fragment_prepend_flags :: "buffer \<Rightarrow> u32 \<Rightarrow> int \<Rightarrow> int \<Rightarrow> int \<Rightarrow> buffer res" where
  "fragment_prepend_flags buf typ seq_id frag_id frag_size =
     bindE (buf_write_prepend buf (be32 (fragment_flags typ seq_id frag_id frag_size))) (\<lambda>(ok, buf').
     bindE (assertE ok) (\<lambda>_. Inr buf'))"

definition optimal_fragment_size :: "int \<Rightarrow> int \<Rightarrow> int res" where
  "optimal_fragment_size len max_frag_size =
     (let mfs_aligned = max_frag_size AND NOT FRAG_SIZE_ROUND_MASK in
      if mfs_aligned = 0 then Inl Arith_Fault
      else
        let dv = len sdiv mfs_aligned; md = len smod mfs_aligned in
        if dv > 0 \<and> md > 0 \<and> md < (mfs_aligned * 3) sdiv 4
        then Inr (min_int mfs_aligned
               ((max_frag_size - ((max_frag_size - md) sdiv (dv + 1)) + FRAG_SIZE_ROUND_MASK) AND NOT FRAG_SIZE_ROUND_MASK))
        else Inr mfs_aligned)"

definition fragment_outgoing_defined :: "fragment_master \<Rightarrow> bool" where
  "fragment_outgoing_defined f \<longleftrightarrow> b_len (fm_outgoing f) > 0"

text \<open>
  The buffer that \<open>fragment_ready_to_send\<close> returns shares its block with \<open>outgoing_return\<close>.
\<close>

definition fragment_ready_to_send :: "frame \<Rightarrow> fragment_master \<Rightarrow> buffer \<Rightarrow> (bool \<times> fragment_master \<times> buffer) res" where
  "fragment_ready_to_send fr f buf =
     (if fragment_outgoing_defined f then
        let last = (b_len (fm_outgoing f) \<le> fm_outgoing_frag_size f);
            sz = (if last then b_len (fm_outgoing f) else fm_outgoing_frag_size f);
            (ok, buf) = buf_init_dowork (fm_outgoing_return f) (FRAME_HEADROOM fr) in
        bindE (assertE ok) (\<lambda>_.
        bindE (buf_copy_n buf (fm_outgoing f) sz) (\<lambda>(ok, buf, out).
        bindE (assertE ok) (\<lambda>_.
        bindE (fragment_prepend_flags buf (if last then FRAG_YES_LAST else FRAG_YES_NOTLAST)
                 (fm_outgoing_seq_id f) (fm_outgoing_frag_id f) (fm_outgoing_frag_size f)) (\<lambda>buf.
        bindE (assertE (\<not> last \<or> b_len out = 0)) (\<lambda>_.
        Inr (True, f\<lparr>fm_outgoing := out, fm_outgoing_frag_id := fm_outgoing_frag_id f + 1,
                     fm_outgoing_return := (fm_outgoing_return f)\<lparr>b_data := b_data buf\<rparr>\<rparr>, buf))))))
      else Inr (False, f, buf))"

definition fragment_outgoing :: "frame \<Rightarrow> fragment_master \<Rightarrow> buffer \<Rightarrow> (fragment_master \<times> buffer) res" where
  "fragment_outgoing fr f buf =
     (if b_len buf > 0 then
        (if b_len buf > PAYLOAD_SIZE_DYNAMIC fr then
           bindE (optimal_fragment_size (b_len buf) (PAYLOAD_SIZE_DYNAMIC fr)) (\<lambda>sz.
           let f1 = f\<lparr>fm_outgoing_frag_size := sz\<rparr> in
           if b_len buf > sz * MAX_FRAGS then Inr (f1, buf\<lparr>b_len := 0\<rparr>)
           else
             let (ok, out) = buf_init_dowork (fm_outgoing f1) (FRAME_HEADROOM fr) in
             bindE (assertE ok) (\<lambda>_.
             bindE (buf_copy out buf) (\<lambda>(ok, out).
             bindE (assertE ok) (\<lambda>_.
             bindE (modulo_add (fm_outgoing_seq_id f1) 1 N_SEQ_ID) (\<lambda>s.
             bindE (fragment_ready_to_send fr
                      (f1\<lparr>fm_outgoing := out, fm_outgoing_seq_id := s, fm_outgoing_frag_id := 0\<rparr>)
                      (buf\<lparr>b_len := 0\<rparr>)) (\<lambda>(ok, f2, buf).
             bindE (assertE ok) (\<lambda>_. Inr (f2, buf))))))))
         else
           bindE (fragment_prepend_flags buf FRAG_WHOLE 0 0 0) (\<lambda>buf. Inr (f, buf)))
      else Inr (f, buf))"

section \<open>Housekeeping\<close>

definition fragment_ttl_reap :: "int \<Rightarrow> fragment_master \<Rightarrow> fragment_master" where
  "fragment_ttl_reap now f =
     f\<lparr>fm_incoming := (fm_incoming f)\<lparr>fls_fragments :=
         map (\<lambda>fr. if fr_defined fr \<and> fr_timestamp fr + FRAG_TTL_SEC \<le> now then fr\<lparr>fr_defined := False\<rparr> else fr)
           (fls_fragments (fm_incoming f))\<rparr>\<rparr>"

definition fragment_wakeup :: "int \<Rightarrow> fragment_master \<Rightarrow> fragment_master" where
  "fragment_wakeup now f = fragment_ttl_reap now f"

definition fragment_housekeeping :: "int \<Rightarrow> fragment_master \<Rightarrow> timeval \<Rightarrow> fragment_master \<times> timeval" where
  "fragment_housekeeping now f tv =
     (case event_timeout_trigger now (fm_wakeup f) (Some tv) ETT_DEFAULT of
        (trig, et, tv') \<Rightarrow>
          let f1 = f\<lparr>fm_wakeup := et\<rparr> in (if trig then fragment_wakeup now f1 else f1, the tv'))"

end
