(* ===== verification/Fragment_Window.thy ===== *)
theory Fragment_Window
  imports Fragment
begin

text \<open>
  The sliding window of the fragment receiver: every sequence number is given a slot, the slot of the
  newest number is fresh, and asking again for a number finds the same slot until the window moves.
\<close>

definition slot_wf :: "int \<Rightarrow> fragment \<Rightarrow> bool" where
  "slot_wf cap x \<longleftrightarrow> buf_wf (fr_buf x) \<and> b_capacity (fr_buf x) = cap"

definition window_wf :: "int \<Rightarrow> fragment_list \<Rightarrow> bool" where
  "window_wf cap l \<longleftrightarrow> length (fls_fragments l) = 25 \<and> 0 \<le> fls_index l \<and> fls_index l < 25
     \<and> 0 \<le> fls_seq_id l \<and> fls_seq_id l < 256 \<and> (\<forall>x \<in> set (fls_fragments l). slot_wf cap x)"

lemma slot_wf_simps [simp]:
  "slot_wf cap (x\<lparr>fr_defined := d\<rparr>) = slot_wf cap x"
  "slot_wf cap (x\<lparr>fr_map := m\<rparr>) = slot_wf cap x"
  "slot_wf cap (x\<lparr>fr_max_frag_size := z\<rparr>) = slot_wf cap x"
  "slot_wf cap (x\<lparr>fr_timestamp := t\<rparr>) = slot_wf cap x"
  by (simp_all add: slot_wf_def)

lemma window_wf_set:
  "window_wf cap l \<Longrightarrow> slot_wf cap x \<Longrightarrow> window_wf cap (l\<lparr>fls_fragments := (fls_fragments l)[i := x]\<rparr>)"
  by (auto simp: window_wf_def dest: set_update_subset_insert[THEN subsetD])

lemma window_wf_nth: "window_wf cap l \<Longrightarrow> i < 25 \<Longrightarrow> slot_wf cap (fls_fragments l ! i)"
  by (auto simp: window_wf_def)

lemma window_wf_undefine: "window_wf cap l \<Longrightarrow> i < 25 \<Longrightarrow> window_wf cap (undefine l i)"
  unfolding undefine_def by (rule window_wf_set) (simp_all add: window_wf_nth)

lemma get_buf_loop_ok:
  assumes "window_wf cap l" "0 \<le> d"
  shows "\<exists>l'. get_buf_loop d l = Inr (0, l') \<and> window_wf cap l' \<and> fls_seq_id l' = (fls_seq_id l + d) mod 256
    \<and> fls_index l' = (fls_index l + d) mod 25 \<and> (0 < d \<longrightarrow> \<not> fr_defined (fls_fragments l' ! nat (fls_index l')))"
  using assms
proof (induction "nat d" arbitrary: d l)
  case 0
  then have d: "d = 0" by simp
  have "get_buf_loop 0 l = Inr (0, l)" by (subst get_buf_loop.simps) simp
  then show ?case using 0(2) unfolding d by (simp add: window_wf_def)
next
  case (Suc m)
  then have d: "0 < d" by simp
  let ?i = "(fls_index l + 1) mod 25" and ?s = "(fls_seq_id l + 1) mod 256"
  let ?l = "(undefine l (nat ?i))\<lparr>fls_index := ?i, fls_seq_id := ?s\<rparr>"
  have i: "0 \<le> ?i" "?i < 25" "nat ?i < 25" by (simp_all add: nat_less_iff)
  have wl: "window_wf cap ?l"
    using window_wf_undefine[OF Suc.prems(1) i(3)] by (simp add: window_wf_def)
  have len: "length (fls_fragments l) = 25" using Suc.prems(1) by (simp add: window_wf_def)
  have fresh: "\<not> fr_defined (fls_fragments ?l ! nat (fls_index ?l))"
    using i(3) len by (simp add: undefine_def)
  have step: "get_buf_loop d l = get_buf_loop (d - 1) ?l"
    using Suc.prems(1) d i len
    by (subst get_buf_loop.simps) (simp add: modulo_add_ok window_wf_def N_FRAG_BUF_def N_SEQ_ID_def arr_get_def)
  have m: "m = nat (d - 1)" "0 \<le> d - 1" using Suc.hyps(2) d by simp_all
  obtain l' where l': "get_buf_loop (d - 1) ?l = Inr (0, l')" "window_wf cap l'"
    "fls_seq_id l' = (fls_seq_id ?l + (d - 1)) mod 256" "fls_index l' = (fls_index ?l + (d - 1)) mod 25"
    "0 < d - 1 \<longrightarrow> \<not> fr_defined (fls_fragments l' ! nat (fls_index l'))"
    using Suc.hyps(1)[OF m(1) wl m(2)] by blast
  have "\<not> fr_defined (fls_fragments l' ! nat (fls_index l'))"
  proof (cases "d = 1")
    case True
    have "get_buf_loop 0 ?l = Inr (0, ?l)" by (subst get_buf_loop.simps) simp
    then have "l' = ?l" using l'(1) True by simp
    then show ?thesis using fresh by blast
  qed (use l'(5) d in auto)
  moreover have "fls_seq_id l' = (fls_seq_id l + d) mod 256" "fls_index l' = (fls_index l + d) mod 25"
    using l'(3,4) by (simp_all add: mod_simps)
  ultimately show ?case using step l'(1,2) by metis
qed

text \<open>
  \<open>get_buf_stable l s i\<close>: the number \<open>s\<close> lies in the window of \<open>l\<close> and its slot is \<open>i\<close>; asking for it
  changes nothing.
\<close>

definition get_buf_stable :: "fragment_list \<Rightarrow> int \<Rightarrow> nat \<Rightarrow> bool" where
  "get_buf_stable l s i \<longleftrightarrow> (\<forall>xs. fragment_list_get_buf (l\<lparr>fls_fragments := xs\<rparr>) s = Inr (int i, l\<lparr>fls_fragments := xs\<rparr>))"

lemma get_buf_stable_set [simp]:
  "get_buf_stable (l\<lparr>fls_fragments := xs\<rparr>) s i = get_buf_stable l s i"
  by (simp add: get_buf_stable_def)

lemma get_buf_stableD: "get_buf_stable l s i \<Longrightarrow> fragment_list_get_buf l s = Inr (int i, l)"
  unfolding get_buf_stable_def by (metis fragment_list.surjective fragment_list.update_convs(3))

lemma get_buf_behind:
  assumes "0 \<le> fls_index l" "fls_index l < 25" "modulo_subtract s (fls_seq_id l) 256 = Inr d" "d \<le> 0" "- 25 < d"
  shows "get_buf_stable l s (nat ((fls_index l + d) mod 25))"
proof -
  have "get_buf_loop d l' = Inr (d, l')" for l' using assms(4) by (subst get_buf_loop.simps) simp
  then show ?thesis using assms
    by (simp add: get_buf_stable_def fragment_list_get_buf_def N_SEQ_ID_def N_FRAG_BUF_def modulo_add_ok)
qed

lemma modulo_subtract_self: "0 \<le> s \<Longrightarrow> s < 256 \<Longrightarrow> modulo_subtract s s 256 = Inr 0"
  by (simp add: modulo_subtract_def Let_def)

lemma get_buf_newest:
  assumes "window_wf cap l"
  shows "get_buf_stable l (fls_seq_id l) (nat (fls_index l))"
  using get_buf_behind[of l "fls_seq_id l" 0] assms by (simp add: window_wf_def modulo_subtract_self)

text \<open>Any number is found or makes room for itself; a number that moved the window gets a fresh slot.\<close>

lemma window_get_buf_ok:
  assumes "window_wf cap l" "0 \<le> s" "s < 256"
  shows "\<exists>i l'. fragment_list_get_buf l s = Inr (int i, l') \<and> i < 25 \<and> window_wf cap l' \<and> get_buf_stable l' s i
    \<and> (l' = l \<or> \<not> fr_defined (fls_fragments l' ! i))"
proof -
  obtain d where d: "modulo_subtract s (fls_seq_id l) 256 = Inr d" "(fls_seq_id l + d) mod 256 = s"
    using modulo_subtract_shortest[of s 256 "fls_seq_id l"] assms by (auto simp: window_wf_def)
  have ix: "0 \<le> fls_index l" "fls_index l < 25" using assms(1) by (simp_all add: window_wf_def)
  consider "d \<le> 0" "- 25 < d" | "0 < d" "d < 25" | "25 \<le> \<bar>d\<bar>" by linarith
  then show ?thesis
  proof cases
    case 1
    note st = get_buf_behind[OF ix d(1) 1]
    have "nat ((fls_index l + d) mod 25) < 25" by (simp add: nat_less_iff)
    then show ?thesis using get_buf_stableD[OF st] st assms(1) by blast
  next
    case 2
    obtain l' where l': "get_buf_loop d l = Inr (0, l')" "window_wf cap l'" "fls_seq_id l' = (fls_seq_id l + d) mod 256"
      "\<not> fr_defined (fls_fragments l' ! nat (fls_index l'))"
      using get_buf_loop_ok[OF assms(1), of d] 2 by auto
    have i: "0 \<le> fls_index l'" "fls_index l' < 25" using l'(2) by (simp_all add: window_wf_def)
    have "fragment_list_get_buf l s = Inr (fls_index l', l')"
      using d(1) 2 l'(1) i by (simp add: fragment_list_get_buf_def N_SEQ_ID_def N_FRAG_BUF_def modulo_add_ok)
    moreover have "get_buf_stable l' s (nat (fls_index l'))" using get_buf_newest[OF l'(2)] l'(3) d(2) by simp
    ultimately show ?thesis using i l'(2,4) by (intro exI[of _ "nat (fls_index l')"] exI[of _ l']) auto
  next
    case 3
    let ?l = "l\<lparr>fls_fragments := map (\<lambda>fr. fr\<lparr>fr_defined := False\<rparr>) (fls_fragments l), fls_index := 0, fls_seq_id := s\<rparr>"
    have wf: "window_wf cap ?l" using assms by (auto simp: window_wf_def)
    have "get_buf_loop 0 ?l = Inr (0, ?l)" by (subst get_buf_loop.simps) simp
    then have "fragment_list_get_buf l s = Inr (int 0, ?l)"
      using d(1) 3 by (simp add: fragment_list_get_buf_def N_SEQ_ID_def N_FRAG_BUF_def modulo_add_ok)
    moreover have "get_buf_stable ?l s 0" using get_buf_newest[OF wf] by simp
    moreover have "\<not> fr_defined (fls_fragments ?l ! 0)" using assms(1) by (simp add: window_wf_def)
    ultimately show ?thesis using wf by (intro exI[of _ 0] exI[of _ ?l]) auto
  qed
qed

end
