(* ===== verification/Fragment_Receive.thy ===== *)
theory Fragment_Receive
  imports Fragment_Window
begin

text \<open>
  What the receiver does with the pieces of one datagram: the header survives its encoding, a slot
  accumulates pieces in any order and repetition, and the piece that completes the set releases the
  datagram.
\<close>

section \<open>The header\<close>

lemma mask_numerals:
  "(3 :: u32) = mask 2" "(0xff :: u32) = mask 8" "(0x1f :: u32) = mask 5" "(0x3fff :: u32) = mask 14"
  by (simp_all add: mask_eq_exp_minus_1)

definition pack_flags :: "u32 \<Rightarrow> u32 \<Rightarrow> u32 \<Rightarrow> u32 \<Rightarrow> u32" where
  "pack_flags t s i w = take_bit 2 t OR push_bit 2 (take_bit 8 s) OR push_bit 10 (take_bit 5 i) OR push_bit 15 (take_bit 14 w)"

lemma unpack_flags:
  "take_bit 2 (pack_flags t s i w) = take_bit 2 t"
  "take_bit 8 (drop_bit 2 (pack_flags t s i w)) = take_bit 8 s"
  "take_bit 5 (drop_bit 10 (pack_flags t s i w)) = take_bit 5 i"
  "take_bit 14 (drop_bit 15 (pack_flags t s i w)) = take_bit 14 w"
  by (rule bit_word_eqI; auto simp: pack_flags_def bit_simps)+

lemma fragment_flags_pack:
  "fragment_flags t s i z = pack_flags t (word_of_int s) (word_of_int i)
     (if t = FRAG_WHOLE \<or> t = FRAG_YES_NOTLAST then 0 else word_of_int (z div 4))"
  by (simp add: fragment_flags_def pack_flags_def Let_def FRAG_TYPE_SHIFT_def FRAG_TYPE_MASK_def FRAG_SEQ_ID_SHIFT_def
      FRAG_SEQ_ID_MASK_def FRAG_ID_SHIFT_def FRAG_ID_MASK_def FRAG_SIZE_SHIFT_def FRAG_SIZE_MASK_def
      FRAG_SIZE_ROUND_SHIFT_def mask_numerals drop_bit_eq_div or.assoc flip: take_bit_eq_mask)

lemma uint_take_bit_of_int: "0 \<le> x \<Longrightarrow> x < 2 ^ k \<Longrightarrow> k \<le> 32 \<Longrightarrow> uint (take_bit k (word_of_int x :: u32)) = x"
proof -
  assume a: "0 \<le> x" "x < 2 ^ k" "k \<le> 32"
  have "uint (take_bit k (word_of_int x :: u32)) = take_bit k (take_bit 32 x)"
    by (simp add: unsigned_take_bit_eq unsigned_of_int)
  also have "\<dots> = take_bit k x" using a(3) by (simp only: take_bit_take_bit min_absorb1)
  also have "\<dots> = x mod 2 ^ k" by (rule take_bit_eq_mod)
  finally show ?thesis using a by simp
qed

lemma header_fields:
  assumes "t = FRAG_YES_NOTLAST \<or> t = FRAG_YES_LAST" "0 \<le> s" "s < 256" "i < 32" "0 \<le> z" "z < 65536" "z mod 4 = 0"
  defines "h \<equiv> fragment_flags t s (int i) z"
  shows "drop_bit FRAG_TYPE_SHIFT h AND FRAG_TYPE_MASK = t"
    and "uint (drop_bit FRAG_SEQ_ID_SHIFT h AND FRAG_SEQ_ID_MASK) = s"
    and "unat (drop_bit FRAG_ID_SHIFT h AND FRAG_ID_MASK) = i"
    and "t = FRAG_YES_LAST \<Longrightarrow> uint (push_bit FRAG_SIZE_ROUND_SHIFT (drop_bit FRAG_SIZE_SHIFT h AND FRAG_SIZE_MASK)) = z"
proof -
  note defs = h_def fragment_flags_pack FRAG_TYPE_SHIFT_def FRAG_TYPE_MASK_def FRAG_SEQ_ID_SHIFT_def
    FRAG_SEQ_ID_MASK_def FRAG_ID_SHIFT_def FRAG_ID_MASK_def FRAG_SIZE_SHIFT_def FRAG_SIZE_MASK_def FRAG_SIZE_ROUND_SHIFT_def
    mask_numerals
  have t: "take_bit 2 t = t"
    using assms(1) by (auto simp: FRAG_YES_NOTLAST_def FRAG_YES_LAST_def)
  show "drop_bit FRAG_TYPE_SHIFT h AND FRAG_TYPE_MASK = t"
    unfolding defs by (simp add: unpack_flags t flip: take_bit_eq_mask)
  show "uint (drop_bit FRAG_SEQ_ID_SHIFT h AND FRAG_SEQ_ID_MASK) = s"
    unfolding defs take_bit_eq_mask[symmetric] unpack_flags using assms by (intro uint_take_bit_of_int) auto
  have "uint (drop_bit FRAG_ID_SHIFT h AND FRAG_ID_MASK) = int i"
    unfolding defs take_bit_eq_mask[symmetric] unpack_flags using assms by (intro uint_take_bit_of_int) auto
  then show "unat (drop_bit FRAG_ID_SHIFT h AND FRAG_ID_MASK) = i" by (metis nat_int unat_eq_nat_uint)
  assume l: "t = FRAG_YES_LAST"
  have "uint (take_bit 14 (word_of_int (z div 4) :: u32)) = z div 4"
    using assms by (intro uint_take_bit_of_int) auto
  then have u: "uint (drop_bit FRAG_SIZE_SHIFT h AND FRAG_SIZE_MASK) = z div 4"
    unfolding defs take_bit_eq_mask[symmetric] unpack_flags using l by (simp add: FRAG_YES_LAST_def FRAG_WHOLE_def FRAG_YES_NOTLAST_def)
  have p: "uint (push_bit 2 w) = (4 * uint w) mod 2 ^ 32" for w :: u32
    by (simp add: push_bit_eq_mult uint_word_ariths mult.commute)
  have "4 * (z div 4) = z" "(4 * (z div 4)) mod 2 ^ 32 = 4 * (z div 4)" using assms(5-7) by auto
  then show "uint (push_bit FRAG_SIZE_ROUND_SHIFT (drop_bit FRAG_SIZE_SHIFT h AND FRAG_SIZE_MASK)) = z"
    unfolding FRAG_SIZE_ROUND_SHIFT_def p u by simp
qed

section \<open>Pieces of a datagram\<close>

definition piece :: "byte list \<Rightarrow> nat \<Rightarrow> nat \<Rightarrow> byte list" where
  "piece D z i = take z (drop (i * z) D)"

text \<open>\<open>n\<close> pieces of \<open>z\<close> bytes make up the datagram \<open>D\<close>.\<close>

definition cut_ok :: "byte list \<Rightarrow> nat \<Rightarrow> nat \<Rightarrow> bool" where
  "cut_ok D z n \<longleftrightarrow> 0 < n \<and> n \<le> 32 \<and> (n - 1) * z < length D \<and> length D \<le> n * z \<and> z mod 4 = 0 \<and> z < 65536"

lemma cut_okD:
  assumes "cut_ok D z n"
  shows "0 < z" "0 < n" "n \<le> 32" "z < 65536" "z mod 4 = 0" "(n - 1) * z < length D" "length D \<le> n * z"
  using assms by (auto simp: cut_ok_def intro!: gr0I)

lemma piece_start: "cut_ok D z n \<Longrightarrow> i < n \<Longrightarrow> i * z < length D"
proof -
  assume a: "cut_ok D z n" "i < n"
  then have "i * z \<le> (n - 1) * z" by (intro mult_le_mono1) simp
  then show ?thesis using cut_okD(6)[OF a(1)] by (rule le_less_trans)
qed

lemma piece_end: "cut_ok D z n \<Longrightarrow> i < n \<Longrightarrow> i * z + length (piece D z i) = min (length D) (i * z + z)"
  using piece_start[of D z n i] unfolding piece_def length_take length_drop by arith

lemma piece_full: "cut_ok D z n \<Longrightarrow> i < n \<Longrightarrow> i \<noteq> n - 1 \<Longrightarrow> length (piece D z i) = z"
proof -
  assume a: "cut_ok D z n" "i < n" "i \<noteq> n - 1"
  have "Suc i * z < length D" using a by (intro piece_start[OF a(1)]) auto
  then show ?thesis by (simp add: piece_def)
qed

lemma piece_last_end: "cut_ok D z n \<Longrightarrow> (n - 1) * z + length (piece D z (n - 1)) = length D"
proof -
  assume a: "cut_ok D z n"
  have "n * z = (n - 1) * z + z" using cut_okD(2)[OF a] by (cases n) simp_all
  then show ?thesis using piece_end[OF a, of "n - 1"] cut_okD(2,7)[OF a] by simp
qed

lemma piece_positions:
  assumes "cut_ok D z n" "i < n" "p < length D"
  shows "p div z = i \<longleftrightarrow> i * z \<le> p \<and> p < i * z + length (piece D z i)"
proof -
  have "p div z = i \<longleftrightarrow> i * z \<le> p \<and> p < i * z + z"
    using div_nat_eqI[of z i p] dividend_less_times_div[OF cut_okD(1)[OF assms(1)], of p]
    by (auto simp: mult.commute add.commute)
  then show ?thesis using piece_end[OF assms(1,2)] assms(3) by auto
qed

lemma position_piece: "cut_ok D z n \<Longrightarrow> p < length D \<Longrightarrow> p div z < n"
  using cut_okD(7)[of D z n] by (simp add: less_mult_imp_div_less order.strict_trans2)

section \<open>The slot of a datagram\<close>

text \<open>
  \<open>slot_holds\<close>: the slot belongs to the datagram \<open>D\<close> and has received the pieces \<open>R\<close>.
\<close>

definition data_holds :: "int \<Rightarrow> byte list \<Rightarrow> nat \<Rightarrow> nat set \<Rightarrow> buffer \<Rightarrow> bool" where
  "data_holds off D z R b \<longleftrightarrow> b_offset b = off \<and> b_len b \<le> int (length D)
     \<and> (\<exists>d. b_data b = Some d \<and> (\<forall>p < length D. p div z \<in> R \<longrightarrow> d ! (nat off + p) = D ! p))"

definition map_holds :: "nat \<Rightarrow> nat set \<Rightarrow> u32 \<Rightarrow> bool" where
  "map_holds n R m \<longleftrightarrow> (\<forall>k < 32. bit m k \<longleftrightarrow> k \<in> R \<or> (n - 1 \<in> R \<and> n - 1 \<le> k))"

definition slot_holds :: "int \<Rightarrow> byte list \<Rightarrow> nat \<Rightarrow> nat \<Rightarrow> nat set \<Rightarrow> fragment \<Rightarrow> bool" where
  "slot_holds off D z n R x \<longleftrightarrow> fr_defined x \<and> fr_max_frag_size x = int z \<and> map_holds n R (fr_map x)
     \<and> data_holds off D z R (fr_buf x) \<and> (n - 1 \<in> R \<longrightarrow> b_len (fr_buf x) = int (length D))"

lemma copy_piece:
  assumes "cut_ok D z n" "i < n" "buf_wf b" "data_holds off D z R b" "0 \<le> off" "off + int (length D) \<le> b_capacity b"
    and "buf_wf src" "buf_content src = piece D z i"
  shows "\<exists>b'. buf_copy_range b (int i * int z) src 0 (b_len src) = Inr (True, b') \<and> buf_wf b'
    \<and> b_capacity b' = b_capacity b \<and> data_holds off D z (insert i R) b'
    \<and> b_len b' = max (b_len b) (int (i * z + length (piece D z i)))"
proof -
  let ?c = "piece D z i"
  have sl: "b_len src = int (length ?c)" using length_buf_content[OF assms(7)] assms(8) by simp
  have fit: "i * z + length ?c \<le> length D" using piece_end[OF assms(1,2)] by simp
  have pk: "buf_peek src (b_offset src) (b_len src) = Inr ?c"
    using buf_peek_content[OF assms(7), of 0 "b_len src"] sl by (simp add: assms(8) segment_from_0)
  from assms(4) obtain d where d: "b_offset b = off" "b_data b = Some d" "b_len b \<le> int (length D)"
    "\<And>p. p < length D \<Longrightarrow> p div z \<in> R \<Longrightarrow> d ! (nat off + p) = D ! p" by (auto simp: data_holds_def)
  have ld: "int (length d) = b_capacity b" using assms(3) d(2) by (auto simp: buf_wf_def)
  let ?p = "nat off + i * z"
  let ?d = "overwrite d ?p ?c"
  have np: "nat (off + int i * int z) = ?p" using assms(5) by (simp add: nat_add_distrib nat_mult_distrib)
  have room: "?p + length ?c \<le> length d" using fit ld assms(5,6) by linarith
  have fit': "int i * int z + int (length ?c) \<le> int (length D)"
    using fit by (metis of_nat_add of_nat_mult of_nat_le_iff)
  have ob: "off + int i * int z + int (length ?c) \<le> b_capacity b"
    using fit assms(6) by (metis of_nat_add of_nat_mult of_nat_le_iff add.assoc add_left_mono order.trans)
  have poke: "buf_poke b (off + int i * int z) ?c = Inr (b\<lparr>b_data := Some ?d\<rparr>)"
    using ob ld assms(5) by (simp add: buf_poke_def d(2) mem_write_ok np)
  let ?b = "if int i * int z + b_len src > b_len b then b\<lparr>b_data := Some ?d, b_len := int i * int z + b_len src\<rparr>
    else b\<lparr>b_data := Some ?d\<rparr>"
  obtain x where x: "int i * int z = x" "0 \<le> x" by simp
  have cp: "buf_copy_range b (int i * int z) src 0 (b_len src) = Inr (True, ?b)"
    unfolding x using poke[unfolded x] pk ob[unfolded x] x(2) by (simp add: buf_copy_range_def sl d(1))
  have len: "b_len ?b = max (b_len b) (int (i * z + length ?c))" by (simp add: sl)
  have wf: "buf_wf ?b"
    using assms(3) room ob d(1,2) by (auto simp: buf_wf_def sl)
  have ch: "d' = ?d ! (nat off + p) \<Longrightarrow> d' = (if p div z = i then D ! p else d ! (nat off + p))" if "p < length D" for p d'
  proof -
    have q: "nat off + p < length d" using that ld assms(5,6) by linarith
    have "?c ! (p - i * z) = D ! p" if "i * z \<le> p" "p < i * z + length ?c"
      using that piece_start[OF assms(1,2)] by (simp add: piece_def)
    then show "d' = ?d ! (nat off + p) \<Longrightarrow> d' = (if p div z = i then D ! p else d ! (nat off + p))"
      using nth_overwrite[OF room q] piece_positions[OF assms(1,2) that] by auto
  qed
  have "data_holds off D z (insert i R) ?b"
    unfolding data_holds_def using len d(1,3,4) fit' ch[OF _ refl] by auto
  then show ?thesis using cp wf len by (intro exI[of _ ?b]) auto
qed

lemma bit_map_mask: "bit FRAG_MAP_MASK k \<longleftrightarrow> k < 32"
proof -
  have "FRAG_MAP_MASK = - 1" by (simp add: FRAG_MAP_MASK_def)
  then show ?thesis using bit_minus_1_iff[of k, where 'a = u32] by (simp add: possible_bit_word)
qed

lemma map_piece:
  assumes "map_holds n R m" "i < n" "n \<le> 32"
  shows "map_holds n (insert i R) (m OR push_bit i (if i = n - 1 then FRAG_MAP_MASK else 1))"
  using assms by (auto simp: map_holds_def bit_simps bit_map_mask)

lemma map_full:
  assumes "map_holds n R m" "R \<subseteq> {..<n}" "0 < n" "n \<le> 32"
  shows "m AND FRAG_MAP_MASK = FRAG_MAP_MASK \<longleftrightarrow> R = {..<n}"
proof -
  have e: "m AND FRAG_MAP_MASK = FRAG_MAP_MASK \<longleftrightarrow> (\<forall>k < 32. bit m k)"
    by (auto simp: bit_eq_iff bit_and_iff bit_map_mask possible_bit_word)
  show ?thesis
  proof
    assume "m AND FRAG_MAP_MASK = FRAG_MAP_MASK"
    then have "k \<in> R \<or> (n - 1 \<in> R \<and> n - 1 \<le> k)" if "k < n" for k
      using assms(1,4) e that by (auto simp: map_holds_def)
    then have "k \<in> R" if "k < n" for k using that by (metis Suc_pred' assms(3) le_antisym less_Suc_eq_le)
    then show "R = {..<n}" using assms(2) by auto
  next
    assume "R = {..<n}"
    then show "m AND FRAG_MAP_MASK = FRAG_MAP_MASK"
      unfolding e using assms(1,3) by (auto simp: map_holds_def)
  qed
qed

lemma data_complete:
  assumes "cut_ok D z n" "data_holds off D z {..<n} b" "0 \<le> off" "buf_wf b" "b_len b = int (length D)"
  shows "buf_content b = D"
proof -
  from assms(2) obtain d where d: "b_offset b = off" "b_data b = Some d"
    "\<And>p. p < length D \<Longrightarrow> d ! (nat off + p) = D ! p"
    using position_piece[OF assms(1)] by (auto simp: data_holds_def)
  have "nat off + length D \<le> length d"
    using assms(3,4,5) d(1,2) by (auto simp: buf_wf_def)
  then show ?thesis using d assms(5)
    by (intro nth_equalityI) (auto simp: buf_content_def segment_def)
qed

section \<open>Storing a piece\<close>

definition slot_ready :: "int \<Rightarrow> byte list \<Rightarrow> nat \<Rightarrow> nat \<Rightarrow> nat set \<Rightarrow> fragment \<Rightarrow> bool" where
  "slot_ready off D z n R x \<longleftrightarrow>
     (if \<not> fr_defined x \<or> fr_max_frag_size x \<noteq> int z then R = {} else slot_holds off D z n R x)"

lemma slot_holds_ready: "slot_holds off D z n R x \<Longrightarrow> slot_ready off D z n R x"
  by (simp add: slot_ready_def slot_holds_def)

lemma slot_init:
  assumes "slot_ready off D z n R x" "slot_wf cap x" "0 \<le> off" "off \<le> cap"
  shows "\<exists>x1. (if \<not> fr_defined x \<or> fr_max_frag_size x \<noteq> int z
               then (let (ok, b) = buf_init_dowork (fr_buf x) off in
                     bindE (assertE ok) (\<lambda>_. Inr (x\<lparr>fr_defined := True, fr_max_frag_size := int z, fr_map := 0, fr_buf := b\<rparr>)))
               else Inr x) = Inr x1 \<and> slot_holds off D z n R x1 \<and> slot_wf cap x1"
proof (cases "\<not> fr_defined x \<or> fr_max_frag_size x \<noteq> int z")
  case True
  let ?b = "(fr_buf x)\<lparr>b_len := 0, b_offset := off\<rparr>"
  let ?x = "x\<lparr>fr_defined := True, fr_max_frag_size := int z, fr_map := 0, fr_buf := ?b\<rparr>"
  have wf: "buf_wf (fr_buf x)" "b_capacity (fr_buf x) = cap" using assms(2) by (simp_all add: slot_wf_def)
  have "buf_init_dowork (fr_buf x) off = (True, ?b)" using wf assms(3,4) by (intro buf_init_dowork_ok) simp_all
  moreover have "slot_holds off D z n R ?x" "slot_wf cap ?x"
    using assms True wf buf_init_wf[OF wf(1) assms(3)]
    by (auto simp: slot_ready_def slot_holds_def map_holds_def data_holds_def slot_wf_def elim!: buf_wfE)
  ultimately show ?thesis using True by simp
next
  case False
  then show ?thesis using assms by (simp add: slot_ready_def)
qed

definition piece_type :: "nat \<Rightarrow> nat \<Rightarrow> u32" where
  "piece_type n i = (if i = n - 1 then FRAG_YES_LAST else FRAG_YES_NOTLAST)"

definition piece_header :: "int \<Rightarrow> nat \<Rightarrow> nat \<Rightarrow> nat \<Rightarrow> u32" where
  "piece_header s z n i = fragment_flags (piece_type n i) s (int i) (int z)"

definition released :: "int \<Rightarrow> byte list \<Rightarrow> nat \<Rightarrow> nat \<Rightarrow> nat set \<Rightarrow> fragment \<Rightarrow> buffer \<Rightarrow> bool" where
  "released off D z n R x out \<longleftrightarrow>
     (if R = {..<n} then \<not> fr_defined x \<and> buf_wf out \<and> buf_content out = D
      else slot_holds off D z n R x \<and> b_len out = 0)"

lemma fragment_store_ok:
  assumes get: "fragment_list_get_buf (fm_incoming f) s = Inr (int j, l)" "j < 25" "window_wf cap l"
    and slot: "slot_ready off D z n R (fls_fragments l ! j)" "R \<subseteq> {..<n}"
    and geo: "cut_ok D z n" "i < n" "0 \<le> s" "s < 256"
    and off: "off = FRAME_HEADROOM_ADJ fr FRAME_HEADROOM_MARKER_FRAGMENT" "0 \<le> off" "off + int (length D) \<le> cap"
    and src: "buf_wf src" "buf_content src = piece D z i"
  shows "\<exists>x out. fragment_store now fr (piece_header s z n i) (i = n - 1) f src
      = Inr (f\<lparr>fm_incoming := l\<lparr>fls_fragments := (fls_fragments l)[j := x]\<rparr>\<rparr>, out)
    \<and> slot_wf cap x \<and> released off D z n (insert i R) x out"
proof -
  let ?x = "fls_fragments l ! j"
  have len: "length (fls_fragments l) = 25" using get(3) by (simp add: window_wf_def)
  note arr = arr_get_nat[of j "fls_fragments l", unfolded len, OF get(2)] arr_set_nat[of j "fls_fragments l", unfolded len, OF get(2)]
  have t: "piece_type n i = FRAG_YES_NOTLAST \<or> piece_type n i = FRAG_YES_LAST" by (simp add: piece_type_def)
  have z: "0 \<le> int z" "int z < 65536" "int z mod 4 = 0" "i < 32"
    using cut_okD[OF geo(1)] geo(2) by (auto simp flip: of_nat_mod)
  note h = header_fields[OF t geo(3,4) z(4) z(1-3), folded piece_header_def]
  have sl: "b_len src = int (length (piece D z i))" using length_buf_content[OF src(1)] src(2) by simp
  have sz: "(if i = n - 1 then uint (push_bit FRAG_SIZE_ROUND_SHIFT (drop_bit FRAG_SIZE_SHIFT (piece_header s z n i) AND FRAG_SIZE_MASK))
      else b_len src) = int z"
  proof (cases "i = n - 1")
    case True
    then have "piece_type n i = FRAG_YES_LAST" by (simp add: piece_type_def)
    from h(4)[OF this] show ?thesis using True by (simp only: refl if_True)
  next
    case False
    then show ?thesis using piece_full[OF geo(1,2) False] sl by (simp only: if_False)
  qed
  have rnd: "int z AND FRAG_SIZE_ROUND_MASK = 0"
    using take_bit_eq_mask[of 2 "int z"] z(3) by (simp add: FRAG_SIZE_ROUND_MASK_def take_bit_eq_mod mask_eq_exp_minus_1)
  obtain x1 where x1: "(if \<not> fr_defined ?x \<or> fr_max_frag_size ?x \<noteq> int z
               then (let (ok, b) = buf_init_dowork (fr_buf ?x) off in
                     bindE (assertE ok) (\<lambda>_. Inr (?x\<lparr>fr_defined := True, fr_max_frag_size := int z, fr_map := 0, fr_buf := b\<rparr>)))
               else Inr ?x) = Inr x1" "slot_holds off D z n R x1" "slot_wf cap x1"
    using slot_init[OF slot(1) window_wf_nth[OF get(3,2)] off(2)] off(3) by auto
  have x1d: "buf_wf (fr_buf x1)" "b_capacity (fr_buf x1) = cap" "data_holds off D z R (fr_buf x1)"
    "map_holds n R (fr_map x1)" "n - 1 \<in> R \<longrightarrow> b_len (fr_buf x1) = int (length D)" "fr_defined x1" "fr_max_frag_size x1 = int z"
    using x1(2,3) by (simp_all add: slot_wf_def slot_holds_def)
  obtain b where b: "buf_copy_range (fr_buf x1) (int i * int z) src 0 (b_len src) = Inr (True, b)" "buf_wf b"
    "b_capacity b = cap" "data_holds off D z (insert i R) b"
    "b_len b = max (b_len (fr_buf x1)) (int (i * z + length (piece D z i)))"
    using copy_piece[OF geo(1,2) x1d(1,3) off(2) _ src] off(3) x1d(2) by auto
  let ?m = "fr_map x1 OR push_bit i (if i = n - 1 then FRAG_MAP_MASK else 1)"
  let ?x2 = "x1\<lparr>fr_buf := b, fr_map := ?m, fr_timestamp := now\<rparr>"
  let ?full = "?m AND FRAG_MAP_MASK = FRAG_MAP_MASK"
  let ?x3 = "if ?full then ?x2\<lparr>fr_defined := False\<rparr> else ?x2"
  let ?out = "if ?full then b else src\<lparr>b_len := 0\<rparr>"
  have m: "map_holds n (insert i R) ?m" using map_piece[OF x1d(4) geo(2)] cut_okD(3)[OF geo(1)] .
  have full: "?full \<longleftrightarrow> insert i R = {..<n}"
    using map_full[OF m] slot(2) geo(2) cut_okD(2,3)[OF geo(1)] by simp
  have bl: "n - 1 \<in> insert i R \<longrightarrow> b_len b = int (length D)"
  proof
    assume r: "n - 1 \<in> insert i R"
    have l: "b_len (fr_buf x1) \<le> int (length D)" using x1d(3) by (simp add: data_holds_def)
    obtain e where e: "i * z + length (piece D z i) = e" by simp
    have "e \<le> length D" using piece_end[OF geo(1,2)] e by simp
    moreover have "i = n - 1 \<Longrightarrow> e = length D" using piece_last_end[OF geo(1)] e by (simp only:)
    ultimately show "b_len b = int (length D)" using r l b(5)[unfolded e] x1d(5) by auto
  qed
  have run: "fragment_store now fr (piece_header s z n i) (i = n - 1) f src
      = Inr (f\<lparr>fm_incoming := l\<lparr>fls_fragments := (fls_fragments l)[j := ?x3]\<rparr>\<rparr>, ?out)"
    unfolding fragment_store_def h(2,3) sz
    using get(1) arr rnd x1(1)[unfolded off(1)] b(1) by (simp add: Let_def)
  have "released off D z n (insert i R) ?x3 ?out"
  proof (cases "insert i R = {..<n}")
    case True
    have "n - 1 \<in> insert i R" unfolding True using cut_okD(2)[OF geo(1)] by simp
    then have "buf_content b = D"
      using data_complete[OF geo(1) b(4)[unfolded True] off(2) b(2)] bl by simp
    then show ?thesis using True full b(2) by (simp add: released_def)
  next
    case False
    then show ?thesis using full m b(4) bl x1d(6,7) by (simp add: released_def slot_holds_def)
  qed
  then show ?thesis using run b(2,3) by (intro exI[of _ ?x3] exI[of _ ?out]) (simp add: slot_wf_def)
qed

end
