(* ===== verification/Fragment_Size.thy ===== *)
theory Fragment_Size
  imports Fragment
begin

text \<open>
  The fragment size: never larger than the aligned limit, aligned itself, and balanced so that it takes as
  many fragments as the limit would, no more.
\<close>

lemma and_minus_4: "x AND - 4 = x - x mod (4 :: int)"
proof -
  have "x AND NOT (mask 2) = push_bit 2 (drop_bit 2 x)"
    by (rule bit_eqI) (auto simp: bit_simps not_less dest: le_Suc_ex)
  moreover have "NOT (mask 2) = (- 4 :: int)" by (simp add: mask_eq_exp_minus_1)
  ultimately have "x AND - 4 = 4 * (x div 4)" by (simp add: push_bit_eq_mult drop_bit_eq_div)
  then show ?thesis by (simp add: minus_mod_eq_mult_div)
qed

lemma sdiv_pos: "0 \<le> a \<Longrightarrow> 0 < b \<Longrightarrow> a sdiv b = a div (b :: int)" "0 \<le> a \<Longrightarrow> 0 < b \<Longrightarrow> a smod b = a mod (b :: int)"
  by (auto simp: signed_divide_int_def signed_modulo_int_def sgn_if)

text \<open>\<open>n\<close> fragments of size \<open>z\<close> are just enough for \<open>len\<close> bytes.\<close>

definition takes :: "int \<Rightarrow> int \<Rightarrow> int \<Rightarrow> bool" where
  "takes len z n \<longleftrightarrow> (n - 1) * z < len \<and> len \<le> n * z"

lemma optimal_fragment_size_ok:
  assumes "4 \<le> M" "0 < len"
  shows "\<exists>z n. optimal_fragment_size len M = Inr z \<and> 0 < z \<and> z mod 4 = 0 \<and> z \<le> M - M mod 4
    \<and> takes len z n \<and> takes len (M - M mod 4) n"
proof -
  define A where "A = M - M mod 4"
  have A: "0 < A" "A mod 4 = 0" "A \<le> M" "M < A + 4" using assms(1) by (auto simp: A_def mod_simps)
  define dv md where "dv = len div A" and "md = len mod A"
  have len: "len = dv * A + md" "0 \<le> md" "md < A" "0 \<le> dv"
    using A(1) assms(2) by (simp_all add: dv_def md_def pos_imp_zdiv_nonneg_iff)
  have al: "M AND NOT FRAG_SIZE_ROUND_MASK = A" using assms(1) by (simp add: FRAG_SIZE_ROUND_MASK_def and_minus_4 A_def)
  have dvmd: "len sdiv A = dv" "len smod A = md" using assms(2) A(1) by (simp_all add: dv_def md_def sdiv_pos)
  have dvA: "(dv - 1) * A = dv * A - A" "(dv + 1) * A = dv * A + A" by (simp_all add: algebra_simps)
  show ?thesis
  proof (cases "dv > 0 \<and> md > 0 \<and> md < (A * 3) sdiv 4")
    case True
    define q where "q = (M - md) div (dv + 1)"
    have mq: "0 \<le> M - md" "0 < dv + 1" using A len True by auto
    have q: "(dv + 1) * q \<le> M - md" using mq(2) by (simp add: q_def mult.commute flip: minus_mod_eq_mult_div)
    have q0: "0 \<le> q" using mq by (simp add: q_def pos_imp_zdiv_nonneg_iff)
    define x where "x = M - q + 3"
    define Z where "Z = x - x mod 4"
    have "2 * q \<le> (dv + 1) * q" using True q0 by (intro mult_right_mono) auto
    then have Mq: "0 < M - q" using q True A by auto
    then have x: "0 \<le> x" by (simp add: x_def)
    have Z: "M - q \<le> Z" "Z mod 4 = 0" "0 < Z" using Mq by (auto simp: Z_def x_def mod_simps)
    have sd: "(M - md) sdiv (dv + 1) = q" unfolding q_def using mq by (rule sdiv_pos(1))
    have zx: "(M - q + FRAG_SIZE_ROUND_MASK) AND NOT FRAG_SIZE_ROUND_MASK = Z"
      by (simp add: FRAG_SIZE_ROUND_MASK_def and_minus_4 Z_def x_def)
    have run: "optimal_fragment_size len M = Inr (min A Z)"
      unfolding optimal_fragment_size_def Let_def al dvmd sd zx min_int_eq if_P[OF True] using A(1) by (cases "A = 0") auto
    have "(dv + 1) * (M - q) \<le> (dv + 1) * Z" using Z(1) mq(2) by (intro mult_left_mono) auto
    moreover have "(dv + 1) * (M - q) = (dv * M + M) - (dv + 1) * q" by (simp add: algebra_simps)
    moreover have "dv * A \<le> dv * M" using A(3) len(4) by (intro mult_left_mono) auto
    ultimately have "len \<le> (dv + 1) * Z" using q len(1) by linarith
    moreover have "len \<le> (dv + 1) * A" using len(1,3) unfolding dvA(2) by linarith
    ultimately have ub: "len \<le> (dv + 1) * min A Z" "len \<le> (dv + 1) * A" unfolding min_def by (auto split: if_split)
    have "dv * min A Z \<le> dv * A" using len(4) by (intro mult_left_mono) auto
    then have lb: "dv * min A Z < len" using len(1) True by linarith
    have "min A Z mod 4 = 0" using A(2) Z(2) by (simp add: min_def)
    moreover have "takes len (min A Z) (dv + 1)" "takes len A (dv + 1)"
      using ub lb len(1) True by (simp_all add: takes_def)
    moreover have "0 < min A Z" "min A Z \<le> A" using A(1) Z(3) by (simp_all add: min_def)
    ultimately show ?thesis using run unfolding A_def[symmetric] by (intro exI[of _ "min A Z"] exI[of _ "dv + 1"] conjI)
  next
    case False
    have run: "optimal_fragment_size len M = Inr A"
      unfolding optimal_fragment_size_def Let_def al dvmd if_not_P[OF False] using A(1) by (cases "A = 0") auto
    have n: "takes len A (if md = 0 then dv else dv + 1)"
    proof (cases "md = 0")
      case True
      then show ?thesis unfolding takes_def if_P[OF True] dvA using len(1) A(1) by linarith
    next
      case False
      then have "0 < md" using len(2) by simp
      then show ?thesis unfolding takes_def if_not_P[OF False] dvA add_diff_cancel_right' using len(1,3) by linarith
    qed
    show ?thesis unfolding A_def[symmetric]
      by (intro exI[of _ A] exI[of _ "if md = 0 then dv else dv + 1"] conjI run n A order.refl)
  qed
qed

text \<open>
  For a limit of at least 4 bytes the chosen size is positive, a multiple of 4 and at most the aligned limit, and
  needs exactly as many fragments as the aligned limit itself.
\<close>

theorem optimal_fragment_size_balanced:
  assumes "4 \<le> M" "0 < len"
  shows "\<exists>z n. optimal_fragment_size len M = Inr z \<and> 0 < z \<and> z mod 4 = 0 \<and> z \<le> M - M mod 4
    \<and> takes len z n \<and> takes len (M - M mod 4) n"
  using optimal_fragment_size_ok[OF assms] .

theorem optimal_fragment_size_balanced_witness:
  "\<exists>z n. optimal_fragment_size 1501 1400 = Inr z \<and> 0 < z \<and> z mod 4 = 0 \<and> z \<le> 1400 - 1400 mod 4
    \<and> takes 1501 z n \<and> takes 1501 (1400 - 1400 mod 4) n"
  by (rule optimal_fragment_size_balanced) simp_all

end
