(* ===== verification/Fragment_Transfer.thy ===== *)
theory Fragment_Transfer
  imports Fragment_Receive Fragment_Size
begin

text \<open>
  Sender and receiver together: what \<open>fragment_outgoing\<close> and \<open>fragment_ready_to_send\<close> emit is the datagram cut
  into pieces, and the receiver rebuilds the datagram from them whatever their order.
\<close>

section \<open>The receiver fed with pieces\<close>

text \<open>Packets arriving one after another, each with its arrival time; the result lists what is passed on.\<close>

fun fragment_receive :: "frame \<Rightarrow> fragment_master \<Rightarrow> (int \<times> buffer) list \<Rightarrow> (buffer list \<times> fragment_master) res" where
  "fragment_receive fr f [] = Inr ([], f)"
| "fragment_receive fr f ((now, p) # ps) =
     bindE (fragment_incoming now fr f p) (\<lambda>(f', out).
     bindE (fragment_receive fr f' ps) (\<lambda>(outs, f''). Inr (out # outs, f'')))"

lemma piece_header_type:
  assumes "cut_ok D z n" "i < n" "0 \<le> s" "s < 256"
  shows "drop_bit FRAG_TYPE_SHIFT (piece_header s z n i) AND FRAG_TYPE_MASK = piece_type n i"
    "piece_type n i \<noteq> FRAG_WHOLE" "piece_type n i = FRAG_YES_NOTLAST \<or> piece_type n i = FRAG_YES_LAST"
    "piece_type n i = FRAG_YES_LAST \<longleftrightarrow> i = n - 1"
proof -
  show t: "piece_type n i = FRAG_YES_NOTLAST \<or> piece_type n i = FRAG_YES_LAST" by (simp add: piece_type_def)
  have z: "0 \<le> int z" "int z < 65536" "int z mod 4 = 0" "i < 32"
    using cut_okD[OF assms(1)] assms(2) by (auto simp flip: of_nat_mod)
  show "drop_bit FRAG_TYPE_SHIFT (piece_header s z n i) AND FRAG_TYPE_MASK = piece_type n i"
    using header_fields(1)[OF t assms(3,4) z(4) z(1-3)] by (simp add: piece_header_def)
  show "piece_type n i \<noteq> FRAG_WHOLE" "piece_type n i = FRAG_YES_LAST \<longleftrightarrow> i = n - 1"
    by (simp_all add: piece_type_def FRAG_WHOLE_def FRAG_YES_LAST_def FRAG_YES_NOTLAST_def)
qed

lemma fragment_incoming_piece:
  assumes get: "fragment_list_get_buf (fm_incoming f) s = Inr (int j, l)" "j < 25" "window_wf cap l"
    and slot: "slot_ready off D z n R (fls_fragments l ! j)" "R \<subseteq> {..<n}"
    and geo: "cut_ok D z n" "i < n" "0 \<le> s" "s < 256"
    and off: "off = FRAME_HEADROOM_ADJ fr FRAME_HEADROOM_MARKER_FRAGMENT" "0 \<le> off" "off + int (length D) \<le> cap"
    and p: "buf_wf p" "buf_content p = be32 (piece_header s z n i) @ piece D z i"
  shows "\<exists>x out. fragment_incoming now fr f p
      = Inr (f\<lparr>fm_incoming := l\<lparr>fls_fragments := (fls_fragments l)[j := x]\<rparr>\<rparr>, out)
    \<and> slot_wf cap x \<and> released off D z n (insert i R) x out"
proof -
  have "b_len p = int (4 + length (piece D z i))" using length_buf_content[OF p(1)] p(2) by simp
  then have len: "0 < b_len p" "4 \<le> b_len p" by simp_all
  have rd: "buf_read p 4 = Inr (Some (be32 (piece_header s z n i)), buf_drop p 4)"
    using buf_read_take[OF p(1), of 4] len p(2) by simp
  have src: "buf_wf (buf_drop p 4)" "buf_content (buf_drop p 4) = piece D z i"
    using buf_drop_wf[OF p(1), of 4] buf_drop_content[OF p(1), of 4] len p(2) by simp_all
  have "fragment_incoming now fr f p = fragment_store now fr (piece_header s z n i) (i = n - 1) f (buf_drop p 4)"
    using piece_header_type[OF geo] by (auto simp: fragment_incoming_def len(1) rd Let_def)
  then show ?thesis using fragment_store_ok[OF get slot geo off src, of now] by simp
qed

lemma receive_ready:
  assumes "fragment_list_get_buf (fm_incoming f) s = Inr (int j, l)" "get_buf_stable l s j" "j < 25" "window_wf cap l"
    and "slot_ready off D z n R (fls_fragments l ! j)" "R \<subseteq> {..<n}"
    and "cut_ok D z n" "0 \<le> s" "s < 256"
    and "off = FRAME_HEADROOM_ADJ fr FRAME_HEADROOM_MARKER_FRAGMENT" "0 \<le> off" "off + int (length D) \<le> cap"
    and "set is \<subseteq> {..<n}" "is \<noteq> []" "R \<union> set is = {..<n}" "R \<union> set (butlast is) \<noteq> {..<n}"
    and "list_all2 (\<lambda>i (t, p). buf_wf p \<and> buf_content p = be32 (piece_header s z n i) @ piece D z i) is ps"
  shows "\<exists>outs f'. fragment_receive fr f ps = Inr (outs, f') \<and> length outs = length is
    \<and> (\<forall>b \<in> set (butlast outs). b_len b = 0) \<and> buf_wf (last outs) \<and> buf_content (last outs) = D
    \<and> window_wf cap (fm_incoming f')"
  using assms
proof (induction "is" arbitrary: f l R ps)
  case (Cons i "is")
  from Cons.prems(17) obtain t p ps' where ps: "ps = (t, p) # ps'" "buf_wf p"
    "buf_content p = be32 (piece_header s z n i) @ piece D z i"
    "list_all2 (\<lambda>i (t, p). buf_wf p \<and> buf_content p = be32 (piece_header s z n i) @ piece D z i) is ps'"
    by (auto simp: list_all2_Cons1)
  have i: "i < n" using Cons.prems(13) by simp
  obtain x out where x: "fragment_incoming t fr f p = Inr (f\<lparr>fm_incoming := l\<lparr>fls_fragments := (fls_fragments l)[j := x]\<rparr>\<rparr>, out)"
    "slot_wf cap x" "released off D z n (insert i R) x out"
    using fragment_incoming_piece[OF Cons.prems(1,3,4,5,6,7) i Cons.prems(8-12) ps(2,3)] by blast
  let ?l = "l\<lparr>fls_fragments := (fls_fragments l)[j := x]\<rparr>"
  let ?f = "f\<lparr>fm_incoming := ?l\<rparr>"
  have wl: "window_wf cap ?l" using window_wf_set[OF Cons.prems(4) x(2)] .
  show ?case
  proof (cases "is = []")
    case True
    then have "insert i R = {..<n}" using Cons.prems(15) by simp
    then show ?thesis using x ps(1,4) wl True by (auto simp: released_def)
  next
    case False
    have R': "insert i R \<noteq> {..<n}" "insert i R \<subseteq> {..<n}"
      using Cons.prems(13,16,6) False by (auto dest: in_set_butlastD)
    have sl: "fls_fragments ?l ! j = x" using Cons.prems(3,4) by (simp add: window_wf_def)
    have rd: "slot_ready off D z n (insert i R) (fls_fragments ?l ! j)" and out: "b_len out = 0"
      using x(3) R'(1) unfolding sl by (auto simp: released_def intro: slot_holds_ready)
    have st: "get_buf_stable ?l s j" using Cons.prems(2) by simp
    have gb: "fragment_list_get_buf (fm_incoming ?f) s = Inr (int j, ?l)" using get_buf_stableD[OF st] by simp
    have is': "set is \<subseteq> {..<n}" "insert i R \<union> set is = {..<n}" "insert i R \<union> set (butlast is) \<noteq> {..<n}"
      using Cons.prems(13,15,16) False by auto
    obtain outs f' where r: "fragment_receive fr ?f ps' = Inr (outs, f')" "length outs = length is"
      "\<forall>b \<in> set (butlast outs). b_len b = 0" "buf_wf (last outs)" "buf_content (last outs) = D" "window_wf cap (fm_incoming f')"
      using Cons.IH[OF gb st Cons.prems(3) wl rd R'(2) Cons.prems(7-12) is'(1) False is'(2,3) ps(4)] by blast
    have "outs \<noteq> []" using r(2) False by auto
    then show ?thesis using x(1) ps(1) r out by auto
  qed
qed simp

section \<open>The sender\<close>

definition sender_wf :: "int \<Rightarrow> fragment_master \<Rightarrow> bool" where
  "sender_wf cap f \<longleftrightarrow> buf_wf (fm_outgoing f) \<and> b_capacity (fm_outgoing f) = cap
     \<and> buf_wf (fm_outgoing_return f) \<and> b_capacity (fm_outgoing_return f) = cap
     \<and> 0 \<le> fm_outgoing_seq_id f \<and> fm_outgoing_seq_id f < 256"

text \<open>Pieces \<open>i\<close> and up of \<open>D\<close> are still to be sent.\<close>

definition sending :: "int \<Rightarrow> int \<Rightarrow> byte list \<Rightarrow> nat \<Rightarrow> nat \<Rightarrow> nat \<Rightarrow> fragment_master \<Rightarrow> bool" where
  "sending cap s D z n i f \<longleftrightarrow> sender_wf cap f \<and> fm_outgoing_seq_id f = s \<and> fm_outgoing_frag_size f = int z
     \<and> fm_outgoing_frag_id f = int i \<and> buf_content (fm_outgoing f) = drop (i * z) D"

text \<open>Repeated calls of \<open>fragment_ready_to_send\<close>, as long as it has something to send.\<close>

fun fragment_drain :: "nat \<Rightarrow> frame \<Rightarrow> fragment_master \<Rightarrow> (buffer list \<times> fragment_master) res" where
  "fragment_drain 0 fr f = Inr ([], f)"
| "fragment_drain (Suc k) fr f =
     bindE (fragment_ready_to_send fr f clear_buf) (\<lambda>(ok, f', p).
       if ok then bindE (fragment_drain k fr f') (\<lambda>(ps, f''). Inr (p # ps, f'')) else Inr ([], f'))"

lemma write_header:
  assumes "buf_wf b" "4 \<le> b_offset b"
  shows "fragment_prepend_flags b t s i z = Inr (buf_push_front b (be32 (fragment_flags t s i z)))"
  using buf_write_prepend_push[OF assms(1), of "be32 (fragment_flags t s i z)"] assms(2)
  by (simp add: fragment_prepend_flags_def)

lemma buf_wf_swap_data:
  "buf_wf p \<Longrightarrow> buf_wf r \<Longrightarrow> b_capacity p = b_capacity r \<Longrightarrow> buf_wf (r\<lparr>b_data := b_data p\<rparr>)"
  by (auto simp: buf_wf_def split: option.splits)

lemma ready_to_send_piece:
  assumes "cut_ok D z n" "i < n" "sending cap s D z n i f" "4 \<le> FRAME_HEADROOM fr" "FRAME_HEADROOM fr + int (length D) \<le> cap"
  shows "\<exists>f' p. fragment_ready_to_send fr f b = Inr (True, f', p) \<and> sending cap s D z n (Suc i) f'
    \<and> fm_incoming f' = fm_incoming f \<and> buf_wf p \<and> buf_content p = be32 (piece_header s z n i) @ piece D z i"
proof -
  note st = assms(3)[unfolded sending_def sender_wf_def]
  let ?out = "fm_outgoing f" and ?h = "FRAME_HEADROOM fr"
  have wf: "buf_wf ?out" "buf_wf (fm_outgoing_return f)" "b_capacity (fm_outgoing_return f) = cap" using st by simp_all
  have len: "b_len ?out = int (length D - i * z)" using length_buf_content[OF wf(1)] st by simp
  note start = piece_start[OF assms(1,2)]
  let ?last = "b_len ?out \<le> int z"
  have last: "?last \<longleftrightarrow> i = n - 1"
  proof
    assume "?last"
    then have "length D \<le> i * z + z" using len by simp
    then show "i = n - 1" using piece_start[OF assms(1), of "Suc i"] assms(2) by (cases "Suc i < n") auto
  next
    assume "i = n - 1"
    then show "?last" using cut_okD(2,7)[OF assms(1)] len by (cases n) auto
  qed
  let ?sz = "if ?last then b_len ?out else int z"
  have pl: "take (nat ?sz) (drop (i * z) D) = piece D z i" by (auto simp: piece_def len)
  have "0 \<le> b_len ?out" "b_len ?out \<le> int (length D)" unfolding len by simp_all
  then have szb: "0 \<le> ?sz" "?sz \<le> b_len ?out" "?sz \<le> int (length D)" by auto
  let ?b0 = "(fm_outgoing_return f)\<lparr>b_len := 0, b_offset := ?h\<rparr>"
  have b0: "buf_init_dowork (fm_outgoing_return f) ?h = (True, ?b0)" "buf_wf ?b0"
    using wf assms(4,5) by (auto intro!: buf_init_dowork_ok buf_init_wf)
  have cont0: "buf_content ?b0 = []" using length_buf_content[OF b0(2)] by simp
  let ?c = "take (nat ?sz) (buf_content ?out)"
  have cc: "?c = piece D z i" using pl st by simp
  have room: "int (length ?c) \<le> buf_room ?b0"
    using assms(5) wf(3) piece_end[OF assms(1,2)] unfolding cc by simp
  have szr: "?sz \<le> buf_room ?b0" using assms(5) wf(3) szb by simp
  let ?b1 = "buf_append ?b0 ?c"
  have cp: "buf_copy_n ?b0 ?out ?sz = Inr (True, ?b1, buf_drop ?out ?sz)"
    using buf_copy_n_moves[OF b0(2) wf(1) szb(1,2) szr] .
  have b1: "buf_wf ?b1" "buf_content ?b1 = piece D z i" "b_offset ?b1 = ?h"
    using buf_append_wf[OF b0(2) room] buf_append_content[OF b0(2) room] cont0 cc by simp_all
  let ?flags = "be32 (piece_header s z n i)"
  let ?p = "buf_push_front ?b1 ?flags"
  have ty: "(if ?last then FRAG_YES_LAST else FRAG_YES_NOTLAST) = piece_type n i" by (simp add: piece_type_def last)
  have fp: "fragment_prepend_flags ?b1 (if ?last then FRAG_YES_LAST else FRAG_YES_NOTLAST) (fm_outgoing_seq_id f)
      (fm_outgoing_frag_id f) (fm_outgoing_frag_size f) = Inr ?p"
    using write_header[OF b1(1)] b1(3) assms(4) st unfolding ty piece_header_def by simp
  have p: "buf_wf ?p" "buf_content ?p = ?flags @ piece D z i"
    using buf_push_front_wf[OF b1(1), of ?flags] buf_push_front_content[OF b1(1), of ?flags] b1(2,3) assms(4) by simp_all
  let ?f = "f\<lparr>fm_outgoing := buf_drop ?out ?sz, fm_outgoing_frag_id := fm_outgoing_frag_id f + 1,
      fm_outgoing_return := (fm_outgoing_return f)\<lparr>b_data := b_data ?p\<rparr>\<rparr>"
  have "0 < int (length D - i * z)" using start by (simp only: of_nat_0_less_iff zero_less_diff)
  then have def: "fragment_outgoing_defined f" unfolding fragment_outgoing_defined_def len .
  have zero: "\<not> ?last \<or> b_len (buf_drop ?out ?sz) = 0" by simp
  have lz: "fm_outgoing_frag_size f = int z" using st by simp
  have run: "fragment_ready_to_send fr f b = Inr (True, ?f, ?p)"
    using def b0(1) cp fp zero unfolding fragment_ready_to_send_def lz by (simp only: Let_def if_True prod.case bindE_Inr assertE_simps)
  have "drop (nat ?sz) (drop (i * z) D) = drop (Suc i * z) D"
    using len by (auto simp: add.commute)
  then have cont: "buf_content (buf_drop ?out ?sz) = drop (Suc i * z) D"
    using buf_drop_content[OF wf(1) szb(1,2)] st by simp
  have ret: "buf_wf ((fm_outgoing_return f)\<lparr>b_data := b_data ?p\<rparr>)"
    using buf_wf_swap_data[OF p(1) wf(2)] by simp
  have "sending cap s D z n (Suc i) ?f"
    using st cont buf_drop_wf[OF wf(1) szb(1,2)] ret wf(3) by (simp add: sending_def sender_wf_def)
  then show ?thesis using run p by auto
qed

lemma drain_pieces:
  assumes "cut_ok D z n" "i \<le> n" "sending cap s D z n i f" "4 \<le> FRAME_HEADROOM fr" "FRAME_HEADROOM fr + int (length D) \<le> cap"
    and "n - i < k"
  shows "\<exists>ps f'. fragment_drain k fr f = Inr (ps, f') \<and> length ps = n - i \<and> \<not> fragment_outgoing_defined f'
    \<and> sender_wf cap f' \<and> (\<forall>j < n - i. buf_wf (ps ! j) \<and> buf_content (ps ! j) = be32 (piece_header s z n (i + j)) @ piece D z (i + j))"
  using assms(2,3,6)
proof (induction k arbitrary: i f)
  case (Suc k)
  show ?case
  proof (cases "i < n")
    case True
    obtain f1 p where p: "fragment_ready_to_send fr f clear_buf = Inr (True, f1, p)" "sending cap s D z n (Suc i) f1"
      "buf_wf p" "buf_content p = be32 (piece_header s z n i) @ piece D z i"
      using ready_to_send_piece[OF assms(1) True Suc.prems(2) assms(4,5)] by blast
    have m: "Suc i \<le> n" "n - Suc i < k" using True Suc.prems(3) by linarith+
    obtain ps f2 where ps: "fragment_drain k fr f1 = Inr (ps, f2)" "length ps = n - Suc i" "\<not> fragment_outgoing_defined f2"
      "sender_wf cap f2" "\<forall>j < n - Suc i. buf_wf (ps ! j) \<and> buf_content (ps ! j) = be32 (piece_header s z n (Suc i + j)) @ piece D z (Suc i + j)"
      using Suc.IH[OF _ p(2)] m by blast
    have "buf_wf ((p # ps) ! j) \<and> buf_content ((p # ps) ! j) = be32 (piece_header s z n (i + j)) @ piece D z (i + j)"
      if "j < n - i" for j
      using that p(3,4) ps(5) by (cases j) auto
    then show ?thesis using p(1) ps True by auto
  next
    case False
    then have "i = n" using Suc.prems(1) by simp
    then have "buf_content (fm_outgoing f) = []" using Suc.prems(2) cut_okD(7)[OF assms(1)] by (simp add: sending_def)
    moreover have wf: "buf_wf (fm_outgoing f)" "sender_wf cap f" using Suc.prems(2) by (simp_all add: sending_def sender_wf_def)
    ultimately have "\<not> fragment_outgoing_defined f"
      using length_buf_content[OF wf(1)] by (simp add: fragment_outgoing_defined_def)
    then show ?thesis using \<open>i = n\<close> wf by (simp add: fragment_ready_to_send_def)
  qed
qed simp

text \<open>A packet that needs cutting and can be sent in 32 pieces.\<close>

definition needs_cutting :: "frame \<Rightarrow> buffer \<Rightarrow> bool" where
  "needs_cutting fr b \<longleftrightarrow> buf_wf b \<and> PAYLOAD_SIZE_DYNAMIC fr < b_len b \<and> b_len b \<le> PAYLOAD_SIZE fr
     \<and> b_len b \<le> 32 * (PAYLOAD_SIZE_DYNAMIC fr - PAYLOAD_SIZE_DYNAMIC fr mod 4)"

lemma optimal_cut:
  assumes "frame_sane fr" "PAYLOAD_SIZE_DYNAMIC fr \<le> 65535" "needs_cutting fr b"
  shows "\<exists>z n. optimal_fragment_size (b_len b) (PAYLOAD_SIZE_DYNAMIC fr) = Inr (int z) \<and> cut_ok (buf_content b) z n"
proof -
  let ?M = "PAYLOAD_SIZE_DYNAMIC fr" and ?L = "b_len b"
  note nc = assms(3)[unfolded needs_cutting_def]
  have M: "4 \<le> ?M" "0 < ?L" using frame_sane_room(5)[OF assms(1)] nc by auto
  obtain z n where z: "optimal_fragment_size ?L ?M = Inr z" "0 < z" "z mod 4 = 0" "z \<le> ?M - ?M mod 4"
    "takes ?L z n" "takes ?L (?M - ?M mod 4) n"
    using optimal_fragment_size_ok[OF M] by (elim exE conjE) (rule that)
  have len: "?L = int (length (buf_content b))" using nc by simp
  have A: "0 < ?M - ?M mod 4" using z(2,4) by simp
  have "0 < n"
  proof (rule ccontr)
    assume "\<not> 0 < n"
    then have "n * z \<le> 0" using z(2) by (simp add: mult_nonpos_nonneg)
    then show False using z(5) M(2) by (simp add: takes_def)
  qed
  moreover have "n \<le> 32"
  proof (rule ccontr)
    assume "\<not> n \<le> 32"
    then have "32 * (?M - ?M mod 4) \<le> (n - 1) * (?M - ?M mod 4)" using A by (intro mult_right_mono) auto
    then show False using z(6) nc by (auto simp: takes_def)
  qed
  ultimately obtain zn nn where nn: "z = int zn" "n = int nn" "0 < nn" "nn \<le> 32" using z(2)
    by (metis nat_0_le less_imp_le of_nat_0_less_iff of_nat_le_iff of_nat_numeral zero_less_imp_eq_int)
  have "int ((nn - 1) * zn) < int (length (buf_content b))"
    using z(5) nn by (simp add: takes_def len of_nat_diff Suc_leI)
  then have lb: "(nn - 1) * zn < length (buf_content b)" by (simp only: of_nat_less_iff)
  have "int (zn mod 4) = 0" using z(3) nn(1) by (simp add: zmod_int)
  moreover have "?M - ?M mod 4 \<le> 65535" using assms(2) M by simp
  ultimately have "cut_ok (buf_content b) zn nn"
    using lb z(3,4,5) nn unfolding takes_def len cut_ok_def by (auto simp flip: of_nat_mult)
  then show ?thesis using z(1) nn(1) by blast
qed

lemma outgoing_pieces:
  assumes "frame_sane fr" "PAYLOAD_SIZE_DYNAMIC fr \<le> 65535" "needs_cutting fr b" "sender_wf (BUF_SIZE fr) f"
  shows "\<exists>z n f1 p ps f2. fragment_outgoing fr f b = Inr (f1, p) \<and> fragment_drain 32 fr f1 = Inr (ps, f2)
    \<and> \<not> fragment_outgoing_defined f2 \<and> sender_wf (BUF_SIZE fr) f2
    \<and> cut_ok (buf_content b) z n \<and> length (p # ps) = n \<and> fm_outgoing_seq_id f1 = (fm_outgoing_seq_id f + 1) mod 256
    \<and> (\<forall>i < n. buf_wf ((p # ps) ! i) \<and> buf_content ((p # ps) ! i)
         = be32 (piece_header (fm_outgoing_seq_id f1) z n i) @ piece (buf_content b) z i)"
proof -
  let ?D = "buf_content b" and ?h = "FRAME_HEADROOM fr" and ?cap = "BUF_SIZE fr" and ?s = "(fm_outgoing_seq_id f + 1) mod 256"
  note nc = assms(3)[unfolded needs_cutting_def]
  note sw = assms(4)[unfolded sender_wf_def]
  have len: "int (length ?D) = b_len b" using nc by simp
  have h: "4 \<le> ?h" "?h + int (length ?D) \<le> ?cap"
    using frame_sane_room(1,2)[OF assms(1), of 0] nc unfolding FRAME_HEADROOM_def len by auto
  obtain z n where z: "optimal_fragment_size (b_len b) (PAYLOAD_SIZE_DYNAMIC fr) = Inr (int z)" "cut_ok ?D z n"
    using optimal_cut[OF assms(1-3)] by blast
  have "n * z \<le> 32 * z" using cut_okD(3)[OF z(2)] by (intro mult_right_mono) auto
  then have "int (length ?D) \<le> int (32 * z)" using cut_okD(7)[OF z(2)] by (simp only: of_nat_le_iff)
  then have fit: "\<not> b_len b > int z * MAX_FRAGS" unfolding len MAX_FRAGS_def by (simp add: mult.commute)
  let ?f1 = "f\<lparr>fm_outgoing_frag_size := int z\<rparr>"
  let ?o = "(fm_outgoing f)\<lparr>b_len := 0, b_offset := ?h\<rparr>"
  have o: "buf_init_dowork (fm_outgoing f) ?h = (True, ?o)" "buf_wf ?o"
    using sw h by (auto intro!: buf_init_dowork_ok buf_init_wf)
  have room: "int (length ?D) \<le> buf_room ?o" using h(2) sw by simp
  let ?o1 = "buf_append ?o ?D"
  have cp: "buf_copy ?o b = Inr (True, ?o1)" using nc buf_write_append[OF o(2) room] by (simp add: buf_copy_def)
  have o1: "buf_wf ?o1" "buf_content ?o1 = ?D"
    using buf_append_wf[OF o(2) room] buf_append_content[OF o(2) room] length_buf_content[OF o(2)] by simp_all
  have seq: "modulo_add (fm_outgoing_seq_id f) 1 N_SEQ_ID = Inr ?s" using sw by (simp add: modulo_add_ok N_SEQ_ID_def)
  let ?f2 = "?f1\<lparr>fm_outgoing := ?o1, fm_outgoing_seq_id := ?s, fm_outgoing_frag_id := 0\<rparr>"
  have sd: "sending ?cap ?s ?D z n 0 ?f2" using sw o1 by (simp add: sending_def sender_wf_def)
  obtain f3 p where p: "fragment_ready_to_send fr ?f2 (b\<lparr>b_len := 0\<rparr>) = Inr (True, f3, p)" "sending ?cap ?s ?D z n (Suc 0) f3"
    "buf_wf p" "buf_content p = be32 (piece_header ?s z n 0) @ piece ?D z 0"
    using ready_to_send_piece[OF z(2) cut_okD(2)[OF z(2)] sd h] by blast
  have pos: "0 < b_len b" "PAYLOAD_SIZE_DYNAMIC fr < b_len b" using nc frame_sane_room(5)[OF assms(1)] by auto
  have run: "fragment_outgoing fr f b = Inr (f3, p)"
    using pos z(1) fit o(1) cp seq p(1) by (simp add: fragment_outgoing_def Let_def)
  have "Suc 0 \<le> n" "n - Suc 0 < 32" using cut_okD(2,3)[OF z(2)] by auto
  from drain_pieces[OF z(2) this(1) p(2) h this(2)] obtain ps f4 where ps: "fragment_drain 32 fr f3 = Inr (ps, f4)"
    "length ps = n - Suc 0" "\<not> fragment_outgoing_defined f4" "sender_wf ?cap f4"
    "\<forall>j < n - Suc 0. buf_wf (ps ! j) \<and> buf_content (ps ! j) = be32 (piece_header ?s z n (Suc 0 + j)) @ piece ?D z (Suc 0 + j)" by blast
  have s: "fm_outgoing_seq_id f3 = ?s" using p(2) by (simp add: sending_def)
  have "buf_wf ((p # ps) ! i) \<and> buf_content ((p # ps) ! i) = be32 (piece_header ?s z n i) @ piece ?D z i" if "i < n" for i
    using that p(3,4) ps(5) by (cases i) auto
  then show ?thesis using run ps(1-4) z(2) s \<open>Suc 0 \<le> n\<close>
    by (intro exI[of _ z] exI[of _ n] exI[of _ f3] exI[of _ p] exI[of _ ps] exI[of _ f4]) simp
qed

end
