(* ===== verification/Fragment_Correct.thy ===== *)
theory Fragment_Correct
  imports Fragment_Transfer
begin

text \<open>
  Fragmentation end to end: initialisation, cutting and reassembly.
\<close>

section \<open>Initialisation\<close>

lemma list_buf_init_ok:
  assumes "0 \<le> sz" "sz < 2097152" "\<forall>x \<in> set xs. \<not> fr_defined x"
  shows "\<exists>ys. list_buf_init sz xs = Inr ys \<and> length ys = length xs \<and> (\<forall>y \<in> set ys. slot_wf sz y \<and> \<not> fr_defined y)"
  using assms(3)
proof (induction xs)
  case (Cons x xs)
  then obtain ys where "list_buf_init sz xs = Inr ys" "length ys = length xs" "\<forall>y \<in> set ys. slot_wf sz y \<and> \<not> fr_defined y" by auto
  then show ?case using alloc_buf_wf[OF assms(1,2)] Cons.prems by (auto simp: slot_wf_def)
qed simp

text \<open>Nothing is being reassembled.\<close>

definition window_fresh :: "fragment_list \<Rightarrow> bool" where
  "window_fresh l \<longleftrightarrow> (\<forall>x \<in> set (fls_fragments l). \<not> fr_defined x)"

lemma fragment_start:
  assumes "frame_sane fr"
  shows "\<exists>f. fragment_frame_init (fst (fragment_init now rnd fr0)) fr = Inr f \<and> sender_wf (BUF_SIZE fr) f
    \<and> window_wf (BUF_SIZE fr) (fm_incoming f) \<and> window_fresh (fm_incoming f)"
proof -
  let ?f = "fst (fragment_init now rnd fr0)" and ?cap = "BUF_SIZE fr"
  have cap: "0 \<le> ?cap" "?cap < 2097152" using frame_sane_room[OF assms] by simp_all
  obtain ys where ys: "list_buf_init ?cap (fls_fragments (fm_incoming ?f)) = Inr ys" "length ys = 25"
    "\<forall>y \<in> set ys. slot_wf ?cap y \<and> \<not> fr_defined y"
    using list_buf_init_ok[OF cap, of "fls_fragments (fm_incoming ?f)"]
    by (auto simp: fragment_init_def clear_fragment_def N_FRAG_BUF_def)
  obtain o1 where o1: "alloc_buf ?cap = Inr o1" "buf_wf o1" "b_capacity o1 = ?cap" using alloc_buf_wf[OF cap] by blast
  have seq: "rnd AND 255 = rnd mod 256"
    using take_bit_eq_mask[of 8 rnd] by (simp add: take_bit_eq_mod mask_eq_exp_minus_1)
  show ?thesis using ys o1
    by (simp add: fragment_frame_init_def fragment_list_buf_init_def)
      (simp add: fragment_init_def sender_wf_def window_wf_def window_fresh_def N_SEQ_ID_def seq)
qed

section \<open>Properties\<close>

text \<open>
  A packet that exceeds the fragment limit but fits 32 fragments is cut without any assertion failing: the first
  fragment and those later calls hand out carry its bytes in order and nothing else, behind headers
  of one and the same sequence number, and nothing is left to send.
\<close>

theorem fragment_send_pieces:
  assumes "frame_sane fr" "PAYLOAD_SIZE_DYNAMIC fr \<le> 65535" "needs_cutting fr b" "sender_wf (BUF_SIZE fr) f"
  shows "\<exists>f1 p ps f2. fragment_outgoing fr f b = Inr (f1, p) \<and> fragment_drain 32 fr f1 = Inr (ps, f2)
    \<and> \<not> fragment_outgoing_defined f2 \<and> length (p # ps) \<le> 32
    \<and> concat (map (\<lambda>q. drop 4 (buf_content q)) (p # ps)) = buf_content b"
proof -
  obtain z n f1 p ps f2 where r: "fragment_outgoing fr f b = Inr (f1, p)" "fragment_drain 32 fr f1 = Inr (ps, f2)"
    "\<not> fragment_outgoing_defined f2" "cut_ok (buf_content b) z n" "length (p # ps) = n"
    "\<forall>i < n. buf_wf ((p # ps) ! i) \<and> buf_content ((p # ps) ! i)
         = be32 (piece_header (fm_outgoing_seq_id f1) z n i) @ piece (buf_content b) z i"
    using outgoing_pieces[OF assms] by blast
  have "map (\<lambda>q. drop 4 (buf_content q)) (p # ps) = map (piece (buf_content b) z) [0..<n]"
    using r(5,6) by (intro nth_equalityI) (auto simp del: length_Cons list.map)
  moreover have "concat (map (piece D z) [0..<k]) = take (k * z) D" for k D
    by (induction k) (simp_all add: piece_def take_add[symmetric] add.commute)
  ultimately have "concat (map (\<lambda>q. drop 4 (buf_content q)) (p # ps)) = buf_content b"
    using cut_okD(7)[OF r(4)] by simp
  then show ?thesis using r cut_okD(3)[OF r(4)] by auto
qed

definition packet_example :: buffer where
  "packet_example = \<lparr>b_capacity = 1500, b_offset = 60, b_len = 1400, b_data = Some (replicate 1500 7)\<rparr>"

lemma packet_example_cut: "needs_cutting frame_example packet_example" "PAYLOAD_SIZE_DYNAMIC frame_example \<le> 65535"
  by (simp_all add: needs_cutting_def packet_example_def buf_wf_def BUF_SIZE_MAX_def frame_example_def
      PAYLOAD_SIZE_DYNAMIC_def PAYLOAD_SIZE_def)

theorem fragment_send_pieces_witness:
  "\<exists>f f1 p ps f2. fragment_frame_init (fst (fragment_init 5 77 frame_example)) frame_example = Inr f
    \<and> fragment_outgoing frame_example f packet_example = Inr (f1, p) \<and> fragment_drain 32 frame_example f1 = Inr (ps, f2)
    \<and> \<not> fragment_outgoing_defined f2 \<and> length (p # ps) \<le> 32
    \<and> concat (map (\<lambda>q. drop 4 (buf_content q)) (p # ps)) = buf_content packet_example"
  using fragment_start[OF frame_example_sane, of 5 77 frame_example]
    fragment_send_pieces[OF frame_example_sane packet_example_cut(2,1)] by metis

text \<open>
  The slot the receiver would use for a sequence number is not busy with another datagram; a number
  that moves the window always finds such a slot.
\<close>

definition seq_fresh :: "fragment_list \<Rightarrow> int \<Rightarrow> bool" where
  "seq_fresh l s \<longleftrightarrow> (case fragment_list_get_buf l s of
      Inl _ \<Rightarrow> False | Inr (j, l') \<Rightarrow> \<not> fr_defined (fls_fragments l' ! nat j))"

lemma seq_fresh_window: "window_wf cap l \<Longrightarrow> window_fresh l \<Longrightarrow> 0 \<le> s \<Longrightarrow> s < 256 \<Longrightarrow> seq_fresh l s"
proof -
  assume a: "window_wf cap l" "window_fresh l" "0 \<le> s" "s < 256"
  obtain i l' where g: "fragment_list_get_buf l s = Inr (int i, l')" "i < 25" "window_wf cap l'"
    "l' = l \<or> \<not> fr_defined (fls_fragments l' ! i)" using window_get_buf_ok[OF a(1,3,4)] by blast
  then show ?thesis using a(1,2) by (auto simp: seq_fresh_def window_fresh_def window_wf_def)
qed

text \<open>
  C33. The fragments of a packet reach a receiver in any order, some of them more than once, at any times and in buffers
  of their own: as long as some fragment is missing nothing is passed on, and the arrival of the
  last missing one passes on exactly the packet's bytes.
\<close>

theorem fragment_reassembly:
  assumes send: "frame_sane fr" "PAYLOAD_SIZE_DYNAMIC fr \<le> 65535" "needs_cutting fr b" "sender_wf (BUF_SIZE fr) f"
    "fragment_outgoing fr f b = Inr (f1, p)" "fragment_drain 32 fr f1 = Inr (ps, f2)"
    and recv: "frame_sane gr" "window_wf (BUF_SIZE gr) (fm_incoming g)" "b_len b \<le> PAYLOAD_SIZE gr"
    "seq_fresh (fm_incoming g) (fm_outgoing_seq_id f1)"
    and order: "set is = {..<length (p # ps)}" "set (butlast is) \<noteq> {..<length (p # ps)}"
    "list_all2 (\<lambda>i (t, q). buf_wf q \<and> buf_content q = buf_content ((p # ps) ! i)) is arrivals"
  shows "\<exists>outs g'. fragment_receive gr g arrivals = Inr (outs, g') \<and> (\<forall>q \<in> set (butlast outs). b_len q = 0)
    \<and> buf_wf (last outs) \<and> buf_content (last outs) = buf_content b \<and> window_wf (BUF_SIZE gr) (fm_incoming g')"
proof -
  let ?D = "buf_content b" and ?s = "fm_outgoing_seq_id f1" and ?cap = "BUF_SIZE gr"
  let ?off = "FRAME_HEADROOM_ADJ gr FRAME_HEADROOM_MARKER_FRAGMENT"
  obtain z n where c: "cut_ok ?D z n" "length (p # ps) = n" "?s = (fm_outgoing_seq_id f + 1) mod 256"
    "\<forall>i < n. buf_content ((p # ps) ! i) = be32 (piece_header ?s z n i) @ piece ?D z i"
    using outgoing_pieces[OF send(1-4)] unfolding send(5) using send(6) by auto
  have s: "0 \<le> ?s" "?s < 256" unfolding c(3) by simp_all
  have len: "int (length ?D) = b_len b" using send(3) by (simp add: needs_cutting_def)
  have off: "0 \<le> ?off" "?off + int (length ?D) \<le> ?cap"
    using frame_sane_room(1,2)[OF recv(1), of FRAME_HEADROOM_MARKER_FRAGMENT] recv(3) by (simp_all add: FRAME_HEADROOM_ADJ_def len)
  obtain j l where g: "fragment_list_get_buf (fm_incoming g) ?s = Inr (int j, l)" "j < 25" "window_wf ?cap l" "get_buf_stable l ?s j"
    using window_get_buf_ok[OF recv(2) s] by blast
  have fresh: "\<not> fr_defined (fls_fragments l ! j)" using recv(4) g(1) by (simp add: seq_fresh_def)
  then have rdy: "slot_ready ?off ?D z n {} (fls_fragments l ! j)" by (simp add: slot_ready_def)
  have n0: "{} \<noteq> {..<n}" using cut_okD(2)[OF c(1)] by auto
  note ord = order(1,2)[unfolded c(2)]
  have "is \<noteq> []" using ord(1) n0 by (metis list.set(1))
  then have ne: "set is \<subseteq> {..<n}" "is \<noteq> []" "{} \<union> set is = {..<n}" "{} \<union> set (butlast is) \<noteq> {..<n}"
    using ord by (simp_all only: Un_empty_left order.refl not_False_eq_True)
  have "list_all2 (\<lambda>i (t, q). buf_wf q \<and> buf_content q = be32 (piece_header ?s z n i) @ piece ?D z i) is arrivals"
  proof (rule list_all2_all_nthI)
    show "length is = length arrivals" using order(3) by (rule list_all2_lengthD)
    fix k assume k: "k < length is"
    obtain P where P: "p # ps = P" by blast
    have "is ! k < n" using ne(1) nth_mem[OF k] by blast
    then show "case arrivals ! k of (t, q) \<Rightarrow> buf_wf q \<and> buf_content q = be32 (piece_header ?s z n (is ! k)) @ piece ?D z (is ! k)"
      using list_all2_nthD[OF order(3) k] c(4) unfolding P by (cases "arrivals ! k") simp
  qed
  from receive_ready[OF g(1,4,2,3) rdy empty_subsetI c(1) s refl off ne this] show ?thesis by blast
qed

theorem fragment_reassembly_witness:
  "\<exists>f f1 p ps f2 outs g'. fragment_frame_init (fst (fragment_init 5 77 frame_example)) frame_example = Inr f
    \<and> fragment_outgoing frame_example f packet_example = Inr (f1, p) \<and> fragment_drain 32 frame_example f1 = Inr (ps, f2)
    \<and> fragment_receive frame_example f (map (Pair 9) (rev (p # ps))) = Inr (outs, g')
    \<and> buf_content (last outs) = buf_content packet_example"
proof -
  let ?fr = frame_example
  obtain f where f: "fragment_frame_init (fst (fragment_init 5 77 ?fr)) ?fr = Inr f" "sender_wf (BUF_SIZE ?fr) f"
    "window_wf (BUF_SIZE ?fr) (fm_incoming f)" "window_fresh (fm_incoming f)" using fragment_start[OF frame_example_sane] by blast
  obtain n f1 p ps f2 where r: "fragment_outgoing ?fr f packet_example = Inr (f1, p)" "fragment_drain 32 ?fr f1 = Inr (ps, f2)"
    "length (p # ps) = n" "fm_outgoing_seq_id f1 = (fm_outgoing_seq_id f + 1) mod 256" "\<forall>i < n. buf_wf ((p # ps) ! i)"
    using outgoing_pieces[OF frame_example_sane packet_example_cut(2,1) f(2)] by blast
  have s: "seq_fresh (fm_incoming f) (fm_outgoing_seq_id f1)"
    by (rule seq_fresh_window[OF f(3,4)]) (simp_all add: r(4))
  have b: "b_len packet_example \<le> PAYLOAD_SIZE ?fr"
    by (simp add: packet_example_def PAYLOAD_SIZE_def frame_example_def)
  obtain P where P: "p # ps = P" by blast
  have n: "0 < n" using r(3) by auto
  have rv: "rev [0..<n] = rev [1..<n] @ [0]" using n by (simp add: upt_conv_Cons)
  have o1: "set (rev [0..<n]) = {..<length (p # ps)}" using r(3) by auto
  have o2: "set (butlast (rev [0..<n])) \<noteq> {..<length (p # ps)}" unfolding rv r(3) using n by (auto simp: set_eq_iff)
  have o3: "list_all2 (\<lambda>i (t, q). buf_wf q \<and> buf_content q = buf_content ((p # ps) ! i)) (rev [0..<n]) (map (Pair (9::int)) (rev (p # ps)))"
    using r(3,5) unfolding P by (intro list_all2_all_nthI) (simp_all add: rev_nth)
  show ?thesis
    using fragment_reassembly[OF frame_example_sane packet_example_cut(2,1) f(2) r(1,2) frame_example_sane f(3) b s o1 o2 o3] f(1) r(1,2)
    by blast
qed

lemma zero_len_wf: "buf_wf b \<Longrightarrow> buf_wf (b\<lparr>b_len := 0\<rparr>)"
  by (rule buf_set_len_wf) (auto elim: buf_wfE)

lemma fragment_store_safe:
  assumes "frame_sane gr" "window_wf (BUF_SIZE gr) (fm_incoming g)" "buf_wf src"
  shows "\<exists>g' out. fragment_store now gr flags is_last g src = Inr (g', out) \<and> buf_wf out \<and> window_wf (BUF_SIZE gr) (fm_incoming g')"
proof -
  let ?cap = "BUF_SIZE gr" and ?off = "FRAME_HEADROOM_ADJ gr FRAME_HEADROOM_MARKER_FRAGMENT"
  define s where "s = uint (drop_bit FRAG_SEQ_ID_SHIFT flags AND FRAG_SEQ_ID_MASK)"
  define k where "k = int (unat (drop_bit FRAG_ID_SHIFT flags AND FRAG_ID_MASK))"
  define z where "z = (if is_last then uint (push_bit FRAG_SIZE_ROUND_SHIFT (drop_bit FRAG_SIZE_SHIFT flags AND FRAG_SIZE_MASK))
                else b_len src)"
  have "uint (take_bit 8 w) < 256" for w :: u32 using take_bit_int_less_exp[of 8 "uint w"] by (simp add: unsigned_take_bit_eq)
  then have s: "0 \<le> s" "s < 256" by (simp_all add: s_def FRAG_SEQ_ID_MASK_def mask_numerals flip: take_bit_eq_mask)
  obtain j l where g: "fragment_list_get_buf (fm_incoming g) s = Inr (int j, l)" "j < 25" "window_wf ?cap l"
    using window_get_buf_ok[OF assms(2) s] by blast
  let ?x = "fls_fragments l ! j"
  have xw: "slot_wf ?cap ?x" using window_wf_nth[OF g(3,2)] .
  have len: "length (fls_fragments l) = 25" using g(3) by (simp add: window_wf_def)
  note arr = arr_get_nat[of j "fls_fragments l", unfolded len, OF g(2)] arr_set_nat[of j "fls_fragments l", unfolded len, OF g(2)]
  have off: "0 \<le> ?off" "?off \<le> ?cap"
    using frame_sane_room(1,2)[OF assms(1), of FRAME_HEADROOM_MARKER_FRAGMENT] frame_sane_room(5,6)[OF assms(1)] by (simp_all add: FRAME_HEADROOM_ADJ_def)
  let ?init = "if \<not> fr_defined ?x \<or> fr_max_frag_size ?x \<noteq> z
               then (let (ok, b) = buf_init_dowork (fr_buf ?x) ?off in
                     bindE (assertE ok) (\<lambda>_. Inr (?x\<lparr>fr_defined := True, fr_max_frag_size := z, fr_map := 0, fr_buf := b\<rparr>)))
               else Inr ?x"
  obtain x1 where x1: "?init = Inr x1" "slot_wf ?cap x1"
  proof (cases "\<not> fr_defined ?x \<or> fr_max_frag_size ?x \<noteq> z")
    case True
    have "buf_init_dowork (fr_buf ?x) ?off = (True, (fr_buf ?x)\<lparr>b_len := 0, b_offset := ?off\<rparr>)"
      using xw off by (intro buf_init_dowork_ok) (simp_all add: slot_wf_def)
    then show ?thesis using that True xw off buf_init_wf[of "fr_buf ?x" ?off] by (simp add: slot_wf_def)
  qed (use xw that in simp)
  obtain ok b where b: "buf_copy_range (fr_buf x1) (k * z) src 0 (b_len src) = Inr (ok, b)" "buf_wf b" "b_capacity b = ?cap"
    using buf_copy_range_safe[of "fr_buf x1" src "k * z" 0 "b_len src"] x1(2) assms(3) by (auto simp: slot_wf_def)
  have wl: "window_wf ?cap (l\<lparr>fls_fragments := (fls_fragments l)[j := y]\<rparr>)" if "fr_buf y = b" for y
    using that b(2,3) window_wf_set[OF g(3)] by (simp add: slot_wf_def)
  show ?thesis
    unfolding fragment_store_def s_def[symmetric] k_def[symmetric] z_def[symmetric] Let_def[of s] Let_def[of z]
    using g arr x1(1) b wl zero_len_wf[OF assms(3)] by (cases ok) (auto simp: Let_def s_def k_def)
qed

text \<open>
  C34. Whatever bytes arrive, at whatever times: no packet makes the reassembly code fault, fail an assertion or damage
  the window, and every buffer it passes on is well formed.
\<close>

theorem fragment_incoming_safe:
  assumes "frame_sane gr" "window_wf (BUF_SIZE gr) (fm_incoming g)" "\<forall>(t, q) \<in> set arrivals. buf_wf q"
  shows "\<exists>outs g'. fragment_receive gr g arrivals = Inr (outs, g') \<and> (\<forall>q \<in> set outs. buf_wf q)
    \<and> window_wf (BUF_SIZE gr) (fm_incoming g')"
  using assms(2,3)
proof (induction arrivals arbitrary: g)
  case (Cons a arrivals)
  obtain t q where a: "a = (t, q)" "buf_wf q" using Cons.prems(2) by (cases a) auto
  have "\<exists>g' out. fragment_incoming t gr g q = Inr (g', out) \<and> buf_wf out \<and> window_wf (BUF_SIZE gr) (fm_incoming g')"
  proof (cases "b_len q < 4")
    case True
    then show ?thesis using Cons.prems(1) a(2) zero_len_wf[OF a(2)]
      by (simp add: fragment_incoming_def buf_read_short)
  next
    case False
    then have d: "buf_read q 4 = Inr (Some (take 4 (buf_content q)), buf_drop q 4)" "buf_wf (buf_drop q 4)"
      using buf_read_take[OF a(2), of 4] buf_drop_wf[OF a(2), of 4] by simp_all
    then show ?thesis using Cons.prems(1) zero_len_wf[OF d(2)] fragment_store_safe[OF assms(1) Cons.prems(1) d(2)] False
      by (auto simp: fragment_incoming_def Let_def)
  qed
  then obtain g1 out where g1: "fragment_incoming t gr g q = Inr (g1, out)" "buf_wf out" "window_wf (BUF_SIZE gr) (fm_incoming g1)"
    by blast
  obtain outs g2 where "fragment_receive gr g1 arrivals = Inr (outs, g2)" "\<forall>q \<in> set outs. buf_wf q" "window_wf (BUF_SIZE gr) (fm_incoming g2)"
    using Cons.IH[OF g1(3)] Cons.prems(2) by auto
  then show ?case using a(1) g1 by auto
qed simp

theorem fragment_incoming_safe_witness:
  "\<exists>f outs g'. fragment_frame_init (fst (fragment_init 5 77 frame_example)) frame_example = Inr f
    \<and> fragment_receive frame_example f [(3, packet_example), (4, packet_example)] = Inr (outs, g')
    \<and> window_wf (BUF_SIZE frame_example) (fm_incoming g')"
proof -
  obtain f where f: "fragment_frame_init (fst (fragment_init 5 77 frame_example)) frame_example = Inr f"
    "window_wf (BUF_SIZE frame_example) (fm_incoming f)" using fragment_start[OF frame_example_sane] by blast
  have "\<forall>(t, q) \<in> set [(3::int, packet_example), (4, packet_example)]. buf_wf q"
    using packet_example_cut(1) by (simp add: needs_cutting_def)
  from fragment_incoming_safe[OF frame_example_sane f(2) this] f(1) show ?thesis by blast
qed

end
