(* ===== verification/Keyed_Store.thy ===== *)
theory Keyed_Store
  imports Prelude
begin

text \<open>
  The contract of a mutable table with lookup, insertion and removal under a key equivalence, and what it
  gives a client: every sequence of calls returns what the same calls return on a plain function from
  keys to values.
\<close>

datatype ('k, 'v) store_op = Lookup 'k | Insert 'k 'v bool | Remove 'k

datatype 'v store_result = Found "'v option" | Changed bool

fun ref_op :: "('k \<Rightarrow> 'k \<Rightarrow> bool) \<Rightarrow> ('k \<Rightarrow> 'v option) \<Rightarrow> ('k, 'v) store_op \<Rightarrow> 'v store_result \<times> ('k \<Rightarrow> 'v option)" where
  "ref_op same f (Lookup k) = (Found (f k), f)"
| "ref_op same f (Insert k v replace) =
     (if f k \<noteq> None \<and> \<not> replace then (Changed False, f)
      else (Changed True, \<lambda>x. if same k x then Some v else f x))"
| "ref_op same f (Remove k) = (Changed (f k \<noteq> None), \<lambda>x. if same k x then None else f x)"

fun ref_run :: "('k \<Rightarrow> 'k \<Rightarrow> bool) \<Rightarrow> ('k \<Rightarrow> 'v option) \<Rightarrow> ('k, 'v) store_op list \<Rightarrow> 'v store_result list \<times> ('k \<Rightarrow> 'v option)" where
  "ref_run same f [] = ([], f)"
| "ref_run same f (op # ops) =
     (case ref_op same f op of (r, f') \<Rightarrow> (case ref_run same f' ops of (rs, f'') \<Rightarrow> (r # rs, f'')))"

fun store_run :: "('s \<Rightarrow> ('k, 'v) store_op \<Rightarrow> ('v store_result \<times> 's) res) \<Rightarrow> 's \<Rightarrow> ('k, 'v) store_op list
    \<Rightarrow> ('v store_result list \<times> 's) res" where
  "store_run step s [] = Inr ([], s)"
| "store_run step s (op # ops) =
     bindE (step s op) (\<lambda>(r, s'). bindE (store_run step s' ops) (\<lambda>(rs, s''). Inr (r # rs, s'')))"

locale keyed_store =
  fixes inv :: "'s \<Rightarrow> bool"
    and content :: "'s \<Rightarrow> 'k \<Rightarrow> 'v option"
    and same :: "'k \<Rightarrow> 'k \<Rightarrow> bool"
    and step :: "'s \<Rightarrow> ('k, 'v) store_op \<Rightarrow> ('v store_result \<times> 's) res"
  assumes step_ref: "inv s \<Longrightarrow> \<exists>r s'. step s op = Inr (r, s') \<and> inv s' \<and> ref_op same (content s) op = (r, content s')"
begin

lemma run_ref:
  assumes "inv s"
  shows "\<exists>rs s'. store_run step s ops = Inr (rs, s') \<and> inv s' \<and> ref_run same (content s) ops = (rs, content s')"
  using assms
proof (induction ops arbitrary: s)
  case (Cons op ops)
  obtain r s1 where st: "step s op = Inr (r, s1)" "inv s1" "ref_op same (content s) op = (r, content s1)"
    using step_ref[OF Cons.prems, of op] by blast
  obtain rs s2 where "store_run step s1 ops = Inr (rs, s2)" "inv s2" "ref_run same (content s1) ops = (rs, content s2)"
    using Cons.IH[OF st(2)] by blast
  then show ?case using st by simp
qed simp

end

end
