(* ===== verification/Hash_List.thy ===== *)
theory Hash_List
  imports Integers Keyed_Store
begin

text \<open>
  The hash tables of the server (\<open>list.h\<close>, \<open>list.c\<close>): chained buckets with move-to-front lookup, iterators
  that mark elements and sweep a bucket when they leave it, and Jenkins' hash function. A bucket's
  linked list is a list of elements; the hash and comparison functions are part of the table, as in
  the code. Comparing with a marked element, whose key is \<open>NULL\<close>, is a memory fault.
\<close>

section \<open>Tables\<close>

record ('k, 'v) hash_element =
  he_value :: 'v
  he_key :: "'k option"
  he_hash_value :: u32

type_synonym ('k, 'v) bucket = "('k, 'v) hash_element list"

record ('k, 'v) hash =
  h_n_buckets :: int
  h_n_elements :: int
  h_mask :: int
  h_iv :: u32
  h_hash_function :: "'k \<Rightarrow> u32 \<Rightarrow> u32"
  h_compare_function :: "'k \<Rightarrow> 'k \<Rightarrow> bool"
  h_buckets :: "('k, 'v) bucket list"

definition hash_init :: "int \<Rightarrow> u32 \<Rightarrow> ('k \<Rightarrow> u32 \<Rightarrow> u32) \<Rightarrow> ('k \<Rightarrow> 'k \<Rightarrow> bool) \<Rightarrow> ('k, 'v) hash res" where
  "hash_init n_buckets iv hash_function compare_function =
     bindE (assertE (n_buckets > 0)) (\<lambda>_.
     bindE (adjust_power_of_2 (word_of_int n_buckets)) (\<lambda>n.
     let nb = sint (ucast n :: u32) in
     Inr \<lparr>h_n_buckets = nb, h_n_elements = 0, h_mask = nb - 1, h_iv = iv, h_hash_function = hash_function,
          h_compare_function = compare_function, h_buckets = replicate (nat nb) []\<rparr>))"

definition hash_value :: "('k, 'v) hash \<Rightarrow> 'k \<Rightarrow> u32" where
  "hash_value h key = h_hash_function h key (h_iv h)"

definition hash_n_elements :: "('k, 'v) hash \<Rightarrow> int" where
  "hash_n_elements h = h_n_elements h"

definition hash_n_buckets :: "('k, 'v) hash \<Rightarrow> int" where
  "hash_n_buckets h = h_n_buckets h"

text \<open>A bucket is designated by its index.\<close>

definition hash_bucket :: "('k, 'v) hash \<Rightarrow> u32 \<Rightarrow> int" where
  "hash_bucket h hv = uint (hv AND word_of_int (h_mask h))"

definition element_matches :: "('k, 'v) hash \<Rightarrow> 'k \<Rightarrow> u32 \<Rightarrow> ('k, 'v) hash_element \<Rightarrow> bool res" where
  "element_matches h key hv he =
     (if hv = he_hash_value he
      then (case he_key he of None \<Rightarrow> Inl Mem_Fault | Some k \<Rightarrow> Inr (h_compare_function h key k))
      else Inr False)"

text \<open>The elements passed so far precede the rest; a hit moves to the head.\<close>

fun lookup_loop :: "('k, 'v) hash \<Rightarrow> 'k \<Rightarrow> u32 \<Rightarrow> ('k, 'v) bucket \<Rightarrow> ('k, 'v) bucket
    \<Rightarrow> (('k, 'v) hash_element option \<times> ('k, 'v) bucket) res" where
  "lookup_loop h key hv pre [] = Inr (None, pre)"
| "lookup_loop h key hv pre (he # rest) =
     bindE (element_matches h key hv he) (\<lambda>m.
       if m then Inr (Some he, he # pre @ rest) else lookup_loop h key hv (pre @ [he]) rest)"

definition hash_lookup_fast :: "('k, 'v) hash \<Rightarrow> int \<Rightarrow> 'k \<Rightarrow> u32
    \<Rightarrow> (('k, 'v) hash_element option \<times> ('k, 'v) hash) res" where
  "hash_lookup_fast h bi key hv =
     bindE (arr_get (h_buckets h) bi) (\<lambda>b.
     bindE (lookup_loop h key hv [] b) (\<lambda>(r, b').
     bindE (arr_set (h_buckets h) bi b') (\<lambda>bs. Inr (r, h\<lparr>h_buckets := bs\<rparr>))))"

definition hash_lookup :: "('k, 'v) hash \<Rightarrow> 'k \<Rightarrow> ('v option \<times> ('k, 'v) hash) res" where
  "hash_lookup h key =
     (let hv = hash_value h key in
      bindE (hash_lookup_fast h (hash_bucket h hv) key hv) (\<lambda>(r, h'). Inr (map_option he_value r, h')))"

fun remove_loop :: "('k, 'v) hash \<Rightarrow> 'k \<Rightarrow> u32 \<Rightarrow> ('k, 'v) bucket \<Rightarrow> ('k, 'v) bucket
    \<Rightarrow> (bool \<times> ('k, 'v) bucket) res" where
  "remove_loop h key hv pre [] = Inr (False, pre)"
| "remove_loop h key hv pre (he # rest) =
     bindE (element_matches h key hv he) (\<lambda>m.
       if m then Inr (True, pre @ rest) else remove_loop h key hv (pre @ [he]) rest)"

definition hash_remove_fast :: "('k, 'v) hash \<Rightarrow> int \<Rightarrow> 'k \<Rightarrow> u32 \<Rightarrow> (bool \<times> ('k, 'v) hash) res" where
  "hash_remove_fast h bi key hv =
     bindE (arr_get (h_buckets h) bi) (\<lambda>b.
     bindE (remove_loop h key hv [] b) (\<lambda>(r, b').
     bindE (arr_set (h_buckets h) bi b') (\<lambda>bs.
       Inr (r, h\<lparr>h_buckets := bs, h_n_elements := (if r then h_n_elements h - 1 else h_n_elements h)\<rparr>))))"

definition hash_remove :: "('k, 'v) hash \<Rightarrow> 'k \<Rightarrow> (bool \<times> ('k, 'v) hash) res" where
  "hash_remove h key = (let hv = hash_value h key in hash_remove_fast h (hash_bucket h hv) key hv)"

definition hash_add_fast :: "('k, 'v) hash \<Rightarrow> int \<Rightarrow> 'k \<Rightarrow> u32 \<Rightarrow> 'v \<Rightarrow> ('k, 'v) hash res" where
  "hash_add_fast h bi key hv v =
     bindE (arr_get (h_buckets h) bi) (\<lambda>b.
     bindE (arr_set (h_buckets h) bi (\<lparr>he_value = v, he_key = Some key, he_hash_value = hv\<rparr> # b)) (\<lambda>bs.
       Inr (h\<lparr>h_buckets := bs, h_n_elements := h_n_elements h + 1\<rparr>)))"

text \<open>The element a successful lookup returns is the head of its bucket.\<close>

definition hash_add :: "('k, 'v) hash \<Rightarrow> 'k \<Rightarrow> 'v \<Rightarrow> bool \<Rightarrow> (bool \<times> ('k, 'v) hash) res" where
  "hash_add h key v replace =
     (let hv = hash_value h key; bi = hash_bucket h hv in
      bindE (hash_lookup_fast h bi key hv) (\<lambda>(r, h'). case r of
        Some he \<Rightarrow>
          (if replace then
             bindE (arr_get (h_buckets h') bi) (\<lambda>b.
             bindE (arr_set (h_buckets h') bi (he\<lparr>he_value := v\<rparr> # tl b)) (\<lambda>bs. Inr (True, h'\<lparr>h_buckets := bs\<rparr>)))
           else Inr (False, h'))
      | None \<Rightarrow> bindE (hash_add_fast h' bi key hv v) (\<lambda>h''. Inr (True, h''))))"

section \<open>Iterators\<close>

text \<open>
  An iterator's bucket is an index and its element pointers are positions in that bucket.
\<close>

record hash_iterator =
  hi_bucket_index :: int
  hi_bucket :: "int option"
  hi_elem :: "nat option"
  hi_last :: "nat option"
  hi_bucket_marked :: bool
  hi_bucket_index_start :: int
  hi_bucket_index_end :: int

definition hash_remove_marked :: "('k, 'v) hash \<Rightarrow> int \<Rightarrow> ('k, 'v) hash res" where
  "hash_remove_marked h bi =
     bindE (arr_get (h_buckets h) bi) (\<lambda>b.
     let b' = filter (\<lambda>he. he_key he \<noteq> None) b in
     bindE (arr_set (h_buckets h) bi b') (\<lambda>bs.
       Inr (h\<lparr>h_buckets := bs, h_n_elements := h_n_elements h - int (length b - length b')\<rparr>)))"

definition hash_iterator_init_range :: "('k, 'v) hash \<Rightarrow> int \<Rightarrow> int \<Rightarrow> hash_iterator res" where
  "hash_iterator_init_range h start_bucket end_bucket =
     (let end_bucket = (if end_bucket > h_n_buckets h then h_n_buckets h else end_bucket) in
      bindE (assertE (start_bucket \<ge> 0 \<and> start_bucket \<le> end_bucket)) (\<lambda>_.
      Inr \<lparr>hi_bucket_index = start_bucket - 1, hi_bucket = None, hi_elem = None, hi_last = None,
           hi_bucket_marked = False, hi_bucket_index_start = start_bucket, hi_bucket_index_end = end_bucket\<rparr>))"

definition hash_iterator_init :: "('k, 'v) hash \<Rightarrow> hash_iterator res" where
  "hash_iterator_init h = hash_iterator_init_range h 0 (h_n_buckets h)"

definition hash_iterator_lock :: "hash_iterator \<Rightarrow> int \<Rightarrow> hash_iterator" where
  "hash_iterator_lock hi b = hi\<lparr>hi_bucket := Some b, hi_last := None, hi_bucket_marked := False\<rparr>"

definition hash_iterator_unlock :: "('k, 'v) hash \<Rightarrow> hash_iterator \<Rightarrow> (('k, 'v) hash \<times> hash_iterator) res" where
  "hash_iterator_unlock h hi =
     (case hi_bucket hi of
        None \<Rightarrow> Inr (h, hi)
      | Some b \<Rightarrow>
          bindE (if hi_bucket_marked hi
                 then bindE (hash_remove_marked h b) (\<lambda>h'. Inr (h', hi\<lparr>hi_bucket_marked := False\<rparr>))
                 else Inr (h, hi)) (\<lambda>(h', hi').
          Inr (h', hi'\<lparr>hi_bucket := None, hi_last := None\<rparr>)))"

definition hash_iterator_advance :: "('k, 'v) bucket \<Rightarrow> hash_iterator \<Rightarrow> hash_iterator" where
  "hash_iterator_advance b hi =
     hi\<lparr>hi_last := hi_elem hi,
        hi_elem := (case hi_elem hi of None \<Rightarrow> None | Some i \<Rightarrow> if Suc i < length b then Some (Suc i) else None)\<rparr>"

definition hash_iterator_free :: "('k, 'v) hash \<Rightarrow> hash_iterator \<Rightarrow> (('k, 'v) hash \<times> hash_iterator) res" where
  "hash_iterator_free h hi = hash_iterator_unlock h hi"

text \<open>The loop of \<open>hash_iterator_next\<close> over the remaining buckets.\<close>

function next_loop :: "('k, 'v) hash \<Rightarrow> hash_iterator
    \<Rightarrow> (('k, 'v) hash_element option \<times> ('k, 'v) hash \<times> hash_iterator) res" where
  "next_loop h hi =
     (let hi = hi\<lparr>hi_bucket_index := hi_bucket_index hi + 1\<rparr> in
      if hi_bucket_index hi < hi_bucket_index_end hi then
        bindE (hash_iterator_unlock h hi) (\<lambda>(h, hi).
        bindE (arr_get (h_buckets h) (hi_bucket_index hi)) (\<lambda>b.
          case b of
            he # _ \<Rightarrow>
              let hi = (hash_iterator_lock hi (hi_bucket_index hi))\<lparr>hi_elem := Some 0\<rparr> in
              Inr (Some he, h, hash_iterator_advance b hi)
          | [] \<Rightarrow> next_loop h hi))
      else Inr (None, h, hi))"
  by pat_completeness auto
termination
  by (relation "measure (\<lambda>(h, hi). nat (hi_bucket_index_end hi - hi_bucket_index hi))")
    (auto simp: hash_iterator_unlock_def bindE_eq_Inr split: option.splits if_splits)

declare next_loop.simps [simp del]

definition hash_iterator_next :: "('k, 'v) hash \<Rightarrow> hash_iterator
    \<Rightarrow> (('k, 'v) hash_element option \<times> ('k, 'v) hash \<times> hash_iterator) res" where
  "hash_iterator_next h hi =
     (case (hi_bucket hi, hi_elem hi) of
        (Some bi, Some i) \<Rightarrow>
          bindE (arr_get (h_buckets h) bi) (\<lambda>b.
          bindE (arr_get b (int i)) (\<lambda>he. Inr (Some he, h, hash_iterator_advance b hi)))
      | (None, Some i) \<Rightarrow> Inl Mem_Fault
      | (_, None) \<Rightarrow> next_loop h hi)"

definition hash_iterator_delete_element :: "('k, 'v) hash \<Rightarrow> hash_iterator \<Rightarrow> (('k, 'v) hash \<times> hash_iterator) res" where
  "hash_iterator_delete_element h hi =
     (case (hi_bucket hi, hi_last hi) of
        (_, None) \<Rightarrow> Inl Assert_Failed
      | (None, Some i) \<Rightarrow> Inl Mem_Fault
      | (Some bi, Some i) \<Rightarrow>
          bindE (arr_get (h_buckets h) bi) (\<lambda>b.
          bindE (arr_get b (int i)) (\<lambda>he.
          bindE (arr_set b (int i) (he\<lparr>he_key := None\<rparr>)) (\<lambda>b'.
          bindE (arr_set (h_buckets h) bi b') (\<lambda>bs.
          Inr (h\<lparr>h_buckets := bs\<rparr>, hi\<lparr>hi_bucket_marked := True\<rparr>))))))"

text \<open>
  \<open>hash_remove_by_value\<close> walks the whole table. The measure of its loop is what is left of the bucket
  range and of the current bucket.
\<close>

lemma unlock_fields:
  "hash_iterator_unlock h hi = Inr (h', hi') \<Longrightarrow>
     hi_bucket_index hi' = hi_bucket_index hi \<and> hi_bucket_index_end hi' = hi_bucket_index_end hi \<and> hi_elem hi' = hi_elem hi"
  by (auto simp: hash_iterator_unlock_def bindE_eq_Inr split: option.splits if_splits)

definition left_in_bucket :: "('k, 'v) hash \<Rightarrow> hash_iterator \<Rightarrow> nat" where
  "left_in_bucket h hi = (case (hi_bucket hi, hi_elem hi) of
     (Some bi, Some i) \<Rightarrow> Suc (length (h_buckets h ! nat bi) - i) | _ \<Rightarrow> 0)"

definition iter_measure :: "('k, 'v) hash \<Rightarrow> hash_iterator \<Rightarrow> nat \<times> nat" where
  "iter_measure h hi = (nat (hi_bucket_index_end hi - hi_bucket_index hi), left_in_bucket h hi)"

lemma next_loop_progress:
  "next_loop h hi = Inr (Some he, h', hi') \<Longrightarrow>
     hi_bucket_index hi < hi_bucket_index hi' \<and> hi_bucket_index hi' < hi_bucket_index_end hi
     \<and> hi_bucket_index_end hi' = hi_bucket_index_end hi"
proof (induction h hi rule: next_loop.induct)
  case (1 h hi)
  let ?hi = "hi\<lparr>hi_bucket_index := hi_bucket_index hi + 1\<rparr>"
  from 1(2) have lt: "hi_bucket_index ?hi < hi_bucket_index_end ?hi"
    unfolding next_loop.simps[of h hi] by (auto simp: Let_def split: if_splits)
  from 1(2) lt obtain h1 hi1 b where s: "hash_iterator_unlock h ?hi = Inr (h1, hi1)"
    "arr_get (h_buckets h1) (hi_bucket_index hi1) = Inr b"
    "(case b of he # _ \<Rightarrow> let hi = (hash_iterator_lock hi1 (hi_bucket_index hi1))\<lparr>hi_elem := Some 0\<rparr> in
          Inr (Some he, h1, hash_iterator_advance b hi)
       | [] \<Rightarrow> next_loop h1 hi1) = Inr (Some he, h', hi')"
    unfolding next_loop.simps[of h hi] by (auto simp: Let_def bindE_eq_Inr)
  note u = unlock_fields[OF s(1)]
  show ?case
  proof (cases b)
    case Nil
    then have "next_loop h1 hi1 = Inr (Some he, h', hi')" using s(3) by simp
    from 1(1)[OF refl lt s(1) refl s(2) Nil this] u show ?thesis by auto
  next
    case (Cons x xs)
    then have "hi' = hash_iterator_advance b ((hash_iterator_lock hi1 (hi_bucket_index hi1))\<lparr>hi_elem := Some 0\<rparr>)"
      using s(3) by (auto simp: Let_def)
    then have "hi_bucket_index hi' = hi_bucket_index hi1" "hi_bucket_index_end hi' = hi_bucket_index_end hi1"
      by (simp_all add: hash_iterator_advance_def hash_iterator_lock_def)
    then show ?thesis using u lt by simp
  qed
qed

lemma next_measure:
  assumes "hash_iterator_next h hi = Inr (Some he, h', hi')"
  shows "(iter_measure h' hi', iter_measure h hi) \<in> less_than <*lex*> less_than"
proof (cases "hi_elem hi")
  case None
  then have "next_loop h hi = Inr (Some he, h', hi')" using assms by (auto simp: hash_iterator_next_def split: option.splits)
  from next_loop_progress[OF this] show ?thesis by (auto simp: iter_measure_def)
next
  case (Some i)
  then obtain bi b where b: "hi_bucket hi = Some bi" "arr_get (h_buckets h) bi = Inr b" "arr_get b (int i) = Inr he"
    "h' = h" "hi' = hash_iterator_advance b hi"
    using assms by (auto simp: hash_iterator_next_def bindE_eq_Inr split: option.splits)
  then have "b = h_buckets h ! nat bi" by (auto simp: arr_get_def split: if_splits)
  then show ?thesis using Some b(1,4,5)
    by (auto simp: iter_measure_def left_in_bucket_def hash_iterator_advance_def)
qed

lemma delete_measure:
  assumes "hash_iterator_delete_element h hi = Inr (h', hi')"
  shows "iter_measure h' hi' = iter_measure h hi"
  using assms by (auto simp: hash_iterator_delete_element_def iter_measure_def left_in_bucket_def bindE_eq_Inr
      arr_get_def arr_set_def nth_list_update split: option.splits if_splits)

function remove_value_loop :: "'v \<Rightarrow> ('k, 'v) hash \<Rightarrow> hash_iterator \<Rightarrow> (('k, 'v) hash \<times> hash_iterator) res" where
  "remove_value_loop v h hi =
     bindE (hash_iterator_next h hi) (\<lambda>(r, h, hi). case r of
       None \<Rightarrow> Inr (h, hi)
     | Some he \<Rightarrow>
         bindE (if he_value he = v then hash_iterator_delete_element h hi else Inr (h, hi)) (\<lambda>(h, hi).
         remove_value_loop v h hi))"
  by pat_completeness auto
termination
  by (relation "inv_image (less_than <*lex*> less_than) (\<lambda>(v, h, hi). iter_measure h hi)")
    (auto dest!: next_measure delete_measure split: if_splits)

declare remove_value_loop.simps [simp del]

definition hash_remove_by_value :: "('k, 'v) hash \<Rightarrow> 'v \<Rightarrow> ('k, 'v) hash res" where
  "hash_remove_by_value h v =
     bindE (hash_iterator_init h) (\<lambda>hi.
     bindE (remove_value_loop v h hi) (\<lambda>(h, hi).
     bindE (hash_iterator_free h hi) (\<lambda>(h, hi). Inr h)))"

section \<open>The hash function\<close>

definition hash_mix :: "u32 \<times> u32 \<times> u32 \<Rightarrow> u32 \<times> u32 \<times> u32" where
  "hash_mix = (\<lambda>(a, b, c).
     let a = a - b; a = a - c; a = a XOR drop_bit 13 c;
         b = b - c; b = b - a; b = b XOR push_bit 8 a;
         c = c - a; c = c - b; c = c XOR drop_bit 13 b;
         a = a - b; a = a - c; a = a XOR drop_bit 12 c;
         b = b - c; b = b - a; b = b XOR push_bit 16 a;
         c = c - a; c = c - b; c = c XOR drop_bit 5 b;
         a = a - b; a = a - c; a = a XOR drop_bit 3 c;
         b = b - c; b = b - a; b = b XOR push_bit 10 a;
         c = c - a; c = c - b; c = c XOR drop_bit 15 b
     in (a, b, c))"

definition le32 :: "byte list \<Rightarrow> u32" where
  "le32 k = ucast (k ! 0) + push_bit 8 (ucast (k ! 1)) + push_bit 16 (ucast (k ! 2)) + push_bit 24 (ucast (k ! 3))"

function hash_blocks :: "byte list \<Rightarrow> u32 \<times> u32 \<times> u32 \<Rightarrow> byte list \<times> u32 \<times> u32 \<times> u32" where
  "hash_blocks k s =
     (if length k \<ge> 12
      then (case s of (a, b, c) \<Rightarrow>
              hash_blocks (drop 12 k) (hash_mix (a + le32 k, b + le32 (drop 4 k), c + le32 (drop 8 k))))
      else (k, s))"
  by pat_completeness auto
termination by (relation "measure (\<lambda>(k, s). length k)") auto

declare hash_blocks.simps [simp del]

text \<open>The fall-through \<open>switch\<close> adds every remaining byte at its place.\<close>

definition tail_byte :: "byte list \<Rightarrow> nat \<Rightarrow> nat \<Rightarrow> u32" where
  "tail_byte k i s = (if i < length k then push_bit s (ucast (k ! i)) else 0)"

definition hash_func :: "byte list \<Rightarrow> u32 \<Rightarrow> u32" where
  "hash_func k initval =
     (case hash_blocks k (0x9e3779b9, 0x9e3779b9, initval) of
        (k', a, b, c) \<Rightarrow>
          let c = c + of_nat (length k);
              c = c + tail_byte k' 10 24 + tail_byte k' 9 16 + tail_byte k' 8 8;
              b = b + tail_byte k' 7 24 + tail_byte k' 6 16 + tail_byte k' 5 8 + tail_byte k' 4 0;
              a = a + tail_byte k' 3 24 + tail_byte k' 2 16 + tail_byte k' 1 8 + tail_byte k' 0 0
          in (case hash_mix (a, b, c) of (_, _, r) \<Rightarrow> r))"

end
