(* ===== verification/Hash_Refine.thy ===== *)
theory Hash_Refine
  imports Hash_List
begin

text \<open>
  A hash table behaves as a function from keys to values, whatever the hash function: lookups, insertions
  and removals return what they would on that function, move-to-front notwithstanding.
\<close>

section \<open>The invariant\<close>

text \<open>Keys are compared through \<open>canon\<close>, and the hash depends on it only.\<close>

definition hash_laws :: "('k \<Rightarrow> 'c) \<Rightarrow> ('k, 'v) hash \<Rightarrow> bool" where
  "hash_laws canon h \<longleftrightarrow> (\<forall>k k'. h_compare_function h k k' \<longleftrightarrow> canon k = canon k')
     \<and> (\<forall>k k' iv. canon k = canon k' \<longrightarrow> h_hash_function h k iv = h_hash_function h k' iv)"

definition key_index :: "('k, 'v) hash \<Rightarrow> 'k \<Rightarrow> nat" where
  "key_index h k = nat (hash_bucket h (hash_value h k))"

definition bucket_wf :: "('k \<Rightarrow> 'c) \<Rightarrow> ('k, 'v) hash \<Rightarrow> nat \<Rightarrow> ('k, 'v) bucket \<Rightarrow> bool" where
  "bucket_wf canon h i b \<longleftrightarrow> (\<forall>he \<in> set b. \<exists>k. he_key he = Some k \<and> he_hash_value he = hash_value h k \<and> key_index h k = i)
     \<and> distinct (map (\<lambda>he. canon (the (he_key he))) b)"

definition hash_wf :: "('k \<Rightarrow> 'c) \<Rightarrow> ('k, 'v) hash \<Rightarrow> bool" where
  "hash_wf canon h \<longleftrightarrow> (\<exists>j < 31. h_n_buckets h = 2 ^ j) \<and> h_mask h = h_n_buckets h - 1
     \<and> int (length (h_buckets h)) = h_n_buckets h \<and> hash_laws canon h
     \<and> (\<forall>i < length (h_buckets h). bucket_wf canon h i (h_buckets h ! i))
     \<and> h_n_elements h = int (sum_list (map length (h_buckets h)))"

definition bucket_find :: "('k \<Rightarrow> 'c) \<Rightarrow> ('k, 'v) bucket \<Rightarrow> 'c \<Rightarrow> 'v option" where
  "bucket_find canon b = map_of (map (\<lambda>he. (canon (the (he_key he)), he_value he)) b)"

definition hash_content :: "('k \<Rightarrow> 'c) \<Rightarrow> ('k, 'v) hash \<Rightarrow> 'k \<Rightarrow> 'v option" where
  "hash_content canon h k = bucket_find canon (h_buckets h ! key_index h k) (canon k)"

lemma key_index_ok:
  assumes "hash_wf canon h"
  shows "key_index h k < length (h_buckets h)" "hash_bucket h (hash_value h k) = int (key_index h k)"
proof -
  obtain j where j: "j < 31" "h_n_buckets h = 2 ^ j" "h_mask h = 2 ^ j - 1" "int (length (h_buckets h)) = 2 ^ j"
    using assms by (auto simp: hash_wf_def)
  have m: "word_of_int (h_mask h) = (mask j :: u32)" by (simp add: j(3) mask_eq_exp_minus_1)
  have "hash_bucket h (hash_value h k) = take_bit j (uint (hash_value h k))"
    unfolding hash_bucket_def m by (simp add: unsigned_take_bit_eq flip: take_bit_eq_mask)
  moreover have "take_bit j (uint (hash_value h k)) < 2 ^ j" by (rule take_bit_int_less_exp)
  ultimately show "key_index h k < length (h_buckets h)" "hash_bucket h (hash_value h k) = int (key_index h k)"
    using j(4) by (auto simp: key_index_def nat_less_iff)
qed

text \<open>Replacing a bucket.\<close>

lemma hash_update_frame:
  "hash_value (h\<lparr>h_buckets := bs, h_n_elements := n\<rparr>) = hash_value h"
  "key_index (h\<lparr>h_buckets := bs, h_n_elements := n\<rparr>) = key_index h"
  "bucket_wf canon (h\<lparr>h_buckets := bs, h_n_elements := n\<rparr>) = bucket_wf canon h"
  "hash_laws canon (h\<lparr>h_buckets := bs, h_n_elements := n\<rparr>) = hash_laws canon h"
  by (simp_all add: fun_eq_iff hash_value_def key_index_def hash_bucket_def bucket_wf_def hash_laws_def)

lemma sum_lengths_update:
  "i < length bs \<Longrightarrow> int (sum_list (map length (bs[i := b]))) = int (sum_list (map length bs)) - int (length (bs ! i)) + int (length b)"
  by (induction bs arbitrary: i) (auto split: nat.splits)

lemma hash_wf_update:
  assumes "hash_wf canon h" "i < length (h_buckets h)" "bucket_wf canon h i b"
    and "n = h_n_elements h - int (length (h_buckets h ! i)) + int (length b)"
  shows "hash_wf canon (h\<lparr>h_buckets := (h_buckets h)[i := b], h_n_elements := n\<rparr>)"
  using assms unfolding hash_wf_def hash_update_frame
  by (auto simp: nth_list_update sum_lengths_update simp del: map_update)

lemma hash_content_update:
  assumes "hash_wf canon h" "i < length (h_buckets h)"
  shows "hash_content canon (h\<lparr>h_buckets := (h_buckets h)[i := b], h_n_elements := n\<rparr>) k
    = (if key_index h k = i then bucket_find canon b (canon k) else hash_content canon h k)"
  using assms by (auto simp: hash_content_def hash_update_frame nth_list_update)

section \<open>Buckets\<close>

text \<open>The element that matches a key, and the elements before and after it.\<close>

lemma element_matches_ok:
  assumes "hash_laws canon h" "bucket_wf canon h i b" "he \<in> set b"
  shows "element_matches h key (hash_value h key) he = Inr (canon (the (he_key he)) = canon key)"
proof -
  obtain k where k: "he_key he = Some k" "he_hash_value he = hash_value h k" using assms(2,3) by (auto simp: bucket_wf_def)
  have "canon k = canon key \<Longrightarrow> hash_value h k = hash_value h key"
    using assms(1) unfolding hash_laws_def hash_value_def by blast
  then show ?thesis using k assms(1) by (auto simp: element_matches_def hash_laws_def)
qed

definition is_hit :: "('k \<Rightarrow> 'c) \<Rightarrow> 'k \<Rightarrow> ('k, 'v) hash_element \<Rightarrow> bool" where
  "is_hit canon key he \<longleftrightarrow> canon (the (he_key he)) = canon key"

declare dropWhile_eq_Nil_conv [simp del]

lemma lookup_loop_ok:
  assumes "hash_laws canon h" "\<forall>he \<in> set b. element_matches h key hv he = Inr (is_hit canon key he)"
  shows "lookup_loop h key hv pre b = (case dropWhile (\<lambda>he. \<not> is_hit canon key he) b of
      [] \<Rightarrow> Inr (None, pre @ b)
    | he # rest \<Rightarrow> Inr (Some he, he # pre @ takeWhile (\<lambda>he. \<not> is_hit canon key he) b @ rest))"
  using assms(2)
proof (induction b arbitrary: pre)
  case (Cons he b)
  then show ?case by (cases "is_hit canon key he"; cases "dropWhile (\<lambda>he. \<not> is_hit canon key he) b") simp_all
qed simp

lemma remove_loop_ok:
  assumes "hash_laws canon h" "\<forall>he \<in> set b. element_matches h key hv he = Inr (is_hit canon key he)"
  shows "remove_loop h key hv pre b = (case dropWhile (\<lambda>he. \<not> is_hit canon key he) b of
      [] \<Rightarrow> Inr (False, pre @ b)
    | he # rest \<Rightarrow> Inr (True, pre @ takeWhile (\<lambda>he. \<not> is_hit canon key he) b @ rest))"
  using assms(2)
proof (induction b arbitrary: pre)
  case (Cons he b)
  then show ?case by (cases "is_hit canon key he"; cases "dropWhile (\<lambda>he. \<not> is_hit canon key he) b") simp_all
qed simp

lemma find_none:
  "dropWhile (\<lambda>he. \<not> is_hit canon key he) b = [] \<longleftrightarrow> bucket_find canon b (canon key) = None"
  by (induction b) (auto simp: bucket_find_def is_hit_def)

lemma find_some:
  "dropWhile (\<lambda>he. \<not> is_hit canon key he) b = he # rest \<Longrightarrow>
     bucket_find canon b (canon key) = Some (he_value he) \<and> canon (the (he_key he)) = canon key
     \<and> b = takeWhile (\<lambda>he. \<not> is_hit canon key he) b @ he # rest"
  by (induction b) (auto simp: bucket_find_def is_hit_def split: if_splits)

lemma bucket_find_simps:
  "bucket_find canon (xs @ ys) = bucket_find canon ys ++ bucket_find canon xs"
  "bucket_find canon (he # ys) = (bucket_find canon ys)(canon (the (he_key he)) \<mapsto> he_value he)"
  "bucket_find canon xs c = None \<longleftrightarrow> c \<notin> set (map (\<lambda>he. canon (the (he_key he))) xs)"
  by (simp_all add: bucket_find_def map_of_eq_None_iff image_image)

lemma bucket_find_perm:
  assumes "distinct (map (\<lambda>he. canon (the (he_key he))) (xs @ he # ys))"
  shows "bucket_find canon (he # xs @ ys) = bucket_find canon (xs @ he # ys)"
    and "bucket_find canon (xs @ ys) = (bucket_find canon (xs @ he # ys))(canon (the (he_key he)) := None)"
proof -
  have "bucket_find canon xs (canon (the (he_key he))) = None" "bucket_find canon ys (canon (the (he_key he))) = None"
    using assms unfolding bucket_find_simps by auto
  then show "bucket_find canon (he # xs @ ys) = bucket_find canon (xs @ he # ys)"
    "bucket_find canon (xs @ ys) = (bucket_find canon (xs @ he # ys))(canon (the (he_key he)) := None)"
    unfolding bucket_find_simps(1,2) by (auto simp: fun_eq_iff map_add_def split: option.splits)
qed

lemma bucket_wf_perm:
  "bucket_wf canon h i (xs @ he # ys) \<Longrightarrow> bucket_wf canon h i (he # xs @ ys)"
  "bucket_wf canon h i (xs @ he # ys) \<Longrightarrow> bucket_wf canon h i (xs @ ys)"
  by (auto simp: bucket_wf_def)

section \<open>Operations\<close>

text \<open>What a lookup leaves behind.\<close>

lemma lookup_fast_ok:
  fixes h :: "('k, 'v) hash" and key :: 'k and canon :: "'k \<Rightarrow> 'c"
  assumes "hash_wf canon h"
  defines "i \<equiv> key_index h key"
  shows "\<exists>r b. hash_lookup_fast h (hash_bucket h (hash_value h key)) key (hash_value h key)
      = Inr (r, h\<lparr>h_buckets := (h_buckets h)[i := b], h_n_elements := h_n_elements h\<rparr>)
    \<and> bucket_wf canon h i b \<and> length b = length (h_buckets h ! i)
    \<and> bucket_find canon b = bucket_find canon (h_buckets h ! i)
    \<and> map_option he_value r = hash_content canon h key
    \<and> (\<forall>he. r = Some he \<longrightarrow> he \<in> set b \<and> b = he # tl b \<and> canon (the (he_key he)) = canon key)"
proof -
  let ?b = "h_buckets h ! i" and ?miss = "\<lambda>he. \<not> is_hit canon key he"
  note ix = key_index_ok[OF assms(1), of key, folded i_def]
  have laws: "hash_laws canon h" and bw: "bucket_wf canon h i ?b" using assms(1) ix(1) by (auto simp: hash_wf_def)
  have hits: "\<forall>he \<in> set ?b. element_matches h key (hash_value h key) he = Inr (is_hit canon key he)"
    using element_matches_ok[OF laws bw] by (simp add: is_hit_def)
  note lk = lookup_loop_ok[OF laws hits, of "[]"]
  have get: "arr_get (h_buckets h) (hash_bucket h (hash_value h key)) = Inr ?b"
    and set: "arr_set (h_buckets h) (hash_bucket h (hash_value h key)) b = Inr ((h_buckets h)[i := b])" for b
    using ix by (simp_all add: arr_get_nat arr_set_nat)
  have same: "h\<lparr>h_buckets := bs, h_n_elements := h_n_elements h\<rparr> = h\<lparr>h_buckets := bs\<rparr>" for bs by simp
  show ?thesis
  proof (cases "dropWhile ?miss ?b")
    case Nil
    then show ?thesis using lk get set bw find_none[of canon key ?b]
      by (intro exI[of _ None] exI[of _ ?b]) (simp add: hash_lookup_fast_def hash_content_def i_def[symmetric])
  next
    case (Cons he rest)
    note f = find_some[OF Cons]
    let ?xs = "takeWhile ?miss ?b"
    have e: "?b = ?xs @ he # rest" using f by simp
    have w: "bucket_wf canon h i (?xs @ he # rest)" using bw e by simp
    have "bucket_find canon (he # ?xs @ rest) = bucket_find canon ?b"
      using bucket_find_perm(1)[of canon ?xs he rest] w e by (simp add: bucket_wf_def)
    moreover have "length (he # ?xs @ rest) = length ?b" using arg_cong[OF e, of length] by simp
    ultimately show ?thesis using lk Cons get set f bucket_wf_perm(1)[OF w]
      by (intro exI[of _ "Some he"] exI[of _ "he # ?xs @ rest"])
        (simp add: hash_lookup_fast_def hash_content_def i_def[symmetric])
  qed
qed

lemma hash_lookup_ok:
  assumes "hash_wf canon h"
  shows "\<exists>h'. hash_lookup h key = Inr (hash_content canon h key, h') \<and> hash_wf canon h' \<and> hash_content canon h' = hash_content canon h"
proof -
  obtain r b where r: "hash_lookup_fast h (hash_bucket h (hash_value h key)) key (hash_value h key)
      = Inr (r, h\<lparr>h_buckets := (h_buckets h)[key_index h key := b], h_n_elements := h_n_elements h\<rparr>)"
    "bucket_wf canon h (key_index h key) b" "length b = length (h_buckets h ! key_index h key)"
    "bucket_find canon b = bucket_find canon (h_buckets h ! key_index h key)" "map_option he_value r = hash_content canon h key"
    using lookup_fast_ok[OF assms, of key] by blast
  let ?h = "h\<lparr>h_buckets := (h_buckets h)[key_index h key := b], h_n_elements := h_n_elements h\<rparr>"
  have "hash_wf canon ?h" using key_index_ok(1)[OF assms] r(2,3) by (intro hash_wf_update[OF assms]) auto
  moreover have "hash_content canon ?h = hash_content canon h"
    unfolding fun_eq_iff hash_content_update[OF assms key_index_ok(1)[OF assms]] r(4) by (simp add: hash_content_def)
  ultimately show ?thesis using r(1,5) by (simp add: hash_lookup_def Let_def)
qed

lemma content_replaced:
  assumes "hash_wf canon h" "bucket_find canon b = (bucket_find canon (h_buckets h ! key_index h key))(canon key := w)"
  shows "hash_content canon (h\<lparr>h_buckets := (h_buckets h)[key_index h key := b], h_n_elements := n\<rparr>)
    = (\<lambda>x. if canon x = canon key then w else hash_content canon h x)"
proof
  fix x
  have "hash_laws canon h" using assms(1) by (simp add: hash_wf_def)
  then have same: "canon x = canon key \<Longrightarrow> key_index h x = key_index h key"
    unfolding hash_laws_def key_index_def hash_value_def by metis
  show "hash_content canon (h\<lparr>h_buckets := (h_buckets h)[key_index h key := b], h_n_elements := n\<rparr>) x
    = (if canon x = canon key then w else hash_content canon h x)"
    unfolding hash_content_update[OF assms(1) key_index_ok(1)[OF assms(1)]] assms(2)
    using same by (cases "canon x = canon key"; cases "key_index h x = key_index h key") (simp_all add: hash_content_def)
qed

lemma hash_remove_ok:
  assumes "hash_wf canon h"
  shows "\<exists>h'. hash_remove h key = Inr (hash_content canon h key \<noteq> None, h') \<and> hash_wf canon h'
    \<and> hash_content canon h' = (\<lambda>x. if canon x = canon key then None else hash_content canon h x)"
proof -
  let ?i = "key_index h key" and ?miss = "\<lambda>he. \<not> is_hit canon key he"
  let ?b = "h_buckets h ! ?i"
  note ix = key_index_ok[OF assms, of key]
  have laws: "hash_laws canon h" and bw: "bucket_wf canon h ?i ?b" using assms ix(1) by (auto simp: hash_wf_def)
  have hits: "\<forall>he \<in> set ?b. element_matches h key (hash_value h key) he = Inr (is_hit canon key he)"
    using element_matches_ok[OF laws bw] by (simp add: is_hit_def)
  note rm = remove_loop_ok[OF laws hits, of "[]"]
  have same: "canon x = canon key \<Longrightarrow> key_index h x = ?i" for x
    using laws unfolding hash_laws_def key_index_def hash_value_def by metis
  have get: "arr_get (h_buckets h) (hash_bucket h (hash_value h key)) = Inr ?b"
    and set: "arr_set (h_buckets h) (hash_bucket h (hash_value h key)) b = Inr ((h_buckets h)[?i := b])" for b
    using ix by (simp_all add: arr_get_nat arr_set_nat)
  show ?thesis
  proof (cases "dropWhile ?miss ?b")
    case Nil
    then have n: "hash_content canon h key = None" using find_none[of canon key ?b] by (simp add: hash_content_def)
    have "hash_content canon h x = None" if "canon x = canon key" for x
      using n same[OF that] that by (simp add: hash_content_def)
    then have c: "(\<lambda>x. if canon x = canon key then None else hash_content canon h x) = hash_content canon h" by auto
    show ?thesis unfolding c using rm Nil get set n assms
      by (intro exI[of _ h]) (simp add: hash_remove_def hash_remove_fast_def Let_def)
  next
    case (Cons he rest)
    note f = find_some[OF Cons]
    let ?xs = "takeWhile ?miss ?b"
    let ?h = "h\<lparr>h_buckets := (h_buckets h)[?i := ?xs @ rest], h_n_elements := h_n_elements h - 1\<rparr>"
    have e: "?b = ?xs @ he # rest" using f by simp
    have w: "bucket_wf canon h ?i (?xs @ he # rest)" using bw e by simp
    have bf: "bucket_find canon (?xs @ rest) = (bucket_find canon ?b)(canon key := None)"
      using bucket_find_perm(2)[of canon ?xs he rest] w e f by (simp add: bucket_wf_def)
    have "int (length ?b) = int (length (?xs @ rest)) + 1" using arg_cong[OF e, of length] by simp
    then have wf: "hash_wf canon ?h"
      using bucket_wf_perm(2)[OF w] by (intro hash_wf_update[OF assms ix(1)]) simp_all
    have cont: "hash_content canon ?h = (\<lambda>x. if canon x = canon key then None else hash_content canon h x)"
      using bf by (rule content_replaced[OF assms])
    have "hash_content canon h key \<noteq> None" using f by (simp add: hash_content_def)
    then have "hash_remove h key = Inr (hash_content canon h key \<noteq> None, ?h)"
      using rm Cons get set by (simp add: hash_remove_def hash_remove_fast_def Let_def)
    then show ?thesis using wf cont by blast
  qed
qed

lemma hash_add_ok:
  assumes "hash_wf canon h"
  shows "\<exists>h'. hash_add h key v replace = Inr (hash_content canon h key = None \<or> replace, h') \<and> hash_wf canon h'
    \<and> hash_content canon h' = (if hash_content canon h key \<noteq> None \<and> \<not> replace then hash_content canon h
         else (\<lambda>x. if canon x = canon key then Some v else hash_content canon h x))"
proof -
  let ?i = "key_index h key"
  note ix = key_index_ok[OF assms, of key]
  obtain r b where r: "hash_lookup_fast h (hash_bucket h (hash_value h key)) key (hash_value h key)
      = Inr (r, h\<lparr>h_buckets := (h_buckets h)[?i := b], h_n_elements := h_n_elements h\<rparr>)"
    "bucket_wf canon h ?i b" "length b = length (h_buckets h ! ?i)"
    "bucket_find canon b = bucket_find canon (h_buckets h ! ?i)" "map_option he_value r = hash_content canon h key"
    "\<forall>he. r = Some he \<longrightarrow> he \<in> set b \<and> b = he # tl b \<and> canon (the (he_key he)) = canon key"
    using lookup_fast_ok[OF assms, of key] by blast
  let ?h = "h\<lparr>h_buckets := (h_buckets h)[?i := b], h_n_elements := h_n_elements h\<rparr>"
  have wf: "hash_wf canon ?h" using ix(1) r(2,3) by (intro hash_wf_update[OF assms]) auto
  have cont: "hash_content canon ?h = hash_content canon h"
    unfolding fun_eq_iff hash_content_update[OF assms ix(1)] r(4) by (simp add: hash_content_def)
  have len: "?i < length (h_buckets ?h)" using ix(1) by simp
  have upd: "h_buckets ?h ! ?i = b" using ix(1) by simp
  have get: "arr_get (h_buckets ?h) (hash_bucket h (hash_value h key)) = Inr b"
    and set: "arr_set (h_buckets ?h) (hash_bucket h (hash_value h key)) b' = Inr ((h_buckets ?h)[?i := b'])" for b'
    using ix by (simp_all add: arr_get_nat arr_set_nat)
  have bw: "bucket_wf canon ?h ?i = bucket_wf canon h ?i" by (simp only: hash_update_frame)
  have ki: "key_index ?h = key_index h" by (simp only: hash_update_frame)
  note wfu = hash_wf_update[OF wf len, unfolded bw upd] and cu = content_replaced[OF wf, of _ key, unfolded ki upd cont]
  show ?thesis
  proof (cases r)
    case None
    then have n: "hash_content canon h key = None" using r(5) by simp
    let ?he = "\<lparr>he_value = v, he_key = Some key, he_hash_value = hash_value h key\<rparr>"
    let ?h2 = "?h\<lparr>h_buckets := (h_buckets ?h)[?i := ?he # b], h_n_elements := h_n_elements h + 1\<rparr>"
    have fresh: "bucket_find canon b (canon key) = None" using n r(4) by (simp add: hash_content_def)
    then have "canon key \<notin> (\<lambda>he. canon (the (he_key he))) ` set b"
      by (auto simp: bucket_find_def map_of_eq_None_iff image_image)
    then have "bucket_wf canon h ?i (?he # b)" using r(2) by (simp add: bucket_wf_def)
    then have w2: "hash_wf canon ?h2" by (rule wfu) simp
    have "bucket_find canon (?he # b) = (bucket_find canon b)(canon key \<mapsto> v)"
      by (simp add: bucket_find_def)
    then have c2: "hash_content canon ?h2 = (\<lambda>x. if canon x = canon key then Some v else hash_content canon h x)"
      by (rule cu)
    have "hash_add h key v replace = Inr (True, ?h2)"
      using r(1) None get set by (simp add: hash_add_def Let_def hash_add_fast_def)
    then show ?thesis using w2 c2 n by auto
  next
    case (Some he)
    then have "hash_content canon h key = Some (he_value he)" using r(5) by simp
    with Some have s: "hash_content canon h key \<noteq> None" "b = he # tl b" "canon (the (he_key he)) = canon key"
      using r(5,6) by auto
    show ?thesis
    proof (cases replace)
      case False
      then have "hash_add h key v replace = Inr (False, ?h)" using r(1) Some by (simp add: hash_add_def Let_def)
      then show ?thesis using wf cont s(1) False by auto
    next
      case True
      let ?b = "he\<lparr>he_value := v\<rparr> # tl b"
      let ?h2 = "?h\<lparr>h_buckets := (h_buckets ?h)[?i := ?b], h_n_elements := h_n_elements ?h\<rparr>"
      have "bucket_wf canon h ?i (he # tl b)" using r(2) s(2) by simp
      then have "bucket_wf canon h ?i ?b" by (simp add: bucket_wf_def)
      moreover have "length ?b = length b" using arg_cong[OF s(2), of length] by simp
      ultimately have w2: "hash_wf canon ?h2" by (intro wfu) simp_all
      have "bucket_find canon ?b = (bucket_find canon (he # tl b))(canon key \<mapsto> v)"
        using s(3) by (auto simp: bucket_find_def fun_eq_iff)
      then have "bucket_find canon ?b = (bucket_find canon b)(canon key \<mapsto> v)" unfolding s(2)[symmetric] .
      then have c2: "hash_content canon ?h2 = (\<lambda>x. if canon x = canon key then Some v else hash_content canon h x)"
        by (rule cu)
      have "hash_add h key v replace = Inr (True, ?h2)"
        using r(1) Some get set True by (simp add: hash_add_def Let_def)
      then show ?thesis using w2 c2 s(1) True by auto
    qed
  qed
qed

end
