(* ===== verification/Hash_Sweep.thy ===== *)
theory Hash_Sweep
  imports Hash_Refine
begin

text \<open>
  Iterating over a hash table while marking elements: \<open>hash_remove_by_value\<close> visits every element once and
  leaves the table with exactly the elements of other values.
\<close>

section \<open>States of the walk\<close>

text \<open>\<open>h0\<close> is the table at the start; \<open>hash_upto v h0 j\<close> is the table when the first \<open>j\<close> buckets are done.\<close>

definition swept :: "'v \<Rightarrow> ('k, 'v) bucket \<Rightarrow> ('k, 'v) bucket" where
  "swept v b = filter (\<lambda>he. he_value he \<noteq> v) b"

definition mark :: "'v \<Rightarrow> ('k, 'v) hash_element \<Rightarrow> ('k, 'v) hash_element" where
  "mark v he = (if he_value he = v then he\<lparr>he_key := None\<rparr> else he)"

definition gone :: "'v \<Rightarrow> ('k, 'v) bucket list \<Rightarrow> int" where
  "gone v bs = sum_list (map (\<lambda>b. int (length b) - int (length (swept v b))) bs)"

definition hash_upto :: "'v \<Rightarrow> ('k, 'v) hash \<Rightarrow> nat \<Rightarrow> ('k, 'v) hash" where
  "hash_upto v h0 j = h0\<lparr>h_buckets := map (swept v) (take j (h_buckets h0)) @ drop j (h_buckets h0),
     h_n_elements := h_n_elements h0 - gone v (take j (h_buckets h0))\<rparr>"

definition hash_amid :: "'v \<Rightarrow> ('k, 'v) hash \<Rightarrow> nat \<Rightarrow> nat \<Rightarrow> ('k, 'v) hash" where
  "hash_amid v h0 j i = (hash_upto v h0 j)\<lparr>h_buckets := (h_buckets (hash_upto v h0 j))
     [j := map (mark v) (take i (h_buckets h0 ! j)) @ drop i (h_buckets h0 ! j)]\<rparr>"

definition keys_set :: "('k, 'v) hash \<Rightarrow> bool" where
  "keys_set h0 \<longleftrightarrow> (\<forall>b \<in> set (h_buckets h0). \<forall>he \<in> set b. he_key he \<noteq> None)"

text \<open>The iterator stands before bucket \<open>j\<close>; leaving its bucket completes the first \<open>j\<close> ones.\<close>

definition between :: "'v \<Rightarrow> ('k, 'v) hash \<Rightarrow> nat \<Rightarrow> ('k, 'v) hash \<Rightarrow> hash_iterator \<Rightarrow> bool" where
  "between v h0 j h hi \<longleftrightarrow> hi_elem hi = None \<and> hi_bucket_index hi = int j - 1
     \<and> hi_bucket_index_end hi = int (length (h_buckets h0))
     \<and> (\<forall>x. \<exists>hi'. hash_iterator_unlock h (hi\<lparr>hi_bucket_index := x\<rparr>) = Inr (hash_upto v h0 j, hi')
          \<and> hi_bucket hi' = None \<and> hi_elem hi' = None)"

definition finished :: "'v \<Rightarrow> ('k, 'v) hash \<Rightarrow> ('k, 'v) hash \<Rightarrow> hash_iterator \<Rightarrow> bool" where
  "finished v h0 h hi \<longleftrightarrow> (\<exists>hi'. hash_iterator_unlock h hi = Inr (hash_upto v h0 (length (h_buckets h0)), hi'))"

text \<open>Element \<open>i\<close> of bucket \<open>j\<close> has just been returned.\<close>

definition visiting :: "'v \<Rightarrow> ('k, 'v) hash \<Rightarrow> nat \<Rightarrow> nat \<Rightarrow> hash_iterator \<Rightarrow> bool" where
  "visiting v h0 j i hi \<longleftrightarrow> j < length (h_buckets h0) \<and> i < length (h_buckets h0 ! j)
     \<and> hi_bucket_index hi = int j \<and> hi_bucket_index_end hi = int (length (h_buckets h0)) \<and> hi_bucket hi = Some (int j)
     \<and> hi_elem hi = (if Suc i < length (h_buckets h0 ! j) then Some (Suc i) else None) \<and> hi_last hi = Some i
     \<and> (hi_bucket_marked hi \<longleftrightarrow> v \<in> he_value ` set (take i (h_buckets h0 ! j)))"

lemma length_hash_upto [simp]: "length (h_buckets (hash_upto v h0 j)) = length (h_buckets h0)"
  by (simp add: hash_upto_def)

lemma hash_upto_nth: "j < length (h_buckets h0) \<Longrightarrow> h_buckets (hash_upto v h0 j) ! j = h_buckets h0 ! j"
  by (simp add: hash_upto_def nth_append)

lemma hash_upto_Suc:
  assumes "j < length (h_buckets h0)"
  shows "hash_upto v h0 (Suc j) = (hash_upto v h0 j)\<lparr>h_buckets := (h_buckets (hash_upto v h0 j))[j := swept v (h_buckets h0 ! j)],
    h_n_elements := h_n_elements (hash_upto v h0 j) - (int (length (h_buckets h0 ! j)) - int (length (swept v (h_buckets h0 ! j))))\<rparr>"
proof -
  have "drop j (h_buckets h0) = h_buckets h0 ! j # drop (Suc j) (h_buckets h0)" using assms by (simp add: Cons_nth_drop_Suc)
  then have "(map (swept v) (take j (h_buckets h0)) @ drop j (h_buckets h0))[j := swept v (h_buckets h0 ! j)]
    = map (swept v) (take (Suc j) (h_buckets h0)) @ drop (Suc j) (h_buckets h0)"
    using assms by (simp add: list_update_append take_Suc_conv_app_nth)
  then show ?thesis using assms by (simp add: hash_upto_def gone_def take_Suc_conv_app_nth)
qed

lemma hash_amid_0: "j < length (h_buckets h0) \<Longrightarrow> hash_amid v h0 j 0 = hash_upto v h0 j"
  using hash_upto_nth[of j h0 v] list_update_id[of "h_buckets (hash_upto v h0 j)" j] by (simp add: hash_amid_def)

lemma filter_marked: "\<forall>he \<in> set b. he_key he \<noteq> None \<Longrightarrow> filter (\<lambda>he. he_key he \<noteq> None) (map (mark v) b) = swept v b"
  by (induction b) (auto simp: mark_def swept_def)

lemma mark_unmarked: "v \<notin> he_value ` set b \<Longrightarrow> map (mark v) b = b \<and> swept v b = b"
  by (induction b) (auto simp: mark_def swept_def)

section \<open>Steps\<close>

lemma finish_bucket:
  assumes "keys_set h0" "j < length (h_buckets h0)" "b = h_buckets h0 ! j" "hi_bucket hi = Some (int j)" "hi_elem hi = None"
    and "hi_bucket_index hi = int j" "hi_bucket_index_end hi = int (length (h_buckets h0))"
    and "hi_bucket_marked hi \<longleftrightarrow> v \<in> he_value ` set b"
  shows "between v h0 (Suc j) (hash_amid v h0 j (length b)) hi"
proof -
  let ?h = "hash_amid v h0 j (length b)"
  have bj: "h_buckets ?h ! j = map (mark v) b" using assms(2,3) by (simp add: hash_amid_def)
  have ks: "\<forall>he \<in> set b. he_key he \<noteq> None" using assms(1-3) by (auto simp: keys_set_def)
  have len: "j < length (h_buckets ?h)" using assms(2) by (simp add: hash_amid_def)
  have "\<exists>hi'. hash_iterator_unlock ?h (hi\<lparr>hi_bucket_index := x\<rparr>) = Inr (hash_upto v h0 (Suc j), hi')
    \<and> hi_bucket hi' = None \<and> hi_elem hi' = None" for x
  proof (cases "hi_bucket_marked hi")
    case True
    have le: "length (swept v b) \<le> length b" by (simp add: swept_def)
    have "hash_remove_marked ?h (int j) = Inr (hash_upto v h0 (Suc j))"
      unfolding hash_remove_marked_def arr_get_nat[OF len] bindE_Inr bj filter_marked[OF ks] Let_def arr_set_nat[OF len]
        hash_upto_Suc[OF assms(2)] assms(3)[symmetric] length_map
      using le by (simp add: hash_amid_def of_nat_diff)
    then show ?thesis using True assms(4,5) by (simp add: hash_iterator_unlock_def)
  next
    case False
    then have u: "map (mark v) b = b" "swept v b = b" using mark_unmarked[of v b] assms(8) by auto
    have "?h = hash_upto v h0 (Suc j)"
      unfolding hash_upto_Suc[OF assms(2)] hash_amid_def assms(3)[symmetric] using u by simp
    then show ?thesis using False assms(4,5) by (simp add: hash_iterator_unlock_def)
  qed
  then show ?thesis using assms(5-7) by (simp add: between_def)
qed

lemma next_between:
  assumes "between v h0 j h hi" "j \<le> length (h_buckets h0)"
  shows "(\<exists>h' hi'. next_loop h hi = Inr (None, h', hi') \<and> finished v h0 h' hi')
    \<or> (\<exists>j' hi'. j \<le> j' \<and> visiting v h0 j' 0 hi' \<and> next_loop h hi = Inr (Some (h_buckets h0 ! j' ! 0), hash_amid v h0 j' 0, hi'))"
  using assms
proof (induction "length (h_buckets h0) - j" arbitrary: j h hi)
  case 0
  then have "j = length (h_buckets h0)" by simp
  moreover obtain hi' where "hash_iterator_unlock h (hi\<lparr>hi_bucket_index := int j\<rparr>) = Inr (hash_upto v h0 j, hi')"
    using 0(2) unfolding between_def by blast
  ultimately have "next_loop h hi = Inr (None, h, hi\<lparr>hi_bucket_index := int j\<rparr>)" "finished v h0 h (hi\<lparr>hi_bucket_index := int j\<rparr>)"
    using 0(2) unfolding next_loop.simps[of h hi] by (auto simp: between_def Let_def finished_def)
  then show ?case by blast
next
  case (Suc m)
  then have lt: "j < length (h_buckets h0)" by simp
  note bt = Suc.prems(1)[unfolded between_def]
  let ?hi = "hi\<lparr>hi_bucket_index := int j\<rparr>" and ?H = "hash_upto v h0 j"
  obtain hi1 where u: "hash_iterator_unlock h ?hi = Inr (?H, hi1)" "hi_bucket hi1 = None" "hi_elem hi1 = None"
    using bt by blast
  have u': "hi_bucket_index hi1 = int j" "hi_bucket_index_end hi1 = int (length (h_buckets h0))"
    using unlock_fields[OF u(1)] bt by simp_all
  have get: "arr_get (h_buckets ?H) (int j) = Inr (h_buckets h0 ! j)"
    using lt by (simp add: arr_get_nat hash_upto_nth)
  have step: "next_loop h hi = (case h_buckets h0 ! j of
      he # _ \<Rightarrow> Inr (Some he, ?H, hash_iterator_advance (h_buckets h0 ! j) ((hash_iterator_lock hi1 (int j))\<lparr>hi_elem := Some 0\<rparr>))
    | [] \<Rightarrow> next_loop ?H hi1)"
    unfolding next_loop.simps[of h hi] using bt lt u u' get by (simp add: Let_def split: list.split)
  show ?case
  proof (cases "h_buckets h0 ! j")
    case Nil
    have "(h_buckets ?H)[j := []] = h_buckets ?H"
      using list_update_id[of "h_buckets ?H" j] hash_upto_nth[OF lt, of v] Nil by simp
    then have "?H = hash_upto v h0 (Suc j)" unfolding hash_upto_Suc[OF lt] Nil by (simp add: swept_def)
    then have "between v h0 (Suc j) ?H hi1" using u u' by (simp add: between_def hash_iterator_unlock_def)
    have e: "next_loop h hi = next_loop ?H hi1" unfolding step Nil by simp
    have "m = length (h_buckets h0) - Suc j" "Suc j \<le> length (h_buckets h0)" using Suc.hyps(2) lt by simp_all
    from Suc.hyps(1)[OF this(1) \<open>between v h0 (Suc j) ?H hi1\<close> this(2)] show ?thesis unfolding e
      by (elim disjE exE conjE) (blast intro: Suc_leD)+
  next
    case (Cons he rest)
    let ?hi' = "hash_iterator_advance (he # rest) ((hash_iterator_lock hi1 (int j))\<lparr>hi_elem := Some 0\<rparr>)"
    have "visiting v h0 j 0 ?hi'" using lt Cons u'
      by (simp add: visiting_def hash_iterator_advance_def hash_iterator_lock_def)
    moreover have "next_loop h hi = Inr (Some (h_buckets h0 ! j ! 0), hash_amid v h0 j 0, ?hi')"
      unfolding step hash_amid_0[OF lt] using Cons by simp
    ultimately show ?thesis by blast
  qed
qed

section \<open>The loop\<close>

lemma amid_bucket:
  "j < length (h_buckets h0) \<Longrightarrow> arr_get (h_buckets (hash_amid v h0 j i)) (int j)
     = Inr (map (mark v) (take i (h_buckets h0 ! j)) @ drop i (h_buckets h0 ! j))"
  by (simp add: hash_amid_def arr_get_nat)

lemma amid_element:
  "i < length (h_buckets h0 ! j) \<Longrightarrow>
     arr_get (map (mark v) (take i (h_buckets h0 ! j)) @ drop i (h_buckets h0 ! j)) (int i) = Inr (h_buckets h0 ! j ! i)"
  by (subst arr_get_nat) (simp_all add: nth_append)

lemma mark_next:
  assumes "i < length b"
  shows "(map (mark v) (take i b) @ drop i b)[i := mark v (b ! i)] = map (mark v) (take (Suc i) b) @ drop (Suc i) b"
proof -
  have "drop i b = b ! i # drop (Suc i) b" using assms by (simp add: Cons_nth_drop_Suc)
  then show ?thesis using assms by (simp add: list_update_append take_Suc_conv_app_nth)
qed

lemma delete_visited:
  assumes "visiting v h0 j i hi" "he = h_buckets h0 ! j ! i"
  shows "(if he_value he = v then hash_iterator_delete_element (hash_amid v h0 j i) hi else Inr (hash_amid v h0 j i, hi))
    = Inr (hash_amid v h0 j (Suc i), hi\<lparr>hi_bucket_marked := (hi_bucket_marked hi \<or> he_value he = v)\<rparr>)"
proof -
  let ?b = "h_buckets h0 ! j"
  note vs = assms(1)[unfolded visiting_def]
  have lt: "j < length (h_buckets h0)" "i < length ?b" using vs by simp_all
  have mk: "(map (mark v) (take i ?b) @ drop i ?b)[i := mark v he] = map (mark v) (take (Suc i) ?b) @ drop (Suc i) ?b"
    using mark_next[OF lt(2)] assms(2) by simp
  show ?thesis
  proof (cases "he_value he = v")
    case True
    then have m: "he\<lparr>he_key := None\<rparr> = mark v he" by (simp add: mark_def)
    have s1: "arr_set (map (mark v) (take i ?b) @ drop i ?b) (int i) (mark v he)
        = Inr (map (mark v) (take (Suc i) ?b) @ drop (Suc i) ?b)"
      using lt mk by (subst arr_set_nat) simp_all
    have s2: "arr_set (h_buckets (hash_amid v h0 j i)) (int j) x = Inr ((h_buckets (hash_amid v h0 j i))[j := x])" for x
      using lt by (subst arr_set_nat) (simp_all add: hash_amid_def)
    show ?thesis using True vs
      by (simp add: hash_iterator_delete_element_def amid_bucket amid_element assms(2)[symmetric] m s1 s2)
        (simp add: hash_amid_def)
  next
    case False
    then have "mark v he = he" by (simp add: mark_def)
    moreover have "(map (mark v) (take i ?b) @ drop i ?b)[i := he] = map (mark v) (take i ?b) @ drop i ?b"
      using list_update_id[of "map (mark v) (take i ?b) @ drop i ?b" i] lt assms(2) by (simp add: nth_append)
    ultimately show ?thesis using False mk by (simp add: hash_amid_def)
  qed
qed

definition runs_out :: "'v \<Rightarrow> ('k, 'v) hash \<Rightarrow> ('k, 'v) hash \<Rightarrow> hash_iterator \<Rightarrow> bool" where
  "runs_out v h0 h hi \<longleftrightarrow> (\<exists>h' hi'. remove_value_loop v h hi = Inr (h', hi') \<and> finished v h0 h' hi')"

lemma walk_bucket:
  assumes "keys_set h0" and rest: "\<And>h hi. between v h0 (Suc j) h hi \<Longrightarrow> runs_out v h0 h hi"
    and "visiting v h0 j i hi"
    and "hi2 = hi\<lparr>hi_bucket_marked := (hi_bucket_marked hi \<or> he_value (h_buckets h0 ! j ! i) = v)\<rparr>"
  shows "runs_out v h0 (hash_amid v h0 j (Suc i)) hi2"
  using assms(3,4)
proof (induction "length (h_buckets h0 ! j) - i" arbitrary: i hi hi2)
  case 0
  then show ?case by (simp add: visiting_def)
next
  case (Suc m)
  let ?b = "h_buckets h0 ! j"
  note vs = Suc.prems(1)[unfolded visiting_def]
  have lt: "j < length (h_buckets h0)" "i < length ?b" using vs by simp_all
  have mk: "hi_bucket_marked hi2 \<longleftrightarrow> v \<in> he_value ` set (take (Suc i) ?b)"
    using vs lt Suc.prems(2) by (auto simp: take_Suc_conv_app_nth)
  show ?case
  proof (cases "Suc i < length ?b")
    case False
    then have e: "Suc i = length ?b" using lt by simp
    have "between v h0 (Suc j) (hash_amid v h0 j (length ?b)) hi2"
      using vs mk e Suc.prems(2) by (intro finish_bucket[OF assms(1) lt(1) refl]) auto
    then show ?thesis unfolding e by (rule rest)
  next
    case True
    let ?he = "?b ! Suc i" and ?h = "hash_amid v h0 j (Suc i)"
    let ?hi3 = "hash_iterator_advance (map (mark v) (take (Suc i) ?b) @ drop (Suc i) ?b) hi2"
    have n: "hash_iterator_next ?h hi2 = Inr (Some ?he, ?h, ?hi3)"
      using vs True Suc.prems(2) amid_element[OF True, of v] by (simp add: hash_iterator_next_def amid_bucket)
    have v: "visiting v h0 j (Suc i) ?hi3"
      using vs True mk Suc.prems(2) unfolding visiting_def by (auto simp add: hash_iterator_advance_def)
    have "runs_out v h0 (hash_amid v h0 j (Suc (Suc i)))
        (?hi3\<lparr>hi_bucket_marked := (hi_bucket_marked ?hi3 \<or> he_value ?he = v)\<rparr>)"
      using Suc.hyps(2) by (intro Suc.hyps(1)[OF _ v refl]) simp
    then show ?thesis unfolding runs_out_def remove_value_loop.simps[of v ?h hi2] n
      by (simp add: delete_visited[OF v refl])
  qed
qed

lemma walk_between:
  assumes "keys_set h0" "between v h0 j h hi" "j \<le> length (h_buckets h0)"
  shows "runs_out v h0 h hi"
  using assms(2,3)
proof (induction "length (h_buckets h0) - j" arbitrary: j h hi rule: less_induct)
  case less
  have e: "hash_iterator_next h hi = next_loop h hi"
    using less.prems(1) by (simp add: between_def hash_iterator_next_def split: option.split)
  from next_between[OF less.prems] show ?case
  proof (elim disjE exE conjE)
    fix h' hi' assume "next_loop h hi = Inr (None, h', hi')" "finished v h0 h' hi'"
    then show ?thesis unfolding runs_out_def remove_value_loop.simps[of v h hi] e by simp
  next
    fix j' hi' assume j': "j \<le> j'" and v: "visiting v h0 j' 0 hi'"
      and n: "next_loop h hi = Inr (Some (h_buckets h0 ! j' ! 0), hash_amid v h0 j' 0, hi')"
    have lt: "j' < length (h_buckets h0)" using v by (simp add: visiting_def)
    have "runs_out v h0 h hi" if "between v h0 (Suc j') h hi" for h hi
      using j' lt that by (intro less.hyps[OF _ that]) auto
    from walk_bucket[OF assms(1) this v refl] show ?thesis
      unfolding runs_out_def remove_value_loop.simps[of v h hi] e n by (simp add: delete_visited[OF v refl])
  qed
qed

lemma remove_by_value_sweeps:
  assumes "keys_set h0" "int (length (h_buckets h0)) = h_n_buckets h0"
  shows "hash_remove_by_value h0 v = Inr (hash_upto v h0 (length (h_buckets h0)))"
proof -
  obtain hi where hi: "hash_iterator_init h0 = Inr hi" "hi_bucket_index hi = -1" "hi_bucket hi = None" "hi_elem hi = None"
    "hi_bucket_index_end hi = int (length (h_buckets h0))"
    using assms(2) by (simp add: hash_iterator_init_def hash_iterator_init_range_def assertE_def)
  have "hash_upto v h0 0 = h0" by (simp add: hash_upto_def gone_def)
  then have "between v h0 0 h0 hi" using hi by (simp add: between_def hash_iterator_unlock_def)
  from walk_between[OF assms(1) this] show ?thesis
    using hi(1) by (auto simp: runs_out_def finished_def hash_remove_by_value_def hash_iterator_free_def)
qed

end
