(* ===== verification/Hash_Correct.thy ===== *)
theory Hash_Correct
  imports Hash_Sweep
begin

text \<open>
  What the users of a hash table rely on: any sequence of calls behaves as on a function from keys to
  values, and removing by value removes exactly the bindings of that value. The mixing step of the
  hash function is reversible.
\<close>

section \<open>A fresh table\<close>

lemma hash_init_ok:
  fixes canon :: "'k \<Rightarrow> 'c"
  assumes "0 < n" "n \<le> 2 ^ 30" "\<forall>k k' iv. canon k = canon k' \<longrightarrow> hf k iv = hf k' iv"
  shows "\<exists>h :: ('k, 'v) hash. hash_init n iv hf (\<lambda>k k'. canon k = canon k') = Inr h \<and> hash_wf canon h \<and> hash_content canon h = (\<lambda>_. None)"
proof -
  let ?u = "word_of_int n :: u64"
  have u: "unat ?u \<le> 2 ^ 30" using assms(1,2) by (simp add: unat_eq_nat_uint uint_word_of_int)
  define j where "j = (LEAST j. unat ?u \<le> 2 ^ j)"
  have j: "j \<le> 30" unfolding j_def using u by (rule Least_le)
  have p: "adjust_power_of_2 ?u = Inr (2 ^ j)" unfolding j_def using u by (intro adjust_power_of_2_least) simp
  have "ucast (2 ^ j :: u64) = (2 ^ j :: u32)" by (rule bit_word_eqI) (simp add: bit_simps)
  moreover have "sint (2 ^ j :: u32) = 2 ^ j"
  proof -
    have "(2::int) ^ j \<le> 2 ^ 30" using j by (intro power_increasing) auto
    then have "sint (word_of_int (2 ^ j) :: u32) = 2 ^ j" unfolding sint_sbintrunc' using zero_le_power[of "2::int" j]
      by (intro signed_take_bit_int_eq_self) (simp_all del: zero_le_power)
    then show ?thesis by simp
  qed
  ultimately have nb: "sint (ucast (2 ^ j :: u64) :: u32) = 2 ^ j" by simp
  let ?h = "\<lparr>h_n_buckets = 2 ^ j, h_n_elements = 0, h_mask = 2 ^ j - 1, h_iv = iv, h_hash_function = hf,
    h_compare_function = (\<lambda>k k'. canon k = canon k'), h_buckets = replicate (nat (2 ^ j)) []\<rparr> :: ('k, 'v) hash"
  have i: "hash_init n iv hf (\<lambda>k k'. canon k = canon k') = Inr ?h"
    using assms(1) unfolding hash_init_def p bindE_Inr nb Let_def by (simp add: assertE_def)
  have "hash_laws canon ?h" using assms(3) unfolding hash_laws_def hash.select_convs by blast
  moreover have "\<exists>i < 31. (2::int) ^ j = 2 ^ i" using j by (intro exI[of _ j]) simp
  moreover have "int (nat (2 ^ j)) = 2 ^ j" by simp
  ultimately have w: "hash_wf canon ?h" by (simp add: hash_wf_def bucket_wf_def)
  have "hash_content canon ?h k = None" for k
  proof -
    have "h_buckets ?h ! key_index ?h k = []" using key_index_ok(1)[OF w, of k]
      unfolding hash.select_convs length_replicate by (rule nth_replicate)
    then show ?thesis unfolding hash_content_def by (simp add: bucket_find_def)
  qed
  then show ?thesis using i w by blast
qed

section \<open>The table as a keyed store\<close>

definition hash_step :: "('k, 'v) hash \<Rightarrow> ('k, 'v) store_op \<Rightarrow> ('v store_result \<times> ('k, 'v) hash) res" where
  "hash_step h op = (case op of
     Lookup k \<Rightarrow> bindE (hash_lookup h k) (\<lambda>(r, h'). Inr (Found r, h'))
   | Insert k v replace \<Rightarrow> bindE (hash_add h k v replace) (\<lambda>(r, h'). Inr (Changed r, h'))
   | Remove k \<Rightarrow> bindE (hash_remove h k) (\<lambda>(r, h'). Inr (Changed r, h')))"

lemma hash_content_same:
  "hash_wf canon h \<Longrightarrow> canon x = canon y \<Longrightarrow> hash_content canon h x = hash_content canon h y"
  unfolding hash_wf_def hash_laws_def hash_content_def key_index_def hash_value_def by metis

interpretation ht: keyed_store "hash_wf canon" "hash_content canon" "\<lambda>k k'. canon k = canon k'" hash_step
  for canon :: "'k \<Rightarrow> 'c"
proof
  fix h :: "('k, 'v) hash" and op :: "('k, 'v) store_op"
  assume w: "hash_wf canon h"
  show "\<exists>r h'. hash_step h op = Inr (r, h') \<and> hash_wf canon h'
    \<and> ref_op (\<lambda>k k'. canon k = canon k') (hash_content canon h) op = (r, hash_content canon h')"
  proof (cases op)
    case (Lookup k)
    then show ?thesis using hash_lookup_ok[OF w, of k] by (auto simp: hash_step_def)
  next
    case (Insert k v replace)
    obtain h' where "hash_add h k v replace = Inr (hash_content canon h k = None \<or> replace, h')" "hash_wf canon h'"
      "hash_content canon h' = (if hash_content canon h k \<noteq> None \<and> \<not> replace then hash_content canon h
         else (\<lambda>x. if canon x = canon k then Some v else hash_content canon h x))"
      using hash_add_ok[OF w, of k v replace] by blast
    then show ?thesis using Insert by (auto simp: hash_step_def fun_eq_iff)
  next
    case (Remove k)
    obtain h' where "hash_remove h k = Inr (hash_content canon h k \<noteq> None, h')" "hash_wf canon h'"
      "hash_content canon h' = (\<lambda>x. if canon x = canon k then None else hash_content canon h x)"
      using hash_remove_ok[OF w, of k] by blast
    then show ?thesis using Remove by (auto simp: hash_step_def fun_eq_iff)
  qed
qed

text \<open>
  C35. Whatever the (compatible) hash and comparison functions and the initial value are, a table made by
  \<open>hash_init\<close> with at most \<open>2 ^ 30\<close> buckets answers every sequence of \<open>hash_lookup\<close>, \<open>hash_add\<close> (replacing or
  not) and \<open>hash_remove\<close> calls as a plain partial function on keys would, without a fault.
\<close>

theorem hash_table_is_map:
  fixes canon :: "'k \<Rightarrow> 'c" and ops :: "('k, 'v) store_op list"
  assumes "0 < n" "n \<le> 2 ^ 30" "\<forall>k k' iv. canon k = canon k' \<longrightarrow> hf k iv = hf k' iv"
  shows "\<exists>h rs h'. hash_init n iv hf (\<lambda>k k'. canon k = canon k') = Inr h \<and> store_run hash_step h ops = Inr (rs, h')
    \<and> ref_run (\<lambda>k k'. canon k = canon k') (\<lambda>_. None) ops = (rs, hash_content canon h')"
proof -
  obtain h :: "('k, 'v) hash" where h: "hash_init n iv hf (\<lambda>k k'. canon k = canon k') = Inr h" "hash_wf canon h" "hash_content canon h = (\<lambda>_. None)"
    using hash_init_ok[OF assms] by blast
  show ?thesis using ht.run_ref[OF h(2), of ops] h by metis
qed

theorem hash_table_is_map_witness:
  "\<exists>h rs h'. hash_init 3 7 (\<lambda>k iv. hash_func k iv) (\<lambda>k k'. id k = id k') = Inr h
    \<and> store_run hash_step h [Insert [1, 2] True False, Lookup [1, 2], Remove [1, 2]] = Inr (rs, h')
    \<and> ref_run (\<lambda>k k'. id k = id k') (\<lambda>_. None) [Insert [1, 2] True False, Lookup [1, 2], Remove [1, 2]] = (rs, hash_content id h')"
  by (rule hash_table_is_map) auto

section \<open>Removal by value\<close>

lemma keys_set_wf:
  assumes "hash_wf canon h"
  shows "keys_set h"
  unfolding keys_set_def
proof (intro ballI)
  fix b he assume b: "b \<in> set (h_buckets h)" and he: "he \<in> set b"
  from b obtain i where "i < length (h_buckets h)" "b = h_buckets h ! i" by (auto simp: in_set_conv_nth)
  then have "bucket_wf canon h i b" using assms by (simp add: hash_wf_def)
  then show "he_key he \<noteq> None" using he by (auto simp: bucket_wf_def)
qed

lemma hash_upto_full:
  "hash_upto v h (length (h_buckets h)) = h\<lparr>h_buckets := map (swept v) (h_buckets h),
     h_n_elements := h_n_elements h - gone v (h_buckets h)\<rparr>"
  by (simp add: hash_upto_def)

lemma gone_sum: "gone v bs = int (sum_list (map length bs)) - int (sum_list (map length (map (swept v) bs)))"
  by (induction bs) (auto simp: gone_def)

lemma bucket_wf_swept: "bucket_wf canon h i b \<Longrightarrow> bucket_wf canon h i (swept v b)"
  by (auto simp: bucket_wf_def swept_def intro: distinct_map_filter)

lemma bucket_find_swept:
  "distinct (map (\<lambda>he. canon (the (he_key he))) b) \<Longrightarrow>
     bucket_find canon (swept v b) c = (if bucket_find canon b c = Some v then None else bucket_find canon b c)"
proof (induction b arbitrary: c)
  case (Cons he b)
  have n: "bucket_find canon b (canon (the (he_key he))) = None"
    using Cons.prems unfolding bucket_find_simps(3) by simp
  have IH: "bucket_find canon (swept v b) c = (if bucket_find canon b c = Some v then None else bucket_find canon b c)" for c
    using Cons by simp
  have s: "swept v (he # b) = (if he_value he = v then swept v b else he # swept v b)" by (simp add: swept_def)
  show ?case unfolding s
    by (cases "he_value he = v"; cases "c = canon (the (he_key he))") (use n in \<open>simp_all add: bucket_find_simps(2) IH\<close>)
qed (simp add: swept_def bucket_find_def)

text \<open>
  C36. \<open>hash_remove_by_value\<close>, which walks the table with an iterator, marks elements and sweeps each
  bucket as it leaves it, terminates without a fault and removes exactly the bindings to the given
  value, leaving every other one and a well-formed table with the right element count.
\<close>

theorem hash_remove_by_value_exact:
  assumes "hash_wf canon h"
  shows "\<exists>h'. hash_remove_by_value h v = Inr h' \<and> hash_wf canon h'
    \<and> hash_content canon h' = (\<lambda>k. if hash_content canon h k = Some v then None else hash_content canon h k)"
proof -
  let ?h = "hash_upto v h (length (h_buckets h))"
  note wf = assms[unfolded hash_wf_def]
  have r: "hash_remove_by_value h v = Inr ?h" using wf by (intro remove_by_value_sweeps keys_set_wf[OF assms]) simp
  have w: "hash_wf canon ?h"
    unfolding hash_wf_def hash_upto_full hash_update_frame gone_sum using wf by (auto intro: bucket_wf_swept)
  have "hash_content canon ?h k = (if hash_content canon h k = Some v then None else hash_content canon h k)" for k
  proof -
    have "key_index ?h k = key_index h k" unfolding hash_upto_full hash_update_frame ..
    moreover note lt = key_index_ok(1)[OF assms, of k]
    moreover have "distinct (map (\<lambda>he. canon (the (he_key he))) (h_buckets h ! key_index h k))"
      using wf lt by (auto simp: bucket_wf_def)
    ultimately show ?thesis unfolding hash_content_def by (simp add: hash_upto_full bucket_find_swept)
  qed
  then show ?thesis using r w by blast
qed

definition sample_hash :: "(int, bool) hash" where
  "sample_hash = \<lparr>h_n_buckets = 2, h_n_elements = 2, h_mask = 1, h_iv = 0, h_hash_function = (\<lambda>k iv. word_of_int k),
     h_compare_function = (\<lambda>k k'. id k = id k'), h_buckets = [[\<lparr>he_value = True, he_key = Some 2, he_hash_value = 2\<rparr>],
       [\<lparr>he_value = False, he_key = Some 1, he_hash_value = 1\<rparr>]]\<rparr>"

lemma sample_hash_wf: "hash_wf id sample_hash"
proof -
  have "\<exists>j < 31. (2::int) = 2 ^ j" by (rule exI[of _ 1]) simp
  then show ?thesis
    by (auto simp: hash_wf_def sample_hash_def hash_laws_def bucket_wf_def hash_value_def key_index_def hash_bucket_def
        less_Suc_eq nth_Cons split: nat.splits)
qed

theorem hash_remove_by_value_exact_witness:
  "\<exists>h'. hash_remove_by_value sample_hash True = Inr h' \<and> hash_wf id h'
    \<and> hash_content id h' = (\<lambda>k. if hash_content id sample_hash k = Some True then None else hash_content id sample_hash k)"
  by (rule hash_remove_by_value_exact[OF sample_hash_wf])

section \<open>Mixing\<close>

definition mix_a :: "(u32 \<Rightarrow> u32) \<Rightarrow> u32 \<times> u32 \<times> u32 \<Rightarrow> u32 \<times> u32 \<times> u32" where
  "mix_a f = (\<lambda>(a, b, c). ((a - b - c) XOR f c, b, c))"

definition rotate_regs :: "u32 \<times> u32 \<times> u32 \<Rightarrow> u32 \<times> u32 \<times> u32" where
  "rotate_regs = (\<lambda>(a, b, c). (b, c, a))"

lemma xor_cancel: "(x XOR f :: u32) = y XOR f \<longleftrightarrow> x = y"
  by (metis xor.assoc xor_self_eq xor.right_neutral)

lemma bij_mix_a: "bij (rotate_regs \<circ> mix_a f)"
proof (rule o_bij)
  let ?g = "(\<lambda>(b, c, a). ((a XOR f c) + c + b, b, c))"
  show "?g \<circ> (rotate_regs \<circ> mix_a f) = id" "(rotate_regs \<circ> mix_a f) \<circ> ?g = id"
    by (auto simp: fun_eq_iff rotate_regs_def mix_a_def xor.assoc)
qed

text \<open>
  The \<open>hash_mix\<close> macro mixes its three words reversibly: it is a bijection, so no state of the hash
  is merged with another before the final word is taken.
\<close>

theorem hash_mix_reversible: "bij hash_mix"
proof -
  have step: "rotate_regs \<circ> mix_a f = (\<lambda>(a, b, c). (b, c, (a - b - c) XOR f c))" for f
    by (auto simp: fun_eq_iff rotate_regs_def mix_a_def)
  let ?m = "\<lambda>f. rotate_regs \<circ> mix_a f"
  have "hash_mix (a0, b0, c0) = (?m (drop_bit 15) \<circ> ?m (push_bit 10) \<circ> ?m (drop_bit 3) \<circ> ?m (drop_bit 5) \<circ> ?m (push_bit 16) \<circ> ?m (drop_bit 12) \<circ> ?m (drop_bit 13) \<circ> ?m (push_bit 8) \<circ> ?m (drop_bit 13)) (a0, b0, c0)" for a0 b0 c0
  proof -
    obtain a1 where a1: "a0 - b0 - c0 XOR drop_bit 13 c0 = a1" by blast
    obtain b1 where b1: "b0 - c0 - a1 XOR push_bit 8 a1 = b1" by blast
    obtain c1 where c1: "c0 - a1 - b1 XOR drop_bit 13 b1 = c1" by blast
    obtain a2 where a2: "a1 - b1 - c1 XOR drop_bit 12 c1 = a2" by blast
    obtain b2 where b2: "b1 - c1 - a2 XOR push_bit 16 a2 = b2" by blast
    obtain c2 where c2: "c1 - a2 - b2 XOR drop_bit 5 b2 = c2" by blast
    obtain a3 where a3: "a2 - b2 - c2 XOR drop_bit 3 c2 = a3" by blast
    obtain b3 where b3: "b2 - c2 - a3 XOR push_bit 10 a3 = b3" by blast
    obtain c3 where c3: "c2 - a3 - b3 XOR drop_bit 15 b3 = c3" by blast
    show ?thesis
      by (simp only: hash_mix_def prod.case Let_def step o_apply a1 b1 c1 a2 b2 c2 a3 b3 c3 cong: let_weak_cong)
  qed
  then have e: "hash_mix = ?m (drop_bit 15) \<circ> ?m (push_bit 10) \<circ> ?m (drop_bit 3) \<circ> ?m (drop_bit 5) \<circ> ?m (push_bit 16) \<circ> ?m (drop_bit 12) \<circ> ?m (drop_bit 13) \<circ> ?m (push_bit 8) \<circ> ?m (drop_bit 13)" by auto
  show ?thesis unfolding e by (intro bij_comp bij_mix_a)
qed

end
