(* ===== verification/Crypto.thy ===== *)
theory Crypto
  imports Packet_Id_Wire Mtu
begin

text \<open>
  Sealing and opening of data channel packets (\<open>crypto.c\<close>): \<open>openvpn_encrypt\<close> and \<open>openvpn_decrypt\<close> for
  AEAD ciphers, for CBC, OFB and CFB ciphers with an HMAC, and without a cipher. The cipher library
  behind \<open>crypto_backend.h\<close> is a parameter: a cipher context carries the calls the code makes of it
  over a state of any type, an HMAC context a function from messages to codes. Comparing codes in
  constant time is comparing them; random bytes and the clock are arguments. A pointer into a buffer
  is an index into its block.
\<close>

section \<open>The interface of the cipher library\<close>

datatype cipher_mode = OPENVPN_MODE_CBC | OPENVPN_MODE_OFB | OPENVPN_MODE_CFB | OPENVPN_MODE_GCM | OTHER_MODE

definition OPENVPN_MAX_IV_LENGTH :: int where "OPENVPN_MAX_IV_LENGTH = 16"
definition OPENVPN_AEAD_TAG_LENGTH :: int where "OPENVPN_AEAD_TAG_LENGTH = 16"
definition OPENVPN_AEAD_MIN_IV_LEN :: int where "OPENVPN_AEAD_MIN_IV_LEN = 4 + 8"
definition OPENVPN_MAX_CIPHER_BLOCK_SIZE :: int where "OPENVPN_MAX_CIPHER_BLOCK_SIZE = 32"
definition OPENVPN_MAX_HMAC_SIZE :: int where "OPENVPN_MAX_HMAC_SIZE = 64"
definition MAX_HMAC_KEY_LENGTH :: int where "MAX_HMAC_KEY_LENGTH = 64"
definition MAX_CIPHER_KEY_LENGTH :: int where "MAX_CIPHER_KEY_LENGTH = 64"

text \<open>The static description of a cipher. An AEAD cipher is excluded from the other modes.\<close>

record cipher_kt =
  ck_mode :: cipher_mode
  ck_aead :: bool
  ck_iv_size :: int
  ck_block_size :: int

definition cipher_kt_mode_aead :: "cipher_kt option \<Rightarrow> bool" where
  "cipher_kt_mode_aead kt = (case kt of None \<Rightarrow> False | Some k \<Rightarrow> ck_aead k)"

definition cipher_kt_mode_cbc :: "cipher_kt option \<Rightarrow> bool" where
  "cipher_kt_mode_cbc kt = (case kt of None \<Rightarrow> False | Some k \<Rightarrow> ck_mode k = OPENVPN_MODE_CBC \<and> \<not> ck_aead k)"

definition cipher_kt_mode_ofb_cfb :: "cipher_kt option \<Rightarrow> bool" where
  "cipher_kt_mode_ofb_cfb kt = (case kt of None \<Rightarrow> False
     | Some k \<Rightarrow> (ck_mode k = OPENVPN_MODE_OFB \<or> ck_mode k = OPENVPN_MODE_CFB) \<and> \<not> ck_aead k)"

definition cipher_kt_tag_size :: "cipher_kt option \<Rightarrow> int" where
  "cipher_kt_tag_size kt = (if cipher_kt_mode_aead kt then OPENVPN_AEAD_TAG_LENGTH else 0)"

text \<open>A keyed cipher: every call maps the library's state to its answer and the next state.\<close>

record 's cipher_ctx =
  cc_kt :: cipher_kt
  cc_state :: 's
  cc_reset :: "'s \<Rightarrow> byte list \<Rightarrow> bool \<times> 's"
  cc_update_ad :: "'s \<Rightarrow> byte list \<Rightarrow> bool \<times> 's"
  cc_update :: "'s \<Rightarrow> byte list \<Rightarrow> byte list option \<times> 's"
  cc_final :: "'s \<Rightarrow> byte list option \<times> 's"
  cc_get_tag :: "'s \<Rightarrow> int \<Rightarrow> byte list option \<times> 's"
  cc_final_check_tag :: "'s \<Rightarrow> byte list \<Rightarrow> byte list option \<times> 's"

definition cipher_ctx_iv_length :: "'s cipher_ctx \<Rightarrow> int" where
  "cipher_ctx_iv_length c = ck_iv_size (cc_kt c)"

definition cipher_ctx_block_size :: "'s cipher_ctx \<Rightarrow> int" where
  "cipher_ctx_block_size c = ck_block_size (cc_kt c)"

definition cipher_ctx_get_cipher_kt :: "'s cipher_ctx option \<Rightarrow> cipher_kt option" where
  "cipher_ctx_get_cipher_kt = map_option cc_kt"

definition cipher_ctx_reset :: "'s cipher_ctx \<Rightarrow> byte list \<Rightarrow> bool \<times> 's cipher_ctx" where
  "cipher_ctx_reset c iv = (case cc_reset c (cc_state c) iv of (ok, s) \<Rightarrow> (ok, c\<lparr>cc_state := s\<rparr>))"

definition cipher_ctx_update_ad :: "'s cipher_ctx \<Rightarrow> byte list \<Rightarrow> bool \<times> 's cipher_ctx" where
  "cipher_ctx_update_ad c src = (case cc_update_ad c (cc_state c) src of (ok, s) \<Rightarrow> (ok, c\<lparr>cc_state := s\<rparr>))"

definition cipher_ctx_update :: "'s cipher_ctx \<Rightarrow> byte list \<Rightarrow> byte list option \<times> 's cipher_ctx" where
  "cipher_ctx_update c src = (case cc_update c (cc_state c) src of (r, s) \<Rightarrow> (r, c\<lparr>cc_state := s\<rparr>))"

definition cipher_ctx_final :: "'s cipher_ctx \<Rightarrow> byte list option \<times> 's cipher_ctx" where
  "cipher_ctx_final c = (case cc_final c (cc_state c) of (r, s) \<Rightarrow> (r, c\<lparr>cc_state := s\<rparr>))"

definition cipher_ctx_get_tag :: "'s cipher_ctx \<Rightarrow> int \<Rightarrow> byte list option \<times> 's cipher_ctx" where
  "cipher_ctx_get_tag c n = (case cc_get_tag c (cc_state c) n of (r, s) \<Rightarrow> (r, c\<lparr>cc_state := s\<rparr>))"

definition cipher_ctx_final_check_tag :: "'s cipher_ctx \<Rightarrow> byte list \<Rightarrow> byte list option \<times> 's cipher_ctx" where
  "cipher_ctx_final_check_tag c tag = (case cc_final_check_tag c (cc_state c) tag of (r, s) \<Rightarrow> (r, c\<lparr>cc_state := s\<rparr>))"

record hmac_ctx =
  hm_size :: int
  hm_mac :: "byte list \<Rightarrow> byte list"

section \<open>State\<close>

record 's key_ctx =
  kc_cipher :: "'s cipher_ctx option"
  kc_hmac :: "hmac_ctx option"
  kc_implicit_iv :: "byte list"
  kc_implicit_iv_len :: int

record 's key_ctx_bi =
  kb_encrypt :: "'s key_ctx"
  kb_decrypt :: "'s key_ctx"
  kb_initialized :: bool

definition CO_PACKET_ID_LONG_FORM :: u32 where "CO_PACKET_ID_LONG_FORM = 1"
definition CO_IGNORE_PACKET_ID :: u32 where "CO_IGNORE_PACKET_ID = 2"
definition CO_MUTE_REPLAY_WARNINGS :: u32 where "CO_MUTE_REPLAY_WARNINGS = 4"

record 's crypto_options =
  co_key_ctx_bi :: "'s key_ctx_bi"
  co_packet_id :: packet_id
  co_pid_persist :: "packet_id_persist option"
  co_flags :: u32

definition co_encrypt :: "'s crypto_options \<Rightarrow> 's key_ctx" where
  "co_encrypt opt = kb_encrypt (co_key_ctx_bi opt)"

definition co_decrypt :: "'s crypto_options \<Rightarrow> 's key_ctx" where
  "co_decrypt opt = kb_decrypt (co_key_ctx_bi opt)"

definition set_encrypt :: "'s crypto_options \<Rightarrow> 's cipher_ctx \<Rightarrow> 's crypto_options" where
  "set_encrypt opt c = opt\<lparr>co_key_ctx_bi := (co_key_ctx_bi opt)\<lparr>kb_encrypt := (co_encrypt opt)\<lparr>kc_cipher := Some c\<rparr>\<rparr>\<rparr>"

definition set_decrypt :: "'s crypto_options \<Rightarrow> 's cipher_ctx \<Rightarrow> 's crypto_options" where
  "set_decrypt opt c = opt\<lparr>co_key_ctx_bi := (co_key_ctx_bi opt)\<lparr>kb_decrypt := (co_decrypt opt)\<lparr>kc_cipher := Some c\<rparr>\<rparr>\<rparr>"

definition set_pid_send :: "'s crypto_options \<Rightarrow> packet_id_send \<Rightarrow> 's crypto_options" where
  "set_pid_send opt ps = opt\<lparr>co_packet_id := (co_packet_id opt)\<lparr>pid_send := ps\<rparr>\<rparr>"

definition co_long_form :: "'s crypto_options \<Rightarrow> bool" where
  "co_long_form opt \<longleftrightarrow> co_flags opt AND CO_PACKET_ID_LONG_FORM \<noteq> 0"

text \<open>The error exits empty the packet.\<close>

definition encrypt_err :: "buffer \<Rightarrow> 's crypto_options \<Rightarrow> (buffer \<times> 's crypto_options) res" where
  "encrypt_err buf opt = Inr (buf\<lparr>b_len := 0\<rparr>, opt)"

definition crypt_error :: "buffer \<Rightarrow> 's crypto_options \<Rightarrow> (bool \<times> buffer \<times> 's crypto_options) res" where
  "crypt_error buf opt = Inr (False, buf\<lparr>b_len := 0\<rparr>, opt)"

text \<open>What a call of the library writes to a place in a buffer, the length being increased by it.\<close>

definition put_output :: "buffer \<Rightarrow> int \<Rightarrow> byte list \<Rightarrow> buffer res" where
  "put_output work p out =
     bindE (buf_poke work p out) (\<lambda>work.
     case buf_inc_len work (int (length out)) of (ok, work) \<Rightarrow> bindE (assertE ok) (\<lambda>_. Inr work))"

definition bend :: "buffer \<Rightarrow> int" where
  "bend b = b_offset b + buf_len b"

section \<open>Sealing\<close>

text \<open>The IV of an AEAD packet: the packet identifier, then the implicit part.\<close>

definition aead_iv :: "int \<Rightarrow> 's cipher_ctx \<Rightarrow> 's crypto_options \<Rightarrow> (byte list option \<times> 's crypto_options) res" where
  "aead_iv now c opt =
     (let ctx = co_encrypt opt; iv_len = cipher_ctx_iv_length c in
      bindE (assertE (OPENVPN_AEAD_MIN_IV_LEN \<le> iv_len \<and> iv_len \<le> OPENVPN_MAX_IV_LENGTH)) (\<lambda>_.
      bindE (buf_set_write (Some (replicate (nat OPENVPN_MAX_IV_LENGTH) 0)) iv_len) (\<lambda>iv_buffer.
      bindE (packet_id_write now (pid_send (co_packet_id opt)) iv_buffer False False) (\<lambda>(ok, ps, iv_buffer).
      let opt = set_pid_send opt ps in
      if \<not> ok then Inr (None, opt)
      else
        bindE (mem_read (kc_implicit_iv ctx) 0 (kc_implicit_iv_len ctx)) (\<lambda>implicit.
        bindE (buf_write iv_buffer implicit) (\<lambda>(ok, iv_buffer).
        bindE (assertE ok) (\<lambda>_.
        bindE (assertE (b_len iv_buffer = iv_len)) (\<lambda>_. Inr (b_data iv_buffer, opt)))))))))"

definition openvpn_encrypt_aead :: "int \<Rightarrow> buffer \<Rightarrow> buffer \<Rightarrow> 's crypto_options \<Rightarrow> (buffer \<times> 's crypto_options) res" where
  "openvpn_encrypt_aead now buf work opt =
     (let ctx = co_encrypt opt; mac_len = cipher_kt_tag_size (cipher_ctx_get_cipher_kt (kc_cipher ctx)) in
      case kc_cipher ctx of None \<Rightarrow> Inl Assert_Failed | Some c \<Rightarrow>
      bindE (assertE (cipher_kt_mode_aead (Some (cc_kt c)))) (\<lambda>_.
      bindE (assertE (packet_id_initialized (co_packet_id opt))) (\<lambda>_.
      bindE (aead_iv now c opt) (\<lambda>(r, opt). case r of None \<Rightarrow> encrypt_err buf opt | Some iv \<Rightarrow>
      bindE (mem_read iv 0 (cipher_ctx_iv_length c - kc_implicit_iv_len ctx)) (\<lambda>explicit.
      bindE (buf_write work explicit) (\<lambda>(ok, work). bindE (assertE ok) (\<lambda>_.
      case cipher_ctx_reset c iv of (ok, c) \<Rightarrow> bindE (assertE ok) (\<lambda>_.
      case buf_write_alloc work mac_len of (None, _) \<Rightarrow> Inl Assert_Failed | (Some mac_out, work) \<Rightarrow>
      if \<not> buf_safe work (b_len buf + cipher_ctx_block_size c) then encrypt_err buf (set_encrypt opt c)
      else
        bindE (buf_peek work (b_offset work) (buf_len work - mac_len)) (\<lambda>ad.
        case cipher_ctx_update_ad c ad of (ok, c) \<Rightarrow> bindE (assertE ok) (\<lambda>_.
        bindE (buf_bytes buf) (\<lambda>plain.
        case cipher_ctx_update c plain of (None, _) \<Rightarrow> Inl Assert_Failed | (Some out, c) \<Rightarrow>
        bindE (put_output work (bend work) out) (\<lambda>work.
        case cipher_ctx_final c of (None, _) \<Rightarrow> Inl Assert_Failed | (Some out, c) \<Rightarrow>
        bindE (put_output work (bend work) out) (\<lambda>work.
        case cipher_ctx_get_tag c mac_len of (None, _) \<Rightarrow> Inl Assert_Failed | (Some tag, c) \<Rightarrow>
        bindE (buf_poke work mac_out tag) (\<lambda>work. Inr (work, set_encrypt opt c)))))))))))))))"

text \<open>
  The other modes. \<open>seal_v1\<close> encrypts into the work buffer, \<open>plain_v1\<close> prepares a packet that is not
  encrypted; both tell where the code goes and where the authenticated part starts.
\<close>

definition seal_v1_reserve :: "hmac_ctx option \<Rightarrow> buffer \<Rightarrow> ((int \<times> int) option \<times> buffer) res" where
  "seal_v1_reserve hmac work =
     (case hmac of None \<Rightarrow> Inr (None, work)
      | Some hm \<Rightarrow>
          (case buf_write_alloc work (hm_size hm) of (None, _) \<Rightarrow> Inl Assert_Failed
           | (Some mac_out, work) \<Rightarrow> Inr (Some (mac_out, bend work), work)))"

definition seal_v1_iv :: "int \<Rightarrow> (nat \<Rightarrow> byte) \<Rightarrow> 's cipher_ctx \<Rightarrow> buffer \<Rightarrow> 's crypto_options
    \<Rightarrow> (byte list option \<times> buffer \<times> 's crypto_options) res" where
  "seal_v1_iv now rnd c buf opt =
     (let iv_buf = replicate (nat OPENVPN_MAX_IV_LENGTH) 0; iv_size = cipher_ctx_iv_length c; kt = Some (cc_kt c) in
      if cipher_kt_mode_cbc kt then
        bindE (mem_write iv_buf 0 (map rnd [0..<nat iv_size])) (\<lambda>iv_buf.
        if packet_id_initialized (co_packet_id opt) then
          bindE (packet_id_write now (pid_send (co_packet_id opt)) buf (co_long_form opt) True) (\<lambda>(ok, ps, buf).
            Inr (if ok then Some iv_buf else None, buf, set_pid_send opt ps))
        else Inr (Some iv_buf, buf, opt))
      else if cipher_kt_mode_ofb_cfb kt then
        bindE (assertE (packet_id_initialized (co_packet_id opt))) (\<lambda>_.
        bindE (buf_set_write (Some iv_buf) iv_size) (\<lambda>b.
        bindE (packet_id_write now (pid_send (co_packet_id opt)) b True False) (\<lambda>(ok, ps, b).
        bindE (assertE ok) (\<lambda>_. Inr (b_data b, buf, set_pid_send opt ps)))))
      else Inl Assert_Failed)"

definition seal_v1_body :: "'s cipher_ctx \<Rightarrow> byte list \<Rightarrow> buffer \<Rightarrow> buffer \<Rightarrow> 's crypto_options
    \<Rightarrow> (buffer option \<times> 's crypto_options) res" where
  "seal_v1_body c iv_buf buf work opt =
     (let iv_size = cipher_ctx_iv_length c in
      bindE (mem_read iv_buf 0 iv_size) (\<lambda>iv.
      bindE (buf_write work iv) (\<lambda>(ok, work). bindE (assertE ok) (\<lambda>_.
      case cipher_ctx_reset c iv_buf of (ok, c) \<Rightarrow> bindE (assertE ok) (\<lambda>_.
      if \<not> buf_safe work (b_len buf + cipher_ctx_block_size c) then Inr (None, set_encrypt opt c)
      else
        bindE (buf_bytes buf) (\<lambda>plain.
        case cipher_ctx_update c plain of (None, _) \<Rightarrow> Inl Assert_Failed | (Some out, c) \<Rightarrow>
        bindE (put_output work (bend work) out) (\<lambda>work.
        case cipher_ctx_final c of (None, _) \<Rightarrow> Inl Assert_Failed | (Some out, c) \<Rightarrow>
        bindE (put_output work (bend work) out) (\<lambda>work.
        bindE (assertE (ck_mode (cc_kt c) \<noteq> OPENVPN_MODE_CBC \<or> int (length out) = iv_size)) (\<lambda>_.
        Inr (Some work, set_encrypt opt c))))))))))"

definition plain_v1 :: "int \<Rightarrow> buffer \<Rightarrow> buffer \<Rightarrow> 's crypto_options
    \<Rightarrow> ((int \<times> int) option \<times> bool \<times> buffer \<times> 's crypto_options) res" where
  "plain_v1 now buf work opt =
     bindE (if packet_id_initialized (co_packet_id opt)
            then bindE (packet_id_write now (pid_send (co_packet_id opt)) buf (co_long_form opt) True) (\<lambda>(ok, ps, buf).
              Inr (ok, buf, set_pid_send opt ps))
            else Inr (True, buf, opt)) (\<lambda>(ok, buf, opt).
     if \<not> ok then Inr (None, False, buf, opt)
     else
       bindE (case kc_hmac (co_encrypt opt) of None \<Rightarrow> Inr (None, buf)
              | Some hm \<Rightarrow> (case buf_prepend buf (hm_size hm) of (None, _) \<Rightarrow> Inl Assert_Failed
                  | (Some mac_out, buf') \<Rightarrow> Inr (Some (mac_out, b_offset buf), buf'))) (\<lambda>(mac, buf).
       bindE (if buf_len work > 0
              then bindE (buf_bytes work) (\<lambda>hdr. bindE (buf_write_prepend buf hdr) (\<lambda>(_, buf). Inr buf))
              else Inr buf) (\<lambda>buf. Inr (mac, True, buf, opt))))"

text \<open>The code over everything from \<open>hmac_start\<close> to the end of the packet.\<close>

definition sign_v1 :: "hmac_ctx option \<Rightarrow> (int \<times> int) option \<Rightarrow> buffer \<Rightarrow> buffer res" where
  "sign_v1 hmac mac work =
     (case hmac of None \<Rightarrow> Inr work
      | Some hm \<Rightarrow>
          (case mac of None \<Rightarrow> Inl Mem_Fault
           | Some (mac_out, hmac_start) \<Rightarrow>
               bindE (buf_peek work hmac_start (bend work - hmac_start)) (\<lambda>m. buf_poke work mac_out (hm_mac hm m))))"

definition openvpn_encrypt_v1 :: "int \<Rightarrow> (nat \<Rightarrow> byte) \<Rightarrow> buffer \<Rightarrow> buffer \<Rightarrow> 's crypto_options
    \<Rightarrow> (buffer \<times> 's crypto_options) res" where
  "openvpn_encrypt_v1 now rnd buf work opt =
     (let ctx = co_encrypt opt in
      if b_len buf > 0 then
        (case kc_cipher ctx of
           Some c \<Rightarrow>
             bindE (seal_v1_reserve (kc_hmac ctx) work) (\<lambda>(mac, work).
             bindE (seal_v1_iv now rnd c buf opt) (\<lambda>(iv, buf, opt). case iv of None \<Rightarrow> encrypt_err buf opt | Some iv_buf \<Rightarrow>
             bindE (seal_v1_body c iv_buf buf work opt) (\<lambda>(r, opt). case r of None \<Rightarrow> encrypt_err buf opt | Some work \<Rightarrow>
             bindE (sign_v1 (kc_hmac ctx) mac work) (\<lambda>work. Inr (work, opt)))))
         | None \<Rightarrow>
             bindE (plain_v1 now buf work opt) (\<lambda>(mac, ok, buf, opt).
             if \<not> ok then encrypt_err buf opt
             else bindE (sign_v1 (kc_hmac ctx) mac buf) (\<lambda>work. Inr (work, opt))))
      else Inr (buf, opt))"

definition openvpn_encrypt :: "int \<Rightarrow> (nat \<Rightarrow> byte) \<Rightarrow> buffer \<Rightarrow> buffer \<Rightarrow> 's crypto_options option
    \<Rightarrow> (buffer \<times> 's crypto_options option) res" where
  "openvpn_encrypt now rnd buf work opt =
     (case opt of None \<Rightarrow> Inr (buf, None)
      | Some opt \<Rightarrow>
          if b_len buf > 0 then
            bindE (if cipher_kt_mode_aead (cipher_ctx_get_cipher_kt (kc_cipher (co_encrypt opt)))
                   then openvpn_encrypt_aead now buf work opt else openvpn_encrypt_v1 now rnd buf work opt)
              (\<lambda>(buf, opt). Inr (buf, Some opt))
          else Inr (buf, Some opt))"

section \<open>Opening\<close>

definition check_replay :: "int \<Rightarrow> 's crypto_options \<Rightarrow> packet_id_net \<Rightarrow> (bool \<times> 's crypto_options) res" where
  "check_replay now opt pin =
     bindE (crypto_check_replay now (co_long_form opt) (co_packet_id opt) (co_pid_persist opt) pin) (\<lambda>(ok, pid, pp).
       Inr (ok, opt\<lparr>co_packet_id := pid, co_pid_persist := pp\<rparr>))"

text \<open>The IV of a received AEAD packet, from the packet and the implicit part; \<open>None\<close> when too little arrived.\<close>

definition aead_packet_iv :: "'s key_ctx \<Rightarrow> 's cipher_ctx \<Rightarrow> buffer \<Rightarrow> byte list option res" where
  "aead_packet_iv ctx c buf =
     (let iv_len = cipher_ctx_iv_length c; packet_iv_len = iv_len - kc_implicit_iv_len ctx in
      bindE (assertE (kc_implicit_iv_len ctx \<le> iv_len)) (\<lambda>_.
      if b_len buf + kc_implicit_iv_len ctx < iv_len then Inr None
      else
        bindE (buf_peek buf (b_offset buf) packet_iv_len) (\<lambda>x.
        bindE (mem_write (replicate (nat OPENVPN_MAX_IV_LENGTH) 0) 0 x) (\<lambda>iv.
        bindE (mem_read (kc_implicit_iv ctx) 0 (kc_implicit_iv_len ctx)) (\<lambda>implicit.
        bindE (mem_write iv packet_iv_len implicit) (\<lambda>iv. Inr (Some iv)))))))"

text \<open>Decryption proper, from the authenticated data to the check of the tag.\<close>

definition aead_open :: "'s cipher_ctx \<Rightarrow> buffer \<Rightarrow> buffer \<Rightarrow> byte list \<Rightarrow> int
    \<Rightarrow> (buffer option \<times> 's cipher_ctx) res" where
  "aead_open c buf work tag ad_start =
     (let ad_size = b_offset buf - ad_start - int (length tag) in
      bindE (buf_peek buf ad_start ad_size) (\<lambda>ad.
      case cipher_ctx_update_ad c ad of (ok, c) \<Rightarrow> bindE (assertE ok) (\<lambda>_.
      bindE (buf_bytes buf) (\<lambda>cipher_text.
      case cipher_ctx_update c cipher_text of (None, c) \<Rightarrow> Inr (None, c) | (Some out, c) \<Rightarrow>
      bindE (put_output work (b_offset work) out) (\<lambda>work.
      case cipher_ctx_final_check_tag c tag of (None, c) \<Rightarrow> Inr (None, c) | (Some out2, c) \<Rightarrow>
      bindE (put_output work (b_offset work + int (length out)) out2) (\<lambda>work. Inr (Some work, c)))))))"

definition openvpn_decrypt_aead :: "int \<Rightarrow> buffer \<Rightarrow> buffer \<Rightarrow> 's crypto_options \<Rightarrow> frame \<Rightarrow> int
    \<Rightarrow> (bool \<times> buffer \<times> 's crypto_options) res" where
  "openvpn_decrypt_aead now buf work opt fr ad_start =
     (let ctx = co_decrypt opt in
      bindE (assertE (b_len buf > 0)) (\<lambda>_.
      case kc_cipher ctx of None \<Rightarrow> Inl Assert_Failed | Some c \<Rightarrow>
      bindE (assertE (cipher_kt_mode_aead (Some (cc_kt c)))) (\<lambda>_.
      bindE (assertE (0 \<le> ad_start \<and> ad_start \<le> b_offset buf)) (\<lambda>_.
      case buf_init_dowork work (FRAME_HEADROOM_ADJ fr FRAME_HEADROOM_MARKER_DECRYPT) of (ok, work) \<Rightarrow>
      bindE (assertE ok) (\<lambda>_.
      bindE (assertE (packet_id_initialized (co_packet_id opt))) (\<lambda>_.
      bindE (aead_packet_iv ctx c buf) (\<lambda>iv. case iv of None \<Rightarrow> crypt_error buf opt | Some iv \<Rightarrow>
      case cipher_ctx_reset c iv of (ok, c) \<Rightarrow>
      let opt = set_decrypt opt c in
      if \<not> ok then crypt_error buf opt
      else
        bindE (packet_id_read buf False) (\<lambda>(ok, pin, buf).
        if \<not> ok then crypt_error buf opt
        else
          let tag_size = cipher_kt_tag_size (Some (cc_kt c)) in
          if b_len buf < tag_size then crypt_error buf opt
          else
            bindE (buf_peek buf (b_offset buf) tag_size) (\<lambda>tag.
            case buf_advance buf tag_size of (ok, buf) \<Rightarrow> bindE (assertE ok) (\<lambda>_.
            if b_len buf < 1 then crypt_error buf opt
            else if \<not> buf_safe work (b_len buf + cipher_ctx_block_size c) then crypt_error buf opt
            else
              bindE (aead_open c buf work tag ad_start) (\<lambda>(r, c).
              let opt = set_decrypt opt c in
              case r of None \<Rightarrow> crypt_error buf opt | Some work \<Rightarrow>
              bindE (check_replay now opt pin) (\<lambda>(ok, opt).
              if ok then Inr (True, work, opt) else crypt_error buf opt))))))))))))"

text \<open>The HMAC of a packet of the other modes is checked first; \<open>None\<close> when it is missing or wrong.\<close>

definition verify_v1 :: "hmac_ctx option \<Rightarrow> buffer \<Rightarrow> buffer option res" where
  "verify_v1 hmac buf =
     (case hmac of None \<Rightarrow> Inr (Some buf)
      | Some hm \<Rightarrow>
          let hmac_len = hm_size hm in
          if b_len buf < hmac_len then Inr None
          else
            bindE (buf_peek buf (b_offset buf + hmac_len) (buf_len buf - hmac_len)) (\<lambda>m.
            bindE (mem_write (replicate (nat MAX_HMAC_KEY_LENGTH) 0) 0 (hm_mac hm m)) (\<lambda>local_hmac.
            bindE (mem_read local_hmac 0 hmac_len) (\<lambda>x.
            bindE (buf_peek buf (b_offset buf) hmac_len) (\<lambda>y.
            if x \<noteq> y then Inr None
            else case buf_advance buf hmac_len of (ok, buf) \<Rightarrow> bindE (assertE ok) (\<lambda>_. Inr (Some buf)))))))"

text \<open>Decryption of the other modes; \<open>None\<close> for an error, which leaves the packet at the given place.\<close>

definition open_v1 :: "'s cipher_ctx \<Rightarrow> buffer \<Rightarrow> buffer \<Rightarrow> (buffer \<times> (byte list \<times> buffer) option \<times> 's cipher_ctx) res" where
  "open_v1 c buf work =
     (let iv_size = cipher_ctx_iv_length c in
      if b_len buf < iv_size then Inr (buf, None, c)
      else
        bindE (buf_peek buf (b_offset buf) iv_size) (\<lambda>x.
        bindE (mem_write (replicate (nat OPENVPN_MAX_IV_LENGTH) 0) 0 x) (\<lambda>iv_buf.
        case buf_advance buf iv_size of (ok, buf) \<Rightarrow> bindE (assertE ok) (\<lambda>_.
        if b_len buf < 1 then Inr (buf, None, c)
        else
          case cipher_ctx_reset c iv_buf of (ok, c) \<Rightarrow>
          if \<not> ok then Inr (buf, None, c)
          else if \<not> buf_safe work (b_len buf + cipher_ctx_block_size c) then Inr (buf, None, c)
          else
            bindE (buf_bytes buf) (\<lambda>cipher_text.
            case cipher_ctx_update c cipher_text of (None, c) \<Rightarrow> Inr (buf, None, c) | (Some out, c) \<Rightarrow>
            bindE (put_output work (b_offset work) out) (\<lambda>work.
            case cipher_ctx_final c of (None, c) \<Rightarrow> Inr (buf, None, c) | (Some out2, c) \<Rightarrow>
            bindE (put_output work (b_offset work + int (length out)) out2) (\<lambda>work.
            Inr (buf, Some (iv_buf, work), c))))))))"

text \<open>Where the packet identifier is: in the plain text for CBC, in the IV for OFB and CFB.\<close>

definition pin_v1 :: "'s cipher_ctx \<Rightarrow> byte list \<Rightarrow> buffer \<Rightarrow> 's crypto_options
    \<Rightarrow> (bool \<times> packet_id_net option \<times> buffer) res" where
  "pin_v1 c iv_buf work opt =
     (let kt = Some (cc_kt c) in
      if cipher_kt_mode_cbc kt then
        (if packet_id_initialized (co_packet_id opt)
         then bindE (packet_id_read work (co_long_form opt)) (\<lambda>(ok, pin, work). Inr (ok, Some pin, work))
         else Inr (True, None, work))
      else if cipher_kt_mode_ofb_cfb kt then
        bindE (assertE (packet_id_initialized (co_packet_id opt))) (\<lambda>_.
        bindE (buf_set_read (Some iv_buf) (cipher_ctx_iv_length c)) (\<lambda>b.
        bindE (packet_id_read b True) (\<lambda>(ok, pin, _). Inr (ok, Some pin, work))))
      else Inl Assert_Failed)"

definition finish_v1 :: "int \<Rightarrow> buffer \<Rightarrow> packet_id_net option \<Rightarrow> buffer \<Rightarrow> 's crypto_options
    \<Rightarrow> (bool \<times> buffer \<times> 's crypto_options) res" where
  "finish_v1 now buf pin work opt =
     (case pin of None \<Rightarrow> Inr (True, work, opt)
      | Some pin \<Rightarrow> bindE (check_replay now opt pin) (\<lambda>(ok, opt).
          if ok then Inr (True, work, opt) else crypt_error buf opt))"

definition openvpn_decrypt_v1 :: "int \<Rightarrow> buffer \<Rightarrow> buffer \<Rightarrow> 's crypto_options \<Rightarrow> frame
    \<Rightarrow> (bool \<times> buffer \<times> 's crypto_options) res" where
  "openvpn_decrypt_v1 now buf work opt fr =
     (if b_len buf > 0 then
        let ctx = co_decrypt opt in
        bindE (verify_v1 (kc_hmac ctx) buf) (\<lambda>v. case v of None \<Rightarrow> crypt_error buf opt | Some buf \<Rightarrow>
        case kc_cipher ctx of
          Some c \<Rightarrow>
            (case buf_init_dowork work (FRAME_HEADROOM_ADJ fr FRAME_HEADROOM_MARKER_DECRYPT) of (ok, work) \<Rightarrow>
             bindE (assertE ok) (\<lambda>_.
             bindE (open_v1 c buf work) (\<lambda>(buf, r, c).
             let opt = set_decrypt opt c in
             case r of None \<Rightarrow> crypt_error buf opt | Some (iv_buf, work) \<Rightarrow>
             bindE (pin_v1 c iv_buf work opt) (\<lambda>(ok, pin, work).
             if \<not> ok then crypt_error buf opt else finish_v1 now buf pin work opt))))
        | None \<Rightarrow>
            if packet_id_initialized (co_packet_id opt) then
              bindE (packet_id_read buf (co_long_form opt)) (\<lambda>(ok, pin, work).
              if \<not> ok then crypt_error buf opt
              else finish_v1 now buf (if co_flags opt AND CO_IGNORE_PACKET_ID \<noteq> 0 then None else Some pin) work opt)
            else finish_v1 now buf None buf opt)
      else Inr (True, buf, opt))"

definition openvpn_decrypt :: "int \<Rightarrow> buffer \<Rightarrow> buffer \<Rightarrow> 's crypto_options option \<Rightarrow> frame \<Rightarrow> int
    \<Rightarrow> (bool \<times> buffer \<times> 's crypto_options option) res" where
  "openvpn_decrypt now buf work opt fr ad_start =
     (case opt of None \<Rightarrow> Inr (True, buf, None)
      | Some opt \<Rightarrow>
          if b_len buf > 0 then
            bindE (if cipher_kt_mode_aead (cipher_ctx_get_cipher_kt (kc_cipher (co_decrypt opt)))
                   then openvpn_decrypt_aead now buf work opt fr ad_start else openvpn_decrypt_v1 now buf work opt fr)
              (\<lambda>(ok, buf, opt). Inr (ok, buf, Some opt))
          else Inr (True, buf, Some opt))"

end
