(* ===== verification/Crypto_Open.thy ===== *)
theory Crypto_Open
  imports Crypto Packet_Id_Replay
begin

text \<open>
  Opening a received packet: with a cipher library that keeps its documented bounds no packet makes
  \<open>openvpn_decrypt\<close> fault, whatever its bytes, and an accepted AEAD packet is the plain text that the
  library authenticated together with the header and the packet identifier.
\<close>

section \<open>What the code relies on\<close>

text \<open>
  States of a cipher context in which data is processed: after a reset, possibly followed by
  authenticated data.
\<close>

definition started :: "'s cipher_ctx \<Rightarrow> 's \<Rightarrow> bool" where
  "started c s \<longleftrightarrow> (\<exists>s0 iv. s = snd (cc_reset c s0 iv) \<or> (\<exists>ad. s = snd (cc_update_ad c (snd (cc_reset c s0 iv)) ad)))"

text \<open>
  The documented bounds of the library: an update and the call that ends the packet together write at
  most one block more than they were given, and authenticated data is always taken.
\<close>

definition cipher_bounded :: "'s cipher_ctx \<Rightarrow> bool" where
  "cipher_bounded c \<longleftrightarrow> (\<forall>s ad. fst (cc_update_ad c s ad))
     \<and> (\<forall>s x out s1. started c s \<longrightarrow> cc_update c s x = (Some out, s1) \<longrightarrow>
          int (length out) \<le> int (length x) + ck_block_size (cc_kt c)
          \<and> (\<forall>out2 s2. cc_final c s1 = (Some out2, s2) \<longrightarrow>
               int (length out) + int (length out2) \<le> int (length x) + ck_block_size (cc_kt c))
          \<and> (\<forall>tag out2 s2. cc_final_check_tag c s1 tag = (Some out2, s2) \<longrightarrow>
               int (length out) + int (length out2) \<le> int (length x) + ck_block_size (cc_kt c)))"

definition cipher_sane :: "'s cipher_ctx \<Rightarrow> bool" where
  "cipher_sane c \<longleftrightarrow> cipher_bounded c \<and> 0 \<le> ck_iv_size (cc_kt c) \<and> ck_iv_size (cc_kt c) \<le> 16
     \<and> 0 \<le> ck_block_size (cc_kt c) \<and> ck_block_size (cc_kt c) \<le> 32
     \<and> (ck_aead (cc_kt c) \<or> ck_mode (cc_kt c) \<in> {OPENVPN_MODE_CBC, OPENVPN_MODE_OFB, OPENVPN_MODE_CFB})"

definition hmac_sane :: "hmac_ctx \<Rightarrow> bool" where
  "hmac_sane hm \<longleftrightarrow> 0 \<le> hm_size hm \<and> hm_size hm \<le> 64 \<and> (\<forall>m. int (length (hm_mac hm m)) = hm_size hm)"

definition key_sane :: "'s key_ctx \<Rightarrow> bool" where
  "key_sane k \<longleftrightarrow> (\<forall>c. kc_cipher k = Some c \<longrightarrow> cipher_sane c
       \<and> (ck_aead (cc_kt c) \<longrightarrow> 0 \<le> kc_implicit_iv_len k \<and> kc_implicit_iv_len k \<le> ck_iv_size (cc_kt c)))
     \<and> (\<forall>hm. kc_hmac k = Some hm \<longrightarrow> hmac_sane hm) \<and> length (kc_implicit_iv k) = 16"

lemma started_simps [simp]:
  "started (c\<lparr>cc_state := x\<rparr>) s = started c s" "cipher_bounded (c\<lparr>cc_state := x\<rparr>) = cipher_bounded c"
  "cipher_sane (c\<lparr>cc_state := x\<rparr>) = cipher_sane c"
  by (simp_all add: started_def cipher_bounded_def cipher_sane_def)

lemma started_reset [simp]: "started c (snd (cc_reset c s iv))"
  unfolding started_def by blast

lemma started_ad [simp]: "started c (snd (cc_update_ad c (snd (cc_reset c s iv)) ad))"
  unfolding started_def by blast

section \<open>Writing the output\<close>

lemma put_output_append:
  assumes "buf_wf work" "int (length out) \<le> buf_room work" "p = b_offset work + b_len work"
  shows "put_output work p out = Inr (buf_append work out)"
proof -
  obtain d where d: "b_data work = Some d" "int (length d) = b_capacity work" "b_capacity work < 2097152"
    "0 \<le> b_offset work" "0 \<le> b_len work" "b_offset work + b_len work \<le> b_capacity work"
    using assms(1) by (rule buf_wfE)
  have "mem_write d p out = Inr (overwrite d (nat p) out)"
    using d assms(2,3) by (intro mem_write_ok) auto
  then have "buf_poke work p out = Inr (work\<lparr>b_data := Some (overwrite d (nat p) out)\<rparr>)"
    using d by (simp add: buf_poke_def)
  then show ?thesis using d assms(2,3)
    by (simp add: put_output_def buf_inc_len_def buf_safe_bidir_def buf_valid_def buf_size_valid_signed_def
        BUF_SIZE_MAX_def buf_append_def Let_def)
qed

lemma bend_wf: "buf_wf b \<Longrightarrow> bend b = b_offset b + b_len b"
  by (simp add: bend_def)

lemma buf_safeD: "buf_wf b \<Longrightarrow> buf_safe b n \<Longrightarrow> n \<le> buf_room b"
  by (simp add: buf_safe_def)

section \<open>AEAD\<close>

text \<open>What the library makes of a packet, from a reset context on.\<close>

definition unseal :: "'s cipher_ctx \<Rightarrow> byte list \<Rightarrow> byte list \<Rightarrow> byte list \<Rightarrow> byte list option" where
  "unseal c ad ct tag =
     (case cc_update c (snd (cc_update_ad c (cc_state c) ad)) ct of
        (None, _) \<Rightarrow> None
      | (Some out, s) \<Rightarrow> (case cc_final_check_tag c s tag of (None, _) \<Rightarrow> None | (Some out2, _) \<Rightarrow> Some (out @ out2)))"

lemma aead_open_ok:
  assumes "cipher_bounded c" "cc_state c = snd (cc_reset c s0 iv)" "buf_wf buf" "buf_wf work" "b_len work = 0"
    and "buf_safe work (b_len buf + ck_block_size (cc_kt c))" "0 \<le> ck_block_size (cc_kt c)"
    and "0 \<le> ad_start" "ad_start + int (length tag) \<le> b_offset buf" "b_data buf = Some d"
  shows "\<exists>r s. aead_open c buf work tag ad_start = Inr (r, c\<lparr>cc_state := s\<rparr>)
    \<and> map_option buf_content r
        = unseal c (segment d (nat ad_start) (nat (b_offset buf - ad_start - int (length tag)))) (buf_content buf) tag
    \<and> (\<forall>w. r = Some w \<longrightarrow> buf_wf w)"
proof -
  let ?n = "b_offset buf - ad_start - int (length tag)"
  let ?ad = "segment d (nat ad_start) (nat ?n)" and ?ct = "buf_content buf" and ?bs = "ck_block_size (cc_kt c)"
  note wb = buf_wf_bounds[OF assms(3)]
  have len: "int (length d) = b_capacity buf" using assms(3,10) by (auto elim!: buf_wfE)
  have peek: "buf_peek buf ad_start ?n = Inr ?ad"
    using assms(8-10) wb len by (simp add: buf_peek_def mem_read_ok)
  define s1 where "s1 = snd (cc_update_ad c (cc_state c) ?ad)"
  have st: "started c s1" unfolding s1_def assms(2) by simp
  have ad: "cipher_ctx_update_ad c ?ad = (True, c\<lparr>cc_state := s1\<rparr>)"
  proof -
    have "fst (cc_update_ad c (cc_state c) ?ad)" using assms(1) unfolding cipher_bounded_def by blast
    then show ?thesis
      by (cases "cc_update_ad c (cc_state c) ?ad") (simp add: cipher_ctx_update_ad_def s1_def)
  qed
  have room: "b_len buf + ?bs \<le> buf_room work" using buf_safeD[OF assms(4,6)] .
  obtain u s2 where u: "cc_update c s1 ?ct = (u, s2)" by (cases "cc_update c s1 ?ct")
  show ?thesis
  proof (cases u)
    case None
    then show ?thesis using peek ad u assms(3)
      by (auto simp add: aead_open_def Let_def cipher_ctx_update_def unseal_def s1_def[symmetric])
  next
    case (Some out)
    have l1: "int (length out) \<le> b_len buf + ?bs"
      using assms(1,3) st u Some unfolding cipher_bounded_def by (metis length_buf_content)
    let ?w1 = "buf_append work out"
    have w1: "buf_wf ?w1" using l1 room assms(4) by (intro buf_append_wf) auto
    have p1: "put_output work (b_offset work) out = Inr ?w1"
      using l1 room assms(4,5) by (intro put_output_append) auto
    obtain v s3 where v: "cc_final_check_tag c s2 tag = (v, s3)" by (cases "cc_final_check_tag c s2 tag")
    show ?thesis
    proof (cases v)
      case None
      then show ?thesis using peek ad u Some p1 v assms(3)
        by (auto simp add: aead_open_def Let_def cipher_ctx_update_def cipher_ctx_final_check_tag_def unseal_def s1_def[symmetric])
    next
      case v': (Some out2)
      have l2: "int (length out) + int (length out2) \<le> b_len buf + ?bs"
        using assms(1,3) st u Some v v' unfolding cipher_bounded_def by (metis length_buf_content)
      let ?w2 = "buf_append ?w1 out2"
      have w2: "buf_wf ?w2" using l2 room by (intro buf_append_wf[OF w1]) auto
      have p2: "put_output ?w1 (b_offset work + int (length out)) out2 = Inr ?w2"
        using l2 room assms(5) by (intro put_output_append[OF w1]) auto
      have "buf_content work = []" using length_buf_content[OF assms(4)] assms(5) by simp
      then have "buf_content ?w2 = out @ out2"
        using l1 l2 room assms(4) w1 by (simp add: buf_append_content)
      then show ?thesis using peek ad u Some p1 v v' p2 w2 assms(3)
        by (auto simp add: aead_open_def Let_def cipher_ctx_update_def cipher_ctx_final_check_tag_def unseal_def s1_def[symmetric])
    qed
  qed
qed

text \<open>The IV the code assembles: the front of the packet, then the implicit part, padded with zeros.\<close>

definition packet_iv :: "'s key_ctx \<Rightarrow> 's cipher_ctx \<Rightarrow> byte list \<Rightarrow> byte list" where
  "packet_iv k c x =
     (let n = nat (ck_iv_size (cc_kt c) - kc_implicit_iv_len k) in
      take n x @ take (nat (kc_implicit_iv_len k)) (kc_implicit_iv k) @ replicate (16 - nat (ck_iv_size (cc_kt c))) 0)"

lemma overwrite_front: "length a \<le> n \<Longrightarrow> overwrite (replicate n 0) 0 a = a @ replicate (n - length a) (0 :: 'a::zero)"
  by (simp add: overwrite_def)

lemma overwrite_middle:
  "p = length a \<Longrightarrow> length b \<le> n \<Longrightarrow> overwrite (a @ replicate n 0) p b = a @ b @ replicate (n - length b) (0 :: 'a::zero)"
  by (simp add: overwrite_def)

lemma aead_packet_iv_ok:
  assumes "buf_wf buf" "0 \<le> kc_implicit_iv_len k" "kc_implicit_iv_len k \<le> ck_iv_size (cc_kt c)"
    and "ck_iv_size (cc_kt c) \<le> 16" "length (kc_implicit_iv k) = 16"
  shows "aead_packet_iv k c buf = Inr (if b_len buf + kc_implicit_iv_len k < ck_iv_size (cc_kt c) then None
     else Some (packet_iv k c (buf_content buf)))"
proof (cases "b_len buf + kc_implicit_iv_len k < ck_iv_size (cc_kt c)")
  case True
  then show ?thesis using assms(3) by (simp add: aead_packet_iv_def cipher_ctx_iv_length_def Let_def assertE_def)
next
  case False
  let ?n = "ck_iv_size (cc_kt c) - kc_implicit_iv_len k" and ?im = "take (nat (kc_implicit_iv_len k)) (kc_implicit_iv k)"
  let ?x = "take (nat ?n) (buf_content buf)"
  have lx: "length ?x = nat ?n" using False assms(3) length_buf_content[OF assms(1)] by auto
  have p: "buf_peek buf (b_offset buf) ?n = Inr ?x"
    using buf_peek_content[OF assms(1), of 0 ?n] False assms(3) by (simp add: segment_from_0)
  have w1: "mem_write (replicate 16 0) 0 ?x = Inr (?x @ replicate (16 - nat ?n) 0)"
    using lx assms(2-4) by (simp add: mem_write_ok overwrite_front)
  have r: "mem_read (kc_implicit_iv k) 0 (kc_implicit_iv_len k) = Inr ?im"
    using assms(2-5) by (simp add: mem_read_ok segment_from_0)
  have li: "length ?im = nat (kc_implicit_iv_len k)" using assms(2-5) by simp
  have "overwrite (?x @ replicate (16 - nat ?n) 0) (nat ?n) ?im = ?x @ ?im @ replicate (16 - nat ?n - length ?im) 0"
    using lx li assms(2-4) by (intro overwrite_middle) linarith+
  moreover have "16 - nat ?n - length ?im = 16 - nat (ck_iv_size (cc_kt c))" using li assms(2-4) by linarith
  moreover have n0: "0 \<le> ?n" using assms(3) by simp
  have fit: "?n + int (length ?im) \<le> int (length (?x @ replicate (16 - nat ?n) (0 :: byte)))"
    unfolding length_append length_replicate lx li using assms(2-4) by linarith
  ultimately have w2: "mem_write (?x @ replicate (16 - nat ?n) 0) ?n ?im = Inr (packet_iv k c (buf_content buf))"
    using mem_write_ok[OF n0 fit] by (simp only: packet_iv_def Let_def)
  show ?thesis using False assms(3) p w1 r w2
    by (simp add: aead_packet_iv_def cipher_ctx_iv_length_def Let_def assertE_def OPENVPN_MAX_IV_LENGTH_def)
qed

text \<open>
  A packet either fails before the replay check, leaving only the state of the cipher changed, or is
  authentic and goes through the replay check.
\<close>

definition same_but_state :: "'s crypto_options \<Rightarrow> 's crypto_options \<Rightarrow> 's cipher_ctx \<Rightarrow> bool" where
  "same_but_state opt opt' c \<longleftrightarrow> opt' = opt \<or> (\<exists>s. opt' = set_decrypt opt (c\<lparr>cc_state := s\<rparr>))"

definition rejected :: "(bool \<times> buffer \<times> 's crypto_options) res \<Rightarrow> 's crypto_options \<Rightarrow> 's cipher_ctx \<Rightarrow> bool" where
  "rejected r opt c \<longleftrightarrow> (\<exists>b opt'. r = Inr (False, b, opt') \<and> b_len b = 0 \<and> buf_wf b \<and> same_but_state opt opt' c)"

definition checked :: "(bool \<times> buffer \<times> 's crypto_options) res \<Rightarrow> int \<Rightarrow> packet_id_net \<Rightarrow> buffer \<Rightarrow> 's crypto_options \<Rightarrow> 's cipher_ctx \<Rightarrow> bool" where
  "checked r now pin w opt c \<longleftrightarrow> (\<exists>b opt'. r = bindE (check_replay now opt' pin) (\<lambda>(ok, opt).
       if ok then Inr (True, w, opt) else crypt_error b opt) \<and> buf_wf b \<and> buf_wf w \<and> same_but_state opt opt' c)"

lemma rejected_error: "buf_wf b \<Longrightarrow> same_but_state opt opt' c \<Longrightarrow> rejected (crypt_error b opt') opt c"
  by (auto simp: rejected_def crypt_error_def buf_wf_def split: option.splits)

lemma set_decrypt_twice [simp]: "set_decrypt (set_decrypt opt c) c' = set_decrypt opt c'"
  by (simp add: set_decrypt_def co_decrypt_def)

lemma same_but_state_set [simp]: "same_but_state opt (set_decrypt opt (c\<lparr>cc_state := s\<rparr>)) c" "same_but_state opt opt c"
  by (auto simp: same_but_state_def)

lemma packet_id_read_cases:
  assumes "buf_wf b"
  shows "(\<exists>pin b'. packet_id_read b lf = Inr (False, pin, b') \<and> buf_wf b')
    \<or> (\<exists>pin. packet_id_read b lf = Inr (True, pin, buf_drop b (packet_id_size lf)) \<and> packet_id_size lf \<le> b_len b
         \<and> buf_wf (buf_drop b (packet_id_size lf)) \<and> pin_id pin = of_be32 (take 4 (buf_content b)) \<and> (\<not> lf \<longrightarrow> pin_time pin = 0))"
proof (cases "4 \<le> b_len b")
  case False
  then show ?thesis using assms by (simp add: packet_id_read_def buf_read_short)
next
  case True
  then have w: "buf_wf (buf_drop b 4)" using assms by (intro buf_drop_wf) auto
  show ?thesis
  proof (cases "lf \<and> 8 \<le> b_len b")
    case True
    then have w8: "buf_wf (buf_drop (buf_drop b 4) 4)" by (intro buf_drop_wf[OF w]) auto
    have e: "buf_drop (buf_drop b 4) 4 = buf_drop b 8" by (simp add: buf_drop_def)
    show ?thesis using True assms w w8[unfolded e] e by (simp add: packet_id_read_def buf_read_take packet_id_size_def)
  next
    case False
    then have "lf \<Longrightarrow> buf_read (buf_drop b 4) 4 = Inr (None, buf_drop b 4)" by (intro buf_read_short) simp
    then show ?thesis using True assms w
      by (cases lf) (simp_all add: packet_id_read_def buf_read_take packet_id_size_def Let_def)
  qed
qed

lemma head_and_pid:
  assumes "buf_wf buf" "b_data buf = Some d" "0 \<le> ad_start" "ad_start \<le> b_offset buf" "4 \<le> b_len buf"
  shows "segment d (nat ad_start) (nat (b_offset buf + 4 - ad_start))
    = segment d (nat ad_start) (nat (b_offset buf - ad_start)) @ take 4 (buf_content buf)"
proof -
  have len: "b_offset buf + b_len buf \<le> int (length d)" "0 \<le> b_offset buf" using assms(1,2) by (auto elim!: buf_wfE)
  have n: "nat (b_offset buf + 4 - ad_start) = nat (b_offset buf - ad_start) + 4"
    and o: "nat ad_start + nat (b_offset buf - ad_start) = nat (b_offset buf)" using assms(3,4) by linarith+
  have "take 4 (buf_content buf) = segment d (nat (b_offset buf)) 4"
    using assms(2,5) nat_mono[OF assms(5)] by (simp add: buf_content_def segment_def min_def)
  then show ?thesis unfolding n segment_append o by simp
qed

text \<open>Why an AEAD packet is rejected before the replay check.\<close>

definition aead_bad :: "'s key_ctx \<Rightarrow> 's cipher_ctx \<Rightarrow> buffer \<Rightarrow> buffer \<Rightarrow> byte list \<Rightarrow> int \<Rightarrow> bool" where
  "aead_bad k c buf work d ad_start \<longleftrightarrow>
     (let x = buf_content buf; q = cc_reset c (cc_state c) (packet_iv k c x) in
      b_len buf + kc_implicit_iv_len k < ck_iv_size (cc_kt c) \<or> \<not> fst q \<or> b_len buf \<le> 20
      \<or> \<not> buf_safe work (b_len buf - 20 + ck_block_size (cc_kt c))
      \<or> unseal (c\<lparr>cc_state := snd q\<rparr>) (segment d (nat ad_start) (nat (b_offset buf - ad_start)) @ take 4 x)
          (drop 20 x) (take 16 (drop 4 x)) = None)"

lemma openvpn_decrypt_aead_outcome:
  fixes now :: int
  assumes "key_sane (co_decrypt opt)" "kc_cipher (co_decrypt opt) = Some c" "ck_aead (cc_kt c)"
    and "packet_id_initialized (co_packet_id opt)" "buf_wf buf" "0 < b_len buf" "b_data buf = Some d"
    and "0 \<le> ad_start" "ad_start \<le> b_offset buf" "buf_wf work"
    and "0 \<le> FRAME_HEADROOM_ADJ fr FRAME_HEADROOM_MARKER_DECRYPT" "FRAME_HEADROOM_ADJ fr FRAME_HEADROOM_MARKER_DECRYPT \<le> b_capacity work"
  defines "x \<equiv> buf_content buf" and "r \<equiv> openvpn_decrypt_aead now buf work opt fr ad_start"
    and "hr \<equiv> FRAME_HEADROOM_ADJ fr FRAME_HEADROOM_MARKER_DECRYPT"
  shows "(rejected r opt c \<and> aead_bad (co_decrypt opt) c buf (work\<lparr>b_len := 0, b_offset := hr\<rparr>) d ad_start) \<or> (\<exists>w. checked r now \<lparr>pin_id = of_be32 (take 4 x), pin_time = 0\<rparr> w opt c \<and> 20 < length x
    \<and> unseal (c\<lparr>cc_state := snd (cc_reset c (cc_state c) (packet_iv (co_decrypt opt) c x))\<rparr>)
        (segment d (nat ad_start) (nat (b_offset buf - ad_start)) @ take 4 x) (drop 20 x) (take 16 (drop 4 x)) = Some (buf_content w))"
proof -
  let ?k = "co_decrypt opt" and ?work = "work\<lparr>b_len := 0, b_offset := hr\<rparr>"
  let ?bad = "aead_bad ?k c buf ?work d ad_start"
  have sane: "cipher_sane c" "0 \<le> kc_implicit_iv_len ?k" "kc_implicit_iv_len ?k \<le> ck_iv_size (cc_kt c)"
    "length (kc_implicit_iv ?k) = 16" using assms(1-3) by (auto simp: key_sane_def)
  have bnd: "cipher_bounded c" "ck_iv_size (cc_kt c) \<le> 16" "0 \<le> ck_block_size (cc_kt c)"
    using sane(1) by (simp_all add: cipher_sane_def)
  have wk: "buf_init_dowork work hr = (True, ?work)" "buf_wf ?work"
    using assms(10-12) by (simp_all add: buf_init_dowork_ok buf_init_wf hr_def)
  have aead: "cipher_kt_mode_aead (Some (cc_kt c))" using assms(3) by (simp add: cipher_kt_mode_aead_def)
  note pre = openvpn_decrypt_aead_def Let_def assms(2) assertE_def hr_def[symmetric]
  note bad = aead_bad_def Let_def x_def[symmetric]
  let ?s = "snd (cc_reset c (cc_state c) (packet_iv ?k c x))" and ?ok = "fst (cc_reset c (cc_state c) (packet_iv ?k c x))"
  let ?c = "c\<lparr>cc_state := ?s\<rparr>" and ?opt = "set_decrypt opt (c\<lparr>cc_state := ?s\<rparr>)"
  have rs: "cipher_ctx_reset c (packet_iv ?k c x) = (?ok, ?c)" by (simp add: cipher_ctx_reset_def split: prod.split)
  have iv: "aead_packet_iv ?k c buf = Inr (if b_len buf + kc_implicit_iv_len ?k < ck_iv_size (cc_kt c) then None else Some (packet_iv ?k c x))"
    unfolding x_def using sane bnd assms(5) by (intro aead_packet_iv_ok) auto
  show ?thesis
  proof (cases "b_len buf + kc_implicit_iv_len ?k < ck_iv_size (cc_kt c) \<or> \<not> ?ok")
    case True
    then have "r = crypt_error buf opt \<or> r = crypt_error buf ?opt"
      unfolding r_def using assms(4,6,8,9) aead wk(1) iv rs by (auto simp: pre)
    then show ?thesis using rejected_error[OF assms(5), of opt opt c] rejected_error[OF assms(5), of opt ?opt c] True by (auto simp: bad)
  next
    case False
    then have ok: "?ok" and iv': "aead_packet_iv ?k c buf = Inr (Some (packet_iv ?k c x))" using iv by simp_all
    have r1: "r = bindE (packet_id_read buf False) (\<lambda>(ok, pin, buf).
        if \<not> ok then crypt_error buf ?opt
        else if b_len buf < 16 then crypt_error buf ?opt
        else bindE (buf_peek buf (b_offset buf) 16) (\<lambda>tag.
            case buf_advance buf 16 of (ok, buf) \<Rightarrow> bindE (if ok then Inr () else Inl Assert_Failed) (\<lambda>_.
            if b_len buf < 1 then crypt_error buf ?opt
            else if \<not> buf_safe ?work (b_len buf + ck_block_size (cc_kt c)) then crypt_error buf ?opt
            else bindE (aead_open ?c buf ?work tag ad_start) (\<lambda>(r, c).
              case r of None \<Rightarrow> crypt_error buf (set_decrypt ?opt c) | Some work \<Rightarrow>
              bindE (check_replay now (set_decrypt ?opt c) pin) (\<lambda>(ok, opt).
              if ok then Inr (True, work, opt) else crypt_error buf opt)))))"
      unfolding r_def using assms(4,6,8,9) aead wk(1) iv' rs ok
      by (simp add: pre cipher_kt_tag_size_def OPENVPN_AEAD_TAG_LENGTH_def cipher_ctx_block_size_def cong: if_cong)
    from packet_id_read_cases[OF assms(5), of False] show ?thesis
    proof (elim disjE exE conjE)
      fix pin b' assume rd: "packet_id_read buf False = Inr (False, pin, b')" and "buf_wf b'"
      then have "rejected r opt c" unfolding r1 using rejected_error[of b' opt ?opt c] by simp
      moreover have "b_len buf < 4"
      proof (rule ccontr)
        assume "\<not> b_len buf < 4"
        then show False using rd assms(5) by (simp add: packet_id_read_def buf_read_take Let_def)
      qed
      ultimately show ?thesis by (simp add: bad)
    next
      fix pin
      let ?b = "buf_drop buf (packet_id_size False)"
      assume rd: "packet_id_read buf False = Inr (True, pin, ?b)" and b: "packet_id_size False \<le> b_len buf" "buf_wf ?b"
        and pin: "pin_id pin = of_be32 (take 4 (buf_content buf))" "\<not> False \<longrightarrow> pin_time pin = 0"
      have p4: "packet_id_size False = 4" by (simp add: packet_id_size_def)
      have pin': "pin = \<lparr>pin_id = of_be32 (take 4 x), pin_time = 0\<rparr>" using pin by (simp add: x_def)
      show ?thesis
      proof (cases "b_len ?b < 16")
        case True
        then have "rejected r opt c" unfolding r1 using rd b rejected_error[of ?b opt ?opt c] by simp
        then show ?thesis using True p4 by (simp add: bad)
      next
        case False
        let ?b2 = "buf_drop ?b 16" and ?tag = "take 16 (drop 4 x)"
        have b2: "buf_wf ?b2" using False by (intro buf_drop_wf[OF b(2)]) auto
        have cb: "buf_content ?b = drop 4 x" using b p4 assms(5) by (simp add: buf_drop_content x_def)
        have tag: "buf_peek ?b (b_offset ?b) 16 = Inr ?tag"
          using buf_peek_content[OF b(2), of 0 16] False cb by (simp add: segment_from_0)
        have adv: "buf_advance ?b 16 = (True, ?b2)" using b False by (intro buf_advance_drop) auto
        have lx: "int (length x) = b_len buf" unfolding x_def using assms(5) by simp
        have lt: "length ?tag = 16" using False lx p4 by simp
        show ?thesis
        proof (cases "b_len ?b2 < 1 \<or> \<not> buf_safe ?work (b_len ?b2 + ck_block_size (cc_kt c))")
          case True
          then have "r = crypt_error ?b2 ?opt" unfolding r1 using rd False tag adv by auto
          then have "rejected r opt c" using rejected_error[OF b2, of opt ?opt c] by simp
          then show ?thesis using True p4 by (auto simp: bad algebra_simps)
        next
          case False2: False
          have "\<exists>r s. aead_open ?c ?b2 ?work ?tag ad_start = Inr (r, ?c\<lparr>cc_state := s\<rparr>)
            \<and> map_option buf_content r = unseal ?c (segment d (nat ad_start) (nat (b_offset ?b2 - ad_start - int (length ?tag))))
                (buf_content ?b2) ?tag
            \<and> (\<forall>w. r = Some w \<longrightarrow> buf_wf w)"
            using bnd b2 wk(2) False2 assms(7-9) p4 lt
            by (intro aead_open_ok[where ?s0.0 = "cc_state c" and iv = "packet_iv ?k c x"]) auto
          moreover have "segment d (nat ad_start) (nat (b_offset ?b2 - ad_start - int (length ?tag)))
            = segment d (nat ad_start) (nat (b_offset buf - ad_start)) @ take 4 x"
            using head_and_pid[OF assms(5,7-9)] b(1) p4 unfolding lt unfolding x_def by (simp add: algebra_simps)
          moreover have "buf_content ?b2 = drop 20 x"
            using buf_drop_content[OF b(2), of 16] False cb by (simp add: add.commute)
          ultimately obtain q s where q: "aead_open ?c ?b2 ?work ?tag ad_start = Inr (q, ?c\<lparr>cc_state := s\<rparr>)"
            "map_option buf_content q = unseal ?c (segment d (nat ad_start) (nat (b_offset buf - ad_start)) @ take 4 x) (drop 20 x) ?tag"
            "\<forall>w. q = Some w \<longrightarrow> buf_wf w" by metis
          have l20: "20 < length x" using False2 lx p4 by simp
          have r2: "r = (case q of None \<Rightarrow> crypt_error ?b2 (set_decrypt opt (c\<lparr>cc_state := s\<rparr>)) | Some work \<Rightarrow>
              bindE (check_replay now (set_decrypt opt (c\<lparr>cc_state := s\<rparr>)) pin) (\<lambda>(ok, opt).
              if ok then Inr (True, work, opt) else crypt_error ?b2 opt))"
            unfolding r1 using rd False tag adv False2 q(1) by (simp split: option.split)
          show ?thesis
          proof (cases q)
            case None
            then have "rejected r opt c"
              unfolding r2 using rejected_error[OF b2, of opt "set_decrypt opt (c\<lparr>cc_state := s\<rparr>)" c] by simp
            then show ?thesis using None q(2) by (simp add: bad)
          next
            case (Some w)
            then have "checked r now \<lparr>pin_id = of_be32 (take 4 x), pin_time = 0\<rparr> w opt c"
              unfolding r2 checked_def pin'[symmetric] using b2 q(3)
              by (intro exI[of _ ?b2] exI[of _ "set_decrypt opt (c\<lparr>cc_state := s\<rparr>)"]) simp
            then show ?thesis using Some q(2) l20 by auto
          qed
        qed
      qed
    qed
  qed
qed

section \<open>The other modes\<close>

lemma verify_v1_eq:
  assumes "buf_wf buf" "hmac_sane hm" "hm_size hm \<le> b_len buf"
  shows "verify_v1 (Some hm) buf = Inr (if hm_mac hm (buf_content (buf_drop buf (hm_size hm))) = take (nat (hm_size hm)) (buf_content buf)
      then Some (buf_drop buf (hm_size hm)) else None)"
    and "buf_wf (buf_drop buf (hm_size hm))" "buf_content (buf_drop buf (hm_size hm)) = drop (nat (hm_size hm)) (buf_content buf)"
proof -
  have sane: "0 \<le> hm_size hm" "hm_size hm \<le> 64" "\<And>m. int (length (hm_mac hm m)) = hm_size hm"
    using assms(2) by (simp_all add: hmac_sane_def)
  let ?n = "hm_size hm" and ?b = "buf_drop buf (hm_size hm)"
  show b: "buf_wf ?b" "buf_content ?b = drop (nat ?n) (buf_content buf)"
    using assms(1,3) sane(1) by (simp_all add: buf_drop_wf buf_drop_content)
  have "buf_peek buf (b_offset buf + ?n) (b_len buf - ?n) = Inr (buf_content ?b)"
    using buf_peek_content[OF assms(1) sane(1), of "b_len buf - ?n"] assms(3) b(2) length_buf_content_nat[OF assms(1)]
    by (simp add: segment_def nat_diff_distrib sane(1))
  moreover have "mem_write (replicate 64 0) 0 (hm_mac hm m) = Inr (hm_mac hm m @ replicate (64 - length (hm_mac hm m)) 0)" for m
    using sane(1,2) sane(3)[of m] by (simp add: mem_write_ok overwrite_front)
  moreover have "mem_read (hm_mac hm m @ replicate (64 - length (hm_mac hm m)) 0) 0 ?n = Inr (hm_mac hm m)" for m
    using sane(1,2) sane(3)[of m] by (simp add: mem_read_ok segment_from_0)
  moreover have "buf_peek buf (b_offset buf) ?n = Inr (take (nat ?n) (buf_content buf))"
    using buf_peek_content[OF assms(1), of 0 ?n] assms(3) sane(1) by (simp add: segment_from_0)
  moreover have "buf_advance buf ?n = (True, ?b)" using assms(1,3) sane(1) by (intro buf_advance_drop) auto
  ultimately show "verify_v1 (Some hm) buf = Inr (if hm_mac hm (buf_content ?b) = take (nat ?n) (buf_content buf) then Some ?b else None)"
    using assms(1,3) by (simp add: verify_v1_def Let_def MAX_HMAC_KEY_LENGTH_def)
qed

lemma verify_v1_ok:
  assumes "buf_wf buf" "\<forall>hm. hmac = Some hm \<longrightarrow> hmac_sane hm"
  shows "verify_v1 hmac buf = Inr None
    \<or> (\<exists>b. verify_v1 hmac buf = Inr (Some b) \<and> buf_wf b
        \<and> buf_content buf = (case hmac of None \<Rightarrow> [] | Some hm \<Rightarrow> hm_mac hm (buf_content b)) @ buf_content b)"
proof (cases hmac)
  case None
  then show ?thesis using assms(1) by (simp add: verify_v1_def)
next
  case (Some hm)
  show ?thesis
  proof (cases "b_len buf < hm_size hm")
    case True
    then show ?thesis using Some by (simp add: verify_v1_def)
  next
    case False
    then have l: "hm_size hm \<le> b_len buf" by simp
    note e = verify_v1_eq[OF assms(1) assms(2)[rule_format, OF Some] l]
    show ?thesis
    proof (cases "hm_mac hm (buf_content (buf_drop buf (hm_size hm))) = take (nat (hm_size hm)) (buf_content buf)")
      case True
      then have "buf_content buf = hm_mac hm (buf_content (buf_drop buf (hm_size hm))) @ buf_content (buf_drop buf (hm_size hm))"
        unfolding e(3) by simp
      then show ?thesis using True e(1,2) Some by auto
    next
      case False
      then show ?thesis using e(1) Some by simp
    qed
  qed
qed

lemma open_v1_ok:
  assumes "cipher_sane c" "buf_wf buf" "buf_wf work" "b_len work = 0"
  shows "\<exists>b r s. open_v1 c buf work = Inr (b, r, c\<lparr>cc_state := s\<rparr>) \<and> buf_wf b
    \<and> (\<forall>iv w. r = Some (iv, w) \<longrightarrow> buf_wf w \<and> length iv = 16)"
proof -
  have bnd: "cipher_bounded c" "0 \<le> ck_iv_size (cc_kt c)" "ck_iv_size (cc_kt c) \<le> 16" "0 \<le> ck_block_size (cc_kt c)"
    using assms(1) by (simp_all add: cipher_sane_def)
  let ?n = "ck_iv_size (cc_kt c)" and ?b = "buf_drop buf (ck_iv_size (cc_kt c))" and ?bs = "ck_block_size (cc_kt c)"
  have keep: "c = c\<lparr>cc_state := cc_state c\<rparr>" by simp
  note pre = open_v1_def Let_def cipher_ctx_iv_length_def cipher_ctx_block_size_def OPENVPN_MAX_IV_LENGTH_def
  show ?thesis
  proof (cases "b_len buf < ?n")
    case True
    then show ?thesis using assms(2)
      by (intro exI[of _ buf] exI[of _ None] exI[of _ "cc_state c"]) (simp add: pre)
  next
    case False
    have b: "buf_wf ?b" using assms(2) False bnd(2) by (intro buf_drop_wf) auto
    let ?x = "take (nat ?n) (buf_content buf)"
    let ?iv = "?x @ replicate (16 - length ?x) (0 :: byte)"
    have lx: "length ?x = nat ?n" using False length_buf_content[OF assms(2)] by auto
    have p: "buf_peek buf (b_offset buf) ?n = Inr ?x"
      using buf_peek_content[OF assms(2), of 0 ?n] False bnd(2) by (simp add: segment_from_0)
    have w: "mem_write (replicate 16 0) 0 ?x = Inr ?iv"
      using lx bnd(3) by (simp only:) (simp add: mem_write_ok overwrite_front)
    have liv: "length ?iv = 16" using lx bnd(3) by simp
    have adv: "buf_advance buf ?n = (True, ?b)" using assms(2) False bnd(2) by (intro buf_advance_drop) auto
    obtain ok s1 where rs: "cc_reset c (cc_state c) ?iv = (ok, s1)" by (cases "cc_reset c (cc_state c) ?iv")
    have st: "started c s1" using started_reset[of c "cc_state c" ?iv] unfolding rs by simp
    obtain u s2 where u: "cc_update c s1 (buf_content ?b) = (u, s2)" by (cases "cc_update c s1 (buf_content ?b)")
    note pre2 = pre cipher_ctx_reset_def cipher_ctx_update_def cipher_ctx_final_def
    show ?thesis
    proof (cases "b_len ?b < 1 \<or> \<not> ok \<or> \<not> buf_safe work (b_len ?b + ?bs) \<or> u = None")
      case True
      then have "open_v1 c buf work = Inr (?b, None, c) \<or> (\<exists>s. open_v1 c buf work = Inr (?b, None, c\<lparr>cc_state := s\<rparr>))"
        using False p w adv rs u b by (auto simp: pre2)
      then obtain s where "open_v1 c buf work = Inr (?b, None, c\<lparr>cc_state := s\<rparr>)" using keep by metis
      then show ?thesis using b by auto
    next
      case F2: False
      then obtain out where out: "u = Some out" and room: "b_len ?b + ?bs \<le> buf_room work"
        using buf_safeD[OF assms(3)] by auto
      have l1: "int (length out) \<le> b_len ?b + ?bs"
        using bnd(1) b st u out unfolding cipher_bounded_def by (metis length_buf_content)
      let ?w1 = "buf_append work out"
      have w1: "buf_wf ?w1" using l1 room by (intro buf_append_wf[OF assms(3)]) auto
      have p1: "put_output work (b_offset work) out = Inr ?w1"
        using l1 room assms(4) by (intro put_output_append[OF assms(3)]) auto
      obtain v s3 where v: "cc_final c s2 = (v, s3)" by (cases "cc_final c s2")
      show ?thesis
      proof (cases v)
        case None
        then have "open_v1 c buf work = Inr (?b, None, c\<lparr>cc_state := s3\<rparr>)"
          using False F2 p w adv rs u b out p1 v by (simp add: pre2)
        then show ?thesis using b by auto
      next
        case (Some out2)
        have l2: "int (length out) + int (length out2) \<le> b_len ?b + ?bs"
          using bnd(1) b st u out v Some unfolding cipher_bounded_def by (metis length_buf_content)
        have w2: "buf_wf (buf_append ?w1 out2)" using l2 room by (intro buf_append_wf[OF w1]) auto
        have p2: "put_output ?w1 (b_offset work + int (length out)) out2 = Inr (buf_append ?w1 out2)"
          using l2 room assms(4) by (intro put_output_append[OF w1]) auto
        have "open_v1 c buf work = Inr (?b, Some (?iv, buf_append ?w1 out2), c\<lparr>cc_state := s3\<rparr>)"
          using False F2 p w adv rs u b out p1 v Some p2 by (simp add: pre2)
        then show ?thesis using b w2 liv by auto
      qed
    qed
  qed
qed

section \<open>The replay check\<close>

lemma crypto_check_replay_persist:
  "crypto_check_replay now lf pid pp pin =
     bindE (crypto_check_replay now lf pid None pin) (\<lambda>(ok, pid', _).
       Inr (ok, pid', if ok \<and> lf then map_option (\<lambda>x. packet_id_persist_save_obj x pid') pp else pp))"
proof (cases "packet_id_reap_test now (pid_rec pid)")
  case (Inr r1)
  then show ?thesis
    by (cases "packet_id_test r1 pin") (auto simp: crypto_check_replay_def Let_def bindE_def split: sum.split prod.split)
qed (simp add: crypto_check_replay_def)

definition pid_sane :: "packet_id \<Rightarrow> bool" where
  "pid_sane pid \<longleftrightarrow> bt_inv (pid_rec pid) \<or> seq_inv (pid_rec pid)"

definition pid_blocked :: "packet_id \<Rightarrow> int \<times> u32 \<Rightarrow> bool" where
  "pid_blocked pid = (if bt_inv (pid_rec pid) then bt_blocked (pid_rec pid) else seq_blocked (pid_rec pid))"

lemma seq_not_bt: "seq_inv p \<Longrightarrow> \<not> bt_inv p"
  by (simp add: seq_inv_def bt_inv_def)

lemma crypto_check_replay_ok:
  assumes "pid_sane pid" "1 < now"
  shows "\<exists>ok pid' pp'. crypto_check_replay now lf pid pp pin = Inr (ok, pid', pp') \<and> pid_sane pid'
    \<and> (\<forall>y. pid_blocked pid y \<longrightarrow> pid_blocked pid' y)
    \<and> (ok \<longrightarrow> \<not> pid_blocked pid (pin_time pin, pin_id pin) \<and> pid_blocked pid' (pin_time pin, pin_id pin))"
proof -
  let ?x = "(pin_time pin, pin_id pin)"
  have "\<exists>r pid'. replay_step lf pid (now, pin) = Inr (r, pid') \<and> pid_sane pid'
    \<and> (\<forall>y. pid_blocked pid y \<longrightarrow> pid_blocked pid' y)
    \<and> (\<forall>x. r = Some x \<longrightarrow> \<not> pid_blocked pid x \<and> pid_blocked pid' x)"
  proof (cases "bt_inv (pid_rec pid)")
    case True
    then show ?thesis using bt_step_ok[of pid "(now, pin)" lf] assms(2) unfolding pid_sane_def pid_blocked_def by fastforce
  next
    case False
    then have "seq_inv (pid_rec pid)" using assms(1) by (simp add: pid_sane_def)
    then show ?thesis using seq_step_ok[of pid lf "(now, pin)"] False seq_not_bt unfolding pid_sane_def pid_blocked_def by fastforce
  qed
  then obtain r pid' where st: "replay_step lf pid (now, pin) = Inr (r, pid')" "pid_sane pid'"
    "\<And>y. pid_blocked pid y \<Longrightarrow> pid_blocked pid' y" "\<And>x. r = Some x \<Longrightarrow> \<not> pid_blocked pid x \<and> pid_blocked pid' x" by blast
  from st(1) obtain ok pp1 where c: "crypto_check_replay now lf pid None pin = Inr (ok, pid', pp1)"
    "r = (if ok then Some ?x else None)"
    by (auto simp: replay_step_def bindE_eq_Inr)
  show ?thesis unfolding crypto_check_replay_persist[of now lf pid pp] c(1) using st(2-) c(2) by auto
qed

lemma check_replay_ok:
  assumes "pid_sane (co_packet_id opt)" "1 < now"
  shows "\<exists>ok pid' pp'. check_replay now opt pin = Inr (ok, opt\<lparr>co_packet_id := pid', co_pid_persist := pp'\<rparr>) \<and> pid_sane pid'
    \<and> (\<forall>y. pid_blocked (co_packet_id opt) y \<longrightarrow> pid_blocked pid' y)
    \<and> (ok \<longrightarrow> \<not> pid_blocked (co_packet_id opt) (pin_time pin, pin_id pin) \<and> pid_blocked pid' (pin_time pin, pin_id pin))"
  using crypto_check_replay_ok[OF assms, of "co_long_form opt" "co_pid_persist opt" pin]
  unfolding check_replay_def by (elim exE conjE) (simp, blast)

section \<open>No packet makes the receiver fault\<close>

definition recv_sane :: "'s crypto_options \<Rightarrow> bool" where
  "recv_sane opt \<longleftrightarrow> key_sane (co_decrypt opt) \<and> pid_sane (co_packet_id opt)"

definition work_sane :: "frame \<Rightarrow> buffer \<Rightarrow> bool" where
  "work_sane fr work \<longleftrightarrow> buf_wf work \<and> 0 \<le> FRAME_HEADROOM_ADJ fr FRAME_HEADROOM_MARKER_DECRYPT
     \<and> FRAME_HEADROOM_ADJ fr FRAME_HEADROOM_MARKER_DECRYPT \<le> b_capacity work"

text \<open>What a step of the receiver leaves: a sane state, and an empty packet after an error.\<close>

definition step_sane :: "(bool \<times> buffer \<times> 's crypto_options) res \<Rightarrow> bool" where
  "step_sane r \<longleftrightarrow> (\<exists>ok b opt. r = Inr (ok, b, opt) \<and> buf_wf b \<and> (\<not> ok \<longrightarrow> b_len b = 0) \<and> recv_sane opt)"

lemma pid_sane_initialized: "pid_sane pid \<Longrightarrow> packet_id_initialized pid"
  by (auto simp: pid_sane_def packet_id_initialized_def bt_inv_def seq_inv_def)

lemma recv_sane_set:
  "recv_sane opt \<Longrightarrow> kc_cipher (co_decrypt opt) = Some c \<Longrightarrow> recv_sane (set_decrypt opt (c\<lparr>cc_state := s\<rparr>))"
  by (simp add: recv_sane_def set_decrypt_def co_decrypt_def key_sane_def)

lemma recv_sane_same: "recv_sane opt \<Longrightarrow> kc_cipher (co_decrypt opt) = Some c \<Longrightarrow> same_but_state opt opt' c \<Longrightarrow> recv_sane opt'"
  by (auto simp: same_but_state_def recv_sane_set)

lemma recv_sane_pid: "recv_sane opt \<Longrightarrow> pid_sane pid \<Longrightarrow> recv_sane (opt\<lparr>co_packet_id := pid, co_pid_persist := pp\<rparr>)"
  by (simp add: recv_sane_def co_decrypt_def)

lemma step_sane_error: "buf_wf b \<Longrightarrow> recv_sane opt \<Longrightarrow> step_sane (crypt_error b opt)"
  by (auto simp: step_sane_def crypt_error_def buf_wf_def split: option.splits)

lemma finish_v1_sane:
  assumes "buf_wf b" "buf_wf w" "recv_sane opt" "1 < now"
  shows "step_sane (finish_v1 now b pin w opt)"
proof (cases pin)
  case None
  then show ?thesis using assms by (auto simp: finish_v1_def step_sane_def)
next
  case (Some p)
  obtain ok pid' pp' where c: "check_replay now opt p = Inr (ok, opt\<lparr>co_packet_id := pid', co_pid_persist := pp'\<rparr>)" "pid_sane pid'"
    using check_replay_ok[of opt now p] assms(3,4) by (auto simp: recv_sane_def)
  let ?opt = "opt\<lparr>co_packet_id := pid', co_pid_persist := pp'\<rparr>"
  have o: "recv_sane ?opt" using recv_sane_pid[OF assms(3) c(2)] .
  have "finish_v1 now b pin w opt = (if ok then Inr (True, w, ?opt) else crypt_error b ?opt)"
    using Some c(1) by (simp add: finish_v1_def)
  then show ?thesis using o step_sane_error[OF assms(1) o] assms(2) by (cases ok) (auto simp: step_sane_def)
qed

lemma packet_id_read_iv:
  assumes "length iv = 16" "0 \<le> n" "n \<le> 16"
  shows "\<exists>ok pin b. bindE (buf_set_read (Some iv) n) (\<lambda>b. packet_id_read b True) = Inr (ok, pin, b)"
proof -
  let ?b = "\<lparr>b_capacity = n, b_offset = 0, b_len = n, b_data = Some iv\<rparr>"
  have "buf_set_read (Some iv) n = Inr ?b" using assms by (simp add: buf_set_read_def buf_size_valid_def BUF_SIZE_MAX_def)
  moreover have "\<exists>ok pin b. packet_id_read ?b True = Inr (ok, pin, b)"
    using assms by (auto simp: packet_id_read_def buf_read_def buf_read_alloc_def buf_bptr_def buf_valid_def buf_peek_def
        mem_read_ok Let_def bindE_def split: option.splits sum.splits if_splits)
  ultimately show ?thesis by simp
qed

lemma pin_v1_ok:
  assumes "cipher_sane c" "\<not> ck_aead (cc_kt c)" "length iv = 16" "buf_wf work" "packet_id_initialized (co_packet_id opt)"
  shows "\<exists>ok pin w. pin_v1 c iv work opt = Inr (ok, pin, w) \<and> buf_wf w"
proof -
  have iv: "0 \<le> ck_iv_size (cc_kt c)" "ck_iv_size (cc_kt c) \<le> 16"
    and m: "ck_mode (cc_kt c) = OPENVPN_MODE_CBC \<or> cipher_kt_mode_ofb_cfb (Some (cc_kt c))"
    using assms(1,2) by (auto simp: cipher_sane_def cipher_kt_mode_ofb_cfb_def)
  show ?thesis
  proof (cases "ck_mode (cc_kt c) = OPENVPN_MODE_CBC")
    case True
    then have "cipher_kt_mode_cbc (Some (cc_kt c))" using assms(2) by (simp add: cipher_kt_mode_cbc_def)
    then show ?thesis using packet_id_read_cases[OF assms(4), of "co_long_form opt"] assms(5)
      by (auto simp: pin_v1_def Let_def)
  next
    case False
    then have "\<not> cipher_kt_mode_cbc (Some (cc_kt c))" "cipher_kt_mode_ofb_cfb (Some (cc_kt c))"
      using m by (simp_all add: cipher_kt_mode_cbc_def)
    moreover obtain b ok pin b' where "buf_set_read (Some iv) (cipher_ctx_iv_length c) = Inr b" "packet_id_read b True = Inr (ok, pin, b')"
      using packet_id_read_iv[OF assms(3) iv] by (auto simp: bindE_eq_Inr cipher_ctx_iv_length_def)
    ultimately show ?thesis using assms(4,5) by (simp add: pin_v1_def Let_def)
  qed
qed

lemma openvpn_decrypt_v1_sane:
  assumes "recv_sane opt" "buf_wf buf" "work_sane fr work" "1 < now"
    and "\<And>c. kc_cipher (co_decrypt opt) = Some c \<Longrightarrow> \<not> ck_aead (cc_kt c)"
  shows "step_sane (openvpn_decrypt_v1 now buf work opt fr)"
proof (cases "b_len buf > 0")
  case False
  then show ?thesis using assms(1,2) by (auto simp: openvpn_decrypt_v1_def step_sane_def)
next
  case True
  let ?k = "co_decrypt opt" and ?hr = "FRAME_HEADROOM_ADJ fr FRAME_HEADROOM_MARKER_DECRYPT"
  have init: "packet_id_initialized (co_packet_id opt)" using assms(1) pid_sane_initialized by (simp add: recv_sane_def)
  have hm: "\<forall>hm. kc_hmac ?k = Some hm \<longrightarrow> hmac_sane hm" using assms(1) by (simp add: recv_sane_def key_sane_def)
  from verify_v1_ok[OF assms(2) hm] show ?thesis
  proof (elim disjE exE conjE)
    assume "verify_v1 (kc_hmac ?k) buf = Inr None"
    then show ?thesis using True step_sane_error[OF assms(2,1)] by (simp add: openvpn_decrypt_v1_def Let_def)
  next
    fix b assume v: "verify_v1 (kc_hmac ?k) buf = Inr (Some b)" "buf_wf b"
    show ?thesis
    proof (cases "kc_cipher ?k")
      case None
      from packet_id_read_cases[OF v(2), of "co_long_form opt"] show ?thesis
      proof (elim disjE exE conjE)
        fix pin b' assume "packet_id_read b (co_long_form opt) = Inr (False, pin, b')"
        then show ?thesis using True None v init step_sane_error[OF v(2) assms(1)]
          by (simp add: openvpn_decrypt_v1_def Let_def)
      next
        fix pin assume "packet_id_read b (co_long_form opt) = Inr (True, pin, buf_drop b (packet_id_size (co_long_form opt)))"
          "buf_wf (buf_drop b (packet_id_size (co_long_form opt)))"
        then show ?thesis using True None v init finish_v1_sane[OF v(2) _ assms(1,4)]
          by (simp add: openvpn_decrypt_v1_def Let_def)
      qed
    next
      case (Some c)
      let ?w = "work\<lparr>b_len := 0, b_offset := ?hr\<rparr>"
      have cs: "cipher_sane c" "\<not> ck_aead (cc_kt c)" using Some assms(1,5) by (simp_all add: recv_sane_def key_sane_def)
      have w: "buf_init_dowork work ?hr = (True, ?w)" "buf_wf ?w"
        using assms(3) by (simp_all add: work_sane_def buf_init_dowork_ok buf_init_wf)
      obtain b2 r s where o: "open_v1 c b ?w = Inr (b2, r, c\<lparr>cc_state := s\<rparr>)" "buf_wf b2"
        "\<And>iv w. r = Some (iv, w) \<Longrightarrow> buf_wf w \<and> length iv = 16"
        using open_v1_ok[OF cs(1) v(2) w(2)] by auto
      let ?c = "c\<lparr>cc_state := s\<rparr>" and ?opt = "set_decrypt opt (c\<lparr>cc_state := s\<rparr>)"
      have so: "recv_sane ?opt" using recv_sane_set[OF assms(1) Some] .
      have io: "packet_id_initialized (co_packet_id ?opt)" using init by (simp add: set_decrypt_def)
      show ?thesis
      proof (cases r)
        case None
        then show ?thesis using True Some v w o(1) step_sane_error[OF o(2) so] by (simp add: openvpn_decrypt_v1_def Let_def)
      next
        case r: (Some q)
        then obtain iv w2 where q: "r = Some (iv, w2)" "buf_wf w2" "length iv = 16" using o(3) by (cases q) auto
        obtain ok pin w3 where p: "pin_v1 ?c iv w2 ?opt = Inr (ok, pin, w3)" "buf_wf w3"
          using pin_v1_ok[of ?c iv w2 ?opt] cs q(2,3) io by auto
        show ?thesis using True Some v w o(1) q(1) p step_sane_error[OF o(2) so] finish_v1_sane[OF o(2) p(2) so assms(4), of pin]
          by (cases ok) (simp_all add: openvpn_decrypt_v1_def Let_def)
      qed
    qed
  qed
qed

lemma openvpn_decrypt_aead_sane:
  assumes "recv_sane opt" "buf_wf buf" "0 < b_len buf" "work_sane fr work" "1 < now"
    and "kc_cipher (co_decrypt opt) = Some c" "ck_aead (cc_kt c)" "0 \<le> ad_start" "ad_start \<le> b_offset buf"
  shows "step_sane (openvpn_decrypt_aead now buf work opt fr ad_start)"
proof -
  let ?r = "openvpn_decrypt_aead now buf work opt fr ad_start"
  obtain d where d: "b_data buf = Some d" using assms(2) by (rule buf_wfE)
  have ks: "key_sane (co_decrypt opt)" "packet_id_initialized (co_packet_id opt)"
    using assms(1) pid_sane_initialized by (auto simp: recv_sane_def)
  have wk: "buf_wf work" "0 \<le> FRAME_HEADROOM_ADJ fr FRAME_HEADROOM_MARKER_DECRYPT"
    "FRAME_HEADROOM_ADJ fr FRAME_HEADROOM_MARKER_DECRYPT \<le> b_capacity work" using assms(4) by (simp_all add: work_sane_def)
  from openvpn_decrypt_aead_outcome[OF ks(1) assms(6,7) ks(2) assms(2,3) d assms(8,9) wk]
  have "rejected ?r opt c \<or> (\<exists>w pin. checked ?r now pin w opt c)" by blast
  then show ?thesis
  proof (elim disjE exE)
    assume "rejected ?r opt c"
    then show ?thesis using recv_sane_same[OF assms(1,6)] by (auto simp: rejected_def step_sane_def)
  next
    fix w pin assume "checked ?r now pin w opt c"
    then obtain b opt' where r: "?r = finish_v1 now b (Some pin) w opt'" "buf_wf b" "buf_wf w" "same_but_state opt opt' c"
      by (auto simp: checked_def finish_v1_def)
    show ?thesis unfolding r(1) by (rule finish_v1_sane[OF r(2,3) recv_sane_same[OF assms(1,6) r(4)] assms(5)])
  qed
qed

end
