(* ===== verification/Crypto_Seal.thy ===== *)
theory Crypto_Seal
  imports Crypto_Open Buffer_Safety
begin

text \<open>
  Sealing a packet, and that the peer opens what was sealed: the data channel delivers the plain text
  that was sent, and never delivers the packet of an identifier twice.
\<close>

section \<open>Building the packet\<close>

lemma buf_write_raw:
  assumes "b_data b = Some d" "0 \<le> b_offset b" "0 \<le> b_len b" "b_offset b + b_len b + int (length src) \<le> b_capacity b"
    and "b_capacity b \<le> int (length d)" "b_capacity b < 2097152"
  shows "buf_write b src = Inr (True, buf_append b src)"
proof -
  have "buf_safe b (int (length src))" using assms by (simp add: buf_safe_def buf_valid_def buf_size_valid_small)
  then show ?thesis using assms
    by (simp add: buf_write_def buf_write_alloc_def buf_bptr_def buf_valid_def buf_poke_def mem_write_ok buf_append_def)
qed

lemma buf_write_alloc_room:
  assumes "buf_wf b" "0 \<le> n" "n \<le> buf_room b"
  shows "\<exists>b' j. buf_write_alloc b n = (Some (b_offset b + b_len b), b') \<and> buf_wf b' \<and> buf_content b' = buf_content b @ j
    \<and> int (length j) = n \<and> b_offset b' = b_offset b \<and> b_capacity b' = b_capacity b \<and> b_len b' = b_len b + n"
proof -
  let ?b = "b\<lparr>b_len := b_len b + n\<rparr>"
  obtain d where d: "b_data b = Some d" "int (length d) = b_capacity b" "b_capacity b < 2097152"
    "0 \<le> b_offset b" "0 \<le> b_len b" "b_offset b + b_len b \<le> b_capacity b" using assms(1) by (rule buf_wfE)
  have w: "buf_wf ?b" using d assms(2,3) by (simp add: buf_wf_def BUF_SIZE_MAX_def)
  have a: "buf_write_alloc b n = (Some (b_offset b + b_len b), ?b)"
    using assms buf_safe_room[OF assms] by (simp add: buf_write_alloc_def)
  have n: "nat (b_len b + n) = nat (b_len b) + nat n" using d assms(2) by (simp add: nat_add_distrib)
  have "buf_content ?b = buf_content b @ segment d (nat (b_offset b) + nat (b_len b)) (nat n)"
    using d by (simp add: buf_content_def n segment_append)
  moreover have "int (length (segment d (nat (b_offset b) + nat (b_len b)) (nat n))) = n"
  proof -
    have "nat (b_offset b) + nat (b_len b) + nat n \<le> length d" using d assms(2,3) by linarith
    then show ?thesis using assms(2) by simp
  qed
  ultimately show ?thesis using a w by auto
qed

section \<open>AEAD\<close>

text \<open>What the library makes of a plain text, from a reset context on.\<close>

definition seal :: "'s cipher_ctx \<Rightarrow> byte list \<Rightarrow> byte list \<Rightarrow> (byte list \<times> byte list) option" where
  "seal c ad pt =
     (case cc_update c (snd (cc_update_ad c (cc_state c) ad)) pt of
        (None, _) \<Rightarrow> None
      | (Some out, s) \<Rightarrow> (case cc_final c s of (None, _) \<Rightarrow> None | (Some out2, s2) \<Rightarrow>
          (case cc_get_tag c s2 OPENVPN_AEAD_TAG_LENGTH of (None, _) \<Rightarrow> None | (Some tag, _) \<Rightarrow> Some (out @ out2, tag))))"

definition aead_key :: "'s key_ctx \<Rightarrow> 's cipher_ctx \<Rightarrow> bool" where
  "aead_key k c \<longleftrightarrow> kc_cipher k = Some c \<and> cipher_sane c \<and> ck_aead (cc_kt c) \<and> 12 \<le> ck_iv_size (cc_kt c)
     \<and> kc_implicit_iv_len k = ck_iv_size (cc_kt c) - 4 \<and> length (kc_implicit_iv k) = 16"

lemma aead_iv_ok:
  assumes "aead_key (co_encrypt opt) c" "packet_id_send_update now (pid_send (co_packet_id opt)) False = (True, ps)"
  shows "aead_iv now c opt = Inr (Some (packet_iv (co_encrypt opt) c (be32 (ps_id ps))), set_pid_send opt ps)"
proof -
  let ?k = "co_encrypt opt" and ?n = "ck_iv_size (cc_kt c)"
  have n: "12 \<le> ?n" "?n \<le> 16" "kc_implicit_iv_len ?k = ?n - 4" "length (kc_implicit_iv ?k) = 16"
    using assms(1) by (auto simp: aead_key_def cipher_sane_def)
  let ?b = "\<lparr>b_capacity = ?n, b_offset = 0, b_len = 0, b_data = Some (replicate 16 (0 :: byte))\<rparr>"
  let ?im = "take (nat (?n - 4)) (kc_implicit_iv ?k)" and ?id = "be32 (ps_id ps)"
  have z: "overwrite (replicate 16 0) 0 [0] = replicate 16 (0 :: byte)" by (simp add: overwrite_def numeral_eq_Suc)
  have b: "buf_set_write (Some (replicate 16 0)) ?n = Inr ?b"
    using n(1,2) z by (simp add: buf_set_write_def buf_size_valid_small buf_poke_def mem_write_ok)
  have w1: "buf_write ?b ?id = Inr (True, buf_append ?b ?id)"
    using n(1,2) by (intro buf_write_raw[of _ "replicate 16 0"]) simp_all
  have d1: "b_data (buf_append ?b ?id) = Some (?id @ replicate 12 0)"
    by (simp add: buf_append_def overwrite_front)
  have rd: "mem_read (kc_implicit_iv ?k) 0 (kc_implicit_iv_len ?k) = Inr ?im"
    using n by (simp add: mem_read_ok segment_from_0)
  have li: "length ?im = nat (?n - 4)" using n by simp
  have w2: "buf_write (buf_append ?b ?id) ?im = Inr (True, buf_append (buf_append ?b ?id) ?im)"
    using n li by (intro buf_write_raw[of _ "?id @ replicate 12 0"]) (simp_all add: d1)
  have "overwrite (?id @ replicate 12 0) 4 ?im = ?id @ ?im @ replicate (12 - length ?im) 0"
    using n(1,2) li by (intro overwrite_middle) simp_all
  moreover have "12 - length ?im = 16 - nat ?n" unfolding li using n(1,2) by linarith
  ultimately have d2: "b_data (buf_append (buf_append ?b ?id) ?im) = Some (packet_iv ?k c ?id)"
    using n(3) d1 by (simp add: buf_append_def packet_iv_def Let_def)
  show ?thesis using n b w1 rd w2 d2 assms(2) li
    by (simp add: aead_iv_def Let_def cipher_ctx_iv_length_def OPENVPN_AEAD_MIN_IV_LEN_def OPENVPN_MAX_IV_LENGTH_def
        packet_id_write_def assertE_def)
qed

lemma openvpn_encrypt_aead_ok:
  assumes "aead_key (co_encrypt opt) c" "packet_id_initialized (co_packet_id opt)"
    and "packet_id_send_update now (pid_send (co_packet_id opt)) False = (True, ps)"
    and "buf_wf buf" "0 < b_len buf" "buf_wf work" "20 + b_len buf + ck_block_size (cc_kt c) \<le> buf_room work"
    and "fst (cc_reset c (cc_state c) (packet_iv (co_encrypt opt) c (be32 (ps_id ps))))"
    and "seal (c\<lparr>cc_state := snd (cc_reset c (cc_state c) (packet_iv (co_encrypt opt) c (be32 (ps_id ps))))\<rparr>)
      (buf_content work @ be32 (ps_id ps)) (buf_content buf) = Some (ct, tag)" "length tag = 16"
  shows "\<exists>b1 opt'. openvpn_encrypt now rnd buf work (Some opt) = Inr (b1, Some opt') \<and> buf_wf b1
    \<and> buf_content b1 = buf_content work @ be32 (ps_id ps) @ tag @ ct \<and> int (length ct) \<le> b_len buf + ck_block_size (cc_kt c)"
proof -
  let ?k = "co_encrypt opt" and ?id = "be32 (ps_id ps)" and ?bs = "ck_block_size (cc_kt c)"
  let ?iv = "packet_iv (co_encrypt opt) c (be32 (ps_id ps))"
  have k: "kc_cipher ?k = Some c" "ck_aead (cc_kt c)" "cipher_bounded c" "0 \<le> ?bs"
    and il: "ck_iv_size (cc_kt c) - kc_implicit_iv_len ?k = 4" "12 \<le> ck_iv_size (cc_kt c)" "ck_iv_size (cc_kt c) \<le> 16"
    using assms(1) by (simp_all add: aead_key_def cipher_sane_def)
  have ivd: "take 4 ?iv = ?id" "4 \<le> length ?iv" using il by (simp_all add: packet_iv_def Let_def)
  have ex: "mem_read ?iv 0 4 = Inr ?id" using ivd by (simp add: mem_read_ok segment_from_0)
  let ?w1 = "buf_append work ?id"
  have w1: "buf_write work ?id = Inr (True, ?w1)" "buf_wf ?w1" "buf_content ?w1 = buf_content work @ ?id"
    using assms(5-7) k(4) by (simp_all add: buf_write_append buf_append_wf buf_append_content)
  define s1 where "s1 = snd (cc_reset c (cc_state c) ?iv)"
  let ?c1 = "c\<lparr>cc_state := s1\<rparr>"
  have rs: "cipher_ctx_reset c ?iv = (True, ?c1)"
    using assms(8) by (cases "cc_reset c (cc_state c) ?iv") (simp add: cipher_ctx_reset_def s1_def)
  obtain w2 j where w2: "buf_write_alloc ?w1 16 = (Some (b_offset ?w1 + b_len ?w1), w2)" "buf_wf w2"
    "buf_content w2 = buf_content ?w1 @ j" "int (length j) = 16" "b_offset w2 = b_offset work"
    "b_capacity w2 = b_capacity work" "b_len w2 = b_len work + 20"
    using buf_write_alloc_room[OF w1(2), of 16] assms(5,7) k(4) by auto
  have room: "b_len buf + ?bs \<le> buf_room w2" using w2(5-7) assms(7) by simp
  have safe: "buf_safe w2 (b_len buf + ?bs)" using room assms(5) k(4) by (intro buf_safe_room[OF w2(2)]) auto
  have ad: "buf_peek w2 (b_offset w2) (b_len w2 - 16) = Inr (buf_content work @ ?id)"
  proof -
    have "buf_peek w2 (b_offset w2 + 0) (b_len w2 - 16) = Inr (segment (buf_content w2) (nat 0) (nat (b_len w2 - 16)))"
      using w2(7) buf_wf_bounds[OF assms(6)] by (intro buf_peek_content[OF w2(2)]) auto
    moreover have "nat (b_len w2 - 16) = length (buf_content ?w1)" using w2(7) length_buf_content_nat[OF w1(2)] by simp
    ultimately show ?thesis using w2(3) w1(3) by (simp add: segment_from_0)
  qed
  define s2 where "s2 = snd (cc_update_ad c s1 (buf_content work @ ?id))"
  have ada: "cipher_ctx_update_ad ?c1 (buf_content work @ ?id) = (True, c\<lparr>cc_state := s2\<rparr>)"
  proof -
    have "fst (cc_update_ad c s1 (buf_content work @ ?id))" using k(3) unfolding cipher_bounded_def by blast
    then show ?thesis
      by (cases "cc_update_ad c s1 (buf_content work @ ?id)") (simp add: cipher_ctx_update_ad_def s2_def)
  qed
  have st: "started c s2" unfolding s2_def s1_def by simp
  from assms(9) obtain out s3 out2 s4 s5 where u: "cc_update c s2 (buf_content buf) = (Some out, s3)"
    "cc_final c s3 = (Some out2, s4)" "cc_get_tag c s4 16 = (Some tag, s5)" "ct = out @ out2"
    unfolding seal_def by (auto simp: s2_def s1_def OPENVPN_AEAD_TAG_LENGTH_def split: prod.splits option.splits)
  have l: "int (length out) \<le> b_len buf + ?bs" "int (length out) + int (length out2) \<le> b_len buf + ?bs"
    using k(3) assms(4) st u(1,2) unfolding cipher_bounded_def by (metis length_buf_content)+
  let ?w3 = "buf_append w2 out"
  have w3: "buf_wf ?w3" using l(1) room by (intro buf_append_wf[OF w2(2)]) auto
  have p3: "put_output w2 (bend w2) out = Inr ?w3" using l(1) room
    by (intro put_output_append[OF w2(2)]) (auto simp: bend_wf[OF w2(2)])
  let ?w4 = "buf_append ?w3 out2"
  have w4: "buf_wf ?w4" using l room by (intro buf_append_wf[OF w3]) auto
  have p4: "put_output ?w3 (bend ?w3) out2 = Inr ?w4" using l room
    by (intro put_output_append[OF w3]) (auto simp: bend_wf[OF w3])
  have c4: "buf_content ?w4 = (buf_content work @ ?id) @ j @ (out @ out2)"
    using l room w2(2,3) w1(3) w3 by (simp add: buf_append_content)
  have "\<exists>b'. buf_poke ?w4 (b_offset ?w1 + b_len ?w1) tag = Inr b' \<and> buf_wf b'
    \<and> buf_content b' = (buf_content work @ ?id) @ tag @ (out @ out2) \<and> b_offset b' = b_offset ?w4 \<and> b_len b' = b_len ?w4
    \<and> b_capacity b' = b_capacity ?w4"
    using assms(10) w2(4,5) length_buf_content[OF assms(6)] by (intro buf_poke_middle[OF w4 c4]) auto
  then obtain b1 where b1: "buf_poke ?w4 (b_offset ?w1 + b_len ?w1) tag = Inr b1" "buf_wf b1"
    "buf_content b1 = (buf_content work @ ?id) @ tag @ (out @ out2)" by blast
  have mode: "cipher_kt_mode_aead (Some (cc_kt c))" using k(2) by (simp add: cipher_kt_mode_aead_def)
  have "openvpn_encrypt_aead now buf work opt = Inr (b1, set_encrypt (set_pid_send opt ps) (c\<lparr>cc_state := s5\<rparr>))"
    using k(1,2) mode assms(2,4) aead_iv_ok[OF assms(1,3)] il ex w1(1) rs w2(1,2) safe ad ada u p3 p4 b1(1) assms(10)
    by (simp add: openvpn_encrypt_aead_def Let_def cipher_kt_tag_size_def cipher_ctx_get_cipher_kt_def cipher_ctx_iv_length_def
        cipher_ctx_block_size_def OPENVPN_AEAD_TAG_LENGTH_def cipher_ctx_update_def cipher_ctx_final_def cipher_ctx_get_tag_def)
  then show ?thesis using k(1) mode assms(5) b1(2,3) u(4) l(2)
    by (simp add: openvpn_encrypt_def cipher_ctx_get_cipher_kt_def)
qed

end
