(* ===== verification/Crypto_Correct.thy ===== *)
theory Crypto_Correct
  imports Crypto_Seal
begin

text \<open>
  The guarantees of the data channel: round trip, authenticity and replay protection of AEAD packets,
  over any cipher library that decrypts what it encrypted.
\<close>

section \<open>Round trip\<close>

text \<open>The documented behaviour of an AEAD cipher keyed alike on both sides.\<close>

definition lib_correct :: "'s cipher_ctx \<Rightarrow> 't cipher_ctx \<Rightarrow> bool" where
  "lib_correct ce cd \<longleftrightarrow> (\<forall>se sd iv ad pt. pt \<noteq> [] \<longrightarrow> fst (cc_reset ce se iv) \<and> fst (cc_reset cd sd iv)
     \<and> (\<exists>ct tag. seal (ce\<lparr>cc_state := snd (cc_reset ce se iv)\<rparr>) ad pt = Some (ct, tag) \<and> length tag = 16 \<and> ct \<noteq> []
          \<and> unseal (cd\<lparr>cc_state := snd (cc_reset cd sd iv)\<rparr>) ad ct tag = Some pt))"

definition aead_pair :: "'s key_ctx \<Rightarrow> 't key_ctx \<Rightarrow> 's cipher_ctx \<Rightarrow> 't cipher_ctx \<Rightarrow> bool" where
  "aead_pair ks kr ce cd \<longleftrightarrow> aead_key ks ce \<and> aead_key kr cd \<and> cc_kt ce = cc_kt cd
     \<and> kc_implicit_iv ks = kc_implicit_iv kr \<and> lib_correct ce cd"

text \<open>
  One packet from the sender's buffers through the network into the receiver's: \<open>work\<close> holds the header
  that is sent in the clear, \<open>rbuf\<close> is the receiver's empty read buffer.
\<close>

definition send_data :: "int \<Rightarrow> int \<Rightarrow> (nat \<Rightarrow> byte) \<Rightarrow> buffer \<Rightarrow> buffer \<Rightarrow> 's crypto_options \<Rightarrow> buffer \<Rightarrow> buffer
    \<Rightarrow> 't crypto_options \<Rightarrow> frame \<Rightarrow> (bool \<times> buffer \<times> 't crypto_options option) res" where
  "send_data now now' rnd buf work s rbuf rwork r fr =
     bindE (openvpn_encrypt now rnd buf work (Some s)) (\<lambda>(b, _).
     bindE (buf_copy rbuf b) (\<lambda>(_, rb).
     case buf_advance rb (b_len work) of (_, rb') \<Rightarrow> openvpn_decrypt now' rb' rwork (Some r) fr (b_offset rb)))"

lemma packet_iv_cong:
  assumes "aead_key ks ce" "aead_key kr cd" "cc_kt ce = cc_kt cd" "kc_implicit_iv ks = kc_implicit_iv kr" "take 4 x = take 4 y"
  shows "packet_iv ks ce x = packet_iv kr cd y"
  using assms by (simp add: packet_iv_def aead_key_def Let_def)

lemma openvpn_decrypt_aead_accepts:
  assumes "recv_sane r" "aead_key (co_decrypt r) cd" "buf_wf rb" "buf_content rb = hdr @ be32 i @ tag @ ct" "length tag = 16" "ct \<noteq> []"
    and "fst (cc_reset cd (cc_state cd) (packet_iv (co_decrypt r) cd (be32 i)))"
    and "unseal (cd\<lparr>cc_state := snd (cc_reset cd (cc_state cd) (packet_iv (co_decrypt r) cd (be32 i)))\<rparr>) (hdr @ be32 i) ct tag = Some pt"
    and "work_sane fr rwork" "1 < now"
    and "int (length ct) + ck_block_size (cc_kt cd) \<le> b_capacity rwork - FRAME_HEADROOM_ADJ fr FRAME_HEADROOM_MARKER_DECRYPT"
  shows "\<exists>acc pid' pp' w r'. crypto_check_replay now (co_long_form r) (co_packet_id r) (co_pid_persist r) \<lparr>pin_id = i, pin_time = 0\<rparr>
      = Inr (acc, pid', pp')
    \<and> openvpn_decrypt now (buf_drop rb (int (length hdr))) rwork (Some r) fr (b_offset rb) = Inr (acc, w, Some r')
    \<and> buf_content w = (if acc then pt else [])"
proof -
  let ?k = "co_decrypt r" and ?b = "buf_drop rb (int (length hdr))" and ?hr = "FRAME_HEADROOM_ADJ fr FRAME_HEADROOM_MARKER_DECRYPT"
  let ?w = "rwork\<lparr>b_len := 0, b_offset := ?hr\<rparr>"
  obtain d where d: "b_data rb = Some d" using assms(3) by (rule buf_wfE)
  have k: "kc_cipher ?k = Some cd" "cipher_sane cd" "ck_aead (cc_kt cd)" "12 \<le> ck_iv_size (cc_kt cd)"
    "kc_implicit_iv_len ?k = ck_iv_size (cc_kt cd) - 4" using assms(2) by (simp_all add: aead_key_def)
  have len: "b_len rb = int (length hdr) + 20 + int (length ct)" using length_buf_content[OF assms(3)] assms(4,5) by simp
  have b: "buf_wf ?b" "buf_content ?b = be32 i @ tag @ ct" "0 < b_len ?b"
    using len assms(3,4) by (simp_all add: buf_drop_wf buf_drop_content)
  have ini: "key_sane ?k" "packet_id_initialized (co_packet_id r)" "pid_sane (co_packet_id r)"
    using assms(1) pid_sane_initialized by (auto simp: recv_sane_def)
  have wk: "buf_wf rwork" "0 \<le> ?hr" "?hr \<le> b_capacity rwork" using assms(9) by (simp_all add: work_sane_def)
  have seg: "segment d (nat (b_offset rb)) (nat (b_offset ?b - b_offset rb)) = hdr"
  proof -
    have "segment d (nat (b_offset rb)) (nat (b_offset ?b - b_offset rb)) = take (length hdr) (buf_content rb)"
      using d len by (simp add: buf_content_def segment_def min_def nat_add_distrib)
    then show ?thesis using assms(4) by simp
  qed
  have iv: "packet_iv ?k cd (buf_content ?b) = packet_iv ?k cd (be32 i)"
    using assms(2) b(2) by (intro packet_iv_cong) simp_all
  have pieces: "take 4 (buf_content ?b) = be32 i" "drop 20 (buf_content ?b) = ct" "take 16 (drop 4 (buf_content ?b)) = tag"
    using assms(5) unfolding b(2) by simp_all
  have "buf_wf ?w" using wk by (intro buf_init_wf)
  then have safe: "buf_safe ?w (b_len ?b - 20 + ck_block_size (cc_kt cd))"
    using assms(11) len k(2) by (intro buf_safe_room) (auto simp: cipher_sane_def)
  have good: "\<not> aead_bad ?k cd ?b ?w d (b_offset rb)"
    unfolding aead_bad_def Let_def iv pieces seg assms(8) using assms(6,7) len k(5) safe by simp
  let ?r = "openvpn_decrypt_aead now ?b rwork r fr (b_offset rb)"
  have "b_data ?b = Some d" "0 \<le> b_offset rb" "b_offset rb \<le> b_offset ?b" using d buf_wf_bounds[OF assms(3)] by simp_all
  from openvpn_decrypt_aead_outcome[OF ini(1) k(1,3) ini(2) b(1,3) this wk, of now] good
  obtain w where w: "checked ?r now \<lparr>pin_id = i, pin_time = 0\<rparr> w r cd" "buf_content w = pt"
    unfolding pieces iv seg assms(8) by auto
  from w(1) obtain b2 opt' where ck: "?r = finish_v1 now b2 (Some \<lparr>pin_id = i, pin_time = 0\<rparr>) w opt'" "same_but_state r opt' cd"
    by (auto simp: checked_def finish_v1_def)
  have pid: "co_packet_id opt' = co_packet_id r" "co_pid_persist opt' = co_pid_persist r" "co_long_form opt' = co_long_form r"
    using ck(2) by (auto simp: same_but_state_def set_decrypt_def co_long_form_def)
  obtain acc pid' pp' where cr: "crypto_check_replay now (co_long_form r) (co_packet_id r) (co_pid_persist r) \<lparr>pin_id = i, pin_time = 0\<rparr>
      = Inr (acc, pid', pp')"
    using crypto_check_replay_ok[OF ini(3) assms(10)] by blast
  let ?opt = "opt'\<lparr>co_packet_id := pid', co_pid_persist := pp'\<rparr>"
  have "?r = Inr (acc, if acc then w else b2\<lparr>b_len := 0\<rparr>, ?opt)"
    unfolding ck(1) by (simp add: finish_v1_def check_replay_def pid cr crypt_error_def)
  then have "openvpn_decrypt now ?b rwork (Some r) fr (b_offset rb) = Inr (acc, if acc then w else b2\<lparr>b_len := 0\<rparr>, Some ?opt)"
    using b(3) k(1,3) by (simp add: openvpn_decrypt_def cipher_ctx_get_cipher_kt_def cipher_kt_mode_aead_def)
  moreover have "buf_content (if acc then w else b2\<lparr>b_len := 0\<rparr>) = (if acc then pt else [])"
    using w(2) by (simp add: buf_content_def split: option.split)
  ultimately show ?thesis using cr by blast
qed

text \<open>
  C4. A packet that \<open>openvpn_encrypt\<close> sealed with an AEAD cipher, behind any clear-text header, comes out of
  the peer's \<open>openvpn_decrypt\<close> unchanged, provided only that its identifier passes the peer's replay
  check; a packet that does not pass comes out empty. Neither side faults.
\<close>

theorem data_channel_aead_roundtrip:
  assumes "aead_pair (co_encrypt s) (co_decrypt r) ce cd" "packet_id_initialized (co_packet_id s)"
    and "packet_id_send_update now (pid_send (co_packet_id s)) False = (True, ps)"
    and "buf_wf buf" "0 < b_len buf" "buf_wf work" "20 + b_len buf + ck_block_size (cc_kt ce) \<le> buf_room work"
    and "recv_sane r" "buf_wf rbuf" "b_len rbuf = 0" "b_len work + 20 + b_len buf + ck_block_size (cc_kt ce) \<le> buf_room rbuf"
    and "work_sane fr rwork" "1 < now'"
    and "b_len buf + 2 * ck_block_size (cc_kt ce) \<le> b_capacity rwork - FRAME_HEADROOM_ADJ fr FRAME_HEADROOM_MARKER_DECRYPT"
  shows "\<exists>acc pid' pp' w r'.
      crypto_check_replay now' (co_long_form r) (co_packet_id r) (co_pid_persist r) \<lparr>pin_id = ps_id ps, pin_time = 0\<rparr>
        = Inr (acc, pid', pp')
    \<and> send_data now now' rnd buf work s rbuf rwork r fr = Inr (acc, w, Some r')
    \<and> buf_content w = (if acc then buf_content buf else [])"
proof -
  let ?id = "be32 (ps_id ps)"
  note pr = assms(1)[unfolded aead_pair_def]
  have iv: "packet_iv (co_decrypt r) cd ?id = packet_iv (co_encrypt s) ce ?id"
    using pr by (intro packet_iv_cong) auto
  have "buf_content buf \<noteq> []" using length_buf_content[OF assms(4)] assms(5) by auto
  then obtain ct tag where lc: "fst (cc_reset ce (cc_state ce) (packet_iv (co_encrypt s) ce ?id))"
    "fst (cc_reset cd (cc_state cd) (packet_iv (co_decrypt r) cd ?id))"
    "seal (ce\<lparr>cc_state := snd (cc_reset ce (cc_state ce) (packet_iv (co_encrypt s) ce ?id))\<rparr>) (buf_content work @ ?id) (buf_content buf) = Some (ct, tag)"
    "length tag = 16" "ct \<noteq> []"
    "unseal (cd\<lparr>cc_state := snd (cc_reset cd (cc_state cd) (packet_iv (co_decrypt r) cd ?id))\<rparr>) (buf_content work @ ?id) ct tag = Some (buf_content buf)"
    using pr unfolding lib_correct_def iv by blast
  have bs: "0 \<le> ck_block_size (cc_kt ce)" "cc_kt cd = cc_kt ce" using pr by (auto simp: aead_key_def cipher_sane_def)
  obtain b1 s' where e: "openvpn_encrypt now rnd buf work (Some s) = Inr (b1, Some s')" "buf_wf b1"
    "buf_content b1 = buf_content work @ ?id @ tag @ ct" "int (length ct) \<le> b_len buf + ck_block_size (cc_kt ce)"
    using openvpn_encrypt_aead_ok[OF _ assms(2-7) lc(1,3,4), of rnd] pr by blast
  let ?rb = "buf_append rbuf (buf_content b1)"
  have fits: "int (length (buf_content b1)) \<le> buf_room rbuf"
    unfolding e(3) using e(4) lc(4) assms(11) length_buf_content[OF assms(6)] by simp
  have cp: "buf_copy rbuf b1 = Inr (True, ?rb)" using e(2) fits assms(9) by (simp add: buf_copy_append)
  have "buf_content rbuf = []" using length_buf_content[OF assms(9)] assms(10) by simp
  then have rb: "buf_wf ?rb" "buf_content ?rb = buf_content work @ ?id @ tag @ ct"
    using fits assms(9) e(3) by (simp_all add: buf_append_wf buf_append_content)
  have hl: "b_len work = int (length (buf_content work))" using assms(6) by simp
  have "b_len work \<le> b_len ?rb" using length_buf_content[OF rb(1)] rb(2) hl by simp
  then have adv: "buf_advance ?rb (b_len work) = (True, buf_drop ?rb (b_len work))"
    using buf_wf_bounds(2)[OF assms(6)] by (intro buf_advance_drop[OF rb(1)])
  have "int (length ct) + ck_block_size (cc_kt cd) \<le> b_capacity rwork - FRAME_HEADROOM_ADJ fr FRAME_HEADROOM_MARKER_DECRYPT"
    using e(4) assms(14) bs by simp
  from openvpn_decrypt_aead_accepts[OF assms(8) _ rb lc(4,5,2,6) assms(12,13) this] pr
  show ?thesis unfolding hl[symmetric] send_data_def e(1) by (simp add: cp adv)
qed

section \<open>An example of a library\<close>

text \<open>
  A cipher context over a pair of bytes, key stream and running sum, that satisfies what the theorems
  ask of the library.
\<close>

definition demo_sum :: "byte list \<Rightarrow> byte" where
  "demo_sum xs = foldl (\<lambda>x y. x + y) 0 xs"

definition demo_cipher :: "bool \<Rightarrow> (byte \<times> byte) cipher_ctx" where
  "demo_cipher enc = \<lparr>cc_kt = \<lparr>ck_mode = OPENVPN_MODE_GCM, ck_aead = True, ck_iv_size = 12, ck_block_size = 16\<rparr>, cc_state = (0, 0),
     cc_reset = (\<lambda>s iv. (True, (demo_sum iv, 0))),
     cc_update_ad = (\<lambda>(k, m) ad. (True, (k, m + demo_sum ad))),
     cc_update = (\<lambda>(k, m) x. let y = map (\<lambda>b. b XOR k) x in (Some y, (k, m + demo_sum (if enc then y else x)))),
     cc_final = (\<lambda>s. (Some [], s)),
     cc_get_tag = (\<lambda>(k, m) n. (Some (replicate 16 m), (k, m))),
     cc_final_check_tag = (\<lambda>(k, m) tag. (if tag = replicate 16 m then Some [] else None, (k, m)))\<rparr>"

definition demo_key :: "bool \<Rightarrow> (byte \<times> byte) key_ctx" where
  "demo_key enc = \<lparr>kc_cipher = Some (demo_cipher enc), kc_hmac = None, kc_implicit_iv = replicate 16 7, kc_implicit_iv_len = 8\<rparr>"

definition demo_pid :: packet_id where
  "demo_pid = packet_id_zero\<lparr>pid_rec := (pid_rec packet_id_zero)\<lparr>pr_initialized := True\<rparr>\<rparr>"

definition demo_opt :: "(byte \<times> byte) crypto_options" where
  "demo_opt = \<lparr>co_key_ctx_bi = \<lparr>kb_encrypt = demo_key True, kb_decrypt = demo_key False, kb_initialized = True\<rparr>,
     co_packet_id = demo_pid, co_pid_persist = None, co_flags = 0\<rparr>"

definition demo_frame :: frame where
  "demo_frame = \<lparr>link_mtu = 60, link_mtu_dynamic = 60, extra_frame = 4, extra_buffer = 0, extra_tun = 0, extra_link = 0,
     align_flags = 0, align_adjust = 0\<rparr>"

definition demo_buf :: "byte list \<Rightarrow> buffer" where
  "demo_buf x = \<lparr>b_capacity = 100, b_offset = 10, b_len = int (length x), b_data = Some (replicate 10 0 @ x @ replicate (90 - length x) 0)\<rparr>"

lemma demo_sane: "cipher_sane (demo_cipher enc)"
  by (auto simp: cipher_sane_def cipher_bounded_def demo_cipher_def Let_def split: if_splits prod.splits)

lemma demo_aead_key: "aead_key (demo_key enc) (demo_cipher enc)"
  using demo_sane by (simp add: aead_key_def demo_key_def) (simp add: demo_cipher_def)

lemma demo_correct: "lib_correct (demo_cipher True) (demo_cipher False)"
  by (auto simp: lib_correct_def demo_cipher_def seal_def unseal_def Let_def comp_def xor.assoc)

lemma demo_pair: "aead_pair (co_encrypt demo_opt) (co_decrypt demo_opt) (demo_cipher True) (demo_cipher False)"
  using demo_aead_key demo_correct
  by (simp add: aead_pair_def co_encrypt_def co_decrypt_def demo_opt_def) (simp add: demo_key_def demo_cipher_def)

lemma demo_recv: "recv_sane demo_opt"
proof -
  have "cipher_sane (demo_cipher False)" by (rule demo_sane)
  moreover have "seq_inv (pid_rec demo_pid)" by (simp add: seq_inv_def demo_pid_def packet_id_zero_def)
  ultimately show ?thesis
    by (simp add: recv_sane_def key_sane_def pid_sane_def co_decrypt_def demo_opt_def demo_key_def) (simp add: demo_cipher_def)
qed

lemma demo_buf_wf: "length x \<le> 90 \<Longrightarrow> buf_wf (demo_buf x)"
  by (simp add: demo_buf_def buf_wf_def BUF_SIZE_MAX_def)

lemma demo_work: "work_sane demo_frame (demo_buf x)" if "length x \<le> 90"
proof -
  have "FRAME_HEADROOM_ADJ demo_frame FRAME_HEADROOM_MARKER_DECRYPT = 4" by code_simp
  then show ?thesis using demo_buf_wf[OF that] by (simp add: work_sane_def demo_buf_def)
qed

theorem data_channel_aead_roundtrip_witness:
  "\<exists>acc pid' pp' w r'.
      crypto_check_replay 100 (co_long_form demo_opt) (co_packet_id demo_opt) (co_pid_persist demo_opt) \<lparr>pin_id = 1, pin_time = 0\<rparr>
        = Inr (acc, pid', pp')
    \<and> send_data 50 100 (\<lambda>_. 0) (demo_buf [1, 2, 3]) (demo_buf [48, 0, 0, 1]) demo_opt (demo_buf []) (demo_buf []) demo_opt demo_frame
        = Inr (acc, w, Some r')
    \<and> buf_content w = (if acc then buf_content (demo_buf [1, 2, 3]) else [])"
proof -
  have hr: "FRAME_HEADROOM_ADJ demo_frame FRAME_HEADROOM_MARKER_DECRYPT = 4" by code_simp
  have id: "packet_id_send_update 50 (pid_send (co_packet_id demo_opt)) False = (True, \<lparr>ps_id = 1, ps_time = 50\<rparr>)"
    by (simp add: demo_opt_def demo_pid_def packet_id_zero_def packet_id_send_update_def PACKET_ID_MAX_def)
  have ini: "packet_id_initialized (co_packet_id demo_opt)" by (simp add: demo_opt_def demo_pid_def packet_id_initialized_def)
  have bs: "ck_block_size (cc_kt (demo_cipher True)) = 16" by (simp add: demo_cipher_def)
  have wf: "buf_wf (demo_buf [1, 2, 3])" "buf_wf (demo_buf [48, 0, 0, 1])" "buf_wf (demo_buf [])" "work_sane demo_frame (demo_buf [])"
    by (simp_all add: demo_buf_wf demo_work)
  have len: "0 < b_len (demo_buf [1, 2, 3])" "b_len (demo_buf []) = 0" "(1::int) < 100"
    "20 + b_len (demo_buf [1, 2, 3]) + ck_block_size (cc_kt (demo_cipher True)) \<le> buf_room (demo_buf [48, 0, 0, 1])"
    "b_len (demo_buf [48, 0, 0, 1]) + 20 + b_len (demo_buf [1, 2, 3]) + ck_block_size (cc_kt (demo_cipher True)) \<le> buf_room (demo_buf [])"
    "b_len (demo_buf [1, 2, 3]) + 2 * ck_block_size (cc_kt (demo_cipher True))
      \<le> b_capacity (demo_buf []) - FRAME_HEADROOM_ADJ demo_frame FRAME_HEADROOM_MARKER_DECRYPT"
    unfolding bs hr by (simp_all add: demo_buf_def)
  show ?thesis
    using data_channel_aead_roundtrip[OF demo_pair ini id wf(1) len(1) wf(2) len(4) demo_recv wf(3) len(2) len(5) wf(4) len(3) len(6)]
    unfolding packet_id_send.select_convs .
qed

section \<open>Safety\<close>

text \<open>
  C5. No received packet can make \<open>openvpn_decrypt\<close> read or write outside a buffer or fail an assertion,
  whatever its bytes and length, in any cipher mode, as long as the cipher library keeps its documented
  output bounds. A rejected packet is emptied, and the receiver is fit for the next one.
\<close>

theorem openvpn_decrypt_safe:
  assumes "recv_sane opt" "buf_wf buf" "work_sane fr work" "1 < now" "0 \<le> ad_start" "ad_start \<le> b_offset buf"
  shows "\<exists>ok b opt'. openvpn_decrypt now buf work (Some opt) fr ad_start = Inr (ok, b, Some opt')
    \<and> buf_wf b \<and> (\<not> ok \<longrightarrow> b_len b = 0) \<and> recv_sane opt'"
proof (cases "b_len buf > 0")
  case False
  then have "openvpn_decrypt now buf work (Some opt) fr ad_start = Inr (True, buf, Some opt)" by (simp add: openvpn_decrypt_def)
  then show ?thesis using assms(1,2) by blast
next
  case True
  have "step_sane (if cipher_kt_mode_aead (cipher_ctx_get_cipher_kt (kc_cipher (co_decrypt opt)))
    then openvpn_decrypt_aead now buf work opt fr ad_start else openvpn_decrypt_v1 now buf work opt fr)"
    using openvpn_decrypt_aead_sane[OF assms(1,2) True assms(3,4) _ _ assms(5,6)] openvpn_decrypt_v1_sane[OF assms(1-4)]
    by (cases "kc_cipher (co_decrypt opt)") (simp_all add: cipher_kt_mode_aead_def cipher_ctx_get_cipher_kt_def)
  then show ?thesis using True by (auto simp: openvpn_decrypt_def step_sane_def)
qed

theorem openvpn_decrypt_safe_witness:
  "\<exists>ok b opt'. openvpn_decrypt 100 (demo_buf [255, 1, 2]) (demo_buf []) (Some demo_opt) demo_frame 8 = Inr (ok, b, Some opt')
    \<and> buf_wf b \<and> b_len b = (if ok then b_len b else 0)"
proof -
  have "buf_wf (demo_buf [255, 1, 2])" "work_sane demo_frame (demo_buf [])" by (simp_all add: demo_buf_wf demo_work)
  moreover have "(8::int) \<le> b_offset (demo_buf [255, 1, 2])" by (simp add: demo_buf_def)
  ultimately show ?thesis using openvpn_decrypt_safe[OF demo_recv, of "demo_buf [255, 1, 2]" demo_frame "demo_buf []" 100 8] by fastforce
qed

section \<open>Authenticity\<close>

text \<open>What it takes for a packet to be authentic: the tag of an AEAD cipher, or the HMAC if there is one.\<close>

definition authentic :: "'s crypto_options \<Rightarrow> buffer \<Rightarrow> int \<Rightarrow> buffer \<Rightarrow> bool" where
  "authentic opt buf ad_start out \<longleftrightarrow>
     (let k = co_decrypt opt; x = buf_content buf in
      case kc_cipher k of
        Some c \<Rightarrow>
          if ck_aead (cc_kt c)
          then unseal (c\<lparr>cc_state := snd (cc_reset c (cc_state c) (packet_iv k c x))\<rparr>)
                 (segment (the (b_data buf)) (nat ad_start) (nat (b_offset buf - ad_start)) @ take 4 x)
                 (drop 20 x) (take 16 (drop 4 x)) = Some (buf_content out)
          else (\<forall>hm. kc_hmac k = Some hm \<longrightarrow> (\<exists>m. x = hm_mac hm m @ m))
      | None \<Rightarrow> (\<forall>hm. kc_hmac k = Some hm \<longrightarrow> (\<exists>m. x = hm_mac hm m @ m)))"

lemma openvpn_decrypt_v1_authentic:
  assumes "recv_sane opt" "buf_wf buf" "0 < b_len buf" "openvpn_decrypt_v1 now buf work opt fr = Inr (True, w, opt')"
    and "kc_hmac (co_decrypt opt) = Some hm"
  shows "\<exists>m. buf_content buf = hm_mac hm m @ m"
proof -
  have "\<forall>hm. kc_hmac (co_decrypt opt) = Some hm \<longrightarrow> hmac_sane hm" using assms(1) by (simp add: recv_sane_def key_sane_def)
  from verify_v1_ok[OF assms(2) this] show ?thesis
    using assms(3-5) by (auto simp: openvpn_decrypt_v1_def Let_def crypt_error_def)
qed

lemma openvpn_decrypt_aead_authentic:
  assumes "recv_sane opt" "buf_wf buf" "0 < b_len buf" "work_sane fr work" "0 \<le> ad_start" "ad_start \<le> b_offset buf"
    and "kc_cipher (co_decrypt opt) = Some c" "ck_aead (cc_kt c)"
    and "openvpn_decrypt_aead now buf work opt fr ad_start = Inr (True, w, opt')"
  shows "authentic opt buf ad_start w"
proof -
  let ?r = "openvpn_decrypt_aead now buf work opt fr ad_start"
  obtain d where d: "b_data buf = Some d" using assms(2) by (rule buf_wfE)
  have ks: "key_sane (co_decrypt opt)" "packet_id_initialized (co_packet_id opt)"
    using assms(1) pid_sane_initialized by (auto simp: recv_sane_def)
  have wk: "buf_wf work" "0 \<le> FRAME_HEADROOM_ADJ fr FRAME_HEADROOM_MARKER_DECRYPT"
    "FRAME_HEADROOM_ADJ fr FRAME_HEADROOM_MARKER_DECRYPT \<le> b_capacity work" using assms(4) by (simp_all add: work_sane_def)
  have "\<not> rejected ?r opt c" using assms(9) by (simp add: rejected_def)
  with openvpn_decrypt_aead_outcome[OF ks(1) assms(7,8) ks(2) assms(2,3) d assms(5,6) wk, of now]
  obtain w' pin where w': "checked ?r now pin w' opt c"
    "unseal (c\<lparr>cc_state := snd (cc_reset c (cc_state c) (packet_iv (co_decrypt opt) c (buf_content buf)))\<rparr>)
       (segment d (nat ad_start) (nat (b_offset buf - ad_start)) @ take 4 (buf_content buf)) (drop 20 (buf_content buf))
       (take 16 (drop 4 (buf_content buf))) = Some (buf_content w')" by blast
  from w'(1) obtain b opt2 where "bindE (check_replay now opt2 pin) (\<lambda>(ok, opt). if ok then Inr (True, w', opt) else crypt_error b opt)
    = Inr (True, w, opt')" using assms(9) by (auto simp: checked_def)
  then have "w' = w" by (auto simp: bindE_eq_Inr crypt_error_def split: if_splits)
  then show ?thesis using w'(2) assms(7,8) d by (simp add: authentic_def Let_def)
qed


definition demo_packet :: "byte list" where
  "demo_packet = be32 1 @ replicate 16 (174 :: byte) @ [56, 59, 58]"

lemma demo_accepts:
  "\<exists>w o'. openvpn_decrypt 100 (demo_buf demo_packet) (demo_buf []) (Some demo_opt) demo_frame 6 = Inr (True, w, o')"
proof -
  have "case openvpn_decrypt 100 (demo_buf demo_packet) (demo_buf []) (Some demo_opt) demo_frame 6 of
      Inl _ \<Rightarrow> False | Inr (ok, w, _) \<Rightarrow> ok" by code_simp
  then show ?thesis by (auto split: sum.splits)
qed


section \<open>Replay protection\<close>

text \<open>A step of the receiver: the identifier of the packet when it was accepted.\<close>

definition aead_step :: "frame \<Rightarrow> 's crypto_options \<Rightarrow> int \<times> buffer \<times> buffer \<times> int \<Rightarrow> (u32 option \<times> 's crypto_options) res" where
  "aead_step fr opt e = (case e of (now, buf, work, ad_start) \<Rightarrow>
     bindE (openvpn_decrypt now buf work (Some opt) fr ad_start) (\<lambda>(ok, _, opt').
       case opt' of None \<Rightarrow> Inl Mem_Fault
       | Some opt' \<Rightarrow> Inr (if ok then Some (of_be32 (take 4 (buf_content buf))) else None, opt')))"

definition aead_recv :: "'s crypto_options \<Rightarrow> bool" where
  "aead_recv opt \<longleftrightarrow> recv_sane opt \<and> (\<exists>c. kc_cipher (co_decrypt opt) = Some c \<and> ck_aead (cc_kt c))"

definition packet_event :: "frame \<Rightarrow> int \<times> buffer \<times> buffer \<times> int \<Rightarrow> bool" where
  "packet_event fr e \<longleftrightarrow> (case e of (now, buf, work, ad_start) \<Rightarrow>
     1 < now \<and> buf_wf buf \<and> 0 < b_len buf \<and> work_sane fr work \<and> 0 \<le> ad_start \<and> ad_start \<le> b_offset buf)"

lemma same_but_state_fields:
  assumes "same_but_state opt opt' c" "kc_cipher (co_decrypt opt) = Some c" "ck_aead (cc_kt c)"
  shows "co_packet_id opt' = co_packet_id opt" "\<exists>c'. kc_cipher (co_decrypt opt') = Some c' \<and> ck_aead (cc_kt c')"
  using assms by (auto simp: same_but_state_def set_decrypt_def co_decrypt_def)

lemma aead_step_ok:
  assumes "aead_recv opt" "packet_event fr e"
  shows "\<exists>r opt'. aead_step fr opt e = Inr (r, opt') \<and> aead_recv opt'
    \<and> (\<forall>y. pid_blocked (co_packet_id opt) (0, y) \<longrightarrow> pid_blocked (co_packet_id opt') (0, y))
    \<and> (\<forall>x. r = Some x \<longrightarrow> \<not> pid_blocked (co_packet_id opt) (0, x) \<and> pid_blocked (co_packet_id opt') (0, x))"
proof -
  obtain now buf work ad_start where e: "e = (now, buf, work, ad_start)" by (cases e)
  then have ev: "1 < now" "buf_wf buf" "0 < b_len buf" "work_sane fr work" "0 \<le> ad_start" "ad_start \<le> b_offset buf"
    using assms(2) by (simp_all add: packet_event_def)
  obtain c where c: "kc_cipher (co_decrypt opt) = Some c" "ck_aead (cc_kt c)" and rs: "recv_sane opt"
    using assms(1) by (auto simp: aead_recv_def)
  let ?r = "openvpn_decrypt_aead now buf work opt fr ad_start" and ?x = "of_be32 (take 4 (buf_content buf))"
  obtain d where d: "b_data buf = Some d" using ev(2) by (rule buf_wfE)
  have ks: "key_sane (co_decrypt opt)" "packet_id_initialized (co_packet_id opt)"
    using rs pid_sane_initialized by (auto simp: recv_sane_def)
  have wk: "buf_wf work" "0 \<le> FRAME_HEADROOM_ADJ fr FRAME_HEADROOM_MARKER_DECRYPT"
    "FRAME_HEADROOM_ADJ fr FRAME_HEADROOM_MARKER_DECRYPT \<le> b_capacity work" using ev(4) by (simp_all add: work_sane_def)
  have st: "aead_step fr opt e = bindE ?r (\<lambda>(ok, _, opt'). Inr (if ok then Some ?x else None, opt'))"
  proof -
    have "openvpn_decrypt now buf work (Some opt) fr ad_start = bindE ?r (\<lambda>(ok, buf, opt). Inr (ok, buf, Some opt))"
      using ev(3) c by (simp add: openvpn_decrypt_def cipher_kt_mode_aead_def cipher_ctx_get_cipher_kt_def)
    then show ?thesis unfolding e by (cases ?r) (simp_all add: aead_step_def split: prod.split)
  qed
  from openvpn_decrypt_aead_outcome[OF ks(1) c ks(2) ev(2,3) d ev(5,6) wk, of now]
  have "rejected ?r opt c \<or> (\<exists>w. checked ?r now \<lparr>pin_id = ?x, pin_time = 0\<rparr> w opt c)" by blast
  then show ?thesis
  proof (elim disjE exE)
    assume "rejected ?r opt c"
    then obtain b opt' where r: "?r = Inr (False, b, opt')" and same: "same_but_state opt opt' c" unfolding rejected_def by blast
    have "aead_recv opt'"
      unfolding aead_recv_def using same_but_state_fields(2)[OF same c] recv_sane_same[OF rs c(1) same] by blast
    moreover have "aead_step fr opt e = Inr (None, opt')" unfolding st r by simp
    ultimately show ?thesis unfolding same_but_state_fields(1)[OF same c, symmetric] by blast
  next
    fix w assume "checked ?r now \<lparr>pin_id = ?x, pin_time = 0\<rparr> w opt c"
    then obtain b opt' where r: "?r = finish_v1 now b (Some \<lparr>pin_id = ?x, pin_time = 0\<rparr>) w opt'" "same_but_state opt opt' c"
      unfolding checked_def finish_v1_def option.case by blast
    have o: "recv_sane opt'" "co_packet_id opt' = co_packet_id opt" "\<exists>c'. kc_cipher (co_decrypt opt') = Some c' \<and> ck_aead (cc_kt c')"
      using recv_sane_same[OF rs c(1) r(2)] same_but_state_fields[OF r(2) c] by auto
    obtain ok pid' pp' where k: "check_replay now opt' \<lparr>pin_id = ?x, pin_time = 0\<rparr> = Inr (ok, opt'\<lparr>co_packet_id := pid', co_pid_persist := pp'\<rparr>)"
      "pid_sane pid'" "\<forall>y. pid_blocked (co_packet_id opt) y \<longrightarrow> pid_blocked pid' y"
      "ok \<longrightarrow> \<not> pid_blocked (co_packet_id opt) (0, ?x) \<and> pid_blocked pid' (0, ?x)"
      using check_replay_ok[of opt' now "\<lparr>pin_id = ?x, pin_time = 0\<rparr>"] o(1,2) ev(1) by (auto simp: recv_sane_def)
    let ?o = "opt'\<lparr>co_packet_id := pid', co_pid_persist := pp'\<rparr>"
    have "aead_step fr opt e = Inr (if ok then Some ?x else None, ?o)"
      unfolding st r(1) by (simp add: finish_v1_def k(1) crypt_error_def)
    moreover have "aead_recv ?o" using recv_sane_pid[OF o(1) k(2)] o(3) by (simp add: aead_recv_def co_decrypt_def)
    ultimately show ?thesis using k(3,4) by auto
  qed
qed

interpretation dc: replay_filter aead_recv "packet_event fr" "\<lambda>opt y. pid_blocked (co_packet_id opt) (0, y)" "aead_step fr" for fr
  by unfold_locales (rule aead_step_ok)

text \<open>
  C7. Over any sequence of packets of any content, received at any times, an AEAD receiver never faults and
  never accepts two packets with the same packet identifier.
\<close>

theorem data_channel_no_replay:
  assumes "recv_sane opt" "kc_cipher (co_decrypt opt) = Some c" "ck_aead (cc_kt c)" "list_all (packet_event fr) es"
  shows "\<exists>xs opt'. filter_run (aead_step fr) opt es = Inr (xs, opt') \<and> distinct xs"
proof -
  have "aead_recv opt" using assms(1-3) by (simp add: aead_recv_def)
  from dc.run_no_replay[OF this assms(4)] show ?thesis by blast
qed

theorem data_channel_no_replay_witness:
  "\<exists>xs opt'. filter_run (aead_step demo_frame) demo_opt
      [(100, demo_buf demo_packet, demo_buf [], 6), (101, demo_buf demo_packet, demo_buf [], 6)] = Inr (xs, opt') \<and> distinct xs"
proof (rule data_channel_no_replay[OF demo_recv])
  show "kc_cipher (co_decrypt demo_opt) = Some (demo_cipher False)" "ck_aead (cc_kt (demo_cipher False))"
    by (simp_all add: co_decrypt_def demo_opt_def demo_key_def) (simp add: demo_cipher_def)
  have "length demo_packet = 23" by (simp add: demo_packet_def)
  then show "list_all (packet_event demo_frame)
      [(100, demo_buf demo_packet, demo_buf [], 6), (101, demo_buf demo_packet, demo_buf [], 6)]"
    using demo_buf_wf[of demo_packet] demo_work[of "[]"] by (simp add: packet_event_def) (simp add: demo_buf_def)
qed

end
