(* ===== verification/Tls_Crypt.thy ===== *)
theory Tls_Crypt
  imports Crypto Session_Id
begin

text \<open>
  Wrapping of control channel packets: \<open>tls_crypt.c\<close> with the client keys of its second version, and the
  parts of \<open>write_control_auth\<close> and \<open>read_control_auth\<close> (\<open>ssl.c\<close>) that choose between no wrapping, \<open>--tls-auth\<close> and
  \<open>--tls-crypt\<close>. The cipher library is the parameter of \<open>Crypto\<close>; setting up keys from 256 bytes of key material and the
  verification script are arguments.
\<close>

section \<open>Constants and the wrapping context\<close>

definition TLS_CRYPT_TAG_SIZE :: int where "TLS_CRYPT_TAG_SIZE = 256 div 8"
definition TLS_CRYPT_PID_SIZE :: int where "TLS_CRYPT_PID_SIZE = 4 + 4"
definition TLS_CRYPT_BLOCK_SIZE :: int where "TLS_CRYPT_BLOCK_SIZE = 128 div 8"
definition TLS_CRYPT_OFF_PID :: int where "TLS_CRYPT_OFF_PID = 1 + int SID_SIZE"
definition TLS_CRYPT_OFF_TAG :: int where "TLS_CRYPT_OFF_TAG = TLS_CRYPT_OFF_PID + TLS_CRYPT_PID_SIZE"
definition TLS_CRYPT_OFF_CT :: int where "TLS_CRYPT_OFF_CT = TLS_CRYPT_OFF_TAG + TLS_CRYPT_TAG_SIZE"
definition TLS_CRYPT_V2_MAX_WKC_LEN :: int where "TLS_CRYPT_V2_MAX_WKC_LEN = 1024"
definition TLS_CRYPT_V2_CLIENT_KEY_LEN :: int where "TLS_CRYPT_V2_CLIENT_KEY_LEN = 2048 div 8"
definition TLS_CRYPT_V2_TAG_SIZE :: int where "TLS_CRYPT_V2_TAG_SIZE = TLS_CRYPT_TAG_SIZE"
definition TLS_CRYPT_V2_MAX_METADATA_LEN :: int where
  "TLS_CRYPT_V2_MAX_METADATA_LEN = TLS_CRYPT_V2_MAX_WKC_LEN - (TLS_CRYPT_V2_CLIENT_KEY_LEN + TLS_CRYPT_V2_TAG_SIZE + 2)"
definition P_OPCODE_SHIFT :: nat where "P_OPCODE_SHIFT = 3"
definition P_CONTROL_HARD_RESET_CLIENT_V3 :: byte where "P_CONTROL_HARD_RESET_CLIENT_V3 = 10"
definition SWAP_BUF_SIZE :: int where "SWAP_BUF_SIZE = 256"

lemmas tls_crypt_sizes = TLS_CRYPT_TAG_SIZE_def TLS_CRYPT_PID_SIZE_def TLS_CRYPT_BLOCK_SIZE_def TLS_CRYPT_OFF_PID_def
  TLS_CRYPT_OFF_TAG_def TLS_CRYPT_OFF_CT_def TLS_CRYPT_V2_MAX_WKC_LEN_def TLS_CRYPT_V2_CLIENT_KEY_LEN_def
  TLS_CRYPT_V2_TAG_SIZE_def TLS_CRYPT_V2_MAX_METADATA_LEN_def SID_SIZE_def

datatype tls_wrap_mode = TLS_WRAP_NONE | TLS_WRAP_AUTH | TLS_WRAP_CRYPT

record 's tls_wrap_ctx =
  tw_mode :: tls_wrap_mode
  tw_opt :: "'s crypto_options"
  tw_work :: buffer
  tw_tls_crypt_v2_server_key :: "'s key_ctx"
  tw_tls_crypt_v2_wkc :: "buffer option"
  tw_tls_crypt_v2_metadata :: buffer
  tw_cleanup_key_ctx :: bool

definition tls_crypt_buf_overhead :: int where
  "tls_crypt_buf_overhead = packet_id_size True + TLS_CRYPT_TAG_SIZE + TLS_CRYPT_BLOCK_SIZE"

definition tls_crypt_adjust_frame_parameters :: "frame \<Rightarrow> frame" where
  "tls_crypt_adjust_frame_parameters f = frame_add_to_extra_frame f (word_of_int tls_crypt_buf_overhead)"

section \<open>Wrapping and unwrapping\<close>

text \<open>The tag over header and plain text serves as the IV; what the final call writes goes to the front of the packet.\<close>

definition tls_crypt_seal :: "'s cipher_ctx \<Rightarrow> hmac_ctx \<Rightarrow> buffer \<Rightarrow> buffer \<Rightarrow> (buffer \<times> 's cipher_ctx) res" where
  "tls_crypt_seal c hm src dst =
     bindE (buf_bytes dst) (\<lambda>ad.
     bindE (buf_bytes src) (\<lambda>plain.
     case buf_write_alloc dst TLS_CRYPT_TAG_SIZE of (None, _) \<Rightarrow> Inl Assert_Failed | (Some tag, dst) \<Rightarrow>
     bindE (buf_poke dst tag (hm_mac hm (ad @ plain))) (\<lambda>dst.
     bindE (buf_peek dst tag (cipher_ctx_iv_length c)) (\<lambda>iv.
     case cipher_ctx_reset c iv of (ok, c) \<Rightarrow> bindE (assertE ok) (\<lambda>_.
     case cipher_ctx_update c plain of (None, _) \<Rightarrow> Inl Assert_Failed | (Some out, c) \<Rightarrow>
     bindE (put_output dst (bend dst) out) (\<lambda>dst.
     case cipher_ctx_final c of (None, _) \<Rightarrow> Inl Assert_Failed | (Some out, c) \<Rightarrow>
     bindE (put_output dst (b_offset dst) out) (\<lambda>dst. Inr (dst, c))))))))"

definition tls_crypt_wrap :: "int \<Rightarrow> buffer \<Rightarrow> buffer \<Rightarrow> 's crypto_options \<Rightarrow> (bool \<times> buffer \<times> 's crypto_options) res" where
  "tls_crypt_wrap now src dst opt =
     (let ctx = co_encrypt opt in
      case kc_cipher ctx of None \<Rightarrow> Inl Assert_Failed | Some c \<Rightarrow>
      case kc_hmac ctx of None \<Rightarrow> Inl Assert_Failed | Some hm \<Rightarrow>
      bindE (assertE (packet_id_initialized (co_packet_id opt))) (\<lambda>_.
      bindE (assertE (hm_size hm = 256 div 8)) (\<lambda>_.
      bindE (packet_id_write now (pid_send (co_packet_id opt)) dst True False) (\<lambda>(ok, ps, dst).
      let opt = set_pid_send opt ps in
      if \<not> ok then crypt_error dst opt
      else if \<not> buf_safe dst (buf_len src + TLS_CRYPT_BLOCK_SIZE + TLS_CRYPT_TAG_SIZE) then crypt_error dst opt
      else bindE (tls_crypt_seal c hm src dst) (\<lambda>(dst, c). Inr (True, dst, set_encrypt opt c))))))"

text \<open>Decryption; \<open>None\<close> for an error.\<close>

definition tls_crypt_open :: "'s cipher_ctx \<Rightarrow> buffer \<Rightarrow> buffer \<Rightarrow> (buffer option \<times> 's cipher_ctx) res" where
  "tls_crypt_open c src dst =
     (if \<not> buf_safe dst (buf_len src - TLS_CRYPT_OFF_CT + TLS_CRYPT_BLOCK_SIZE) then Inr (None, c)
      else
        bindE (buf_peek src (b_offset src + TLS_CRYPT_OFF_TAG) (cipher_ctx_iv_length c)) (\<lambda>iv.
        case cipher_ctx_reset c iv of (ok, c) \<Rightarrow>
        if \<not> ok then Inr (None, c)
        else
          bindE (buf_peek src (b_offset src + TLS_CRYPT_OFF_CT) (buf_len src - TLS_CRYPT_OFF_CT)) (\<lambda>ct.
          case cipher_ctx_update c ct of (None, c) \<Rightarrow> Inr (None, c) | (Some out, c) \<Rightarrow>
          bindE (put_output dst (b_offset dst) out) (\<lambda>dst.
          case cipher_ctx_final c of (None, c) \<Rightarrow> Inr (None, c) | (Some out, c) \<Rightarrow>
          bindE (put_output dst (b_offset dst) out) (\<lambda>dst. Inr (Some dst, c))))))"

definition tls_crypt_verify :: "hmac_ctx option \<Rightarrow> buffer \<Rightarrow> buffer \<Rightarrow> bool res" where
  "tls_crypt_verify hmac src dst =
     (case hmac of None \<Rightarrow> Inl Mem_Fault | Some hm \<Rightarrow>
      bindE (buf_peek src (b_offset src + TLS_CRYPT_OFF_TAG) TLS_CRYPT_TAG_SIZE) (\<lambda>tag.
      bindE (buf_peek src (b_offset src) TLS_CRYPT_OFF_TAG) (\<lambda>ad.
      bindE (buf_bytes dst) (\<lambda>plain.
      bindE (mem_write (replicate (nat TLS_CRYPT_TAG_SIZE) 0) 0 (hm_mac hm (ad @ plain))) (\<lambda>tag_check.
      Inr (tag = tag_check))))))"

definition tls_crypt_replay :: "int \<Rightarrow> buffer \<Rightarrow> 's crypto_options \<Rightarrow> (bool \<times> 's crypto_options) res" where
  "tls_crypt_replay now src opt =
     (if co_flags opt AND CO_IGNORE_PACKET_ID \<noteq> 0 then Inr (True, opt)
      else
        case buf_advance src TLS_CRYPT_OFF_PID of (ok, tmp) \<Rightarrow> bindE (assertE ok) (\<lambda>_.
        bindE (packet_id_read tmp True) (\<lambda>(ok, pin, _). bindE (assertE ok) (\<lambda>_. check_replay now opt pin))))"

definition tls_crypt_unwrap :: "int \<Rightarrow> buffer \<Rightarrow> buffer \<Rightarrow> 's crypto_options \<Rightarrow> (bool \<times> buffer \<times> 's crypto_options) res" where
  "tls_crypt_unwrap now src dst opt =
     (let ctx = co_decrypt opt in
      bindE (assertE (b_len src > 0)) (\<lambda>_.
      case kc_cipher ctx of None \<Rightarrow> Inl Assert_Failed | Some c \<Rightarrow>
      bindE (assertE (packet_id_initialized (co_packet_id opt) \<or> co_flags opt AND CO_IGNORE_PACKET_ID \<noteq> 0)) (\<lambda>_.
      if buf_len src < TLS_CRYPT_OFF_CT then crypt_error dst opt
      else
        bindE (tls_crypt_open c src dst) (\<lambda>(r, c).
        let opt = set_decrypt opt c in
        case r of None \<Rightarrow> crypt_error dst opt | Some dst \<Rightarrow>
        bindE (tls_crypt_verify (kc_hmac ctx) src dst) (\<lambda>same.
        if \<not> same then crypt_error dst opt
        else bindE (tls_crypt_replay now src opt) (\<lambda>(ok, opt). if ok then Inr (True, dst, opt) else crypt_error dst opt))))))"

section \<open>Client keys\<close>

text \<open>A client key is 256 bytes of key material; it travels encrypted under the key of the server, with metadata.\<close>

definition tls_crypt_v2_wrap_client_key :: "buffer \<Rightarrow> byte list \<Rightarrow> buffer \<Rightarrow> 's key_ctx \<Rightarrow> (bool \<times> buffer \<times> 's key_ctx) res" where
  "tls_crypt_v2_wrap_client_key wkc keys src_metadata server_key =
     (case kc_cipher server_key of None \<Rightarrow> Inl Mem_Fault | Some c \<Rightarrow>
      bindE (alloc_buf (TLS_CRYPT_V2_MAX_WKC_LEN + cipher_ctx_block_size c)) (\<lambda>work.
      case buf_write_alloc work TLS_CRYPT_TAG_SIZE of (None, _) \<Rightarrow> Inr (False, wkc, server_key) | (Some tag, work) \<Rightarrow>
      let net_len = be16 (word_of_int (int (length keys) + buf_len src_metadata + TLS_CRYPT_V2_TAG_SIZE + 2)) in
      case kc_hmac server_key of None \<Rightarrow> Inl Mem_Fault | Some hm \<Rightarrow>
      bindE (buf_bytes src_metadata) (\<lambda>meta.
      bindE (buf_poke work tag (hm_mac hm (net_len @ keys @ meta))) (\<lambda>work.
      bindE (buf_peek work tag (cipher_ctx_iv_length c)) (\<lambda>iv.
      case cipher_ctx_reset c iv of (ok, c) \<Rightarrow> bindE (assertE ok) (\<lambda>_.
      let key = server_key\<lparr>kc_cipher := Some c\<rparr> in
      if buf_forward_capacity work < int (length keys) + buf_len src_metadata + 2 + cipher_ctx_block_size c
      then Inr (False, wkc, key)
      else
        case cipher_ctx_update c keys of (None, _) \<Rightarrow> Inl Assert_Failed | (Some out, c) \<Rightarrow>
        bindE (put_output work (bend work) out) (\<lambda>work.
        case cipher_ctx_update c meta of (None, _) \<Rightarrow> Inl Assert_Failed | (Some out, c) \<Rightarrow>
        bindE (put_output work (bend work) out) (\<lambda>work.
        case cipher_ctx_final c of (None, _) \<Rightarrow> Inl Assert_Failed | (Some out, c) \<Rightarrow>
        bindE (put_output work (bend work) out) (\<lambda>work.
        bindE (buf_write work net_len) (\<lambda>(ok, work). bindE (assertE ok) (\<lambda>_.
        bindE (buf_copy wkc work) (\<lambda>(ok, wkc). Inr (ok, wkc, server_key\<lparr>kc_cipher := Some c\<rparr>)))))))))))))"

text \<open>The plain text of a wrapped key behind its tag, in a buffer of the maximal size; \<open>None\<close> for an error.\<close>

definition wkc_open :: "'s cipher_ctx \<Rightarrow> buffer \<Rightarrow> int \<Rightarrow> (buffer option \<times> 's cipher_ctx) res" where
  "wkc_open c wkc tag =
     bindE (buf_peek wkc tag (cipher_ctx_iv_length c)) (\<lambda>iv.
     case cipher_ctx_reset c iv of (ok, c) \<Rightarrow>
     if \<not> ok then Inr (None, c)
     else
       bindE (buf_set_write (Some (replicate (nat TLS_CRYPT_V2_MAX_WKC_LEN) 0)) TLS_CRYPT_V2_MAX_WKC_LEN) (\<lambda>plaintext.
       bindE (buf_bytes wkc) (\<lambda>ct.
       case cipher_ctx_update c ct of (None, c) \<Rightarrow> Inr (None, c) | (Some out, c) \<Rightarrow>
       bindE (put_output plaintext (b_offset plaintext) out) (\<lambda>plaintext.
       case cipher_ctx_final c of (None, c) \<Rightarrow> Inr (None, c) | (Some out, c) \<Rightarrow>
       bindE (put_output plaintext (bend plaintext) out) (\<lambda>plaintext. Inr (Some plaintext, c))))))"

definition wkc_verify :: "hmac_ctx option \<Rightarrow> buffer \<Rightarrow> int \<Rightarrow> byte list \<Rightarrow> buffer \<Rightarrow> bool res" where
  "wkc_verify hmac wkc tag net_len plaintext =
     (case hmac of None \<Rightarrow> Inl Mem_Fault | Some hm \<Rightarrow>
      bindE (buf_bytes plaintext) (\<lambda>plain.
      bindE (mem_write (replicate (nat TLS_CRYPT_TAG_SIZE) 0) 0 (hm_mac hm (net_len @ plain))) (\<lambda>tag_check.
      bindE (buf_peek wkc tag TLS_CRYPT_TAG_SIZE) (\<lambda>t. Inr (t = tag_check)))))"

definition wkc_take :: "buffer \<Rightarrow> buffer \<Rightarrow> (byte list option \<times> buffer) res" where
  "wkc_take metadata plaintext =
     (if buf_len plaintext < TLS_CRYPT_V2_CLIENT_KEY_LEN then Inr (None, metadata)
      else
        bindE (buf_peek plaintext (b_offset plaintext) TLS_CRYPT_V2_CLIENT_KEY_LEN) (\<lambda>keys.
        case buf_advance plaintext TLS_CRYPT_V2_CLIENT_KEY_LEN of (ok, plaintext) \<Rightarrow> bindE (assertE ok) (\<lambda>_.
        bindE (buf_copy metadata plaintext) (\<lambda>(ok, metadata). Inr (if ok then Some keys else None, metadata)))))"

definition tls_crypt_v2_unwrap_client_key :: "buffer \<Rightarrow> buffer \<Rightarrow> 's key_ctx \<Rightarrow> (byte list option \<times> buffer \<times> 's key_ctx) res" where
  "tls_crypt_v2_unwrap_client_key metadata wkc server_key =
     (let err = (\<lambda>key. Inr (None, metadata, key)); tag = b_offset wkc in
      if TLS_CRYPT_V2_MAX_WKC_LEN < buf_len wkc then err server_key
      else if buf_len wkc < 2 then err server_key
      else
        bindE (buf_peek wkc (bend wkc - 2) 2) (\<lambda>net_len.
        if uint (of_be16 net_len) \<noteq> buf_len wkc then err server_key
        else
          case buf_inc_len wkc (-2) of (_, wkc) \<Rightarrow>
          case buf_advance wkc TLS_CRYPT_TAG_SIZE of (ok, wkc) \<Rightarrow>
          if \<not> ok then err server_key
          else
            case kc_cipher server_key of None \<Rightarrow> Inl Mem_Fault | Some c \<Rightarrow>
            bindE (wkc_open c wkc tag) (\<lambda>(r, c).
            let key = server_key\<lparr>kc_cipher := Some c\<rparr> in
            case r of None \<Rightarrow> err key | Some plaintext \<Rightarrow>
            bindE (wkc_verify (kc_hmac key) wkc tag net_len plaintext) (\<lambda>same.
            if \<not> same then err key
            else bindE (wkc_take metadata plaintext) (\<lambda>(keys, metadata). Inr (keys, metadata, key))))))"

text \<open>The script that checks the metadata gets its type and the rest.\<close>

definition tls_crypt_v2_verify_metadata :: "(int \<Rightarrow> byte list \<Rightarrow> bool) \<Rightarrow> buffer \<Rightarrow> bool res" where
  "tls_crypt_v2_verify_metadata script metadata =
     bindE (buf_read_u8 metadata) (\<lambda>(metadata_type, metadata).
     if metadata_type < 0 then Inr False
     else bindE (buf_bytes metadata) (\<lambda>x. Inr (script metadata_type x)))"

definition tls_crypt_v2_extract_client_key ::
  "(byte list \<Rightarrow> bool \<Rightarrow> 's key_ctx_bi) \<Rightarrow> (int \<Rightarrow> byte list \<Rightarrow> bool) option \<Rightarrow> buffer \<Rightarrow> 's tls_wrap_ctx
    \<Rightarrow> (bool \<times> buffer \<times> 's tls_wrap_ctx) res" where
  "tls_crypt_v2_extract_client_key load script buf ctx =
     (if kc_cipher (tw_tls_crypt_v2_server_key ctx) = None then Inr (False, buf, ctx)
      else if buf_len buf < 2 then Inr (False, buf, ctx)
      else
        bindE (buf_peek buf (bend buf - 2) 2) (\<lambda>net_len.
        case buf_advance buf (buf_len buf - uint (of_be16 net_len)) of (ok, wkc) \<Rightarrow>
        if \<not> ok then Inr (False, buf, ctx)
        else
          bindE (alloc_buf TLS_CRYPT_V2_MAX_METADATA_LEN) (\<lambda>metadata.
          bindE (tls_crypt_v2_unwrap_client_key metadata wkc (tw_tls_crypt_v2_server_key ctx)) (\<lambda>(r, metadata, key).
          let ctx = ctx\<lparr>tw_tls_crypt_v2_metadata := metadata, tw_tls_crypt_v2_server_key := key\<rparr> in
          case r of None \<Rightarrow> Inr (False, buf, ctx) | Some keys \<Rightarrow>
          let ctx = ctx\<lparr>tw_mode := TLS_WRAP_CRYPT, tw_cleanup_key_ctx := True,
                tw_opt := (tw_opt ctx)\<lparr>co_flags := co_flags (tw_opt ctx) OR CO_PACKET_ID_LONG_FORM, co_key_ctx_bi := load keys True\<rparr>\<rparr> in
          case buf_inc_len buf (- buf_len wkc) of (ok, buf) \<Rightarrow> bindE (assertE ok) (\<lambda>_.
          case script of None \<Rightarrow> Inr (True, buf, ctx)
          | Some script \<Rightarrow> bindE (tls_crypt_v2_verify_metadata script metadata) (\<lambda>ok. Inr (ok, buf, ctx)))))))"

section \<open>Control packets\<close>

text \<open>The HMAC and the packet identifier of \<open>--tls-auth\<close> change places with opcode and session identifier.\<close>

definition swap_hmac :: "buffer \<Rightarrow> 's crypto_options \<Rightarrow> bool \<Rightarrow> (bool \<times> buffer) res" where
  "swap_hmac buf co incoming =
     (let ctx = (if incoming then co_decrypt co else co_encrypt co) in
      case kc_hmac ctx of None \<Rightarrow> Inl Assert_Failed | Some hm \<Rightarrow>
      let hmac_size = hm_size hm + packet_id_size True; osid_size = 1 + int SID_SIZE; b = b_offset buf;
          e1 = (if incoming then osid_size else hmac_size); e2 = (if incoming then hmac_size else osid_size) in
      bindE (assertE (e1 \<le> SWAP_BUF_SIZE \<and> e2 \<le> SWAP_BUF_SIZE)) (\<lambda>_.
      if b_len buf \<ge> e1 + e2 then
        bindE (buf_peek buf b e1) (\<lambda>buf1. bindE (buf_peek buf (b + e1) e2) (\<lambda>buf2.
        bindE (buf_poke buf b buf2) (\<lambda>buf. bindE (buf_poke buf (b + e2) buf1) (\<lambda>buf. Inr (True, buf)))))
      else Inr (False, buf)))"

text \<open>\<open>write_control_auth\<close> once the acknowledgments are in place; nothing is sent when \<open>None\<close> is returned.\<close>

definition control_wrap :: "int \<Rightarrow> (nat \<Rightarrow> byte) \<Rightarrow> byte \<Rightarrow> byte \<Rightarrow> session_id \<Rightarrow> buffer \<Rightarrow> 's tls_wrap_ctx
    \<Rightarrow> (buffer option \<times> 's tls_wrap_ctx) res" where
  "control_wrap now rnd key_id opcode sid buf ctx =
     (let header = key_id OR push_bit P_OPCODE_SHIFT opcode in
      bindE (if tw_mode ctx = TLS_WRAP_AUTH \<or> tw_mode ctx = TLS_WRAP_NONE then
               bindE (session_id_write_prepend sid buf) (\<lambda>(ok, buf). bindE (assertE ok) (\<lambda>_.
               bindE (buf_write_prepend buf [header]) (\<lambda>(ok, buf). bindE (assertE ok) (\<lambda>_. Inr buf))))
             else Inr buf) (\<lambda>buf.
      if tw_mode ctx = TLS_WRAP_AUTH then
        bindE (openvpn_encrypt now rnd buf clear_buf (Some (tw_opt ctx))) (\<lambda>(buf, opt).
        case opt of None \<Rightarrow> Inl Mem_Fault | Some opt \<Rightarrow>
        bindE (swap_hmac buf opt False) (\<lambda>(ok, buf). bindE (assertE ok) (\<lambda>_. Inr (Some buf, ctx\<lparr>tw_opt := opt\<rparr>))))
      else if tw_mode ctx = TLS_WRAP_CRYPT then
        case buf_init_dowork (tw_work ctx) (b_offset buf) of (ok, work) \<Rightarrow> bindE (assertE ok) (\<lambda>_.
        bindE (buf_write work [header]) (\<lambda>(ok, work). bindE (assertE ok) (\<lambda>_.
        bindE (session_id_write sid work) (\<lambda>(ok, work). bindE (assertE ok) (\<lambda>_.
        bindE (tls_crypt_wrap now buf work (tw_opt ctx)) (\<lambda>(ok, work, opt).
        if \<not> ok then Inr (None, ctx\<lparr>tw_work := work, tw_opt := opt\<rparr>)
        else
          bindE (if opcode = P_CONTROL_HARD_RESET_CLIENT_V3 then
                   (case tw_tls_crypt_v2_wkc ctx of None \<Rightarrow> Inl Mem_Fault | Some wkc \<Rightarrow> buf_copy work wkc)
                 else Inr (True, work)) (\<lambda>(ok, work).
          Inr (if ok then Some work else None, ctx\<lparr>tw_work := work, tw_opt := opt\<rparr>))))))))
      else Inr (Some buf, ctx)))"

definition read_control_crypt :: "int \<Rightarrow> buffer \<Rightarrow> 's tls_wrap_ctx \<Rightarrow> (bool \<times> buffer \<times> 's tls_wrap_ctx) res" where
  "read_control_crypt now buf ctx =
     bindE (alloc_buf (buf_forward_capacity_total buf)) (\<lambda>tmp.
     bindE (tls_crypt_unwrap now buf tmp (tw_opt ctx)) (\<lambda>(ok, tmp, opt).
     let ctx = ctx\<lparr>tw_opt := opt\<rparr> in
     if \<not> ok then Inr (False, buf, ctx)
     else
       case buf_init_dowork buf (b_offset buf) of (ok, buf) \<Rightarrow> bindE (assertE ok) (\<lambda>_.
       bindE (buf_copy buf tmp) (\<lambda>(ok, buf). bindE (assertE ok) (\<lambda>_. Inr (True, buf, ctx))))))"

text \<open>No frame is passed to \<open>openvpn_decrypt\<close> here, so a cipher in the context would dereference the null pointer.\<close>

definition read_control_hmac :: "int \<Rightarrow> buffer \<Rightarrow> 's tls_wrap_ctx \<Rightarrow> frame \<Rightarrow> (bool \<times> buffer \<times> 's tls_wrap_ctx) res" where
  "read_control_hmac now buf ctx fr =
     bindE (swap_hmac buf (tw_opt ctx) True) (\<lambda>(ok, buf).
     if \<not> ok then Inr (False, buf, ctx)
     else if kc_cipher (co_decrypt (tw_opt ctx)) \<noteq> None then Inl Mem_Fault
     else
       bindE (openvpn_decrypt now buf clear_buf (Some (tw_opt ctx)) fr (b_offset buf)) (\<lambda>(_, buf, opt).
       case opt of None \<Rightarrow> Inl Mem_Fault | Some opt \<Rightarrow> Inr (b_len buf \<noteq> 0, buf, ctx\<lparr>tw_opt := opt\<rparr>)))"

definition read_control_auth ::
  "(byte list \<Rightarrow> bool \<Rightarrow> 's key_ctx_bi) \<Rightarrow> (int \<Rightarrow> byte list \<Rightarrow> bool) option \<Rightarrow> int \<Rightarrow> frame \<Rightarrow> buffer \<Rightarrow> 's tls_wrap_ctx
    \<Rightarrow> (bool \<times> buffer \<times> 's tls_wrap_ctx) res" where
  "read_control_auth load script now fr buf ctx =
     bindE (buf_peek buf (b_offset buf) 1) (\<lambda>first.
     let opcode = drop_bit P_OPCODE_SHIFT (hd first) in
     bindE (if opcode = P_CONTROL_HARD_RESET_CLIENT_V3 then tls_crypt_v2_extract_client_key load script buf ctx
            else Inr (True, buf, ctx)) (\<lambda>(ok, buf, ctx).
     if \<not> ok then Inr (False, buf, ctx)
     else
       bindE (if tw_mode ctx = TLS_WRAP_AUTH then read_control_hmac now buf ctx fr
              else if tw_mode ctx = TLS_WRAP_CRYPT then read_control_crypt now buf ctx
              else Inr (kc_cipher (tw_tls_crypt_v2_server_key ctx) = None, buf, ctx)) (\<lambda>(ok, buf, ctx).
       if \<not> ok then Inr (False, buf, ctx)
       else
         Inr (True, if tw_mode ctx = TLS_WRAP_NONE \<or> tw_mode ctx = TLS_WRAP_AUTH then snd (buf_advance buf (int SID_SIZE + 1)) else buf,
              ctx))))"

text \<open>
  The first line of defence of the server: the first packet of an unknown client is checked on a copy, before any state is
  made for the client. No verification script runs here.
\<close>

definition P_KEY_ID_MASK :: byte where "P_KEY_ID_MASK = 7"
definition P_CONTROL_HARD_RESET_CLIENT_V2 :: byte where "P_CONTROL_HARD_RESET_CLIENT_V2 = 7"

definition tls_pre_decrypt_lite ::
  "(byte list \<Rightarrow> bool \<Rightarrow> 's key_ctx_bi) \<Rightarrow> (nat \<Rightarrow> byte) \<Rightarrow> int \<Rightarrow> frame \<Rightarrow> 's tls_wrap_ctx \<Rightarrow> buffer \<Rightarrow> bool res" where
  "tls_pre_decrypt_lite load junk now fr tls_wrap buf =
     (if b_len buf \<le> 0 then Inr False
      else
        bindE (buf_peek buf (b_offset buf) 1) (\<lambda>first.
        let op = drop_bit P_OPCODE_SHIFT (hd first); key_id = hd first AND P_KEY_ID_MASK in
        if op \<noteq> P_CONTROL_HARD_RESET_CLIENT_V2 \<and> op \<noteq> P_CONTROL_HARD_RESET_CLIENT_V3 then Inr False
        else if key_id \<noteq> 0 then Inr False
        else if b_len buf > EXPANDED_SIZE_DYNAMIC fr then Inr False
        else
          bindE (clone_buf junk buf) (\<lambda>newbuf.
          bindE (read_control_auth load None now fr newbuf tls_wrap) (\<lambda>(status, _, _). Inr status))))"

end
