(* ===== verification/Tls_Crypt_Open.thy ===== *)
theory Tls_Crypt_Open
  imports Tls_Crypt Crypto_Seal
begin

text \<open>
  Unwrapping of control packets: whatever arrives, nothing faults, and only packets whose tag is right go on to the
  replay check. The library only has to keep its documented output bounds.
\<close>

section \<open>What the code relies on\<close>

definition ctl_cipher_sane :: "'s cipher_ctx \<Rightarrow> bool" where
  "ctl_cipher_sane c \<longleftrightarrow> cipher_bounded c \<and> 0 \<le> ck_iv_size (cc_kt c) \<and> ck_iv_size (cc_kt c) \<le> 32
     \<and> 0 \<le> ck_block_size (cc_kt c) \<and> ck_block_size (cc_kt c) \<le> 16"

definition ctl_hmac_sane :: "hmac_ctx \<Rightarrow> bool" where
  "ctl_hmac_sane hm \<longleftrightarrow> hm_size hm = 32 \<and> (\<forall>m. length (hm_mac hm m) = 32)"

definition ctl_key_sane :: "'s key_ctx \<Rightarrow> bool" where
  "ctl_key_sane k \<longleftrightarrow> (\<exists>c. kc_cipher k = Some c \<and> ctl_cipher_sane c) \<and> (\<exists>hm. kc_hmac k = Some hm \<and> ctl_hmac_sane hm)"

definition ctl_recv_sane :: "'s crypto_options \<Rightarrow> bool" where
  "ctl_recv_sane opt \<longleftrightarrow> ctl_key_sane (co_decrypt opt) \<and> pid_sane (co_packet_id opt)"

lemma ctl_cipher_state [simp]: "ctl_cipher_sane (c\<lparr>cc_state := s\<rparr>) = ctl_cipher_sane c"
  by (simp add: ctl_cipher_sane_def)

text \<open>Output anywhere inside the block that leaves room for the increased length.\<close>

lemma put_output_inside:
  assumes "buf_wf w" "0 \<le> p" "p + int (length out) \<le> b_capacity w" "int (length out) \<le> buf_room w"
  shows "\<exists>w'. put_output w p out = Inr w' \<and> buf_wf w' \<and> b_offset w' = b_offset w \<and> b_capacity w' = b_capacity w
    \<and> b_len w' = b_len w + int (length out)"
proof -
  obtain d where d: "b_data w = Some d" "int (length d) = b_capacity w" "b_capacity w < 2097152"
    "0 \<le> b_offset w" "0 \<le> b_len w" "b_offset w + b_len w \<le> b_capacity w" using assms(1) by (rule buf_wfE)
  have "mem_write d p out = Inr (overwrite d (nat p) out)" using d assms(2,3) by (intro mem_write_ok) auto
  then have "buf_poke w p out = Inr (w\<lparr>b_data := Some (overwrite d (nat p) out)\<rparr>)" using d by (simp add: buf_poke_def)
  moreover have "nat p + length out \<le> length d" using d assms(2,3) by linarith
  ultimately show ?thesis using d assms(4)
    by (simp add: put_output_def buf_inc_len_def buf_safe_bidir_def buf_valid_def buf_size_valid_signed_def BUF_SIZE_MAX_def
        Let_def buf_wf_def)
qed

section \<open>Decryption and the tag\<close>

lemma buf_peek_front:
  assumes "buf_wf b" "0 \<le> i" "0 \<le> n" "i + n \<le> b_len b"
  shows "buf_peek b (b_offset b + i) n = Inr (take (nat n) (drop (nat i) (buf_content b)))"
  using buf_peek_content[OF assms] by (simp add: segment_def)

lemma tls_crypt_open_ok:
  assumes "ctl_cipher_sane c" "buf_wf src" "49 \<le> b_len src" "buf_wf dst" "b_len dst = 0"
  shows "\<exists>r s. tls_crypt_open c src dst = Inr (r, c\<lparr>cc_state := s\<rparr>)
    \<and> (\<forall>w. r = Some w \<longrightarrow> buf_wf w \<and> b_offset w = b_offset dst \<and> b_capacity w = b_capacity dst)"
proof -
  let ?iv = "take (nat (ck_iv_size (cc_kt c))) (drop 17 (buf_content src))" and ?ct = "drop 49 (buf_content src)"
  have c: "cipher_bounded c" "0 \<le> ck_iv_size (cc_kt c)" "ck_iv_size (cc_kt c) \<le> 32" "0 \<le> ck_block_size (cc_kt c)" "ck_block_size (cc_kt c) \<le> 16"
    using assms(1) by (simp_all add: ctl_cipher_sane_def)
  have ls: "length (buf_content src) = nat (b_len src)" using length_buf_content_nat[OF assms(2)] .
  have p: "buf_peek src (b_offset src + 17) (ck_iv_size (cc_kt c)) = Inr ?iv" using c assms(2,3) by (simp add: buf_peek_front)
  have q: "buf_peek src (b_offset src + 49) (b_len src - 49) = Inr ?ct" using assms(2,3) ls by (simp add: buf_peek_front)
  have lct: "int (length ?ct) = b_len src - 49" using ls assms(3) by simp
  obtain ok s1 where rs: "cc_reset c (cc_state c) ?iv = (ok, s1)" by (cases "cc_reset c (cc_state c) ?iv")
  obtain u s2 where u: "cc_update c s1 ?ct = (u, s2)" by (cases "cc_update c s1 ?ct")
  obtain v s3 where v: "cc_final c s2 = (v, s3)" by (cases "cc_final c s2")
  have st: "started c s1" using started_reset[of c "cc_state c" ?iv] rs by simp
  note pre = tls_crypt_open_def tls_crypt_sizes cipher_ctx_iv_length_def cipher_ctx_reset_def cipher_ctx_update_def cipher_ctx_final_def
  show ?thesis
  proof (cases "buf_safe dst (b_len src - 33)")
    case False
    then show ?thesis using assms(2) by (intro exI[of _ None] exI[of _ "cc_state c"]) (simp add: pre)
  next
    case safe: True
    have room: "b_len src - 33 \<le> buf_room dst" using buf_safeD[OF assms(4) safe] .
    note b = buf_wf_bounds[OF assms(4)]
    show ?thesis
    proof (cases "ok \<and> u \<noteq> None")
      case False
      then show ?thesis using safe p q rs u assms(2) by (cases ok) (auto simp: pre)
    next
      case True
      then obtain out where out: "u = Some out" and ok by auto
      have l: "int (length out) \<le> b_len src - 33" using c(1,5) st u out lct unfolding cipher_bounded_def by fastforce
      obtain w1 where w1: "put_output dst (b_offset dst) out = Inr w1" "buf_wf w1" "b_offset w1 = b_offset dst" "b_capacity w1 = b_capacity dst"
        "b_len w1 = int (length out)"
        using put_output_inside[OF assms(4), of "b_offset dst" out] l room b assms(5) by auto
      show ?thesis
      proof (cases v)
        case None
        then show ?thesis using safe p q rs u out \<open>ok\<close> v w1 assms(2) by (auto simp: pre)
      next
        case (Some out2)
        have l2: "int (length out) + int (length out2) \<le> b_len src - 33"
          using c(1,5) st u out v Some lct unfolding cipher_bounded_def by fastforce
        obtain w2 where w2: "put_output w1 (b_offset w1) out2 = Inr w2" "buf_wf w2" "b_offset w2 = b_offset w1" "b_capacity w2 = b_capacity w1"
          using put_output_inside[OF w1(2), of "b_offset w1" out2] l2 room b w1(3-5) assms(5) by auto
        show ?thesis using Some safe p q rs u out \<open>ok\<close> v w1 w2 assms(2) by (auto simp: pre)
      qed
    qed
  qed
qed

definition tls_crypt_tag :: "hmac_ctx \<Rightarrow> byte list \<Rightarrow> byte list \<Rightarrow> bool" where
  "tls_crypt_tag hm packet plain \<longleftrightarrow> take 32 (drop 17 packet) = hm_mac hm (take 17 packet @ plain)"

lemma tls_crypt_verify_ok:
  assumes "ctl_hmac_sane hm" "buf_wf src" "49 \<le> b_len src" "buf_wf w"
  shows "tls_crypt_verify (Some hm) src w = Inr (tls_crypt_tag hm (buf_content src) (buf_content w))"
proof -
  have "mem_write (replicate 32 0) 0 (hm_mac hm m) = Inr (hm_mac hm m)" for m
    using assms(1) overwrite_front[of "hm_mac hm m" 32] by (simp add: ctl_hmac_sane_def mem_write_ok)
  moreover have "buf_peek src (b_offset src + 17) 32 = Inr (take 32 (drop 17 (buf_content src)))"
    "buf_peek src (b_offset src) 17 = Inr (take 17 (buf_content src))"
    using buf_peek_front[OF assms(2), of 17 32] buf_peek_front[OF assms(2), of 0 17] assms(3) by simp_all
  ultimately show ?thesis using assms(4) by (simp add: tls_crypt_verify_def tls_crypt_sizes tls_crypt_tag_def)
qed

text \<open>The identifier in a packet.\<close>

definition tls_crypt_pin :: "byte list \<Rightarrow> packet_id_net" where
  "tls_crypt_pin packet = \<lparr>pin_id = of_be32 (take 4 (drop 9 packet)), pin_time = uint (of_be32 (take 4 (drop 13 packet)))\<rparr>"

definition replay_pass :: "int \<Rightarrow> packet_id_net \<Rightarrow> 's crypto_options \<Rightarrow> (bool \<times> 's crypto_options) res" where
  "replay_pass now pin opt = (if co_flags opt AND CO_IGNORE_PACKET_ID \<noteq> 0 then Inr (True, opt) else check_replay now opt pin)"

lemma drop_split: "drop n x = take k (drop n x) @ drop (n + k) x"
  by (simp add: add.commute flip: drop_drop)

lemma tls_crypt_replay_ok:
  assumes "buf_wf src" "17 \<le> b_len src"
  shows "tls_crypt_replay now src opt = replay_pass now (tls_crypt_pin (buf_content src)) opt"
proof -
  let ?b = "buf_drop src 9" and ?x = "buf_content src"
  have b: "buf_wf ?b" "buf_content ?b = drop 9 ?x" using assms by (simp_all add: buf_drop_wf buf_drop_content)
  have l: "length ?x = nat (b_len src)" using length_buf_content_nat[OF assms(1)] .
  have "drop 9 ?x = take 4 (drop 9 ?x) @ take 4 (drop 13 ?x) @ drop 17 ?x"
    using drop_split[of 9 ?x 4] drop_split[of 13 ?x 4] by simp
  then have "buf_content ?b = be32 (of_be32 (take 4 (drop 9 ?x))) @ be32 (of_be32 (take 4 (drop 13 ?x))) @ drop 17 ?x"
    using b(2) l assms(2) by (simp add: be32_of_be32)
  from packet_id_read_long[OF b(1) this] obtain b' where "packet_id_read ?b True = Inr (True, tls_crypt_pin ?x, b')"
    by (auto simp: tls_crypt_pin_def)
  moreover have "buf_advance src 9 = (True, ?b)" using assms by (intro buf_advance_drop) auto
  ultimately show ?thesis by (simp add: tls_crypt_replay_def replay_pass_def tls_crypt_sizes)
qed

section \<open>Unwrapping\<close>

text \<open>
  A packet is dropped before the replay check, leaving only the state of the cipher changed, or its tag is right and
  the replay check decides.
\<close>

lemma tls_crypt_unwrap_outcome:
  assumes "ctl_recv_sane opt" "buf_wf src" "0 < b_len src" "buf_wf dst" "b_len dst = 0"
    and "kc_cipher (co_decrypt opt) = Some c" "kc_hmac (co_decrypt opt) = Some hm"
  shows "(\<exists>w s. tls_crypt_unwrap now src dst opt = crypt_error w (set_decrypt opt (c\<lparr>cc_state := s\<rparr>))
      \<and> buf_wf w \<and> b_offset w = b_offset dst \<and> b_capacity w = b_capacity dst)
    \<or> (\<exists>w s. tls_crypt_unwrap now src dst opt
        = bindE (replay_pass now (tls_crypt_pin (buf_content src)) (set_decrypt opt (c\<lparr>cc_state := s\<rparr>)))
            (\<lambda>(ok, opt). if ok then Inr (True, w, opt) else crypt_error w opt)
      \<and> buf_wf w \<and> b_offset w = b_offset dst \<and> b_capacity w = b_capacity dst
      \<and> 49 \<le> b_len src \<and> tls_crypt_tag hm (buf_content src) (buf_content w))"
proof -
  have sane: "ctl_cipher_sane c" "ctl_hmac_sane hm" "packet_id_initialized (co_packet_id opt)"
    using assms(1,6,7) pid_sane_initialized by (auto simp: ctl_recv_sane_def ctl_key_sane_def)
  have keep: "set_decrypt opt (c\<lparr>cc_state := cc_state c\<rparr>) = opt"
    using assms(6) by (simp add: set_decrypt_def co_decrypt_def)
  show ?thesis
  proof (cases "b_len src < 49")
    case True
    then have "tls_crypt_unwrap now src dst opt = crypt_error dst (set_decrypt opt (c\<lparr>cc_state := cc_state c\<rparr>))"
      using assms(2,3,6) sane(3) unfolding keep by (simp add: tls_crypt_unwrap_def tls_crypt_sizes)
    then show ?thesis using assms(4) by blast
  next
    case False
    then have l: "49 \<le> b_len src" by simp
    obtain r s where o: "tls_crypt_open c src dst = Inr (r, c\<lparr>cc_state := s\<rparr>)"
      "\<And>w. r = Some w \<Longrightarrow> buf_wf w \<and> b_offset w = b_offset dst \<and> b_capacity w = b_capacity dst"
      using tls_crypt_open_ok[OF sane(1) assms(2) l assms(4,5)] by blast
    show ?thesis
    proof (cases r)
      case None
      then have "tls_crypt_unwrap now src dst opt = crypt_error dst (set_decrypt opt (c\<lparr>cc_state := s\<rparr>))"
        using assms(2,3,6) sane(3) l o(1) by (simp add: tls_crypt_unwrap_def tls_crypt_sizes)
      then show ?thesis using assms(4) by blast
    next
      case (Some w)
      then have w: "buf_wf w" "b_offset w = b_offset dst" "b_capacity w = b_capacity dst" using o(2) by auto
      have "tls_crypt_unwrap now src dst opt = (if \<not> tls_crypt_tag hm (buf_content src) (buf_content w)
          then crypt_error w (set_decrypt opt (c\<lparr>cc_state := s\<rparr>))
          else bindE (replay_pass now (tls_crypt_pin (buf_content src)) (set_decrypt opt (c\<lparr>cc_state := s\<rparr>)))
            (\<lambda>(ok, opt). if ok then Inr (True, w, opt) else crypt_error w opt))"
        using assms(2,3,6,7) sane(3) l o(1) Some tls_crypt_verify_ok[OF sane(2) assms(2) l w(1)] tls_crypt_replay_ok[OF assms(2), of now "set_decrypt opt (c\<lparr>cc_state := s\<rparr>)"]
        by (simp add: tls_crypt_unwrap_def tls_crypt_sizes)
      then show ?thesis using w l by (cases "tls_crypt_tag hm (buf_content src) (buf_content w)") auto
    qed
  qed
qed

lemma replay_pass_sane:
  assumes "pid_sane (co_packet_id opt)" "1 < now"
  shows "\<exists>ok pid' pp'. replay_pass now pin opt = Inr (ok, opt\<lparr>co_packet_id := pid', co_pid_persist := pp'\<rparr>) \<and> pid_sane pid'
    \<and> (\<forall>y. pid_blocked (co_packet_id opt) y \<longrightarrow> pid_blocked pid' y)
    \<and> (ok \<and> co_flags opt AND CO_IGNORE_PACKET_ID = 0 \<longrightarrow> \<not> pid_blocked (co_packet_id opt) (pin_time pin, pin_id pin)
         \<and> pid_blocked pid' (pin_time pin, pin_id pin))"
proof (cases "co_flags opt AND CO_IGNORE_PACKET_ID = 0")
  case True
  then show ?thesis using check_replay_ok[OF assms, of pin] by (auto simp: replay_pass_def)
next
  case False
  then show ?thesis using assms(1)
    by (intro exI[of _ True] exI[of _ "co_packet_id opt"] exI[of _ "co_pid_persist opt"]) (simp add: replay_pass_def)
qed

lemma crypt_error_wf: "buf_wf w \<Longrightarrow> buf_wf (w\<lparr>b_len := 0\<rparr>)"
  by (auto simp: buf_wf_def split: option.splits)

text \<open>What a received control packet gets through: the tag over its header and its plain text is right.\<close>

definition tls_crypt_genuine :: "'s crypto_options \<Rightarrow> byte list \<Rightarrow> byte list \<Rightarrow> bool" where
  "tls_crypt_genuine opt packet plain \<longleftrightarrow> (\<exists>hm. kc_hmac (co_decrypt opt) = Some hm \<and> tls_crypt_tag hm packet plain)"

lemma ctl_recv_sane_set:
  "ctl_recv_sane opt \<Longrightarrow> kc_cipher (co_decrypt opt) = Some c \<Longrightarrow> ctl_recv_sane (set_decrypt opt (c\<lparr>cc_state := s\<rparr>))"
  by (auto simp: ctl_recv_sane_def ctl_key_sane_def set_decrypt_def co_decrypt_def)

lemma tls_crypt_unwrap_sane:
  assumes "ctl_recv_sane opt" "buf_wf src" "0 < b_len src" "buf_wf dst" "b_len dst = 0" "1 < now"
  shows "\<exists>ok w opt'. tls_crypt_unwrap now src dst opt = Inr (ok, w, opt') \<and> buf_wf w \<and> b_offset w = b_offset dst
    \<and> b_capacity w = b_capacity dst \<and> (\<not> ok \<longrightarrow> b_len w = 0) \<and> ctl_recv_sane opt'
    \<and> (ok \<longrightarrow> tls_crypt_genuine opt (buf_content src) (buf_content w))"
proof -
  obtain c hm where k: "kc_cipher (co_decrypt opt) = Some c" "kc_hmac (co_decrypt opt) = Some hm"
    using assms(1) by (auto simp: ctl_recv_sane_def ctl_key_sane_def)
  have o: "ctl_recv_sane (set_decrypt opt (c\<lparr>cc_state := s\<rparr>))" for s using ctl_recv_sane_set[OF assms(1) k(1)] .
  have up: "ctl_recv_sane (opt'\<lparr>co_packet_id := pid, co_pid_persist := pp\<rparr>)" if "ctl_recv_sane opt'" "pid_sane pid"
    for opt' :: "'a crypto_options" and pid pp using that by (simp add: ctl_recv_sane_def co_decrypt_def)
  from tls_crypt_unwrap_outcome[OF assms(1-5) k, of now] show ?thesis
  proof (elim disjE exE conjE)
    fix w s assume "tls_crypt_unwrap now src dst opt = crypt_error w (set_decrypt opt (c\<lparr>cc_state := s\<rparr>))"
      "buf_wf w" "b_offset w = b_offset dst" "b_capacity w = b_capacity dst"
    then show ?thesis using o crypt_error_wf[of w]
      by (intro exI[of _ False] exI[of _ "w\<lparr>b_len := 0\<rparr>"] exI[of _ "set_decrypt opt (c\<lparr>cc_state := s\<rparr>)"])
        (simp add: crypt_error_def)
  next
    fix w s assume a: "tls_crypt_unwrap now src dst opt
        = bindE (replay_pass now (tls_crypt_pin (buf_content src)) (set_decrypt opt (c\<lparr>cc_state := s\<rparr>)))
            (\<lambda>(ok, opt). if ok then Inr (True, w, opt) else crypt_error w opt)"
      "buf_wf w" "b_offset w = b_offset dst" "b_capacity w = b_capacity dst" "tls_crypt_tag hm (buf_content src) (buf_content w)"
    obtain ok pid pp where r: "replay_pass now (tls_crypt_pin (buf_content src)) (set_decrypt opt (c\<lparr>cc_state := s\<rparr>))
      = Inr (ok, (set_decrypt opt (c\<lparr>cc_state := s\<rparr>))\<lparr>co_packet_id := pid, co_pid_persist := pp\<rparr>)" "pid_sane pid"
      using replay_pass_sane[of "set_decrypt opt (c\<lparr>cc_state := s\<rparr>)" now "tls_crypt_pin (buf_content src)"] o[of s] assms(6)
      unfolding ctl_recv_sane_def by blast
    show ?thesis using a r up[OF o r(2)] k(2) crypt_error_wf
      by (cases ok) (auto simp: crypt_error_def tls_crypt_genuine_def)
  qed
qed

section \<open>Client keys\<close>

lemma set_write_wf:
  assumes "0 < n" "n < 2097152"
  shows "\<exists>b. buf_set_write (Some (replicate (nat n) 0)) n = Inr b \<and> buf_wf b \<and> b_offset b = 0 \<and> b_len b = 0 \<and> b_capacity b = n"
proof -
  have "mem_write (replicate (nat n) (0 :: byte)) 0 [0] = Inr (overwrite (replicate (nat n) 0) 0 [0])"
    using assms by (simp add: mem_write_ok)
  then show ?thesis using assms by (simp add: buf_set_write_def buf_size_valid_small buf_poke_def buf_wf_def BUF_SIZE_MAX_def)
qed

lemma buf_set_len_ok:
  assumes "buf_wf b" "0 \<le> n" "n \<le> b_len b"
  shows "buf_inc_len b (- n) = (True, b\<lparr>b_len := b_len b - n\<rparr>)" "buf_wf (b\<lparr>b_len := b_len b - n\<rparr>)"
    "buf_content (b\<lparr>b_len := b_len b - n\<rparr>) = take (nat (b_len b - n)) (buf_content b)"
proof -
  obtain d where d: "b_data b = Some d" "int (length d) = b_capacity b" "b_capacity b < 2097152"
    "0 \<le> b_offset b" "0 \<le> b_len b" "b_offset b + b_len b \<le> b_capacity b" using assms(1) by (rule buf_wfE)
  show "buf_inc_len b (- n) = (True, b\<lparr>b_len := b_len b - n\<rparr>)" "buf_wf (b\<lparr>b_len := b_len b - n\<rparr>)"
    using d assms(2,3) by (simp_all add: buf_inc_len_def buf_safe_bidir_def buf_valid_def buf_size_valid_signed_def BUF_SIZE_MAX_def
        Let_def buf_wf_def)
  show "buf_content (b\<lparr>b_len := b_len b - n\<rparr>) = take (nat (b_len b - n)) (buf_content b)"
    using d assms(2,3) by (simp add: buf_content_def take_segment min_def nat_le_iff)
qed

lemma wkc_open_ok:
  assumes "ctl_cipher_sane c" "buf_wf wkc" "b_len wkc \<le> 990" "b_offset wkc = tag + 32" "0 \<le> tag"
  shows "\<exists>r s. wkc_open c wkc tag = Inr (r, c\<lparr>cc_state := s\<rparr>) \<and> (\<forall>w. r = Some w \<longrightarrow> buf_wf w)"
proof -
  have c: "cipher_bounded c" "0 \<le> ck_iv_size (cc_kt c)" "ck_iv_size (cc_kt c) \<le> 32" "ck_block_size (cc_kt c) \<le> 16"
    using assms(1) by (simp_all add: ctl_cipher_sane_def)
  obtain d where d: "b_data wkc = Some d" "int (length d) = b_capacity wkc" "0 \<le> b_len wkc" "b_offset wkc + b_len wkc \<le> b_capacity wkc"
    using assms(2) by (rule buf_wfE)
  let ?iv = "segment d (nat tag) (nat (ck_iv_size (cc_kt c)))"
  have iv: "buf_peek wkc tag (ck_iv_size (cc_kt c)) = Inr ?iv" using d c assms(4,5) by (simp add: buf_peek_def mem_read_ok)
  obtain b where b: "buf_set_write (Some (replicate 1024 0)) 1024 = Inr b" "buf_wf b" "b_offset b = 0" "b_len b = 0" "b_capacity b = 1024"
    using set_write_wf[of 1024] by auto
  obtain ok s1 where rs: "cc_reset c (cc_state c) ?iv = (ok, s1)" by (cases "cc_reset c (cc_state c) ?iv")
  obtain u s2 where u: "cc_update c s1 (buf_content wkc) = (u, s2)" by (cases "cc_update c s1 (buf_content wkc)")
  obtain v s3 where v: "cc_final c s2 = (v, s3)" by (cases "cc_final c s2")
  have st: "started c s1" using started_reset[of c "cc_state c" ?iv] rs by simp
  note pre = wkc_open_def tls_crypt_sizes cipher_ctx_iv_length_def cipher_ctx_reset_def cipher_ctx_update_def cipher_ctx_final_def
  show ?thesis
  proof (cases "ok \<and> u \<noteq> None")
    case False
    then show ?thesis using iv rs b u assms(2) by (cases ok) (auto simp: pre)
  next
    case True
    then obtain out where out: "u = Some out" and ok by auto
    have l: "int (length out) \<le> 1006"
      using c(1,4) st u out assms(3) length_buf_content[OF assms(2)] unfolding cipher_bounded_def by fastforce
    have p1: "put_output b (b_offset b) out = Inr (buf_append b out)" "buf_wf (buf_append b out)"
      using l b by (simp_all add: put_output_append buf_append_wf)
    show ?thesis
    proof (cases v)
      case None
      then show ?thesis using iv rs b u out \<open>ok\<close> v p1 assms(2) by (auto simp: pre)
    next
      case (Some out2)
      have "int (length out) + int (length out2) \<le> 1006"
        using c(1,4) st u out v Some assms(3) length_buf_content[OF assms(2)] unfolding cipher_bounded_def by fastforce
      then have p2: "put_output (buf_append b out) (bend (buf_append b out)) out2 = Inr (buf_append (buf_append b out) out2)"
        "buf_wf (buf_append (buf_append b out) out2)"
        using b p1(2) by (simp_all add: put_output_append buf_append_wf bend_wf)
      show ?thesis using Some iv rs b u out \<open>ok\<close> v p1 p2 assms(2) by (auto simp: pre)
    qed
  qed
qed

lemma wkc_verify_ok:
  assumes "ctl_hmac_sane hm" "buf_wf wkc" "b_offset wkc = tag + 32" "0 \<le> tag" "buf_wf w"
  shows "\<exists>same. wkc_verify (Some hm) wkc tag net_len w = Inr same"
proof -
  have "mem_write (replicate 32 0) 0 (hm_mac hm m) = Inr (hm_mac hm m)" for m
    using assms(1) overwrite_front[of "hm_mac hm m" 32] by (simp add: ctl_hmac_sane_def mem_write_ok)
  moreover have "\<exists>t. buf_peek wkc tag 32 = Inr t" using assms(2-4) by (auto simp: buf_peek_def mem_read_ok elim!: buf_wfE)
  ultimately show ?thesis using assms(5) by (auto simp: wkc_verify_def tls_crypt_sizes)
qed

lemma buf_copy_wf:
  assumes "buf_wf a" "buf_wf b"
  shows "\<exists>ok b'. buf_copy b a = Inr (ok, b') \<and> buf_wf b' \<and> b_capacity b' = b_capacity b"
proof (cases "int (length (buf_content a)) \<le> buf_room b")
  case True
  then have "buf_copy b a = Inr (True, buf_append b (buf_content a))" using assms by (simp add: buf_copy_append)
  then show ?thesis using assms True by (auto simp: buf_append_wf)
next
  case False
  moreover have "int (length (buf_content a)) \<le> INT_MAX" using assms(1) buf_wf_bounds[OF assms(1)] by (simp add: INT_MAX_def)
  ultimately have "buf_copy b a = Inr (False, b)" using assms by (simp add: buf_copy_def buf_write_full)
  then show ?thesis using assms by blast
qed

lemma wkc_take_ok:
  assumes "buf_wf w" "buf_wf metadata"
  shows "\<exists>r m. wkc_take metadata w = Inr (r, m) \<and> buf_wf m \<and> (\<forall>k. r = Some k \<longrightarrow> length k = 256)"
proof (cases "b_len w < 256")
  case True
  then show ?thesis using assms by (simp add: wkc_take_def tls_crypt_sizes)
next
  case False
  then have "buf_peek w (b_offset w) 256 = Inr (take 256 (buf_content w))" using buf_peek_front[OF assms(1), of 0 256] by simp
  moreover have "buf_advance w 256 = (True, buf_drop w 256)" "buf_wf (buf_drop w 256)"
    using assms(1) False by (simp_all add: buf_advance_drop buf_drop_wf)
  moreover obtain ok m where "buf_copy metadata (buf_drop w 256) = Inr (ok, m)" "buf_wf m"
    using buf_copy_wf[OF calculation(3) assms(2)] by blast
  moreover have "length (take 256 (buf_content w)) = 256" using False length_buf_content_nat[OF assms(1)] by simp
  ultimately show ?thesis using assms(1) False by (auto simp: wkc_take_def tls_crypt_sizes)
qed

lemma tls_crypt_v2_unwrap_client_key_sane:
  assumes "ctl_key_sane key" "buf_wf wkc" "buf_wf metadata"
  shows "\<exists>r m key'. tls_crypt_v2_unwrap_client_key metadata wkc key = Inr (r, m, key') \<and> ctl_key_sane key' \<and> buf_wf m
    \<and> (\<forall>k. r = Some k \<longrightarrow> length k = 256)"
proof -
  obtain c hm where k: "kc_cipher key = Some c" "ctl_cipher_sane c" "kc_hmac key = Some hm" "ctl_hmac_sane hm"
    using assms(1) by (auto simp: ctl_key_sane_def)
  have up: "ctl_key_sane (key\<lparr>kc_cipher := Some (c\<lparr>cc_state := s\<rparr>)\<rparr>)" for s using k by (simp add: ctl_key_sane_def)
  let ?b2 = "wkc\<lparr>b_len := b_len wkc - 2\<rparr>" and ?b3 = "buf_drop (wkc\<lparr>b_len := b_len wkc - 2\<rparr>) 32"
  show ?thesis
  proof (cases "b_len wkc \<le> 1024 \<and> 2 \<le> b_len wkc")
    case False
    then show ?thesis using assms by (auto simp: tls_crypt_v2_unwrap_client_key_def tls_crypt_sizes Let_def)
  next
    case True
    then have n: "buf_peek wkc (bend wkc - 2) 2 = Inr (take 2 (drop (nat (b_len wkc - 2)) (buf_content wkc)))"
      using buf_peek_front[OF assms(2), of "b_len wkc - 2" 2] by (simp add: bend_wf[OF assms(2)] algebra_simps)
    let ?net = "take 2 (drop (nat (b_len wkc - 2)) (buf_content wkc))"
    note b2 = buf_set_len_ok[OF assms(2), of 2]
    show ?thesis
    proof (cases "uint (of_be16 ?net) = b_len wkc \<and> 32 \<le> b_len ?b2")
      case False
      then have "tls_crypt_v2_unwrap_client_key metadata wkc key = Inr (None, metadata, key)"
        using True n assms(2) b2 by (auto simp: tls_crypt_v2_unwrap_client_key_def tls_crypt_sizes Let_def buf_advance_def)
      then show ?thesis using assms by auto
    next
      case good: True
      then have adv: "buf_advance ?b2 32 = (True, ?b3)" "buf_wf ?b3"
        using b2(2) True by (simp_all add: buf_advance_drop buf_drop_wf)
      note b3 = adv(2)
      have off: "b_offset ?b3 = b_offset wkc + 32" "0 \<le> b_offset wkc" "b_len ?b3 \<le> 990" using True buf_wf_bounds[OF assms(2)] by simp_all
      obtain r s where o: "wkc_open c ?b3 (b_offset wkc) = Inr (r, c\<lparr>cc_state := s\<rparr>)" "\<And>w. r = Some w \<Longrightarrow> buf_wf w"
        using wkc_open_ok[OF k(2) b3 off(3,1,2)] by blast
      have eq: "tls_crypt_v2_unwrap_client_key metadata wkc key = (case r of None \<Rightarrow> Inr (None, metadata, key\<lparr>kc_cipher := Some (c\<lparr>cc_state := s\<rparr>)\<rparr>)
        | Some w \<Rightarrow> bindE (wkc_verify (Some hm) ?b3 (b_offset wkc) ?net w) (\<lambda>same.
            if \<not> same then Inr (None, metadata, key\<lparr>kc_cipher := Some (c\<lparr>cc_state := s\<rparr>)\<rparr>)
            else bindE (wkc_take metadata w) (\<lambda>(keys, m). Inr (keys, m, key\<lparr>kc_cipher := Some (c\<lparr>cc_state := s\<rparr>)\<rparr>))))"
        using True good n assms(2) b2(1) adv(1) k(1,3) o(1)
        by (simp add: tls_crypt_v2_unwrap_client_key_def tls_crypt_sizes Let_def split: option.split)
      show ?thesis
      proof (cases r)
        case None
        then show ?thesis using eq up[of s] assms(3) by auto
      next
        case (Some w)
        obtain same where v: "wkc_verify (Some hm) ?b3 (b_offset wkc) ?net w = Inr same"
          using wkc_verify_ok[OF k(4) b3 off(1,2) o(2)[OF Some]] by blast
        obtain r' m where t: "wkc_take metadata w = Inr (r', m)" "buf_wf m" "\<forall>k. r' = Some k \<longrightarrow> length k = 256"
          using wkc_take_ok[OF o(2)[OF Some] assms(3)] by blast
        show ?thesis unfolding eq Some option.case v t(1) using up[of s] assms(3) t(2,3) by (cases same) auto
      qed
    qed
  qed
qed

lemma extract_client_key_sane:
  assumes "buf_wf buf" "0 < b_len buf" "kc_cipher (tw_tls_crypt_v2_server_key ctx) = None \<or> ctl_key_sane (tw_tls_crypt_v2_server_key ctx)"
    and "\<And>k. length k = 256 \<Longrightarrow> ctl_key_sane (kb_decrypt (load k True))" "pid_sane (co_packet_id (tw_opt ctx))"
  shows "\<exists>ok b ctx'. tls_crypt_v2_extract_client_key load script buf ctx = Inr (ok, b, ctx') \<and> buf_wf b
    \<and> (kc_cipher (tw_tls_crypt_v2_server_key ctx') = None \<or> ctl_key_sane (tw_tls_crypt_v2_server_key ctx'))
    \<and> (tw_mode ctx' = TLS_WRAP_CRYPT \<and> ctl_recv_sane (tw_opt ctx') \<or> \<not> ok \<and> tw_mode ctx' = tw_mode ctx \<and> tw_opt ctx' = tw_opt ctx)
    \<and> (ok \<longrightarrow> b_len b = b_len buf - uint (of_be16 (take 2 (drop (nat (b_len buf - 2)) (buf_content buf)))))"
proof -
  let ?key = "tw_tls_crypt_v2_server_key ctx"
  show ?thesis
  proof (cases "kc_cipher ?key = None \<or> b_len buf < 2")
    case True
    then show ?thesis using assms(1,3) by (auto simp: tls_crypt_v2_extract_client_key_def)
  next
    case False
    then have key: "ctl_key_sane ?key" and l: "2 \<le> b_len buf" using assms(3) by auto
    obtain c where kc: "kc_cipher ?key = Some c" using key by (auto simp: ctl_key_sane_def)
    let ?net = "take 2 (drop (nat (b_len buf - 2)) (buf_content buf))"
    have n: "buf_peek buf (bend buf - 2) 2 = Inr ?net"
      using buf_peek_front[OF assms(1), of "b_len buf - 2" 2] l by (simp add: bend_wf[OF assms(1)] algebra_simps)
    let ?skip = "b_len buf - uint (of_be16 ?net)"
    show ?thesis
    proof (cases "0 \<le> ?skip")
      case False
      then have "buf_advance buf ?skip = (False, buf)" by (simp add: buf_advance_def)
      then show ?thesis using \<open>\<not> (kc_cipher ?key = None \<or> b_len buf < 2)\<close> n assms(1) key
        by (auto simp: tls_crypt_v2_extract_client_key_def)
    next
      case True
      let ?w = "buf_drop buf ?skip"
      have w: "buf_advance buf ?skip = (True, ?w)" "buf_wf ?w" "buf_len ?w = uint (of_be16 ?net)"
        using assms(1) True by (simp_all add: buf_advance_drop buf_drop_wf)
      obtain m where m: "alloc_buf 734 = Inr m" "buf_wf m" using alloc_buf_wf[of 734] by auto
      obtain r m' key' where u: "tls_crypt_v2_unwrap_client_key m ?w ?key = Inr (r, m', key')" "ctl_key_sane key'" "buf_wf m'"
        "\<And>k. r = Some k \<Longrightarrow> length k = 256"
        using tls_crypt_v2_unwrap_client_key_sane[OF key w(2) m(2)] by blast
      show ?thesis
      proof (cases r)
        case None
        then show ?thesis using False n w m u assms(1) by (auto simp: tls_crypt_v2_extract_client_key_def tls_crypt_sizes)
      next
        case (Some keys)
        have il: "buf_inc_len buf (- uint (of_be16 ?net)) = (True, buf\<lparr>b_len := ?skip\<rparr>)" "buf_wf (buf\<lparr>b_len := ?skip\<rparr>)"
          using buf_set_len_ok[OF assms(1), of "uint (of_be16 ?net)"] True by simp_all
        let ?ctx = "ctx\<lparr>tw_tls_crypt_v2_metadata := m', tw_tls_crypt_v2_server_key := key', tw_mode := TLS_WRAP_CRYPT, tw_cleanup_key_ctx := True,
          tw_opt := (tw_opt ctx)\<lparr>co_flags := co_flags (tw_opt ctx) OR CO_PACKET_ID_LONG_FORM, co_key_ctx_bi := load keys True\<rparr>\<rparr>"
        have sane: "ctl_recv_sane (tw_opt ?ctx)"
          using assms(4)[OF u(4)[OF Some]] assms(5) by (simp add: ctl_recv_sane_def co_decrypt_def)
        obtain ok where "(case script of None \<Rightarrow> Inr (True, buf\<lparr>b_len := ?skip\<rparr>, ?ctx)
            | Some script \<Rightarrow> bindE (tls_crypt_v2_verify_metadata script m') (\<lambda>ok. Inr (ok, buf\<lparr>b_len := ?skip\<rparr>, ?ctx)))
          = Inr (ok, buf\<lparr>b_len := ?skip\<rparr>, ?ctx)"
        proof (cases script)
          case (Some sc)
          have "\<exists>x. tls_crypt_v2_verify_metadata sc m' = Inr x"
          proof (cases "1 \<le> b_len m'")
            case True
            then show ?thesis using u(3) by (simp add: tls_crypt_v2_verify_metadata_def buf_read_u8_take buf_drop_wf)
          next
            case False
            then show ?thesis using u(3) by (auto simp: tls_crypt_v2_verify_metadata_def buf_read_u8_empty)
          qed
          then show thesis using Some that by auto
        qed (use that in auto)
        then have "tls_crypt_v2_extract_client_key load script buf ctx = Inr (ok, buf\<lparr>b_len := ?skip\<rparr>, ?ctx)"
          using kc l n w m u(1) Some il(1) assms(1)
          by (simp add: tls_crypt_v2_extract_client_key_def tls_crypt_sizes cong: option.case_cong)
        then show ?thesis using il(2) u(2) sane by auto
      qed
    qed
  qed
qed

end
