(* ===== verification/Tls_Crypt_Seal.thy ===== *)
theory Tls_Crypt_Seal
  imports Tls_Crypt_Open
begin

text \<open>
  What the sender makes of a control packet under \<open>--tls-crypt\<close>, and of a client key, with a library whose stream cipher
  decrypts what it encrypted.
\<close>

section \<open>The library\<close>

fun updates :: "'s cipher_ctx \<Rightarrow> 's \<Rightarrow> byte list list \<Rightarrow> (byte list \<times> 's) option" where
  "updates c s [] = Some ([], s)"
| "updates c s (x # xs) = (case cc_update c s x of (None, _) \<Rightarrow> None | (Some out, s) \<Rightarrow>
     (case updates c s xs of None \<Rightarrow> None | Some (outs, s) \<Rightarrow> Some (out @ outs, s)))"

text \<open>
  A stream cipher with a 16-byte IV, as documented: from a reset on, any division of the plain text gives as many bytes,
  nothing remains for the final call, and the other direction gives the plain text back.
\<close>

definition stream_pair :: "'s cipher_ctx \<Rightarrow> 't cipher_ctx \<Rightarrow> bool" where
  "stream_pair ce cd \<longleftrightarrow> ck_iv_size (cc_kt ce) = 16 \<and> ck_iv_size (cc_kt cd) = 16
     \<and> (\<forall>s iv xs. length iv = 16 \<longrightarrow> (\<exists>ct s1. fst (cc_reset ce s iv) \<and> updates ce (snd (cc_reset ce s iv)) xs = Some (ct, s1)
          \<and> length ct = length (concat xs) \<and> fst (cc_final ce s1) = Some []
          \<and> (\<forall>t. fst (cc_reset cd t iv)
               \<and> (\<exists>t1. cc_update cd (snd (cc_reset cd t iv)) ct = (Some (concat xs), t1) \<and> fst (cc_final cd t1) = Some []))))"

section \<open>Wrapping\<close>

text \<open>A place of the right size at the end of the buffer, filled in.\<close>

lemma alloc_poke:
  assumes "buf_wf b" "int (length t) \<le> buf_room b"
  shows "\<exists>b1 b2. buf_write_alloc b (int (length t)) = (Some (b_offset b + b_len b), b1) \<and> buf_poke b1 (b_offset b + b_len b) t = Inr b2
    \<and> buf_wf b2 \<and> buf_content b2 = buf_content b @ t \<and> b_offset b2 = b_offset b \<and> b_capacity b2 = b_capacity b
    \<and> b_len b2 = b_len b + int (length t)"
proof -
  obtain b1 j where b1: "buf_write_alloc b (int (length t)) = (Some (b_offset b + b_len b), b1)" "buf_wf b1"
    "buf_content b1 = buf_content b @ j @ []" "int (length j) = int (length t)" "b_offset b1 = b_offset b" "b_capacity b1 = b_capacity b"
    "b_len b1 = b_len b + int (length t)"
    using buf_write_alloc_room[OF assms(1) _ assms(2)] by auto
  have "b_offset b + b_len b = b_offset b1 + int (length (buf_content b))" using assms(1) b1(5) by simp
  from buf_poke_middle[OF b1(2,3) _ this, of t] b1 show ?thesis by auto
qed

lemma put_output_Nil: "buf_wf b \<Longrightarrow> put_output b (b_offset b) [] = Inr b"
  by (auto simp: put_output_def buf_poke_def mem_write_ok overwrite_def buf_inc_len_def buf_safe_bidir_def buf_valid_def
      buf_size_valid_signed_def BUF_SIZE_MAX_def Let_def elim!: buf_wfE)

lemma tls_crypt_seal_ok:
  assumes "ctl_hmac_sane hm" "ck_iv_size (cc_kt c) = 16" "buf_wf src" "buf_wf dst" "b_len src + 32 \<le> buf_room dst"
    and "hm_mac hm (buf_content dst @ buf_content src) = tag" "fst (cc_reset c (cc_state c) (take 16 tag))"
    and "cc_update c (snd (cc_reset c (cc_state c) (take 16 tag))) (buf_content src) = (Some ct, s1)" "length ct = length (buf_content src)"
    and "fst (cc_final c s1) = Some []"
  shows "\<exists>b s. tls_crypt_seal c hm src dst = Inr (b, c\<lparr>cc_state := s\<rparr>) \<and> buf_wf b \<and> buf_content b = buf_content dst @ tag @ ct
    \<and> b_offset b = b_offset dst \<and> b_capacity b = b_capacity dst"
proof -
  have lt: "length tag = 32" using assms(1,6) by (auto simp: ctl_hmac_sane_def)
  have ls: "int (length (buf_content src)) = b_len src" "0 \<le> b_len src" using assms(3) buf_wf_bounds by auto
  obtain b1 b2 where b: "buf_write_alloc dst 32 = (Some (b_offset dst + b_len dst), b1)" "buf_poke b1 (b_offset dst + b_len dst) tag = Inr b2"
    "buf_wf b2" "buf_content b2 = buf_content dst @ tag" "b_offset b2 = b_offset dst" "b_capacity b2 = b_capacity dst" "b_len b2 = b_len dst + 32"
    using alloc_poke[OF assms(4), of tag] lt assms(5) ls by auto
  have ld: "length (buf_content dst) = nat (b_len dst)" "0 \<le> b_len dst" using length_buf_content_nat[OF assms(4)] buf_wf_bounds[OF assms(4)] by auto
  have iv: "buf_peek b2 (b_offset dst + b_len dst) 16 = Inr (take 16 tag)"
    using buf_peek_front[OF b(3), of "b_len dst" 16] b(4,5,7) ld lt by simp
  let ?b3 = "buf_append b2 ct"
  have l: "int (length ct) \<le> buf_room b2" using b(5-7) assms(5,9) ls by simp
  have b3: "buf_wf ?b3" "buf_content ?b3 = buf_content dst @ tag @ ct" using b(3,4) l by (simp_all add: buf_append_wf buf_append_content)
  have p3: "put_output b2 (bend b2) ct = Inr ?b3" using l b(3) by (intro put_output_append) (auto simp: bend_wf)
  obtain s0 where s0: "cc_reset c (cc_state c) (take 16 tag) = (True, s0)" using assms(7) by (cases "cc_reset c (cc_state c) (take 16 tag)") auto
  obtain s2 where s2: "cc_final c s1 = (Some [], s2)" using assms(10) by (cases "cc_final c s1") auto
  have "tls_crypt_seal c hm src dst = Inr (?b3, c\<lparr>cc_state := s2\<rparr>)"
    using assms(2-4,6,8) b(1,2) iv p3 s0 s2 put_output_Nil[OF b3(1)]
    by (simp add: tls_crypt_seal_def tls_crypt_sizes cipher_ctx_iv_length_def cipher_ctx_reset_def cipher_ctx_update_def cipher_ctx_final_def)
  then show ?thesis using b3 b(5,6) by auto
qed

lemma packet_id_write_long:
  assumes "buf_wf b" "packet_id_send_update now p True = (True, p')" "8 \<le> buf_room b"
  shows "\<exists>b'. packet_id_write now p b True False = Inr (True, p', b') \<and> buf_wf b' \<and> buf_content b' = buf_content b @ pid_wire p' True
    \<and> b_offset b' = b_offset b \<and> b_capacity b' = b_capacity b"
proof -
  let ?i = "be32 (ps_id p')" and ?t = "be32 (word_of_int (ps_time p'))"
  have b1: "buf_write b ?i = Inr (True, buf_append b ?i)" "buf_wf (buf_append b ?i)" "buf_content (buf_append b ?i) = buf_content b @ ?i"
    using assms(1,3) by (simp_all add: buf_write_append buf_append_wf buf_append_content)
  have "buf_write (buf_append b ?i) ?t = Inr (True, buf_append (buf_append b ?i) ?t)" "buf_wf (buf_append (buf_append b ?i) ?t)"
    "buf_content (buf_append (buf_append b ?i) ?t) = (buf_content b @ ?i) @ ?t"
    using b1(2,3) assms(3) by (simp_all add: buf_write_append buf_append_wf buf_append_content)
  then show ?thesis using b1(1) assms(2) by (simp add: packet_id_write_def Let_def pid_wire_def)
qed

text \<open>The sender's half, and that the receiver's half accepts its result.\<close>

lemma tls_crypt_wrap_ok:
  assumes "kc_cipher (co_encrypt opt) = Some ce" "kc_hmac (co_encrypt opt) = Some hm" "ctl_hmac_sane hm" "stream_pair ce cd"
    and "packet_id_initialized (co_packet_id opt)" "packet_id_send_update now (pid_send (co_packet_id opt)) True = (True, ps)"
    and "buf_wf src" "buf_wf dst" "b_len src + 56 \<le> buf_room dst"
  shows "\<exists>b opt' ct. tls_crypt_wrap now src dst opt = Inr (True, b, opt') \<and> buf_wf b
    \<and> buf_content b = buf_content dst @ pid_wire ps True @ hm_mac hm (buf_content dst @ pid_wire ps True @ buf_content src) @ ct
    \<and> b_offset b = b_offset dst \<and> b_capacity b = b_capacity dst \<and> length ct = length (buf_content src)
    \<and> (\<forall>t. fst (cc_reset cd t (take 16 (hm_mac hm (buf_content dst @ pid_wire ps True @ buf_content src))))
         \<and> (\<exists>t1. cc_update cd (snd (cc_reset cd t (take 16 (hm_mac hm (buf_content dst @ pid_wire ps True @ buf_content src))))) ct
              = (Some (buf_content src), t1) \<and> fst (cc_final cd t1) = Some []))"
proof -
  let ?w = "pid_wire ps True" and ?tag = "hm_mac hm (buf_content dst @ pid_wire ps True @ buf_content src)"
  have w: "length ?w = 8" using length_pid_wire[of ps True] by (simp add: packet_id_size_def)
  have ls: "0 \<le> b_len src" using buf_wf_bounds[OF assms(7)] by simp
  obtain b1 where b1: "packet_id_write now (pid_send (co_packet_id opt)) dst True False = Inr (True, ps, b1)" "buf_wf b1"
    "buf_content b1 = buf_content dst @ ?w" "b_offset b1 = b_offset dst" "b_capacity b1 = b_capacity dst"
    using packet_id_write_long[OF assms(8,6)] assms(9) ls by auto
  have len1: "b_len b1 = b_len dst + 8" using length_buf_content[OF b1(2)] length_buf_content[OF assms(8)] b1(3) w by simp
  have iv: "length (take 16 ?tag) = 16" using assms(3) by (simp add: ctl_hmac_sane_def)
  obtain ct s1 where ct: "fst (cc_reset ce (cc_state ce) (take 16 ?tag))"
    "updates ce (snd (cc_reset ce (cc_state ce) (take 16 ?tag))) [buf_content src] = Some (ct, s1)"
    "length ct = length (concat [buf_content src])" "fst (cc_final ce s1) = Some []"
    and dec: "\<And>t. fst (cc_reset cd t (take 16 ?tag)) \<and> (\<exists>t1. cc_update cd (snd (cc_reset cd t (take 16 ?tag))) ct
      = (Some (concat [buf_content src]), t1) \<and> fst (cc_final cd t1) = Some [])"
    using assms(4)[unfolded stream_pair_def] iv by blast
  have up: "cc_update ce (snd (cc_reset ce (cc_state ce) (take 16 ?tag))) (buf_content src) = (Some ct, s1)"
    using ct(2) by (auto split: prod.splits option.splits)
  have hm: "hm_mac hm (buf_content b1 @ buf_content src) = ?tag" using b1(3) by simp
  have iv16: "ck_iv_size (cc_kt ce) = 16" using assms(4) by (simp add: stream_pair_def)
  have room: "b_len src + 48 \<le> buf_room b1" using assms(9) b1(4,5) len1 by simp
  obtain b s where b: "tls_crypt_seal ce hm src b1 = Inr (b, ce\<lparr>cc_state := s\<rparr>)" "buf_wf b" "buf_content b = buf_content b1 @ ?tag @ ct"
    "b_offset b = b_offset b1" "b_capacity b = b_capacity b1"
    using tls_crypt_seal_ok[OF assms(3) iv16 assms(7) b1(2) _ hm ct(1) up _ ct(4)] ct(3) room by auto
  have safe: "buf_safe b1 (48 + b_len src)" using room ls by (intro buf_safe_room[OF b1(2)]) auto
  have "tls_crypt_wrap now src dst opt = Inr (True, b, set_encrypt (set_pid_send opt ps) (ce\<lparr>cc_state := s\<rparr>))"
    using assms(1-3,5,7) b1(1) safe b(1) by (simp add: tls_crypt_wrap_def Let_def tls_crypt_sizes ctl_hmac_sane_def)
  then show ?thesis using b b1 ct(3) dec by auto
qed

section \<open>Unwrapping what was wrapped\<close>

lemma tls_crypt_unwrap_accepts:
  assumes "ctl_recv_sane opt" "kc_cipher (co_decrypt opt) = Some cd" "kc_hmac (co_decrypt opt) = Some hm" "ck_iv_size (cc_kt cd) = 16"
    and "buf_wf src" "buf_content src = hd17 @ tag @ ct" "length hd17 = 17" "length tag = 32" "length ct = length pt"
    and "fst (cc_reset cd (cc_state cd) (take 16 tag))" "cc_update cd (snd (cc_reset cd (cc_state cd) (take 16 tag))) ct = (Some pt, t1)"
    and "fst (cc_final cd t1) = Some []" "hm_mac hm (hd17 @ pt) = tag"
    and "buf_wf dst" "b_len dst = 0" "int (length ct) + 16 \<le> buf_room dst"
  shows "\<exists>w s. tls_crypt_unwrap now src dst opt = bindE (replay_pass now (tls_crypt_pin (buf_content src)) (set_decrypt opt (cd\<lparr>cc_state := s\<rparr>)))
            (\<lambda>(ok, opt). if ok then Inr (True, w, opt) else crypt_error w opt)
      \<and> buf_wf w \<and> buf_content w = pt \<and> b_offset w = b_offset dst \<and> b_capacity w = b_capacity dst"
proof -
  have sane: "ctl_hmac_sane hm" "packet_id_initialized (co_packet_id opt)"
    using assms(1,3) pid_sane_initialized by (auto simp: ctl_recv_sane_def ctl_key_sane_def)
  have len: "b_len src = 49 + int (length ct)" using length_buf_content[OF assms(5)] assms(6-8) by simp
  have iv: "buf_peek src (b_offset src + 17) 16 = Inr (take 16 tag)"
    using buf_peek_front[OF assms(5), of 17 16] len assms(6-8) by simp
  have pct: "buf_peek src (b_offset src + 49) (b_len src - 49) = Inr ct"
    using buf_peek_front[OF assms(5), of 49 "b_len src - 49"] len assms(6-8) by simp
  obtain s0 where s0: "cc_reset cd (cc_state cd) (take 16 tag) = (True, s0)" using assms(10) by (cases "cc_reset cd (cc_state cd) (take 16 tag)") auto
  obtain s2 where s2: "cc_final cd t1 = (Some [], s2)" using assms(12) by (cases "cc_final cd t1") auto
  let ?w = "buf_append dst pt"
  have "buf_content dst = []" using length_buf_content_nat[OF assms(14)] assms(15) by simp
  then have w: "buf_wf ?w" "buf_content ?w = pt" using assms(9,14-16) by (simp_all add: buf_append_wf buf_append_content)
  have p1: "put_output dst (b_offset dst) pt = Inr ?w" using assms(9,14-16) by (intro put_output_append) auto
  have safe: "buf_safe dst (b_len src - 33)" using len assms(14-16) by (intro buf_safe_room) auto
  have o: "tls_crypt_open cd src dst = Inr (Some ?w, cd\<lparr>cc_state := s2\<rparr>)"
    using safe iv pct s0 s2 p1 put_output_Nil[OF w(1)] assms(4,5,11)
    by (simp add: tls_crypt_open_def tls_crypt_sizes cipher_ctx_iv_length_def cipher_ctx_reset_def cipher_ctx_update_def cipher_ctx_final_def)
  have l49: "49 \<le> b_len src" using len by simp
  have v: "tls_crypt_verify (Some hm) src ?w = Inr True"
    using tls_crypt_verify_ok[OF sane(1) assms(5) l49 w(1)] w(2) assms(6-8,13) by (simp add: tls_crypt_tag_def)
  have "tls_crypt_unwrap now src dst opt = bindE (replay_pass now (tls_crypt_pin (buf_content src)) (set_decrypt opt (cd\<lparr>cc_state := s2\<rparr>)))
            (\<lambda>(ok, opt). if ok then Inr (True, ?w, opt) else crypt_error ?w opt)"
    using assms(2,3,5) sane(2) l49 o v tls_crypt_replay_ok[OF assms(5), of now "set_decrypt opt (cd\<lparr>cc_state := s2\<rparr>)"]
    by (simp add: tls_crypt_unwrap_def tls_crypt_sizes)
  then show ?thesis using w by (intro exI[of _ ?w] exI[of _ s2]) simp
qed

lemma read_control_crypt_accepts:
  assumes "ctl_recv_sane (tw_opt r)" "kc_cipher (co_decrypt (tw_opt r)) = Some cd" "kc_hmac (co_decrypt (tw_opt r)) = Some hm"
    and "ck_iv_size (cc_kt cd) = 16" "buf_wf rb" "buf_content rb = hd17 @ tag @ ct" "length hd17 = 17" "length tag = 32" "length ct = length pt"
    and "fst (cc_reset cd (cc_state cd) (take 16 tag))" "cc_update cd (snd (cc_reset cd (cc_state cd) (take 16 tag))) ct = (Some pt, t1)"
    and "fst (cc_final cd t1) = Some []" "hm_mac hm (hd17 @ pt) = tag" "1 < now"
    and "co_flags (tw_opt r) AND CO_IGNORE_PACKET_ID = 0"
  shows "\<exists>acc pid pp b r'. crypto_check_replay now (co_long_form (tw_opt r)) (co_packet_id (tw_opt r)) (co_pid_persist (tw_opt r))
        (tls_crypt_pin hd17) = Inr (acc, pid, pp)
      \<and> read_control_crypt now rb r = Inr (acc, b, r') \<and> tw_mode r' = tw_mode r
      \<and> tw_tls_crypt_v2_metadata r' = tw_tls_crypt_v2_metadata r \<and> (acc \<longrightarrow> buf_content b = pt)"
proof -
  note wf = buf_wf_bounds[OF assms(5)]
  have fc: "buf_forward_capacity_total rb = b_capacity rb - b_offset rb"
    using assms(5) by (auto simp: buf_forward_capacity_total_def buf_valid_def elim!: buf_wfE)
  obtain t where t: "alloc_buf (b_capacity rb - b_offset rb) = Inr t" "buf_wf t" "b_capacity t = b_capacity rb - b_offset rb"
    "b_offset t = 0" "b_len t = 0"
    using alloc_buf_wf[of "b_capacity rb - b_offset rb"] wf by auto
  have len: "b_len rb = 49 + int (length ct)" using length_buf_content[OF assms(5)] assms(6-8) by simp
  have room: "int (length ct) + 16 \<le> buf_room t" using t(3-5) len wf by simp
  obtain w s where w: "tls_crypt_unwrap now rb t (tw_opt r) = bindE (replay_pass now (tls_crypt_pin (buf_content rb))
      (set_decrypt (tw_opt r) (cd\<lparr>cc_state := s\<rparr>))) (\<lambda>(ok, opt). if ok then Inr (True, w, opt) else crypt_error w opt)"
    "buf_wf w" "buf_content w = pt" "b_offset w = b_offset t" "b_capacity w = b_capacity t"
    using tls_crypt_unwrap_accepts[OF assms(1-13) t(2,5) room, of now] by blast
  have pin: "tls_crypt_pin (buf_content rb) = tls_crypt_pin hd17" using assms(6,7) by (simp add: tls_crypt_pin_def)
  let ?o = "set_decrypt (tw_opt r) (cd\<lparr>cc_state := s\<rparr>)"
  have fields: "co_packet_id ?o = co_packet_id (tw_opt r)" "co_pid_persist ?o = co_pid_persist (tw_opt r)" "co_flags ?o = co_flags (tw_opt r)"
    "co_long_form ?o = co_long_form (tw_opt r)" by (simp_all add: set_decrypt_def co_long_form_def)
  have ps: "pid_sane (co_packet_id (tw_opt r))" using assms(1) by (simp add: ctl_recv_sane_def)
  obtain acc pid pp where c: "crypto_check_replay now (co_long_form (tw_opt r)) (co_packet_id (tw_opt r)) (co_pid_persist (tw_opt r))
      (tls_crypt_pin hd17) = Inr (acc, pid, pp)" using crypto_check_replay_ok[OF ps assms(14)] by blast
  let ?o2 = "?o\<lparr>co_packet_id := pid, co_pid_persist := pp\<rparr>"
  have rp: "replay_pass now (tls_crypt_pin (buf_content rb)) ?o = Inr (acc, ?o2)"
    using c assms(15) pin fields by (simp add: replay_pass_def check_replay_def)
  show ?thesis
  proof (cases acc)
    case False
    then have "read_control_crypt now rb r = Inr (False, rb, r\<lparr>tw_opt := ?o2\<rparr>)"
      using t(1) fc w(1) rp by (simp add: read_control_crypt_def Let_def crypt_error_def)
    then show ?thesis using c False by auto
  next
    case True
    let ?b = "rb\<lparr>b_len := 0, b_offset := b_offset rb\<rparr>"
    have i: "buf_init_dowork rb (b_offset rb) = (True, ?b)" "buf_wf ?b"
      using buf_init_wf[OF assms(5), of "b_offset rb"] assms(5) wf by (simp_all add: buf_init_dowork_ok)
    have fits: "int (length (buf_content w)) \<le> buf_room ?b" using w(3) assms(9) len wf by simp
    have cp: "buf_copy ?b w = Inr (True, buf_append ?b (buf_content w))" using buf_copy_append[OF i(2) w(2)] fits w(2) by simp
    have r: "read_control_crypt now rb r = Inr (True, buf_append ?b (buf_content w), r\<lparr>tw_opt := ?o2\<rparr>)"
      using t(1) fc w(1) rp True i(1) cp by (simp add: read_control_crypt_def Let_def)
    have "buf_content ?b = []" using i(2) length_buf_content_nat[of ?b] by simp
    then have "buf_content (buf_append ?b (buf_content w)) = pt" using buf_append_content[OF i(2) fits] w(3) by simp
    then show ?thesis using r c True by auto
  qed
qed

end
