(* ===== verification/Tls_Crypt_Correct.thy ===== *)
theory Tls_Crypt_Correct
  imports Tls_Crypt_Seal Crypto_Correct
begin

text \<open>
  The control channel wrapping as a whole: no packet makes \<open>read_control_auth\<close> fault in any mode, what it hands on is
  authentic, and what one peer wraps the other unwraps.
\<close>

section \<open>Changing places\<close>

text \<open>\<open>swap_hmac\<close> exchanges the first two parts of the packet.\<close>

lemma swap_hmac_ok:
  assumes "kc_hmac (if incoming then co_decrypt co else co_encrypt co) = Some hm" "0 \<le> hm_size hm" "hm_size hm \<le> 64" "buf_wf buf"
  shows "\<exists>ok b. swap_hmac buf co incoming = Inr (ok, b) \<and> buf_wf b \<and> ok = (17 + hm_size hm \<le> b_len buf)
    \<and> b_offset b = b_offset buf \<and> b_len b = b_len buf \<and> b_capacity b = b_capacity buf
    \<and> buf_content b = (if ok then let n = (if incoming then 9 else nat (hm_size hm) + 8); m = (if incoming then nat (hm_size hm) + 8 else 9);
         c = buf_content buf in take m (drop n c) @ take n c @ drop (n + m) c else buf_content buf)"
proof -
  let ?n = "if incoming then 9 else nat (hm_size hm) + 8" and ?m = "if incoming then nat (hm_size hm) + 8 else 9"
  let ?c = "buf_content buf"
  have e: "(if incoming then 1 + int SID_SIZE else hm_size hm + packet_id_size True) = int ?n"
    "(if incoming then hm_size hm + packet_id_size True else 1 + int SID_SIZE) = int ?m"
    using assms(2) by (auto simp: SID_SIZE_def packet_id_size_def)
  have nm: "int ?n + int ?m = 17 + hm_size hm" "?n \<le> 256" "?m \<le> 256" using assms(2,3) by auto
  have l: "length ?c = nat (b_len buf)" using length_buf_content_nat[OF assms(4)] .
  have red: "swap_hmac buf co incoming = (if b_len buf \<ge> int ?n + int ?m then
        bindE (buf_peek buf (b_offset buf) (int ?n)) (\<lambda>buf1. bindE (buf_peek buf (b_offset buf + int ?n) (int ?m)) (\<lambda>buf2.
        bindE (buf_poke buf (b_offset buf) buf2) (\<lambda>buf'. bindE (buf_poke buf' (b_offset buf + int ?m) buf1) (\<lambda>buf. Inr (True, buf)))))
      else Inr (False, buf))"
    unfolding swap_hmac_def Let_def assms(1) option.case e SWAP_BUF_SIZE_def using nm(2,3) by (simp add: assertE_def)
  show ?thesis
  proof (cases "b_len buf \<ge> int ?n + int ?m")
    case False
    then show ?thesis unfolding red using assms(4) nm(1) by auto
  next
    case True
    let ?x = "take ?n ?c" and ?y = "take ?m (drop ?n ?c)"
    have lx: "length ?x = ?n" "length ?y = ?m" using l True by simp_all
    have p1: "buf_peek buf (b_offset buf) (int ?n) = Inr ?x" "buf_peek buf (b_offset buf + int ?n) (int ?m) = Inr ?y"
      using buf_peek_front[OF assms(4), of 0 "int ?n"] buf_peek_front[OF assms(4), of "int ?n" "int ?m"] True by simp_all
    obtain b1 where b1: "buf_poke buf (b_offset buf) ?y = Inr b1" "buf_wf b1" "buf_content b1 = ?y @ drop ?m ?c" "b_offset b1 = b_offset buf"
      "b_len b1 = b_len buf" "b_capacity b1 = b_capacity buf"
      using buf_poke_at[OF assms(4), of 0 ?y] lx(2) True by auto
    obtain b2 where b2: "buf_poke b1 (b_offset buf + int ?m) ?x = Inr b2" "buf_wf b2"
      "buf_content b2 = take ?m (buf_content b1) @ ?x @ drop (?m + ?n) (buf_content b1)" "b_offset b2 = b_offset buf"
      "b_len b2 = b_len buf" "b_capacity b2 = b_capacity buf"
      using buf_poke_at[OF b1(2), of "int ?m" ?x] lx(1) True b1(4-6) by auto
    have "buf_content b2 = ?y @ ?x @ drop (?n + ?m) ?c"
      unfolding b2(3) b1(3) using lx(2) by (simp add: add.commute)
    then show ?thesis unfolding red using True p1 b1(1) b2(1,2,4-6) nm(1) by (intro exI[of _ True] exI[of _ b2]) (simp add: Let_def)
  qed
qed

section \<open>No packet makes the receiver fault\<close>

definition ctl_ctx_sane :: "(byte list \<Rightarrow> bool \<Rightarrow> 's key_ctx_bi) \<Rightarrow> 's tls_wrap_ctx \<Rightarrow> bool" where
  "ctl_ctx_sane load ctx \<longleftrightarrow> pid_sane (co_packet_id (tw_opt ctx))
     \<and> (kc_cipher (tw_tls_crypt_v2_server_key ctx) = None \<or> ctl_key_sane (tw_tls_crypt_v2_server_key ctx))
     \<and> (\<forall>k. length k = 256 \<longrightarrow> ctl_key_sane (kb_decrypt (load k True)))
     \<and> (case tw_mode ctx of
          TLS_WRAP_NONE \<Rightarrow> True
        | TLS_WRAP_AUTH \<Rightarrow> kc_cipher (co_decrypt (tw_opt ctx)) = None \<and> kc_hmac (co_decrypt (tw_opt ctx)) \<noteq> None
            \<and> recv_sane (tw_opt ctx)
        | TLS_WRAP_CRYPT \<Rightarrow> ctl_recv_sane (tw_opt ctx))"

text \<open>Without a cipher neither the work buffer nor the frame is used.\<close>

lemma decrypt_no_cipher:
  assumes "kc_cipher (co_decrypt opt) = None"
  shows "openvpn_decrypt now buf work (Some opt) fr ad = openvpn_decrypt now buf work' (Some opt) fr' ad'"
  using assms by (simp add: openvpn_decrypt_def openvpn_decrypt_v1_def cipher_ctx_get_cipher_kt_def cipher_kt_mode_aead_def Let_def)

lemma decrypt_no_cipher_sane:
  assumes "recv_sane opt" "kc_cipher (co_decrypt opt) = None" "buf_wf buf" "1 < now"
  shows "\<exists>ok b opt'. openvpn_decrypt now buf work (Some opt) fr ad = Inr (ok, b, Some opt') \<and> buf_wf b \<and> recv_sane opt'
    \<and> kc_cipher (co_decrypt opt') = None \<and> kc_hmac (co_decrypt opt') = kc_hmac (co_decrypt opt)"
proof (cases "0 < b_len buf")
  case False
  then show ?thesis using assms by (auto simp: openvpn_decrypt_def)
next
  case True
  have "step_sane (openvpn_decrypt_v1 now buf (demo_buf []) opt demo_frame)"
    using assms demo_work[of "[]"] by (intro openvpn_decrypt_v1_sane) auto
  then obtain ok b opt' where r: "openvpn_decrypt_v1 now buf (demo_buf []) opt demo_frame = Inr (ok, b, opt')" "buf_wf b" "recv_sane opt'"
    unfolding step_sane_def by blast
  have "co_key_ctx_bi opt' = co_key_ctx_bi opt"
    using r(1) assms(2) by (auto simp: openvpn_decrypt_v1_def Let_def crypt_error_def finish_v1_def check_replay_def bindE_eq_Inr
        split: option.splits if_splits)
  moreover have "openvpn_decrypt now buf work (Some opt) fr ad = Inr (ok, b, Some opt')"
    using True assms(2) r(1) by (subst decrypt_no_cipher[of opt now buf work fr ad "demo_buf []" demo_frame])
      (simp_all add: openvpn_decrypt_def cipher_ctx_get_cipher_kt_def cipher_kt_mode_aead_def)
  ultimately show ?thesis using r assms(2) by (simp add: co_decrypt_def)
qed

lemma read_control_hmac_sane:
  assumes "recv_sane (tw_opt ctx)" "kc_cipher (co_decrypt (tw_opt ctx)) = None" "kc_hmac (co_decrypt (tw_opt ctx)) \<noteq> None"
    and "buf_wf buf" "1 < now"
  shows "\<exists>ok b opt. read_control_hmac now buf ctx fr = Inr (ok, b, ctx\<lparr>tw_opt := opt\<rparr>) \<and> buf_wf b \<and> recv_sane opt
    \<and> kc_cipher (co_decrypt opt) = None \<and> kc_hmac (co_decrypt opt) \<noteq> None"
proof -
  obtain hm where hm: "kc_hmac (co_decrypt (tw_opt ctx)) = Some hm" using assms(3) by blast
  then have "hmac_sane hm" using assms(1) by (simp add: recv_sane_def key_sane_def)
  then have hs: "0 \<le> hm_size hm" "hm_size hm \<le> 64" by (simp_all add: hmac_sane_def)
  obtain ok b where s: "swap_hmac buf (tw_opt ctx) True = Inr (ok, b)" "buf_wf b"
    using swap_hmac_ok[of True "tw_opt ctx" hm buf] hm hs assms(4) by auto
  have keep: "ctx\<lparr>tw_opt := tw_opt ctx\<rparr> = ctx" by simp
  show ?thesis
  proof (cases ok)
    case False
    then have "read_control_hmac now buf ctx fr = Inr (False, b, ctx\<lparr>tw_opt := tw_opt ctx\<rparr>)"
      unfolding keep using s by (simp add: read_control_hmac_def)
    then show ?thesis using assms(1-3) s(2) by blast
  next
    case True
    obtain ok2 b2 opt where d: "openvpn_decrypt now b clear_buf (Some (tw_opt ctx)) fr (b_offset b) = Inr (ok2, b2, Some opt)"
      "buf_wf b2" "recv_sane opt" "kc_cipher (co_decrypt opt) = None" "kc_hmac (co_decrypt opt) = kc_hmac (co_decrypt (tw_opt ctx))"
      using decrypt_no_cipher_sane[OF assms(1,2) s(2) assms(5)] by blast
    have "read_control_hmac now buf ctx fr = Inr (b_len b2 \<noteq> 0, b2, ctx\<lparr>tw_opt := opt\<rparr>)"
      using True s(1) assms(2) d(1) by (simp add: read_control_hmac_def)
    then show ?thesis using d assms(3) by auto
  qed
qed

lemma read_control_crypt_sane:
  assumes "ctl_recv_sane (tw_opt ctx)" "buf_wf buf" "0 < b_len buf" "1 < now"
  shows "\<exists>ok b opt. read_control_crypt now buf ctx = Inr (ok, b, ctx\<lparr>tw_opt := opt\<rparr>) \<and> buf_wf b \<and> ctl_recv_sane opt
    \<and> (ok \<longrightarrow> tls_crypt_genuine (tw_opt ctx) (buf_content buf) (buf_content b))"
proof -
  note wf = buf_wf_bounds[OF assms(2)]
  have fc: "buf_forward_capacity_total buf = b_capacity buf - b_offset buf"
    using assms(2) by (auto simp: buf_forward_capacity_total_def buf_valid_def elim!: buf_wfE)
  obtain t where t: "alloc_buf (b_capacity buf - b_offset buf) = Inr t" "buf_wf t" "b_capacity t = b_capacity buf - b_offset buf"
    "b_offset t = 0" "b_len t = 0"
    using alloc_buf_wf[of "b_capacity buf - b_offset buf"] wf by auto
  obtain ok w opt where u: "tls_crypt_unwrap now buf t (tw_opt ctx) = Inr (ok, w, opt)" "buf_wf w" "b_offset w = 0"
    "b_capacity w = b_capacity t" "ctl_recv_sane opt" "ok \<longrightarrow> tls_crypt_genuine (tw_opt ctx) (buf_content buf) (buf_content w)"
    using tls_crypt_unwrap_sane[OF assms(1-3) t(2,5) assms(4)] t(4) by auto
  show ?thesis
  proof (cases ok)
    case False
    then have "read_control_crypt now buf ctx = Inr (False, buf, ctx\<lparr>tw_opt := opt\<rparr>)"
      using t(1) u(1) fc by (simp add: read_control_crypt_def Let_def)
    then show ?thesis using assms(2) u(5) by auto
  next
    case True
    let ?b = "buf\<lparr>b_len := 0, b_offset := b_offset buf\<rparr>"
    have i: "buf_init_dowork buf (b_offset buf) = (True, ?b)" "buf_wf ?b"
      using buf_init_wf[OF assms(2), of "b_offset buf"] assms(2) wf by (simp_all add: buf_init_dowork_ok)
    have fits: "int (length (buf_content w)) \<le> buf_room ?b"
      using u(2-4) t(3) buf_wf_bounds(3)[OF u(2)] by simp
    have cp: "buf_copy ?b w = Inr (True, buf_append ?b (buf_content w))" using buf_copy_append[OF i(2) u(2)] fits u(2) by simp
    have r: "read_control_crypt now buf ctx = Inr (True, buf_append ?b (buf_content w), ctx\<lparr>tw_opt := opt\<rparr>)"
      using t(1) u(1) fc True i(1) cp by (simp add: read_control_crypt_def Let_def)
    have "buf_content ?b = []" using i(2) length_buf_content_nat[of ?b] by simp
    then have "buf_content (buf_append ?b (buf_content w)) = buf_content w" using buf_append_content[OF i(2) fits] by simp
    then show ?thesis using r u(5,6) True buf_append_wf[OF i(2) fits] by auto
  qed
qed

text \<open>
  A packet that is nothing but a wrapped client key: opcode \<open>P_CONTROL_HARD_RESET_CLIENT_V3\<close>, and the length at its end is
  that of the whole packet.
\<close>

definition wkc_only :: "buffer \<Rightarrow> bool" where
  "wkc_only buf \<longleftrightarrow> drop_bit 3 (hd (buf_content buf)) = (10 :: byte) \<and> 2 \<le> b_len buf
     \<and> uint (of_be16 (take 2 (drop (nat (b_len buf - 2)) (buf_content buf)))) = b_len buf"

text \<open>
  C8. \<open>read_control_auth\<close> never reads or writes outside a buffer, whatever the bytes and length of a control packet, with no
  wrapping, \<open>--tls-auth\<close>, \<open>--tls-crypt\<close> or a client key in the packet, and leaves the context fit for the next packet.
  No assertion fails, except for a packet that is nothing but a wrapped client key. What it hands on under \<open>--tls-crypt\<close> is
  genuine: the tag of the packet is the code over its header, its identifier and the plain text.
\<close>

theorem read_control_auth_safe:
  assumes "ctl_ctx_sane load ctx" "buf_wf buf" "0 < b_len buf" "1 < now"
  shows "(\<exists>ok b ctx'. read_control_auth load script now fr buf ctx = Inr (ok, b, ctx') \<and> buf_wf b \<and> ctl_ctx_sane load ctx'
      \<and> (ok \<and> tw_mode ctx = TLS_WRAP_CRYPT \<and> drop_bit 3 (hd (buf_content buf)) \<noteq> (10 :: byte)
           \<longrightarrow> tls_crypt_genuine (tw_opt ctx) (buf_content buf) (buf_content b)))
    \<or> read_control_auth load script now fr buf ctx = Inl Assert_Failed \<and> wkc_only buf"
proof -
  let ?op = "drop_bit 3 (hd (take 1 (buf_content buf)))" and ?ex = "tls_crypt_v2_extract_client_key load script buf ctx"
  note cs = assms(1)[unfolded ctl_ctx_sane_def]
  have pk: "buf_peek buf (b_offset buf) 1 = Inr (take 1 (buf_content buf))" using buf_peek_front[OF assms(2), of 0 1] assms(3) by simp
  define rest where "rest = (\<lambda>(ok, buf, ctx :: 'a tls_wrap_ctx).
     if \<not> ok then Inr (False, buf, ctx)
     else
       bindE (if tw_mode ctx = TLS_WRAP_AUTH then read_control_hmac now buf ctx fr
              else if tw_mode ctx = TLS_WRAP_CRYPT then read_control_crypt now buf ctx
              else Inr (kc_cipher (tw_tls_crypt_v2_server_key ctx) = None, buf, ctx)) (\<lambda>(ok, buf, ctx).
       if \<not> ok then Inr (False, buf, ctx)
       else
         Inr (True, if tw_mode ctx = TLS_WRAP_NONE \<or> tw_mode ctx = TLS_WRAP_AUTH then snd (buf_advance buf (int SID_SIZE + 1)) else buf,
              ctx)))"
  have eq: "read_control_auth load script now fr buf ctx
    = bindE (if ?op = 10 then ?ex else Inr (True, buf, ctx)) rest"
    by (simp add: read_control_auth_def pk Let_def P_OPCODE_SHIFT_def P_CONTROL_HARD_RESET_CLIENT_V3_def rest_def)
  have adv: "buf_wf (snd (buf_advance b n))" if "buf_wf b" for b n
    using that buf_drop_wf[of b n] by (auto simp: buf_advance_def buf_drop_def)
  have rest: "\<exists>ok b ctx'. rest (ok0, b0, c0) = Inr (ok, b, ctx') \<and> buf_wf b \<and> ctl_ctx_sane load ctx'
      \<and> (ok \<and> tw_mode c0 = TLS_WRAP_CRYPT \<longrightarrow> tls_crypt_genuine (tw_opt c0) (buf_content b0) (buf_content b))"
    if c0: "ctl_ctx_sane load c0" "buf_wf b0" "0 < b_len b0" for ok0 b0 c0
  proof (cases "ok0 \<and> tw_mode c0 \<noteq> TLS_WRAP_NONE")
    case False
    then show ?thesis using c0(1,2) adv by (cases ok0) (auto simp: rest_def)
  next
    case True
    note cs0 = c0(1)[unfolded ctl_ctx_sane_def]
    show ?thesis
    proof (cases "tw_mode c0")
      case TLS_WRAP_AUTH
      then obtain ok b opt where h: "read_control_hmac now b0 c0 fr = Inr (ok, b, c0\<lparr>tw_opt := opt\<rparr>)" "buf_wf b" "recv_sane opt"
        "kc_cipher (co_decrypt opt) = None" "kc_hmac (co_decrypt opt) \<noteq> None"
        using read_control_hmac_sane[of c0 b0 now fr] cs0 c0(2) assms(4) by auto
      have "ctl_ctx_sane load (c0\<lparr>tw_opt := opt\<rparr>)" using cs0 h(3-5) TLS_WRAP_AUTH by (simp add: ctl_ctx_sane_def recv_sane_def)
      then show ?thesis using True TLS_WRAP_AUTH h(1,2) adv by (cases ok) (auto simp: rest_def)
    next
      case TLS_WRAP_CRYPT
      then obtain ok b opt where h: "read_control_crypt now b0 c0 = Inr (ok, b, c0\<lparr>tw_opt := opt\<rparr>)" "buf_wf b" "ctl_recv_sane opt"
        "ok \<longrightarrow> tls_crypt_genuine (tw_opt c0) (buf_content b0) (buf_content b)"
        using read_control_crypt_sane[of c0 b0 now] cs0 c0(2,3) assms(4) by auto
      have "ctl_ctx_sane load (c0\<lparr>tw_opt := opt\<rparr>)" using cs0 h(3) TLS_WRAP_CRYPT by (simp add: ctl_ctx_sane_def ctl_recv_sane_def)
      then show ?thesis using True TLS_WRAP_CRYPT h(1,2,4) by (cases ok) (auto simp: rest_def)
    qed (use True in simp)
  qed
  show ?thesis
  proof (cases "?op = 10")
    case False
    have "hd (take 1 (buf_content buf)) = hd (buf_content buf)" by (simp add: hd_take)
    then show ?thesis unfolding eq using False rest[OF assms(1-3), of True] by auto
  next
    case True
    then have op10: "drop_bit 3 (hd (buf_content buf)) = (10 :: byte)" by (simp add: hd_take)
    obtain ok b c where ex: "?ex = Inr (ok, b, c)" "buf_wf b"
      "kc_cipher (tw_tls_crypt_v2_server_key c) = None \<or> ctl_key_sane (tw_tls_crypt_v2_server_key c)"
      "tw_mode c = TLS_WRAP_CRYPT \<and> ctl_recv_sane (tw_opt c) \<or> \<not> ok \<and> tw_mode c = tw_mode ctx \<and> tw_opt c = tw_opt ctx"
      "ok \<longrightarrow> b_len b = b_len buf - uint (of_be16 (take 2 (drop (nat (b_len buf - 2)) (buf_content buf))))"
      using extract_client_key_sane[OF assms(2,3), of ctx load script] cs by blast
    have c: "ctl_ctx_sane load c" using ex(3,4) cs by (auto simp: ctl_ctx_sane_def ctl_recv_sane_def split: tls_wrap_mode.splits)
    have e: "read_control_auth load script now fr buf ctx = rest (ok, b, c)" unfolding eq using True ex(1) by simp
    show ?thesis
    proof (cases "ok \<and> b_len b = 0")
      case F: False
      show ?thesis
      proof (cases ok)
        case True
        then have "0 < b_len b" using F buf_wf_bounds[OF ex(2)] by simp
        then show ?thesis unfolding e op10 using rest[OF c ex(2), of ok] by auto
      next
        case False
        then show ?thesis unfolding e op10 using ex(2) c by (auto simp: rest_def)
      qed
    next
      case empty: True
      then have m: "tw_mode c = TLS_WRAP_CRYPT" "ctl_recv_sane (tw_opt c)" using ex(4) by auto
      have "rest (ok, b, c) = Inl Assert_Failed"
      proof -
        have "\<exists>t. alloc_buf (buf_forward_capacity_total b) = Inr t"
          using ex(2) alloc_buf_wf[of "b_capacity b - b_offset b"]
          by (auto simp: buf_forward_capacity_total_def buf_valid_def elim!: buf_wfE)
        then show ?thesis using empty m(1) by (auto simp: rest_def read_control_crypt_def tls_crypt_unwrap_def assertE_def)
      qed
      moreover have "wkc_only buf"
      proof -
        have len: "uint (of_be16 (take 2 (drop (nat (b_len buf - 2)) (buf_content buf)))) = b_len buf" using empty ex(5) by simp
        have "b_len buf \<noteq> 1"
        proof
          assume "b_len buf = 1"
          then show False using len length_buf_content_nat[OF assms(2)] by (cases "buf_content buf") auto
        qed
        then show ?thesis using len True assms(3) by (simp add: wkc_only_def hd_take)
      qed
      ultimately show ?thesis unfolding e by simp
    qed
  qed
qed

section \<open>What one peer wraps the other unwraps\<close>

text \<open>The sender under \<open>--tls-auth\<close>: code, packet identifier, then the packet.\<close>

lemma push_front_steps:
  assumes "buf_wf b" "int (length t) \<le> b_offset b"
  shows "\<exists>b1. buf_prepend b (int (length t)) = (Some (b_offset b - int (length t)), b1) \<and> b_data b1 = b_data b
    \<and> bend b1 = b_offset b + b_len b \<and> buf_poke b1 (b_offset b - int (length t)) t = Inr (buf_push_front b t)"
proof -
  obtain d where d: "b_data b = Some d" "int (length d) = b_capacity b" "0 \<le> b_len b" "b_offset b + b_len b \<le> b_capacity b"
    using assms(1) by (rule buf_wfE)
  then have fit: "b_offset b - int (length t) + int (length t) \<le> int (length d)" by simp
  show ?thesis using d assms(2) mem_write_ok[OF _ fit]
    by (simp add: buf_prepend_def buf_valid_def buf_bptr_def Let_def bend_def buf_len_def buf_poke_def buf_push_front_def)
qed

lemma encrypt_auth_ok:
  assumes "kc_cipher (co_encrypt opt) = None" "kc_hmac (co_encrypt opt) = Some hm" "hmac_sane hm" "co_long_form opt"
    and "packet_id_initialized (co_packet_id opt)" "packet_id_send_update now (pid_send (co_packet_id opt)) True = (True, ps)"
    and "buf_wf buf" "0 < b_len buf" "8 + hm_size hm \<le> b_offset buf"
  shows "\<exists>b. openvpn_encrypt now rnd buf clear_buf (Some opt) = Inr (b, Some (set_pid_send opt ps)) \<and> buf_wf b
    \<and> buf_content b = hm_mac hm (pid_wire ps True @ buf_content buf) @ pid_wire ps True @ buf_content buf"
proof -
  let ?t = "hm_mac hm (pid_wire ps True @ buf_content buf)"
  have t: "int (length ?t) = hm_size hm" "0 \<le> hm_size hm" using assms(3) by (simp_all add: hmac_sane_def)
  have w: "length (pid_wire ps True) = 8" using length_pid_wire[of ps True] by (simp add: packet_id_size_def)
  obtain b1 where b1: "packet_id_write now (pid_send (co_packet_id opt)) buf True True = Inr (True, ps, b1)" "buf_wf b1"
    "buf_content b1 = pid_wire ps True @ buf_content buf" "b_offset b1 = b_offset buf - 8"
  proof -
    let ?x = "be32 (word_of_int (ps_time ps))" and ?i = "be32 (ps_id ps)"
    have b: "buf_write_prepend buf ?x = Inr (True, buf_push_front buf ?x)" "buf_wf (buf_push_front buf ?x)"
      "buf_content (buf_push_front buf ?x) = ?x @ buf_content buf"
      using assms(7,9) t(2) by (simp_all add: buf_write_prepend_push buf_push_front_wf buf_push_front_content)
    have "buf_write_prepend (buf_push_front buf ?x) ?i = Inr (True, buf_push_front (buf_push_front buf ?x) ?i)"
      "buf_wf (buf_push_front (buf_push_front buf ?x) ?i)"
      "buf_content (buf_push_front (buf_push_front buf ?x) ?i) = ?i @ ?x @ buf_content buf"
      using b(2,3) assms(9) t(2) by (simp_all add: buf_write_prepend_push buf_push_front_wf buf_push_front_content)
    then show ?thesis using b(1) assms(6)
      by (intro that[of "buf_push_front (buf_push_front buf ?x) ?i"]) (simp_all add: packet_id_write_def pid_wire_def)
  qed
  have room: "int (length ?t) \<le> b_offset b1" using t(1) b1(4) assms(9) by simp
  obtain b2 where b2: "buf_prepend b1 (hm_size hm) = (Some (b_offset b1 - hm_size hm), b2)" "b_data b2 = b_data b1"
    "bend b2 = b_offset b1 + b_len b1" "buf_poke b2 (b_offset b1 - hm_size hm) ?t = Inr (buf_push_front b1 ?t)"
    using push_front_steps[OF b1(2) room] unfolding t(1) by blast
  have pk: "buf_peek b2 (b_offset b1) (b_len b1) = Inr (pid_wire ps True @ buf_content buf)"
    using buf_peek_content[OF b1(2), of 0 "b_len b1"] b1(3) b2(2) buf_wf_bounds[OF b1(2)] length_buf_content_nat[OF b1(2)]
    by (simp add: buf_peek_def segment_from_0)
  have "plain_v1 now buf clear_buf opt = Inr (Some (b_offset b1 - hm_size hm, b_offset b1), True, b2, set_pid_send opt ps)"
    using assms(2,4,5) b1(1) b2(1)
    by (simp add: plain_v1_def clear_buf_def buf_len_def buf_valid_def co_encrypt_def set_pid_send_def)
  then have "openvpn_encrypt now rnd buf clear_buf (Some opt) = Inr (buf_push_front b1 ?t, Some (set_pid_send opt ps))"
    using assms(1,2,8) pk b2(3,4)
    by (simp add: openvpn_encrypt_def openvpn_encrypt_v1_def sign_v1_def cipher_ctx_get_cipher_kt_def cipher_kt_mode_aead_def Let_def)
  then show ?thesis using buf_push_front_wf[OF b1(2) room] buf_push_front_content[OF b1(2) room] b1(3) by auto
qed

lemma take_drop_parts:
  "length a = n \<Longrightarrow> length b = m \<Longrightarrow> take m (drop n (a @ b @ c)) @ take n (a @ b @ c) @ drop (n + m) (a @ b @ c) = b @ a @ c"
  by simp

lemma control_wrap_auth:
  assumes "tw_mode s = TLS_WRAP_AUTH" "kc_cipher (co_encrypt (tw_opt s)) = None" "kc_hmac (co_encrypt (tw_opt s)) = Some hm" "hmac_sane hm"
    and "co_long_form (tw_opt s)" "packet_id_initialized (co_packet_id (tw_opt s))"
    and "packet_id_send_update now (pid_send (co_packet_id (tw_opt s))) True = (True, ps)"
    and "sid_wf sid" "buf_wf buf" "17 + hm_size hm \<le> b_offset buf"
  shows "\<exists>b s'. control_wrap now rnd key_id opcode sid buf s = Inr (Some b, s') \<and> buf_wf b
    \<and> buf_content b = (let osid = (key_id OR push_bit 3 opcode) # sid_id sid in
         osid @ hm_mac hm (pid_wire ps True @ osid @ buf_content buf) @ pid_wire ps True @ buf_content buf)"
proof -
  let ?h = "key_id OR push_bit 3 opcode" and ?p = "pid_wire ps True"
  have sid: "length (sid_id sid) = 8" using assms(8) by (simp add: sid_wf_def SID_SIZE_def)
  have hs: "0 \<le> hm_size hm" "hm_size hm \<le> 64" "\<And>m. int (length (hm_mac hm m)) = hm_size hm" using assms(4) by (simp_all add: hmac_sane_def)
  let ?b1 = "buf_push_front buf (sid_id sid)" and ?b2 = "buf_push_front (buf_push_front buf (sid_id sid)) [?h]"
  have b1: "buf_write_prepend buf (sid_id sid) = Inr (True, ?b1)" "buf_wf ?b1" "buf_content ?b1 = sid_id sid @ buf_content buf"
    using assms(9,10) sid hs(1) by (simp_all add: buf_write_prepend_push buf_push_front_wf buf_push_front_content)
  have b2: "buf_write_prepend ?b1 [?h] = Inr (True, ?b2)" "buf_wf ?b2" "buf_content ?b2 = ?h # sid_id sid @ buf_content buf"
    using b1(2,3) assms(10) sid hs(1) by (simp_all add: buf_write_prepend_push buf_push_front_wf buf_push_front_content)
  let ?t = "hm_mac hm (?p @ buf_content ?b2)"
  have "0 < b_len ?b2" using buf_wf_bounds[OF assms(9)] by simp
  then obtain b3 where b3: "openvpn_encrypt now rnd ?b2 clear_buf (Some (tw_opt s)) = Inr (b3, Some (set_pid_send (tw_opt s) ps))" "buf_wf b3"
    "buf_content b3 = ?t @ ?p @ buf_content ?b2"
    using encrypt_auth_ok[OF assms(2-7) b2(2), of rnd] sid assms(10) by auto
  have hm: "kc_hmac (if False then co_decrypt (set_pid_send (tw_opt s) ps) else co_encrypt (set_pid_send (tw_opt s) ps)) = Some hm"
    using assms(3) by (simp add: co_encrypt_def set_pid_send_def)
  have p8: "length ?p = 8" using length_pid_wire[of ps True] by (simp add: packet_id_size_def)
  have nt: "length ?t = nat (hm_size hm)" using hs(3)[of "?p @ buf_content ?b2"] by simp
  have len: "b_len b3 = hm_size hm + 17 + int (length (buf_content buf))"
    using length_buf_content[OF b3(2)] b3(3) b2(3) hs(3) p8 sid by simp
  obtain b4 where b4: "swap_hmac b3 (set_pid_send (tw_opt s) ps) False = Inr (True, b4)" "buf_wf b4"
    "buf_content b4 = take 9 (drop (nat (hm_size hm) + 8) (buf_content b3)) @ take (nat (hm_size hm) + 8) (buf_content b3)
       @ drop (nat (hm_size hm) + 8 + 9) (buf_content b3)"
    using swap_hmac_ok[OF hm hs(1,2) b3(2)] len by (auto simp: Let_def)
  have "buf_content b4 = (?h # sid_id sid) @ (?t @ ?p) @ buf_content buf"
    unfolding b4(3) using take_drop_parts[of "?t @ ?p" "nat (hm_size hm) + 8" "?h # sid_id sid" 9 "buf_content buf"] b3(3) b2(3) nt p8 sid by simp
  then show ?thesis using assms(1) b1(1) b2(1,3) b3(1) b4(1,2)
    by (simp add: control_wrap_def session_id_write_prepend_def P_OPCODE_SHIFT_def Let_def)
qed

text \<open>The receiver under \<open>--tls-auth\<close>.\<close>

lemma decrypt_auth_accepts:
  assumes "recv_sane opt" "kc_cipher (co_decrypt opt) = None" "kc_hmac (co_decrypt opt) = Some hm" "co_long_form opt"
    and "co_flags opt AND CO_IGNORE_PACKET_ID = 0" "buf_wf b" "buf_content b = hm_mac hm (be32 i @ be32 t @ x) @ be32 i @ be32 t @ x" "1 < now"
  shows "\<exists>acc pid pp w opt'. crypto_check_replay now (co_long_form opt) (co_packet_id opt) (co_pid_persist opt) \<lparr>pin_id = i, pin_time = uint t\<rparr>
        = Inr (acc, pid, pp)
      \<and> openvpn_decrypt now b clear_buf (Some opt) fr ad = Inr (acc, w, Some opt') \<and> buf_wf w \<and> buf_content w = (if acc then x else [])"
proof -
  have hs: "hmac_sane hm" using assms(1,3) by (simp add: recv_sane_def key_sane_def)
  then have l: "int (length (hm_mac hm m)) = hm_size hm" "0 \<le> hm_size hm" for m by (simp_all add: hmac_sane_def)
  have len: "b_len b = hm_size hm + 8 + int (length x)" using length_buf_content[OF assms(6)] assms(7) l by simp
  have nl: "nat (hm_size hm) = length (hm_mac hm (be32 i @ be32 t @ x))" using l by (metis nat_int)
  let ?b = "buf_drop b (hm_size hm)"
  have le: "hm_size hm \<le> b_len b" using len by simp
  note e = verify_v1_eq[OF assms(6) hs le]
  have c: "buf_content ?b = be32 i @ be32 t @ x" unfolding e(3) assms(7) nl by simp
  have v: "verify_v1 (Some hm) b = Inr (Some ?b)" unfolding e(1) c assms(7) nl by simp
  obtain w where w: "packet_id_read ?b True = Inr (True, \<lparr>pin_id = i, pin_time = uint t\<rparr>, w)" "buf_wf w" "buf_content w = x"
    using packet_id_read_long[OF e(2) c] by blast
  have ps: "pid_sane (co_packet_id opt)" "packet_id_initialized (co_packet_id opt)"
    using assms(1) pid_sane_initialized by (auto simp: recv_sane_def)
  obtain acc pid pp where r: "crypto_check_replay now (co_long_form opt) (co_packet_id opt) (co_pid_persist opt) \<lparr>pin_id = i, pin_time = uint t\<rparr>
        = Inr (acc, pid, pp)" using crypto_check_replay_ok[OF ps(1) assms(8)] by blast
  let ?o = "opt\<lparr>co_packet_id := pid, co_pid_persist := pp\<rparr>"
  have "openvpn_decrypt_v1 now b clear_buf opt fr = Inr (acc, if acc then w else ?b\<lparr>b_len := 0\<rparr>, ?o)"
    using len l(2) assms(2-5) v w(1) ps(2) r
    by (simp add: openvpn_decrypt_v1_def finish_v1_def check_replay_def crypt_error_def Let_def)
  then have "openvpn_decrypt now b clear_buf (Some opt) fr ad = Inr (acc, if acc then w else ?b\<lparr>b_len := 0\<rparr>, Some ?o)"
    using len l(2) assms(2) by (simp add: openvpn_decrypt_def cipher_ctx_get_cipher_kt_def cipher_kt_mode_aead_def)
  moreover have "buf_wf (?b\<lparr>b_len := 0\<rparr>)" "buf_content (?b\<lparr>b_len := 0\<rparr>) = []"
    using crypt_error_wf[OF e(2)] length_buf_content_nat[OF crypt_error_wf[OF e(2)]] by simp_all
  ultimately show ?thesis using r w(2,3) by (intro exI[of _ acc] exI[of _ pid] exI[of _ pp]) auto
qed

lemma read_control_hmac_accepts:
  assumes "recv_sane (tw_opt r)" "kc_cipher (co_decrypt (tw_opt r)) = None" "kc_hmac (co_decrypt (tw_opt r)) = Some hm" "co_long_form (tw_opt r)"
    and "co_flags (tw_opt r) AND CO_IGNORE_PACKET_ID = 0" "buf_wf rb" "1 < now" "length osid = 9"
    and "buf_content rb = osid @ hm_mac hm (be32 i @ be32 t @ osid @ x) @ (be32 i @ be32 t) @ x"
  shows "\<exists>acc pid pp b r'. crypto_check_replay now (co_long_form (tw_opt r)) (co_packet_id (tw_opt r)) (co_pid_persist (tw_opt r))
        \<lparr>pin_id = i, pin_time = uint t\<rparr> = Inr (acc, pid, pp)
      \<and> read_control_hmac now rb r fr = Inr (acc, b, r') \<and> tw_mode r' = tw_mode r \<and> buf_wf b \<and> (acc \<longrightarrow> buf_content b = osid @ x)"
proof -
  have hs: "hmac_sane hm" using assms(1,3) by (simp add: recv_sane_def key_sane_def)
  then have l: "int (length (hm_mac hm m)) = hm_size hm" "0 \<le> hm_size hm" "hm_size hm \<le> 64" for m by (simp_all add: hmac_sane_def)
  let ?tag = "hm_mac hm (be32 i @ be32 t @ osid @ x)"
  have nl: "nat (hm_size hm) = length ?tag" using l by (metis nat_int)
  have len: "b_len rb = 17 + hm_size hm + int (length x)" using length_buf_content[OF assms(6)] assms(8,9) l by simp
  have k: "kc_hmac (if True then co_decrypt (tw_opt r) else co_encrypt (tw_opt r)) = Some hm" using assms(3) by simp
  obtain b where b: "swap_hmac rb (tw_opt r) True = Inr (True, b)" "buf_wf b"
    "buf_content b = take (nat (hm_size hm) + 8) (drop 9 (buf_content rb)) @ take 9 (buf_content rb) @ drop (9 + (nat (hm_size hm) + 8)) (buf_content rb)"
    using swap_hmac_ok[OF k l(2,3) assms(6)] len by (auto simp: Let_def)
  have "buf_content b = ?tag @ be32 i @ be32 t @ osid @ x"
    unfolding b(3) using take_drop_parts[of osid 9 "?tag @ be32 i @ be32 t" "nat (hm_size hm) + 8" x] nl assms(8,9) by simp
  from decrypt_auth_accepts[OF assms(1-5) b(2) this assms(7), of fr "b_offset b"] obtain acc pid pp w o' where
    d: "crypto_check_replay now (co_long_form (tw_opt r)) (co_packet_id (tw_opt r)) (co_pid_persist (tw_opt r)) \<lparr>pin_id = i, pin_time = uint t\<rparr>
        = Inr (acc, pid, pp)"
      "openvpn_decrypt now b clear_buf (Some (tw_opt r)) fr (b_offset b) = Inr (acc, w, Some o')" "buf_wf w"
      "buf_content w = (if acc then osid @ x else [])" by blast
  have "b_len w = int (length (buf_content w))" using d(3) by simp
  then have "(b_len w \<noteq> 0) = acc" using d(4) assms(8) by (cases acc) auto
  then have "read_control_hmac now rb r fr = Inr (acc, w, r\<lparr>tw_opt := o'\<rparr>)"
    using b(1) assms(2) d(2) by (simp add: read_control_hmac_def)
  then show ?thesis using d(1,3,4) by auto
qed

text \<open>The sender under \<open>--tls-crypt\<close>; with \<open>P_CONTROL_HARD_RESET_CLIENT_V3\<close> the wrapped client key follows.\<close>

definition crypt_keys :: "'s crypto_options \<Rightarrow> 't crypto_options \<Rightarrow> 's cipher_ctx \<Rightarrow> 't cipher_ctx \<Rightarrow> hmac_ctx \<Rightarrow> bool" where
  "crypt_keys s r ce cd hm \<longleftrightarrow> kc_cipher (co_encrypt s) = Some ce \<and> kc_hmac (co_encrypt s) = Some hm
     \<and> kc_cipher (co_decrypt r) = Some cd \<and> kc_hmac (co_decrypt r) = Some hm \<and> ctl_hmac_sane hm \<and> stream_pair ce cd"

lemma control_wrap_crypt:
  assumes "tw_mode s = TLS_WRAP_CRYPT" "crypt_keys (tw_opt s) r ce cd hm"
    and "packet_id_initialized (co_packet_id (tw_opt s))" "packet_id_send_update now (pid_send (co_packet_id (tw_opt s))) True = (True, ps)"
    and "sid_wf sid" "buf_wf buf" "buf_wf (tw_work s)" "b_offset buf + b_len buf + 65 \<le> b_capacity (tw_work s)"
    and "opcode = 10 \<Longrightarrow> \<exists>w. tw_tls_crypt_v2_wkc s = Some w \<and> buf_wf w \<and> buf_content w = wkc
      \<and> b_offset buf + b_len buf + 65 + int (length wkc) \<le> b_capacity (tw_work s)" "opcode \<noteq> 10 \<Longrightarrow> wkc = []"
  shows "\<exists>b s' ct. control_wrap now rnd key_id opcode sid buf s = Inr (Some b, s') \<and> buf_wf b \<and> length ct = length (buf_content buf)
    \<and> (let hd17 = (key_id OR push_bit 3 opcode) # sid_id sid @ pid_wire ps True; tag = hm_mac hm (hd17 @ buf_content buf) in
       buf_content b = hd17 @ tag @ ct @ wkc
       \<and> (\<forall>t. fst (cc_reset cd t (take 16 tag))
          \<and> (\<exists>t1. cc_update cd (snd (cc_reset cd t (take 16 tag))) ct = (Some (buf_content buf), t1) \<and> fst (cc_final cd t1) = Some [])))"
proof -
  let ?h = "key_id OR push_bit 3 opcode"
  have sid: "length (sid_id sid) = 8" using assms(5) by (simp add: sid_wf_def SID_SIZE_def)
  have p8: "length (pid_wire ps True) = 8" using length_pid_wire[of ps True] by (simp add: packet_id_size_def)
  have k: "kc_cipher (co_encrypt (tw_opt s)) = Some ce" "kc_hmac (co_encrypt (tw_opt s)) = Some hm" "ctl_hmac_sane hm" "stream_pair ce cd"
    using assms(2) by (simp_all add: crypt_keys_def)
  note wf = buf_wf_bounds[OF assms(6)]
  let ?w = "(tw_work s)\<lparr>b_len := 0, b_offset := b_offset buf\<rparr>"
  have w: "buf_init_dowork (tw_work s) (b_offset buf) = (True, ?w)" "buf_wf ?w"
    using assms(7,8) wf buf_init_wf[OF assms(7), of "b_offset buf"] by (simp_all add: buf_init_dowork_ok)
  have c0: "buf_content ?w = []" using length_buf_content_nat[OF w(2)] by simp
  let ?w1 = "buf_append ?w [?h]" and ?w2 = "buf_append (buf_append ?w [?h]) (sid_id sid)"
  have w1: "buf_write ?w [?h] = Inr (True, ?w1)" "buf_wf ?w1" "buf_content ?w1 = [?h]"
    using w(2) c0 assms(8) wf by (simp_all add: buf_write_append buf_append_wf buf_append_content)
  have w2: "buf_write ?w1 (sid_id sid) = Inr (True, ?w2)" "buf_wf ?w2" "buf_content ?w2 = ?h # sid_id sid"
    using w1(2,3) assms(8) wf sid by (simp_all add: buf_write_append buf_append_wf buf_append_content)
  have room: "b_len buf + 56 \<le> buf_room ?w2" using assms(8) sid by simp
  obtain b o' ct where b: "tls_crypt_wrap now buf ?w2 (tw_opt s) = Inr (True, b, o')" "buf_wf b"
    "buf_content b = (?h # sid_id sid) @ pid_wire ps True @ hm_mac hm ((?h # sid_id sid) @ pid_wire ps True @ buf_content buf) @ ct"
    "b_offset b = b_offset ?w2" "b_capacity b = b_capacity ?w2" "length ct = length (buf_content buf)"
    "\<And>t. fst (cc_reset cd t (take 16 (hm_mac hm ((?h # sid_id sid) @ pid_wire ps True @ buf_content buf))))
       \<and> (\<exists>t1. cc_update cd (snd (cc_reset cd t (take 16 (hm_mac hm ((?h # sid_id sid) @ pid_wire ps True @ buf_content buf))))) ct
            = (Some (buf_content buf), t1) \<and> fst (cc_final cd t1) = Some [])"
    using tls_crypt_wrap_ok[OF k(1-4) assms(3,4,6) w2(2) room] unfolding w2(3) by blast
  let ?tag = "hm_mac hm ((?h # sid_id sid) @ pid_wire ps True @ buf_content buf)"
  have lt: "length ?tag = 32" using k(3) by (simp add: ctl_hmac_sane_def)
  have lb: "b_len b = 49 + b_len buf"
  proof -
    have "int (length (buf_content b)) = int (17 + 32 + length (buf_content buf))" unfolding b(3) using lt p8 sid b(6) by simp
    then show ?thesis using length_buf_content[OF b(2)] length_buf_content[OF assms(6)] by simp
  qed
  have "\<exists>b'. (if opcode = 10 then (case tw_tls_crypt_v2_wkc s of None \<Rightarrow> Inl Mem_Fault | Some wkc \<Rightarrow> buf_copy b wkc) else Inr (True, b)) = Inr (True, b')
    \<and> buf_wf b' \<and> buf_content b' = buf_content b @ wkc"
  proof (cases "opcode = 10")
    case False
    then show ?thesis using assms(10) b(2) by simp
  next
    case True
    then obtain v where v: "tw_tls_crypt_v2_wkc s = Some v" "buf_wf v" "buf_content v = wkc"
      "b_offset buf + b_len buf + 65 + int (length wkc) \<le> b_capacity (tw_work s)" using assms(9) by blast
    have "b_len v = int (length wkc)" using v(2,3) by (metis length_buf_content)
    then have "b_len v \<le> buf_room b" and r: "int (length wkc) \<le> buf_room b" using v(4) b(4,5) lb by simp_all
    then show ?thesis using True v(1-3) b(2) buf_append_wf[OF b(2) r] buf_append_content[OF b(2) r] by (simp add: buf_copy_append)
  qed
  then obtain b' where b': "(if opcode = 10 then (case tw_tls_crypt_v2_wkc s of None \<Rightarrow> Inl Mem_Fault | Some wkc \<Rightarrow> buf_copy b wkc) else Inr (True, b))
    = Inr (True, b')" "buf_wf b'" "buf_content b' = buf_content b @ wkc" by blast
  have "control_wrap now rnd key_id opcode sid buf s = Inr (Some b', s\<lparr>tw_work := b', tw_opt := o'\<rparr>)"
    using assms(1) w(1) w1(1) w2(1) b(1) b'(1)
    by (simp add: control_wrap_def session_id_write_def P_OPCODE_SHIFT_def P_CONTROL_HARD_RESET_CLIENT_V3_def Let_def)
  then show ?thesis using b'(2,3) b(3,6,7) by (intro exI[of _ b'] exI[of _ "s\<lparr>tw_work := b', tw_opt := o'\<rparr>"] exI[of _ ct]) (simp add: Let_def)
qed

lemma opcode_of_header:
  assumes "key_id < (8 :: byte)" "opcode < 32"
  shows "drop_bit 3 (key_id OR push_bit 3 opcode) = opcode"
proof -
  have a: "drop_bit 3 key_id = 0" using assms(1) by (simp add: word_less_nat_alt drop_bit_eq_div unat_div flip: unat_eq_0)
  have "drop_bit 3 (push_bit 3 opcode) = opcode" 
  proof -
    have "unat opcode < 32" using assms(2) by (simp add: word_less_nat_alt)
    then have "unat (push_bit 3 opcode) = 8 * unat opcode"
      by (simp add: push_bit_eq_mult unat_word_ariths)
    then show ?thesis by (simp add: drop_bit_eq_div unat_div word_unat_eq_iff)
  qed
  then show ?thesis using a by (simp add: drop_bit_or)
qed

text \<open>Two contexts with matching keys, and a control packet on its way from the one to the other.\<close>

definition wrap_pair :: "'s tls_wrap_ctx \<Rightarrow> 't tls_wrap_ctx \<Rightarrow> bool" where
  "wrap_pair s r \<longleftrightarrow> tw_mode s = tw_mode r \<and> packet_id_initialized (co_packet_id (tw_opt s))
     \<and> co_flags (tw_opt r) AND CO_IGNORE_PACKET_ID = 0
     \<and> (case tw_mode r of
          TLS_WRAP_NONE \<Rightarrow> kc_cipher (tw_tls_crypt_v2_server_key r) = None
        | TLS_WRAP_AUTH \<Rightarrow> kc_cipher (co_encrypt (tw_opt s)) = None \<and> kc_cipher (co_decrypt (tw_opt r)) = None
            \<and> kc_hmac (co_encrypt (tw_opt s)) \<noteq> None \<and> kc_hmac (co_decrypt (tw_opt r)) = kc_hmac (co_encrypt (tw_opt s))
            \<and> co_long_form (tw_opt s) \<and> co_long_form (tw_opt r) \<and> recv_sane (tw_opt r)
        | TLS_WRAP_CRYPT \<Rightarrow> (\<exists>ce cd hm. crypt_keys (tw_opt s) (tw_opt r) ce cd hm) \<and> ctl_recv_sane (tw_opt r))"

definition send_control ::
  "(byte list \<Rightarrow> bool \<Rightarrow> 't key_ctx_bi) \<Rightarrow> (int \<Rightarrow> byte list \<Rightarrow> bool) option \<Rightarrow> int \<Rightarrow> int \<Rightarrow> (nat \<Rightarrow> byte) \<Rightarrow> frame
    \<Rightarrow> byte \<Rightarrow> byte \<Rightarrow> session_id \<Rightarrow> buffer \<Rightarrow> 's tls_wrap_ctx \<Rightarrow> buffer \<Rightarrow> 't tls_wrap_ctx \<Rightarrow> (bool \<times> buffer \<times> 't tls_wrap_ctx) option res" where
  "send_control load script now now' rnd fr key_id opcode sid buf s rb r =
     bindE (control_wrap now rnd key_id opcode sid buf s) (\<lambda>(b, _). case b of None \<Rightarrow> Inr None | Some b \<Rightarrow>
     bindE (buf_copy rb b) (\<lambda>(_, rb). bindE (read_control_auth load script now' fr rb r) (\<lambda>x. Inr (Some x))))"

definition passes_replay :: "int \<Rightarrow> 's crypto_options \<Rightarrow> packet_id_send \<Rightarrow> bool" where
  "passes_replay now opt ps \<longleftrightarrow> (\<exists>pid pp. crypto_check_replay now (co_long_form opt) (co_packet_id opt) (co_pid_persist opt)
     \<lparr>pin_id = ps_id ps, pin_time = uint (word_of_int (ps_time ps) :: u32)\<rparr> = Inr (True, pid, pp))"

lemma read_control_auth_plain:
  assumes "buf_wf rb" "buf_content rb = h # x" "drop_bit 3 h \<noteq> 10"
    and "(if tw_mode r = TLS_WRAP_AUTH then read_control_hmac now rb r fr
      else if tw_mode r = TLS_WRAP_CRYPT then read_control_crypt now rb r
      else Inr (kc_cipher (tw_tls_crypt_v2_server_key r) = None, rb, r)) = Inr (acc, b, r')"
    and "tw_mode r' = tw_mode r"
  shows "read_control_auth load script now fr rb r
    = Inr (acc, if acc \<and> tw_mode r \<noteq> TLS_WRAP_CRYPT then snd (buf_advance b 9) else b, r')"
proof -
  have "1 \<le> b_len rb" using length_buf_content[OF assms(1)] assms(2) by simp
  then have "buf_peek rb (b_offset rb) 1 = Inr [h]" using buf_peek_front[OF assms(1), of 0 1] assms(2) by simp
  then show ?thesis using assms(3-5)
    by (cases "tw_mode r") (auto simp: read_control_auth_def P_OPCODE_SHIFT_def P_CONTROL_HARD_RESET_CLIENT_V3_def SID_SIZE_def Let_def)
qed

lemma advance_content:
  assumes "buf_wf b" "buf_content b = x @ y" "length x = n"
  shows "buf_content (snd (buf_advance b (int n))) = y"
  using buf_advance_drop[OF assms(1), of "int n"] buf_drop_content[OF assms(1), of "int n"] length_buf_content[OF assms(1)] assms(2,3) by simp

lemma pid_wire_pin:
  "length (x :: byte list) = 9 \<Longrightarrow> tls_crypt_pin (x @ pid_wire ps True @ y)
     = \<lparr>pin_id = ps_id ps, pin_time = uint (word_of_int (ps_time ps) :: u32)\<rparr>"
  by (simp add: tls_crypt_pin_def pid_wire_def)

text \<open>
  C9. What \<open>write_control_auth\<close> wraps \<open>read_control_auth\<close> of the peer unwraps: with matching keys, in every wrapping mode, a
  control packet comes out as the acknowledgments and payload that were put in, if and only if its identifier passes
  the replay check (without wrapping there is none); otherwise it is dropped. Neither side faults. The library only
  has to decrypt what it encrypted, the HMAC may be any function.
\<close>

theorem control_wrap_roundtrip:
  assumes "wrap_pair s r" "packet_id_send_update now (pid_send (co_packet_id (tw_opt s))) True = (True, ps)"
    and "sid_wf sid" "key_id < 8" "opcode < 32" "opcode \<noteq> P_CONTROL_HARD_RESET_CLIENT_V3" "1 < now'"
    and "buf_wf buf" "81 \<le> b_offset buf" "buf_wf (tw_work s)" "b_offset buf + b_len buf + 65 \<le> b_capacity (tw_work s)"
    and "buf_wf rb" "b_len rb = 0" "b_len buf + 81 \<le> buf_room rb"
  shows "\<exists>acc b r'. send_control load script now now' rnd fr key_id opcode sid buf s rb r = Inr (Some (acc, b, r'))
    \<and> acc = (tw_mode r = TLS_WRAP_NONE \<or> passes_replay now' (tw_opt r) ps) \<and> (acc \<longrightarrow> buf_content b = buf_content buf)"
proof -
  note wp = assms(1)[unfolded wrap_pair_def]
  let ?h = "key_id OR push_bit 3 opcode" and ?p = "pid_wire ps True"
  have op: "drop_bit 3 ?h = opcode" "drop_bit 3 ?h \<noteq> 10" "opcode \<noteq> 10"
    using opcode_of_header[OF assms(4,5)] assms(6) by (simp_all add: P_CONTROL_HARD_RESET_CLIENT_V3_def)
  have sid: "length (sid_id sid) = 8" using assms(3) by (simp add: sid_wf_def SID_SIZE_def)
  have p8: "length ?p = 8" using length_pid_wire[of ps True] by (simp add: packet_id_size_def)
  have lbuf: "int (length (buf_content buf)) = b_len buf" using assms(8) by simp
  have rb0: "buf_content rb = []" using length_buf_content_nat[OF assms(12)] assms(13) by simp
  have deliver: "send_control load script now now' rnd fr key_id opcode sid buf s rb r
      = bindE (read_control_auth load script now' fr (buf_append rb (buf_content b)) r) (\<lambda>x. Inr (Some x))"
    and rb: "buf_wf (buf_append rb (buf_content b))" "buf_content (buf_append rb (buf_content b)) = buf_content b"
    if "control_wrap now rnd key_id opcode sid buf s = Inr (Some b, s')" "buf_wf b" "int (length (buf_content b)) \<le> b_len buf + 81" for b s'
    using that assms(12,14) rb0 by (simp_all add: send_control_def buf_copy_append buf_append_wf buf_append_content)
  show ?thesis
  proof (cases "tw_mode r")
    case TLS_WRAP_NONE
    then have m: "tw_mode s = TLS_WRAP_NONE" "kc_cipher (tw_tls_crypt_v2_server_key r) = None" using wp by simp_all
    let ?b = "buf_push_front (buf_push_front buf (sid_id sid)) [?h]"
    have b1: "buf_write_prepend buf (sid_id sid) = Inr (True, buf_push_front buf (sid_id sid))" "buf_wf (buf_push_front buf (sid_id sid))"
      "buf_content (buf_push_front buf (sid_id sid)) = sid_id sid @ buf_content buf"
      using assms(8,9) sid by (simp_all add: buf_write_prepend_push buf_push_front_wf buf_push_front_content)
    have b: "buf_write_prepend (buf_push_front buf (sid_id sid)) [?h] = Inr (True, ?b)" "buf_wf ?b" "buf_content ?b = (?h # sid_id sid) @ buf_content buf"
      using b1(2,3) assms(9) sid by (simp_all add: buf_write_prepend_push buf_push_front_wf buf_push_front_content)
    have cw: "control_wrap now rnd key_id opcode sid buf s = Inr (Some ?b, s)"
      using m(1) b1(1) b(1) by (simp add: control_wrap_def session_id_write_prepend_def P_OPCODE_SHIFT_def Let_def)
    have fit: "int (length (buf_content ?b)) \<le> b_len buf + 81" unfolding b(3) using sid lbuf by simp
    let ?rb = "buf_append rb (buf_content ?b)"
    have c: "buf_content ?rb = ?h # sid_id sid @ buf_content buf" using rb(2)[OF cw b(2) fit] b(3) by simp
    have "read_control_auth load script now' fr ?rb r = Inr (True, snd (buf_advance ?rb 9), r)"
      using read_control_auth_plain[OF rb(1)[OF cw b(2) fit] c op(2), of r now' fr True ?rb r load script] TLS_WRAP_NONE m(2) by simp
    then show ?thesis using deliver[OF cw b(2) fit] TLS_WRAP_NONE advance_content[OF rb(1)[OF cw b(2) fit], of "?h # sid_id sid" "buf_content buf" 9] c sid
      by (intro exI[of _ True]) simp
  next
    case TLS_WRAP_AUTH
    then obtain hm where m: "tw_mode s = TLS_WRAP_AUTH" "kc_cipher (co_encrypt (tw_opt s)) = None" "kc_cipher (co_decrypt (tw_opt r)) = None"
      "kc_hmac (co_encrypt (tw_opt s)) = Some hm" "kc_hmac (co_decrypt (tw_opt r)) = Some hm" "co_long_form (tw_opt s)" "co_long_form (tw_opt r)"
      "recv_sane (tw_opt r)" "packet_id_initialized (co_packet_id (tw_opt s))" "co_flags (tw_opt r) AND CO_IGNORE_PACKET_ID = 0"
      using wp by auto
    have hs: "hmac_sane hm" using m(5,8) by (simp add: recv_sane_def key_sane_def)
    then have hl: "\<And>m. int (length (hm_mac hm m)) = hm_size hm" "0 \<le> hm_size hm" "hm_size hm \<le> 64" by (simp_all add: hmac_sane_def)
    let ?osid = "?h # sid_id sid"
    let ?t = "hm_mac hm (?p @ ?osid @ buf_content buf)"
    obtain b s' where b: "control_wrap now rnd key_id opcode sid buf s = Inr (Some b, s')" "buf_wf b"
      "buf_content b = ?osid @ ?t @ ?p @ buf_content buf"
      using control_wrap_auth[OF m(1,2,4) hs m(6,9) assms(2,3,8), of rnd key_id opcode] assms(9) hl(3) by (auto simp: Let_def)
    have fit: "int (length (buf_content b)) \<le> b_len buf + 81"
      unfolding b(3) using sid p8 lbuf hl(3) hl(1)[of "?p @ ?osid @ buf_content buf"] by simp
    note rbs = rb[OF b(1,2) fit]
    let ?rb = "buf_append rb (buf_content b)"
    let ?i = "ps_id ps" and ?ti = "word_of_int (ps_time ps) :: u32"
    have "buf_content ?rb = ?osid @ hm_mac hm (be32 ?i @ be32 ?ti @ ?osid @ buf_content buf) @ (be32 ?i @ be32 ?ti) @ buf_content buf"
      using rbs(2) b(3) by (simp add: pid_wire_def)
    from read_control_hmac_accepts[OF m(8,3,5,7,10) rbs(1) assms(7) _ this, of fr] sid obtain acc pid pp w r' where
      a: "crypto_check_replay now' (co_long_form (tw_opt r)) (co_packet_id (tw_opt r)) (co_pid_persist (tw_opt r)) \<lparr>pin_id = ?i, pin_time = uint ?ti\<rparr>
          = Inr (acc, pid, pp)" "read_control_hmac now' ?rb r fr = Inr (acc, w, r')" "tw_mode r' = tw_mode r" "buf_wf w"
        "acc \<longrightarrow> buf_content w = ?osid @ buf_content buf" by auto
    have c: "buf_content ?rb = ?h # (sid_id sid @ ?t @ ?p @ buf_content buf)" using rbs(2) b(3) by simp
    have "read_control_auth load script now' fr ?rb r = Inr (acc, if acc then snd (buf_advance w 9) else w, r')"
      using read_control_auth_plain[OF rbs(1) c op(2), of r now' fr acc w r' load script] TLS_WRAP_AUTH a(2,3) by simp
    moreover have "acc = passes_replay now' (tw_opt r) ps" using a(1) by (simp add: passes_replay_def)
    moreover have "acc \<longrightarrow> buf_content (snd (buf_advance w 9)) = buf_content buf"
      using advance_content[OF a(4), of ?osid "buf_content buf" 9] a(5) sid by simp
    ultimately show ?thesis using deliver[OF b(1,2) fit] TLS_WRAP_AUTH by simp
  next
    case TLS_WRAP_CRYPT
    then obtain ce cd hm where m: "tw_mode s = TLS_WRAP_CRYPT" "crypt_keys (tw_opt s) (tw_opt r) ce cd hm" "ctl_recv_sane (tw_opt r)"
      "packet_id_initialized (co_packet_id (tw_opt s))" "co_flags (tw_opt r) AND CO_IGNORE_PACKET_ID = 0"
      using wp by auto
    let ?hd = "?h # sid_id sid @ ?p"
    let ?t = "hm_mac hm (?hd @ buf_content buf)"
    obtain b s' ct where b: "control_wrap now rnd key_id opcode sid buf s = Inr (Some b, s')" "buf_wf b" "length ct = length (buf_content buf)"
      "buf_content b = ?hd @ ?t @ ct"
      "\<And>t. fst (cc_reset cd t (take 16 ?t)) \<and> (\<exists>t1. cc_update cd (snd (cc_reset cd t (take 16 ?t))) ct = (Some (buf_content buf), t1)
        \<and> fst (cc_final cd t1) = Some [])"
      using control_wrap_crypt[OF m(1,2,4) assms(2,3,8,10,11), of opcode "[]" rnd key_id] op(3) by (auto simp: Let_def)
    have k: "kc_cipher (co_decrypt (tw_opt r)) = Some cd" "kc_hmac (co_decrypt (tw_opt r)) = Some hm" "length ?t = 32" "ck_iv_size (cc_kt cd) = 16"
      using m(2) by (simp_all add: crypt_keys_def ctl_hmac_sane_def stream_pair_def)
    have fit: "int (length (buf_content b)) \<le> b_len buf + 81" unfolding b(4) using sid p8 lbuf k(3) b(3) by simp
    note rbs = rb[OF b(1,2) fit]
    let ?rb = "buf_append rb (buf_content b)"
    have c: "buf_content ?rb = ?hd @ ?t @ ct" using rbs(2) b(4) by simp
    have h17: "length ?hd = 17" using sid p8 by simp
    obtain t1 where dec: "fst (cc_reset cd (cc_state cd) (take 16 ?t))" "cc_update cd (snd (cc_reset cd (cc_state cd) (take 16 ?t))) ct = (Some (buf_content buf), t1)"
      "fst (cc_final cd t1) = Some []" using b(5) by blast
    from read_control_crypt_accepts[OF m(3) k(1,2,4) rbs(1) c h17 k(3) b(3) dec refl assms(7) m(5)] obtain acc pid pp w r' where
      a: "crypto_check_replay now' (co_long_form (tw_opt r)) (co_packet_id (tw_opt r)) (co_pid_persist (tw_opt r)) (tls_crypt_pin ?hd) = Inr (acc, pid, pp)"
        "read_control_crypt now' ?rb r = Inr (acc, w, r')" "tw_mode r' = tw_mode r" "acc \<longrightarrow> buf_content w = buf_content buf" by blast
    have pin: "tls_crypt_pin ?hd = \<lparr>pin_id = ps_id ps, pin_time = uint (word_of_int (ps_time ps) :: u32)\<rparr>"
      using pid_wire_pin[of "?h # sid_id sid" ps "[]"] sid by simp
    have c2: "buf_content ?rb = ?h # (sid_id sid @ ?p @ ?t @ ct)" using c by simp
    have "read_control_auth load script now' fr ?rb r = Inr (acc, w, r')"
      using read_control_auth_plain[OF rbs(1) c2 op(2), of r now' fr acc w r' load script] TLS_WRAP_CRYPT a(2,3) by simp
    moreover have "acc = passes_replay now' (tw_opt r) ps" using a(1) pin by (simp add: passes_replay_def)
    ultimately show ?thesis using deliver[OF b(1,2) fit] TLS_WRAP_CRYPT a(4) by simp
  qed
qed

section \<open>An example of a library and keys\<close>

text \<open>A stream cipher that adds the sum of the IV to every byte, and a checksum for the HMAC.\<close>

definition demo_stream :: "bool \<Rightarrow> byte cipher_ctx" where
  "demo_stream enc = \<lparr>cc_kt = \<lparr>ck_mode = OTHER_MODE, ck_aead = False, ck_iv_size = 16, ck_block_size = 1\<rparr>, cc_state = 0,
     cc_reset = (\<lambda>s iv. (True, demo_sum iv)), cc_update_ad = (\<lambda>s ad. (True, s)),
     cc_update = (\<lambda>s x. (Some (map (\<lambda>b. if enc then b + s else b - s) x), s)), cc_final = (\<lambda>s. (Some [], s)),
     cc_get_tag = (\<lambda>s n. (None, s)), cc_final_check_tag = (\<lambda>s tag. (None, s))\<rparr>"

definition demo_hmac :: hmac_ctx where
  "demo_hmac = \<lparr>hm_size = 32, hm_mac = (\<lambda>m. 80 # replicate 31 (demo_sum m))\<rparr>"

lemma demo_updates: "\<exists>s1. updates (demo_stream True) s xs = Some (map (\<lambda>b. b + s) (concat xs), s1) \<and> s1 = s"
  by (induction xs) (auto simp: demo_stream_def)

lemma demo_stream_pair: "stream_pair (demo_stream True) (demo_stream False)"
  using demo_updates by (auto simp: stream_pair_def) (simp_all add: demo_stream_def comp_def)

lemma demo_hmac_sane: "ctl_hmac_sane demo_hmac" "hmac_sane demo_hmac"
  by (simp_all add: ctl_hmac_sane_def hmac_sane_def demo_hmac_def)

lemma demo_stream_sane: "ctl_cipher_sane (demo_stream enc)"
  by (auto simp: ctl_cipher_sane_def cipher_bounded_def demo_stream_def)

definition demo_ctl_key :: "bool \<Rightarrow> byte key_ctx" where
  "demo_ctl_key enc = \<lparr>kc_cipher = Some (demo_stream enc), kc_hmac = Some demo_hmac, kc_implicit_iv = replicate 16 0, kc_implicit_iv_len = 0\<rparr>"

definition demo_load :: "byte list \<Rightarrow> bool \<Rightarrow> byte key_ctx_bi" where
  "demo_load keys server = \<lparr>kb_encrypt = demo_ctl_key True, kb_decrypt = demo_ctl_key False, kb_initialized = True\<rparr>"

definition demo_ctl_opt :: "byte crypto_options" where
  "demo_ctl_opt = \<lparr>co_key_ctx_bi = demo_load [] True, co_packet_id = demo_pid, co_pid_persist = None, co_flags = 1\<rparr>"

definition demo_big :: "byte list \<Rightarrow> buffer" where
  "demo_big x = \<lparr>b_capacity = 2000, b_offset = 100, b_len = int (length x),
     b_data = Some (replicate 100 0 @ x @ replicate (1900 - length x) 0)\<rparr>"

definition demo_ctx :: "tls_wrap_mode \<Rightarrow> byte tls_wrap_ctx" where
  "demo_ctx m = \<lparr>tw_mode = m, tw_opt = demo_ctl_opt, tw_work = demo_big [], tw_tls_crypt_v2_server_key = demo_ctl_key False,
     tw_tls_crypt_v2_wkc = None, tw_tls_crypt_v2_metadata = clear_buf, tw_cleanup_key_ctx = False\<rparr>"

lemma demo_big_wf: "length x \<le> 1900 \<Longrightarrow> buf_wf (demo_big x)" "length x \<le> 1900 \<Longrightarrow> buf_content (demo_big x) = x"
  by (simp_all add: demo_big_def buf_wf_def BUF_SIZE_MAX_def buf_content_def segment_def)

lemma demo_ctl_recv: "ctl_recv_sane demo_ctl_opt" "pid_sane demo_pid"
proof -
  show p: "pid_sane demo_pid" using demo_recv by (simp add: recv_sane_def demo_opt_def)
  show "ctl_recv_sane demo_ctl_opt" using p demo_hmac_sane demo_stream_sane[of False]
    by (simp add: ctl_recv_sane_def ctl_key_sane_def demo_ctl_opt_def co_decrypt_def demo_load_def demo_ctl_key_def)
qed

lemma demo_crypt_keys: "crypt_keys demo_ctl_opt demo_ctl_opt (demo_stream True) (demo_stream False) demo_hmac"
  using demo_hmac_sane demo_stream_pair
  by (simp add: crypt_keys_def demo_ctl_opt_def co_encrypt_def co_decrypt_def demo_load_def demo_ctl_key_def)

lemma demo_passes: "passes_replay 100 demo_ctl_opt \<lparr>ps_id = 1, ps_time = 50\<rparr>"
proof -
  have "case crypto_check_replay 100 (co_long_form demo_ctl_opt) (co_packet_id demo_ctl_opt) (co_pid_persist demo_ctl_opt)
      \<lparr>pin_id = 1, pin_time = 50\<rparr> of Inl _ \<Rightarrow> False | Inr (ok, _, _) \<Rightarrow> ok" by code_simp
  then show ?thesis by (auto simp: passes_replay_def split: sum.splits)
qed

theorem read_control_auth_safe_witness:
  "\<exists>ok b ctx'. read_control_auth demo_load None 100 demo_frame (demo_big [56, 1, 2]) (demo_ctx TLS_WRAP_CRYPT) = Inr (ok, b, ctx')"
proof -
  have c: "ctl_ctx_sane demo_load (demo_ctx TLS_WRAP_CRYPT)"
    using demo_ctl_recv demo_hmac_sane demo_stream_sane
    by (auto simp: ctl_ctx_sane_def demo_ctx_def demo_load_def ctl_key_sane_def demo_ctl_key_def) (simp add: demo_ctl_opt_def)
  have b: "buf_wf (demo_big [56, 1, 2])" "0 < b_len (demo_big [56, 1, 2])" by (simp_all add: demo_big_wf) (simp add: demo_big_def)
  have "\<not> wkc_only (demo_big [56, 1, 2])" by (simp add: wkc_only_def demo_big_wf drop_bit_eq_div)
  then show ?thesis using read_control_auth_safe[OF c b, of 100 None demo_frame] by auto
qed

theorem control_wrap_roundtrip_witness:
  "\<exists>b r'. send_control demo_load None 50 100 (\<lambda>_. 0) demo_frame 0 4 \<lparr>sid_id = replicate 8 1\<rparr> (demo_big [1, 2, 3]) (demo_ctx TLS_WRAP_CRYPT)
      (demo_big []) (demo_ctx TLS_WRAP_CRYPT) = Inr (Some (True, b, r')) \<and> buf_content b = [1, 2, 3]"
proof -
  let ?s = "demo_ctx TLS_WRAP_CRYPT" and ?ps = "\<lparr>ps_id = 1, ps_time = 50\<rparr>"
  have o: "tw_opt ?s = demo_ctl_opt" "tw_mode ?s = TLS_WRAP_CRYPT" by (simp_all add: demo_ctx_def)
  have v: "wrap_pair ?s ?s"
    unfolding wrap_pair_def o using demo_ctl_recv demo_crypt_keys pid_sane_initialized[OF demo_ctl_recv(2)]
    by (auto simp: demo_ctl_opt_def CO_IGNORE_PACKET_ID_def)
  have id: "packet_id_send_update 50 (pid_send (co_packet_id (tw_opt ?s))) True = (True, ?ps)"
    by (simp add: demo_ctx_def demo_ctl_opt_def demo_pid_def packet_id_zero_def packet_id_send_update_def PACKET_ID_MAX_def)
  have b: "buf_wf (demo_big [1, 2, 3])" "buf_wf (demo_big [])" "buf_wf (tw_work ?s)" by (simp_all add: demo_big_wf demo_ctx_def)
  have n: "81 \<le> b_offset (demo_big [1, 2, 3])" "b_offset (demo_big [1, 2, 3]) + b_len (demo_big [1, 2, 3]) + 65 \<le> b_capacity (tw_work ?s)"
    "b_len (demo_big []) = 0" "b_len (demo_big [1, 2, 3]) + 81 \<le> buf_room (demo_big [])" by (simp_all add: demo_big_def demo_ctx_def)
  have sid: "sid_wf \<lparr>sid_id = replicate 8 1\<rparr>" by (simp add: sid_wf_def SID_SIZE_def)
  show ?thesis using demo_passes
    control_wrap_roundtrip[OF v id sid _ _ _ _ b(1) n(1) b(3) n(2) b(2) n(3,4), of 0 4 100 demo_load None "\<lambda>_. 0" demo_frame]
    unfolding o by (auto simp: P_CONTROL_HARD_RESET_CLIENT_V3_def demo_big_wf)
qed

end
