(* ===== verification/Tls_Crypt_V2.thy ===== *)
theory Tls_Crypt_V2
  imports Tls_Crypt_Correct
begin

text \<open>
  Client keys of \<open>--tls-crypt-v2\<close>: a key wrapped for the server is what the server takes out of the client's first packet.
\<close>

section \<open>Wrapping a client key\<close>

definition wkc_len :: "byte list \<Rightarrow> byte list" where
  "wkc_len meta = be16 (word_of_int (290 + int (length meta)))"

text \<open>What is sent of a client key: tag, encrypted key and metadata, length.\<close>

definition wrapped_key :: "hmac_ctx \<Rightarrow> 't cipher_ctx \<Rightarrow> byte list \<Rightarrow> byte list \<Rightarrow> byte list \<Rightarrow> bool" where
  "wrapped_key hm cd keys meta x \<longleftrightarrow> (let tag = hm_mac hm (wkc_len meta @ keys @ meta) in
     \<exists>ct. x = tag @ ct @ wkc_len meta \<and> length ct = 256 + length meta
       \<and> (\<forall>t. fst (cc_reset cd t (take 16 tag)) \<and> (\<exists>t1. cc_update cd (snd (cc_reset cd t (take 16 tag))) ct = (Some (keys @ meta), t1)
            \<and> fst (cc_final cd t1) = Some [])))"

lemma buf_append_empty: "buf_append b [] = b"
  by (simp add: buf_append_def overwrite_def option.map_ident)

lemma wrap_client_key_ok:
  assumes "kc_cipher key = Some ce" "kc_hmac key = Some hm" "ctl_hmac_sane hm" "stream_pair ce cd"
    and "0 \<le> ck_block_size (cc_kt ce)" "ck_block_size (cc_kt ce) \<le> 16"
    and "length keys = 256" "buf_wf meta" "b_len meta \<le> 734" "buf_wf wkc0" "b_len wkc0 = 0" "b_len meta + 290 \<le> buf_room wkc0"
  shows "\<exists>wkc key'. tls_crypt_v2_wrap_client_key wkc0 keys meta key = Inr (True, wkc, key') \<and> buf_wf wkc
    \<and> wrapped_key hm cd keys (buf_content meta) (buf_content wkc)"
proof -
  let ?m = "buf_content meta" and ?bs = "ck_block_size (cc_kt ce)"
  let ?net = "wkc_len ?m"
  let ?tag = "hm_mac hm (?net @ keys @ ?m)"
  have lm: "int (length ?m) = b_len meta" "0 \<le> b_len meta" using assms(8) buf_wf_bounds by auto
  have lt: "length ?tag = 32" using assms(3) by (simp add: ctl_hmac_sane_def)
  have ln: "length ?net = 2" by (simp add: wkc_len_def be16_def)
  obtain w0 where w0: "alloc_buf (1024 + ?bs) = Inr w0" "buf_wf w0" "b_capacity w0 = 1024 + ?bs" "b_offset w0 = 0" "b_len w0 = 0"
    using alloc_buf_wf[of "1024 + ?bs"] assms(5,6) by auto
  obtain w1 w2 where w: "buf_write_alloc w0 32 = (Some 0, w1)" "buf_poke w1 0 ?tag = Inr w2" "buf_wf w2" "buf_content w2 = ?tag"
    "b_offset w2 = 0" "b_capacity w2 = 1024 + ?bs" "b_len w2 = 32"
    using alloc_poke[OF w0(2), of ?tag] lt w0(3-5) assms(5) length_buf_content_nat[OF w0(2)] by auto
  have iv: "buf_peek w2 0 16 = Inr (take 16 ?tag)" using buf_peek_front[OF w(3), of 0 16] w(4,5,7) by simp
  have "length (take 16 ?tag) = 16" using lt by simp
  then obtain ct s1 where ct: "fst (cc_reset ce (cc_state ce) (take 16 ?tag))"
    "updates ce (snd (cc_reset ce (cc_state ce) (take 16 ?tag))) [keys, ?m] = Some (ct, s1)"
    "length ct = length (concat [keys, ?m])" "fst (cc_final ce s1) = Some []"
    and dec: "\<And>t. fst (cc_reset cd t (take 16 ?tag)) \<and> (\<exists>t1. cc_update cd (snd (cc_reset cd t (take 16 ?tag))) ct
      = (Some (concat [keys, ?m]), t1) \<and> fst (cc_final cd t1) = Some [])"
    using assms(4)[unfolded stream_pair_def] by blast
  obtain s0 where s0: "cc_reset ce (cc_state ce) (take 16 ?tag) = (True, s0)" using ct(1) by (cases "cc_reset ce (cc_state ce) (take 16 ?tag)") auto
  obtain c1 s2 c2 where u: "cc_update ce s0 keys = (Some c1, s2)" "cc_update ce s2 ?m = (Some c2, s1)" "ct = c1 @ c2"
    using ct(2) s0 by (auto split: prod.splits option.splits)
  obtain s3 where s3: "cc_final ce s1 = (Some [], s3)" using ct(4) by (cases "cc_final ce s1") auto
  have lc: "int (length c1) + int (length c2) = 256 + b_len meta" using ct(3) u(3) assms(7) lm by simp
  let ?w3 = "buf_append w2 c1" and ?w4 = "buf_append (buf_append w2 c1) c2" and ?w5 = "buf_append (buf_append (buf_append w2 c1) c2) ?net"
  have w3: "buf_wf ?w3" "buf_content ?w3 = ?tag @ c1" "put_output w2 (bend w2) c1 = Inr ?w3"
    using w(3-7) lc assms(5,9) by (simp_all add: buf_append_wf buf_append_content put_output_append bend_wf)
  have w4: "buf_wf ?w4" "buf_content ?w4 = ?tag @ c1 @ c2" "put_output ?w3 (bend ?w3) c2 = Inr ?w4"
    using w3(1,2) w(5-7) lc assms(5,9) by (simp_all add: buf_append_wf buf_append_content put_output_append bend_wf)
  have w4b: "put_output ?w4 (bend ?w4) [] = Inr ?w4"
    using put_output_append[OF w4(1), of "[]" "bend ?w4"] w4(1) w(5-7) lc assms(5,9) by (simp add: bend_wf buf_append_empty)
  have w5: "buf_wf ?w5" "buf_content ?w5 = ?tag @ c1 @ c2 @ ?net" "buf_write ?w4 ?net = Inr (True, ?w5)"
    using w4(1,2) w(5-7) lc assms(5,9) ln by (simp_all add: buf_append_wf buf_append_content buf_write_append)
  have "int (length (buf_content ?w5)) = b_len meta + 290" unfolding w5(2) using lt ln lc by simp
  moreover have "buf_content wkc0 = []" using length_buf_content_nat[OF assms(10)] assms(11) by simp
  ultimately have cp: "buf_copy wkc0 ?w5 = Inr (True, buf_append wkc0 (buf_content ?w5))" "buf_wf (buf_append wkc0 (buf_content ?w5))"
    "buf_content (buf_append wkc0 (buf_content ?w5)) = buf_content ?w5"
    using assms(10-12) w5(1) by (simp_all add: buf_copy_append buf_append_wf buf_append_content)
  have fc: "buf_forward_capacity w2 = 992 + ?bs" using w(3,5-7) assms(5) by (auto simp: buf_forward_capacity_def buf_valid_def Let_def elim!: buf_wfE)
  have iv16: "ck_iv_size (cc_kt ce) = 16" using assms(4) by (simp add: stream_pair_def)
  have net: "?net = be16 (word_of_int (256 + b_len meta + 32 + 2))" by (simp add: wkc_len_def lm(1) algebra_simps)
  have "tls_crypt_v2_wrap_client_key wkc0 keys meta key = Inr (True, buf_append wkc0 (buf_content ?w5), key\<lparr>kc_cipher := Some (ce\<lparr>cc_state := s3\<rparr>)\<rparr>)"
    unfolding tls_crypt_v2_wrap_client_key_def
    using assms(1,2,7-9) w0(1) w(1,2) iv iv16 s0 u(1,2) s3 w3(3) w4(3) w4b w5(3) cp(1) fc net[symmetric]
    by (simp add: tls_crypt_sizes Let_def cipher_ctx_iv_length_def cipher_ctx_block_size_def cipher_ctx_reset_def cipher_ctx_update_def
        cipher_ctx_final_def)
  moreover have "wrapped_key hm cd keys ?m (buf_content (buf_append wkc0 (buf_content ?w5)))"
  proof -
    have "buf_content (buf_append wkc0 (buf_content ?w5)) = ?tag @ ct @ ?net"
      by (rule trans[OF cp(3)]) (simp add: w5(2) u(3))
    moreover have "length ct = 256 + length ?m" using u(3) lc lm by simp
    ultimately show ?thesis unfolding wrapped_key_def Let_def using dec by (intro exI[of _ ct]) simp
  qed
  ultimately show ?thesis using cp(2) by blast
qed

section \<open>Taking it out again\<close>

lemma wkc_len_value: "length meta \<le> 734 \<Longrightarrow> uint (of_be16 (wkc_len meta)) = 290 + int (length meta)"
  unfolding wkc_len_def of_be16_be16 uint_word_of_int by simp

lemma unwrap_client_key_ok:
  assumes "kc_cipher key = Some cd" "kc_hmac key = Some hm" "ctl_hmac_sane hm" "ck_iv_size (cc_kt cd) = 16"
    and "buf_wf wkc" "wrapped_key hm cd keys meta (buf_content wkc)" "length keys = 256" "length meta \<le> 734"
    and "buf_wf m0" "b_len m0 = 0" "buf_room m0 = 734"
  shows "\<exists>m key'. tls_crypt_v2_unwrap_client_key m0 wkc key = Inr (Some keys, m, key') \<and> buf_wf m \<and> buf_content m = meta"
proof -
  let ?net = "wkc_len meta" and ?c = "buf_content wkc"
  let ?tag = "hm_mac hm (?net @ keys @ meta)"
  obtain ct where ct: "?c = ?tag @ ct @ ?net" "length ct = 256 + length meta"
    "\<And>t. fst (cc_reset cd t (take 16 ?tag)) \<and> (\<exists>t1. cc_update cd (snd (cc_reset cd t (take 16 ?tag))) ct = (Some (keys @ meta), t1)
       \<and> fst (cc_final cd t1) = Some [])"
    using assms(6) unfolding wrapped_key_def Let_def by blast
  have lt: "length ?tag = 32" and ln: "length ?net = 2" using assms(3) by (simp_all add: ctl_hmac_sane_def wkc_len_def be16_def)
  have lb: "b_len wkc = 290 + int (length meta)" using length_buf_content[OF assms(5)] ct(1,2) lt ln by simp
  have n: "buf_peek wkc (bend wkc - 2) 2 = Inr ?net"
  proof -
    have "buf_peek wkc (b_offset wkc + (b_len wkc - 2)) 2 = Inr (take 2 (drop (nat (b_len wkc - 2)) ?c))"
      using buf_peek_front[OF assms(5), of "b_len wkc - 2" 2] lb by simp
    moreover have "nat (b_len wkc - 2) = length (?tag @ ct)" using lb lt ct(2) by simp
    ultimately show ?thesis using ct(1) ln bend_wf[OF assms(5)] by (simp add: algebra_simps)
  qed
  let ?b2 = "wkc\<lparr>b_len := b_len wkc - 2\<rparr>" and ?b3 = "buf_drop (wkc\<lparr>b_len := b_len wkc - 2\<rparr>) 32"
  note b2 = buf_set_len_ok[OF assms(5), of 2]
  have adv: "buf_advance ?b2 32 = (True, ?b3)" "buf_wf ?b3" "buf_content ?b3 = drop 32 (take (nat (b_len wkc - 2)) ?c)"
    using b2 lb by (simp_all add: buf_advance_drop buf_drop_wf buf_drop_content)
  have "nat (b_len wkc - 2) = length (?tag @ ct)" using lb lt ct(2) by simp
  then have c3: "buf_content ?b3 = ct" unfolding adv(3) ct(1) using lt by simp
  have tagp: "buf_peek ?b3 (b_offset wkc) 32 = Inr ?tag" "buf_peek ?b3 (b_offset wkc) 16 = Inr (take 16 ?tag)"
    using buf_peek_front[OF assms(5), of 0 32] buf_peek_front[OF assms(5), of 0 16] lb lt ct(1) by (simp_all add: buf_peek_def)
  obtain s0 where s0: "cc_reset cd (cc_state cd) (take 16 ?tag) = (True, s0)"
    using ct(3) by (cases "cc_reset cd (cc_state cd) (take 16 ?tag)") (metis fst_conv)
  obtain t1 where t1: "cc_update cd s0 ct = (Some (keys @ meta), t1)" "fst (cc_final cd t1) = Some []"
    using ct(3)[of "cc_state cd"] s0 by auto
  obtain s2 where s2: "cc_final cd t1 = (Some [], s2)" using t1(2) by (cases "cc_final cd t1") auto
  obtain p0 where p0: "buf_set_write (Some (replicate 1024 0)) 1024 = Inr p0" "buf_wf p0" "b_offset p0 = 0" "b_len p0 = 0" "b_capacity p0 = 1024"
    using set_write_wf[of 1024] by auto
  let ?p = "buf_append p0 (keys @ meta)"
  have fit: "int (length (keys @ meta)) \<le> buf_room p0" using assms(7,8) p0(3-5) by simp
  have p: "put_output p0 (b_offset p0) (keys @ meta) = Inr ?p" "buf_wf ?p" "buf_content ?p = keys @ meta"
    using fit p0 length_buf_content_nat[OF p0(2)] by (simp_all add: put_output_append buf_append_wf buf_append_content)
  have pb: "put_output ?p (bend ?p) [] = Inr ?p"
    using put_output_append[OF p(2), of "[]" "bend ?p"] p(2) fit by (simp add: bend_wf buf_append_empty)
  have o: "wkc_open cd ?b3 (b_offset wkc) = Inr (Some ?p, cd\<lparr>cc_state := s2\<rparr>)"
    using tagp(2) adv(2) c3 s0 t1(1) s2 p0(1) p(1) pb assms(4)
    by (simp add: wkc_open_def tls_crypt_sizes cipher_ctx_iv_length_def cipher_ctx_reset_def cipher_ctx_update_def cipher_ctx_final_def)
  have mw: "mem_write (replicate 32 0) 0 ?tag = Inr ?tag" using lt overwrite_front[of ?tag 32] by (simp add: mem_write_ok)
  have v: "wkc_verify (Some hm) ?b3 (b_offset wkc) ?net ?p = Inr True"
    using p(2,3) mw tagp(1) by (simp add: wkc_verify_def tls_crypt_sizes)
  let ?m = "buf_append m0 meta"
  have lp: "b_len ?p = 256 + int (length meta)" using assms(7) p0(4) by simp
  have p2: "buf_peek ?p (b_offset ?p) 256 = Inr keys" "buf_advance ?p 256 = (True, buf_drop ?p 256)" "buf_wf (buf_drop ?p 256)"
    "buf_content (buf_drop ?p 256) = meta"
    using buf_peek_front[OF p(2), of 0 256] p(2,3) lp assms(7) by (simp_all add: buf_advance_drop buf_drop_wf buf_drop_content)
  have "buf_content m0 = []" using length_buf_content_nat[OF assms(9)] assms(10) by simp
  then have m: "buf_copy m0 (buf_drop ?p 256) = Inr (True, ?m)" "buf_wf ?m" "buf_content ?m = meta"
    using assms(8-11) p2(3,4) lp by (simp_all add: buf_copy_append buf_append_wf buf_append_content)
  have t: "wkc_take m0 ?p = Inr (Some keys, ?m)"
    using p(2) lp p2(1,2) m(1) by (simp add: wkc_take_def tls_crypt_sizes)
  have "tls_crypt_v2_unwrap_client_key m0 wkc key = Inr (Some keys, ?m, key\<lparr>kc_cipher := Some (cd\<lparr>cc_state := s2\<rparr>)\<rparr>)"
    using assms(1,2,5,8) lb n wkc_len_value[OF assms(8)] b2(1) adv(1) o v t
    by (simp add: tls_crypt_v2_unwrap_client_key_def tls_crypt_sizes Let_def)
  then show ?thesis using m by blast
qed

definition script_ok :: "(int \<Rightarrow> byte list \<Rightarrow> bool) option \<Rightarrow> byte list \<Rightarrow> bool" where
  "script_ok script meta = (case script of None \<Rightarrow> True | Some sc \<Rightarrow> meta \<noteq> [] \<and> sc (uint (hd meta)) (tl meta))"

lemma verify_metadata_ok:
  assumes "buf_wf m"
  shows "tls_crypt_v2_verify_metadata sc m = Inr (script_ok (Some sc) (buf_content m))"
proof (cases "1 \<le> b_len m")
  case True
  then have "buf_content m \<noteq> []" using length_buf_content_nat[OF assms] by auto
  moreover have "drop 1 (buf_content m) = tl (buf_content m)" by (simp add: drop_Suc)
  ultimately show ?thesis using True assms
    by (simp add: tls_crypt_v2_verify_metadata_def buf_read_u8_take buf_drop_wf buf_drop_content script_ok_def)
next
  case False
  then have "buf_content m = []" using length_buf_content_nat[OF assms] buf_wf_bounds[OF assms] by simp
  then show ?thesis using False assms by (simp add: tls_crypt_v2_verify_metadata_def buf_read_u8_empty script_ok_def)
qed

lemma extract_client_key_ok:
  assumes "kc_cipher (tw_tls_crypt_v2_server_key r) = Some cd" "kc_hmac (tw_tls_crypt_v2_server_key r) = Some hm" "ctl_hmac_sane hm"
    and "ck_iv_size (cc_kt cd) = 16" "buf_wf buf" "buf_content buf = x @ wkc" "wrapped_key hm cd keys meta wkc" "length keys = 256"
    and "length meta \<le> 734"
  shows "\<exists>b m key. tls_crypt_v2_extract_client_key load script buf r = Inr (script_ok script meta, b,
        r\<lparr>tw_tls_crypt_v2_metadata := m, tw_tls_crypt_v2_server_key := key, tw_mode := TLS_WRAP_CRYPT, tw_cleanup_key_ctx := True,
          tw_opt := (tw_opt r)\<lparr>co_flags := co_flags (tw_opt r) OR CO_PACKET_ID_LONG_FORM, co_key_ctx_bi := load keys True\<rparr>\<rparr>)
    \<and> buf_wf b \<and> buf_content b = x \<and> buf_content m = meta"
proof -
  obtain z where z: "wkc = z @ wkc_len meta" "length wkc = 290 + length meta"
    using assms(3,7) by (auto simp: wrapped_key_def ctl_hmac_sane_def wkc_len_def be16_def Let_def)
  have ln: "length (wkc_len meta) = 2" by (simp add: wkc_len_def be16_def)
  have lb: "b_len buf = int (length x) + 290 + int (length meta)" using length_buf_content[OF assms(5)] assms(6) z(2) by simp
  have n: "buf_peek buf (bend buf - 2) 2 = Inr (wkc_len meta)"
  proof -
    have "buf_peek buf (b_offset buf + (b_len buf - 2)) 2 = Inr (take 2 (drop (nat (b_len buf - 2)) (buf_content buf)))"
      using buf_peek_front[OF assms(5), of "b_len buf - 2" 2] lb by simp
    moreover have "nat (b_len buf - 2) = length (x @ z)" using lb z ln by simp
    ultimately show ?thesis using assms(6) z(1) ln bend_wf[OF assms(5)] by (simp add: algebra_simps)
  qed
  note nv = wkc_len_value[OF assms(9)]
  let ?w = "buf_drop buf (int (length x))"
  have w: "buf_advance buf (int (length x)) = (True, ?w)" "buf_wf ?w" "buf_content ?w = wkc"
    using assms(5,6) lb by (simp_all add: buf_advance_drop buf_drop_wf buf_drop_content)
  obtain m0 where m0: "alloc_buf 734 = Inr m0" "buf_wf m0" "b_len m0 = 0" "buf_room m0 = 734" using alloc_buf_wf[of 734] by auto
  obtain m key where u: "tls_crypt_v2_unwrap_client_key m0 ?w (tw_tls_crypt_v2_server_key r) = Inr (Some keys, m, key)" "buf_wf m" "buf_content m = meta"
    using unwrap_client_key_ok[OF assms(1-4) w(2) assms(7)[folded w(3)] assms(8,9) m0(2-4)] by blast
  let ?b = "buf\<lparr>b_len := b_len buf - (290 + int (length meta))\<rparr>"
  have b: "buf_inc_len buf (- (290 + int (length meta))) = (True, ?b)" "buf_wf ?b" "buf_content ?b = x"
    using buf_set_len_ok[OF assms(5), of "290 + int (length meta)"] lb assms(6) by simp_all
  let ?r = "r\<lparr>tw_tls_crypt_v2_metadata := m, tw_tls_crypt_v2_server_key := key, tw_mode := TLS_WRAP_CRYPT, tw_cleanup_key_ctx := True,
          tw_opt := (tw_opt r)\<lparr>co_flags := co_flags (tw_opt r) OR CO_PACKET_ID_LONG_FORM, co_key_ctx_bi := load keys True\<rparr>\<rparr>"
  have lw: "b_len ?w = 290 + int (length meta)" "buf_len ?w = 290 + int (length meta)" using lb w(2) by simp_all
  have "tls_crypt_v2_extract_client_key load script buf r = Inr (script_ok script meta, ?b, ?r)"
  proof (cases script)
    case None
    then show ?thesis using assms(1,5) lb n nv w(1) m0(1) u(1) b(1) lw
      by (simp add: tls_crypt_v2_extract_client_key_def tls_crypt_sizes script_ok_def)
  next
    case (Some sc)
    then show ?thesis using assms(1,5) lb n nv w(1) m0(1) u(1) b(1) lw verify_metadata_ok[OF u(2), of sc] u(3)
      by (simp add: tls_crypt_v2_extract_client_key_def tls_crypt_sizes)
  qed
  then show ?thesis using b u(3) by blast
qed

section \<open>The first packet of a client\<close>

text \<open>The options the server uses once it has a client's key.\<close>

definition client_options :: "(byte list \<Rightarrow> bool \<Rightarrow> 's key_ctx_bi) \<Rightarrow> byte list \<Rightarrow> 's tls_wrap_ctx \<Rightarrow> 's crypto_options" where
  "client_options load keys r = (tw_opt r)\<lparr>co_flags := co_flags (tw_opt r) OR CO_PACKET_ID_LONG_FORM, co_key_ctx_bi := load keys True\<rparr>"

definition v2_pair :: "(byte list \<Rightarrow> bool \<Rightarrow> 't key_ctx_bi) \<Rightarrow> byte list \<Rightarrow> 'k key_ctx \<Rightarrow> 's tls_wrap_ctx \<Rightarrow> 't tls_wrap_ctx \<Rightarrow> bool" where
  "v2_pair load keys server_key s r \<longleftrightarrow> tw_mode s = TLS_WRAP_CRYPT \<and> packet_id_initialized (co_packet_id (tw_opt s))
     \<and> (\<exists>ce cd hm. crypt_keys (tw_opt s) (client_options load keys r) ce cd hm) \<and> ctl_recv_sane (client_options load keys r)
     \<and> co_flags (client_options load keys r) AND CO_IGNORE_PACKET_ID = 0
     \<and> (\<exists>ce cd hm. kc_cipher server_key = Some ce \<and> kc_hmac server_key = Some hm \<and> kc_cipher (tw_tls_crypt_v2_server_key r) = Some cd
          \<and> kc_hmac (tw_tls_crypt_v2_server_key r) = Some hm \<and> ctl_hmac_sane hm \<and> stream_pair ce cd
          \<and> 0 \<le> ck_block_size (cc_kt ce) \<and> ck_block_size (cc_kt ce) \<le> 16)"

text \<open>
  C10. The first packet of a client with \<open>--tls-crypt-v2\<close>: the client key that \<open>tls_crypt_v2_wrap_client_key\<close> made for the server,
  sent behind a \<open>P_CONTROL_HARD_RESET_CLIENT_V3\<close>, gives the server that key and its metadata, and with the key the payload of
  the packet, if and only if the verification script accepts the metadata and the packet identifier passes the
  replay check. Neither side faults.
\<close>

theorem tls_crypt_v2_first_packet:
  assumes "v2_pair load keys ek s r" "length keys = 256" "buf_wf meta" "b_len meta \<le> 734" "buf_wf wkc0" "b_len wkc0 = 0"
    and "b_len meta + 290 \<le> buf_room wkc0" "tls_crypt_v2_wrap_client_key wkc0 keys meta ek = Inr (True, wkc, ek')"
    and "tw_tls_crypt_v2_wkc s = Some wkc" "packet_id_send_update now (pid_send (co_packet_id (tw_opt s))) True = (True, ps)"
    and "sid_wf sid" "key_id < 8" "1 < now'" "buf_wf buf" "buf_wf (tw_work s)"
    and "b_offset buf + b_len buf + 355 + b_len meta \<le> b_capacity (tw_work s)"
    and "buf_wf rb" "b_len rb = 0" "b_len buf + b_len meta + 339 \<le> buf_room rb"
  shows "\<exists>acc b r'. send_control load script now now' rnd fr key_id P_CONTROL_HARD_RESET_CLIENT_V3 sid buf s rb r = Inr (Some (acc, b, r'))
    \<and> acc = (script_ok script (buf_content meta) \<and> passes_replay now' (client_options load keys r) ps)
    \<and> (acc \<longrightarrow> buf_content b = buf_content buf \<and> tw_mode r' = TLS_WRAP_CRYPT \<and> buf_content (tw_tls_crypt_v2_metadata r') = buf_content meta)"
proof -
  note vp = assms(1)[unfolded v2_pair_def]
  let ?o = "client_options load keys r" and ?h = "key_id OR push_bit 3 (10 :: byte)" and ?p = "pid_wire ps True"
  obtain ske skd shm where sk: "kc_cipher ek = Some ske" "kc_hmac ek = Some shm" "kc_cipher (tw_tls_crypt_v2_server_key r) = Some skd"
    "kc_hmac (tw_tls_crypt_v2_server_key r) = Some shm" "ctl_hmac_sane shm" "stream_pair ske skd" "0 \<le> ck_block_size (cc_kt ske)" "ck_block_size (cc_kt ske) \<le> 16"
    using vp by blast
  obtain ce cd hm where ck: "crypt_keys (tw_opt s) ?o ce cd hm" using vp by blast
  have wk: "buf_wf wkc" "wrapped_key shm skd keys (buf_content meta) (buf_content wkc)"
    using wrap_client_key_ok[OF sk(1,2,5-8) assms(2-7)] assms(8) by auto
  have lm: "int (length (buf_content meta)) = b_len meta" "length (buf_content meta) \<le> 734" using assms(3,4) length_buf_content_nat[OF assms(3)] buf_wf_bounds[OF assms(3)] by auto
  have lw: "int (length (buf_content wkc)) = 290 + b_len meta"
    using wk(2) sk(5) lm(1) by (auto simp: wrapped_key_def ctl_hmac_sane_def wkc_len_def be16_def Let_def)
  have mode: "tw_mode s = TLS_WRAP_CRYPT" "packet_id_initialized (co_packet_id (tw_opt s))" using vp by simp_all
  have cap: "b_offset buf + b_len buf + 65 \<le> b_capacity (tw_work s)" "b_offset buf + b_len buf + 65 + int (length (buf_content wkc)) \<le> b_capacity (tw_work s)"
    using assms(16) lw buf_wf_bounds[OF assms(3)] by simp_all
  have "\<exists>w. tw_tls_crypt_v2_wkc s = Some w \<and> buf_wf w \<and> buf_content w = buf_content wkc
      \<and> b_offset buf + b_len buf + 65 + int (length (buf_content wkc)) \<le> b_capacity (tw_work s)"
    using assms(9) wk(1) cap(2) by blast
  then obtain b s' ct where b: "control_wrap now rnd key_id 10 sid buf s = Inr (Some b, s')" "buf_wf b" "length ct = length (buf_content buf)"
    "buf_content b = (?h # sid_id sid @ ?p) @ hm_mac hm ((?h # sid_id sid @ ?p) @ buf_content buf) @ ct @ buf_content wkc"
    "\<And>t. fst (cc_reset cd t (take 16 (hm_mac hm ((?h # sid_id sid @ ?p) @ buf_content buf))))
       \<and> (\<exists>t1. cc_update cd (snd (cc_reset cd t (take 16 (hm_mac hm ((?h # sid_id sid @ ?p) @ buf_content buf))))) ct = (Some (buf_content buf), t1)
        \<and> fst (cc_final cd t1) = Some [])"
    using control_wrap_crypt[OF mode(1) ck mode(2) assms(10,11,14,15) cap(1), of 10 "buf_content wkc" rnd key_id] by (auto simp: Let_def)
  let ?hd = "?h # sid_id sid @ ?p" and ?tag = "hm_mac hm ((?h # sid_id sid @ ?p) @ buf_content buf)"
  have h17: "length ?hd = 17" using assms(11) length_pid_wire[of ps True] by (simp add: sid_wf_def SID_SIZE_def packet_id_size_def)
  have k: "kc_cipher (co_decrypt ?o) = Some cd" "kc_hmac (co_decrypt ?o) = Some hm" "length ?tag = 32" "ck_iv_size (cc_kt cd) = 16"
    using ck by (simp_all add: crypt_keys_def ctl_hmac_sane_def stream_pair_def)
  have lb: "int (length (buf_content b)) = b_len buf + b_len meta + 339"
    unfolding b(4) using h17 k(3) lw b(3) length_buf_content[OF assms(14)] by simp
  let ?rb = "buf_append rb (buf_content b)"
  have rb: "buf_wf ?rb" "buf_content ?rb = buf_content b" "buf_copy rb b = Inr (True, ?rb)"
    using lb assms(17-19) b(2) length_buf_content_nat[OF assms(17)] by (simp_all add: buf_append_wf buf_append_content buf_copy_append)
  have c: "buf_content ?rb = (?hd @ ?tag @ ct) @ buf_content wkc" using rb(2) b(4) by simp
  have siv: "ck_iv_size (cc_kt skd) = 16" using sk(6) by (simp add: stream_pair_def)
  obtain b1 m key where ex: "tls_crypt_v2_extract_client_key load script ?rb r = Inr (script_ok script (buf_content meta), b1,
        r\<lparr>tw_tls_crypt_v2_metadata := m, tw_tls_crypt_v2_server_key := key, tw_mode := TLS_WRAP_CRYPT, tw_cleanup_key_ctx := True, tw_opt := ?o\<rparr>)"
    "buf_wf b1" "buf_content b1 = ?hd @ ?tag @ ct" "buf_content m = buf_content meta"
    using extract_client_key_ok[OF sk(3-5) siv rb(1) c wk(2) assms(2) lm(2), of load script] unfolding client_options_def by blast
  let ?r = "r\<lparr>tw_tls_crypt_v2_metadata := m, tw_tls_crypt_v2_server_key := key, tw_mode := TLS_WRAP_CRYPT, tw_cleanup_key_ctx := True, tw_opt := ?o\<rparr>"
  have s: "ctl_recv_sane (tw_opt ?r)" "co_flags (tw_opt ?r) AND CO_IGNORE_PACKET_ID = 0" "kc_cipher (co_decrypt (tw_opt ?r)) = Some cd"
    "kc_hmac (co_decrypt (tw_opt ?r)) = Some hm" using vp k(1,2) by simp_all
  obtain t1 where dec: "fst (cc_reset cd (cc_state cd) (take 16 ?tag))" "cc_update cd (snd (cc_reset cd (cc_state cd) (take 16 ?tag))) ct = (Some (buf_content buf), t1)"
    "fst (cc_final cd t1) = Some []" using b(5) by blast
  from read_control_crypt_accepts[OF s(1,3,4) k(4) ex(2,3) h17 k(3) b(3) dec refl assms(13) s(2)] obtain acc pid pp w r' where
    a: "crypto_check_replay now' (co_long_form ?o) (co_packet_id ?o) (co_pid_persist ?o) (tls_crypt_pin ?hd) = Inr (acc, pid, pp)"
      "read_control_crypt now' b1 ?r = Inr (acc, w, r')" "tw_mode r' = TLS_WRAP_CRYPT" "tw_tls_crypt_v2_metadata r' = m" "acc \<longrightarrow> buf_content w = buf_content buf"
    by auto
  have pin: "tls_crypt_pin ?hd = \<lparr>pin_id = ps_id ps, pin_time = uint (word_of_int (ps_time ps) :: u32)\<rparr>"
    using pid_wire_pin[of "?h # sid_id sid" ps "[]"] assms(11) by (simp add: sid_wf_def SID_SIZE_def)
  have "1 \<le> b_len ?rb" using length_buf_content[OF rb(1)] c by simp
  then have pk: "buf_peek ?rb (b_offset ?rb) 1 = Inr [?h]" using buf_peek_front[OF rb(1), of 0 1] c by simp
  have op: "drop_bit 3 ?h = 10" using opcode_of_header[OF assms(12), of 10] by simp
  have "read_control_auth load script now' fr ?rb r
    = (if script_ok script (buf_content meta) then Inr (acc, w, r') else Inr (False, b1, ?r))"
    using pk op ex(1) a(2,3) by (auto simp: read_control_auth_def P_OPCODE_SHIFT_def P_CONTROL_HARD_RESET_CLIENT_V3_def Let_def)
  moreover have "acc = passes_replay now' ?o ps" using a(1) pin by (simp add: passes_replay_def)
  ultimately show ?thesis using b(1) rb(3) a(3-5) ex(4) unfolding send_control_def P_CONTROL_HARD_RESET_CLIENT_V3_def
    by (cases "script_ok script (buf_content meta)") auto
qed

lemma lone_key_asserts:
  assumes "kc_cipher (tw_tls_crypt_v2_server_key r) = Some cd" "kc_hmac (tw_tls_crypt_v2_server_key r) = Some hm" "ctl_hmac_sane hm"
    and "ck_iv_size (cc_kt cd) = 16" "buf_wf buf" "wrapped_key hm cd keys meta (buf_content buf)" "length keys = 256" "length meta \<le> 734"
    and "script_ok script meta" "drop_bit 3 (hd (buf_content buf)) = P_CONTROL_HARD_RESET_CLIENT_V3"
  shows "read_control_auth load script now fr buf r = Inl Assert_Failed"
proof -
  have "buf_content buf = [] @ buf_content buf" by simp
  from extract_client_key_ok[OF assms(1-5) this assms(6-8), of load script] assms(9) obtain b m key where
    ex: "tls_crypt_v2_extract_client_key load script buf r = Inr (True, b,
        r\<lparr>tw_tls_crypt_v2_metadata := m, tw_tls_crypt_v2_server_key := key, tw_mode := TLS_WRAP_CRYPT, tw_cleanup_key_ctx := True,
          tw_opt := (tw_opt r)\<lparr>co_flags := co_flags (tw_opt r) OR CO_PACKET_ID_LONG_FORM, co_key_ctx_bi := load keys True\<rparr>\<rparr>)"
      "buf_wf b" "buf_content b = []" by auto
  have "b_len b = 0" using length_buf_content[OF ex(2)] ex(3) by simp
  moreover have "\<exists>t. alloc_buf (buf_forward_capacity_total b) = Inr t"
    using ex(2) alloc_buf_wf[of "b_capacity b - b_offset b"] by (auto simp: buf_forward_capacity_total_def buf_valid_def elim!: buf_wfE)
  moreover have "buf_peek buf (b_offset buf) 1 = Inr (take 1 (buf_content buf))"
  proof -
    have "buf_content buf \<noteq> []" using assms(6) by (auto simp: wrapped_key_def wkc_len_def be16_def Let_def)
    then have "1 \<le> b_len buf" using length_buf_content_nat[OF assms(5)] by (cases "b_len buf < 1") auto
    then show ?thesis using buf_peek_front[OF assms(5), of 0 1] by simp
  qed
  ultimately show ?thesis using ex(1) assms(10)
    by (auto simp: read_control_auth_def read_control_crypt_def tls_crypt_unwrap_def assertE_def P_OPCODE_SHIFT_def
        P_CONTROL_HARD_RESET_CLIENT_V3_def Let_def)
qed

text \<open>
  C11. A client can stop the server with its first packet: one that is nothing but a wrapped client key (that of the client, issued by
  the server), when the tag of the key happens to begin with the byte of \<open>P_CONTROL_HARD_RESET_CLIENT_V3\<close>, passes all tests of
  \<open>tls_pre_decrypt_lite\<close>. \<open>tls_crypt_v2_extract_client_key\<close> cuts the key off and leaves the empty packet, which \<open>tls_crypt_unwrap\<close> excludes
  by an assertion and not by a test.
\<close>

theorem tls_crypt_v2_lone_key_asserts:
  assumes "kc_cipher (tw_tls_crypt_v2_server_key r) = Some cd" "kc_hmac (tw_tls_crypt_v2_server_key r) = Some hm" "ctl_hmac_sane hm"
    and "ck_iv_size (cc_kt cd) = 16" "buf_wf buf" "wrapped_key hm cd keys meta (buf_content buf)" "length keys = 256" "length meta \<le> 734"
    and "hd (buf_content buf) = push_bit P_OPCODE_SHIFT P_CONTROL_HARD_RESET_CLIENT_V3" "b_len buf \<le> EXPANDED_SIZE_DYNAMIC fr"
  shows "tls_pre_decrypt_lite load junk now fr r buf = Inl Assert_Failed"
proof -
  have "buf_content buf \<noteq> []" using assms(6) by (auto simp: wrapped_key_def wkc_len_def be16_def Let_def)
  then have l: "1 \<le> b_len buf" using length_buf_content_nat[OF assms(5)] by (cases "b_len buf < 1") auto
  have pk: "buf_peek buf (b_offset buf) 1 = Inr (take 1 (buf_content buf))" using buf_peek_front[OF assms(5), of 0 1] l by simp
  have h: "hd (buf_content buf) = 80" using assms(9) by (simp add: P_OPCODE_SHIFT_def P_CONTROL_HARD_RESET_CLIENT_V3_def push_bit_eq_mult)
  have op: "drop_bit 3 (80 :: byte) = 10" "(80 :: byte) AND 7 = 0" by (simp_all add: drop_bit_eq_div)
  obtain b where b: "clone_buf junk buf = Inr b" "buf_wf b" "buf_content b = buf_content buf" using clone_buf_ok[OF assms(5)] by blast
  have "read_control_auth load None now fr b r = Inl Assert_Failed"
    using assms(1-4,7,8) b(2) assms(6) h op(1) unfolding b(3)[symmetric]
    by (intro lone_key_asserts) (simp_all add: script_ok_def P_CONTROL_HARD_RESET_CLIENT_V3_def)
  then show ?thesis using l pk h op assms(10) b(1)
    by (simp add: tls_pre_decrypt_lite_def P_OPCODE_SHIFT_def P_KEY_ID_MASK_def P_CONTROL_HARD_RESET_CLIENT_V2_def
        P_CONTROL_HARD_RESET_CLIENT_V3_def Let_def)
qed

section \<open>Instances\<close>

lemma demo_wkc:
  "\<exists>wkc ek'. tls_crypt_v2_wrap_client_key (demo_big []) (replicate 256 5) (demo_big [0, 9]) (demo_ctl_key True) = Inr (True, wkc, ek') \<and> buf_wf wkc
    \<and> wrapped_key demo_hmac (demo_stream False) (replicate 256 5) [0, 9] (buf_content wkc)"
proof -
  have k: "kc_cipher (demo_ctl_key True) = Some (demo_stream True)" "kc_hmac (demo_ctl_key True) = Some demo_hmac"
    "0 \<le> ck_block_size (cc_kt (demo_stream True))" "ck_block_size (cc_kt (demo_stream True)) \<le> 16"
    by (simp_all add: demo_ctl_key_def demo_stream_def)
  have m: "buf_wf (demo_big [0, 9])" "b_len (demo_big [0, 9]) \<le> 734" "buf_wf (demo_big [])" "b_len (demo_big []) = 0"
    "b_len (demo_big [0, 9]) + 290 \<le> buf_room (demo_big [])" by (simp_all add: demo_big_wf) (simp_all add: demo_big_def)
  show ?thesis using wrap_client_key_ok[OF k(1,2) demo_hmac_sane(1) demo_stream_pair k(3,4) _ m, of "replicate 256 5"]
    by (simp add: demo_big_wf)
qed

theorem tls_crypt_v2_first_packet_witness:
  "\<exists>(s :: byte tls_wrap_ctx) b r'. send_control demo_load None 50 100 (\<lambda>_. 0) demo_frame 0 P_CONTROL_HARD_RESET_CLIENT_V3 \<lparr>sid_id = replicate 8 1\<rparr> (demo_big [1, 2, 3]) s
      (demo_big []) (demo_ctx TLS_WRAP_NONE) = Inr (Some (True, b, r'))
    \<and> buf_content b = [1, 2, 3] \<and> tw_mode r' = TLS_WRAP_CRYPT \<and> buf_content (tw_tls_crypt_v2_metadata r') = [0, 9]"
proof -
  obtain wkc ek' where w: "tls_crypt_v2_wrap_client_key (demo_big []) (replicate 256 5) (demo_big [0, 9]) (demo_ctl_key True) = Inr (True, wkc, ek')"
    using demo_wkc by blast
  let ?s = "(demo_ctx TLS_WRAP_CRYPT)\<lparr>tw_tls_crypt_v2_wkc := Some wkc\<rparr>" and ?r = "demo_ctx TLS_WRAP_NONE" and ?ps = "\<lparr>ps_id = 1, ps_time = 50\<rparr>"
  have o: "client_options demo_load (replicate 256 5) ?r = demo_ctl_opt"
    by (simp add: client_options_def demo_ctx_def demo_ctl_opt_def demo_load_def CO_PACKET_ID_LONG_FORM_def)
  have v: "v2_pair demo_load (replicate 256 5) (demo_ctl_key True) ?s ?r"
    unfolding v2_pair_def o using demo_ctl_recv demo_hmac_sane demo_stream_pair pid_sane_initialized[OF demo_ctl_recv(2)] demo_crypt_keys
    by (auto simp: demo_ctx_def demo_ctl_key_def CO_IGNORE_PACKET_ID_def) (auto simp: demo_ctl_opt_def demo_stream_def)
  have id: "packet_id_send_update 50 (pid_send (co_packet_id (tw_opt ?s))) True = (True, ?ps)"
    by (simp add: demo_ctx_def demo_ctl_opt_def demo_pid_def packet_id_zero_def packet_id_send_update_def PACKET_ID_MAX_def)
  have b: "buf_wf (demo_big [1, 2, 3])" "buf_wf (demo_big [0, 9])" "buf_wf (demo_big [])" "buf_wf (tw_work ?s)"
    by (simp_all add: demo_big_wf demo_ctx_def)
  have n: "b_len (demo_big [0, 9]) \<le> 734" "b_len (demo_big []) = 0" "b_len (demo_big [0, 9]) + 290 \<le> buf_room (demo_big [])"
    "b_offset (demo_big [1, 2, 3]) + b_len (demo_big [1, 2, 3]) + 355 + b_len (demo_big [0, 9]) \<le> b_capacity (tw_work ?s)"
    "b_len (demo_big [1, 2, 3]) + b_len (demo_big [0, 9]) + 339 \<le> buf_room (demo_big [])" by (simp_all add: demo_big_def demo_ctx_def)
  have sid: "sid_wf \<lparr>sid_id = replicate 8 1\<rparr>" by (simp add: sid_wf_def SID_SIZE_def)
  have "passes_replay 100 demo_ctl_opt ?ps" by (rule demo_passes)
  then show ?thesis
    using tls_crypt_v2_first_packet[OF v _ b(2) n(1) b(3) n(2,3) w _ id sid _ _ b(1,4) n(4) b(3) n(2,5), of 0 100 None "\<lambda>_. 0" demo_frame]
    unfolding o by (auto simp: script_ok_def demo_big_wf intro!: exI[of _ ?s])
qed

theorem tls_crypt_v2_lone_key_asserts_witness:
  "\<exists>buf. tls_pre_decrypt_lite demo_load (\<lambda>_. 0) 100 frame_example (demo_ctx TLS_WRAP_NONE) buf = Inl Assert_Failed \<and> b_len buf = 292"
proof -
  obtain wkc ek' where w: "tls_crypt_v2_wrap_client_key (demo_big []) (replicate 256 5) (demo_big [0, 9]) (demo_ctl_key True) = Inr (True, wkc, ek')"
    "buf_wf wkc" "wrapped_key demo_hmac (demo_stream False) (replicate 256 5) [0, 9] (buf_content wkc)"
    using demo_wkc by blast
  have k: "kc_cipher (tw_tls_crypt_v2_server_key (demo_ctx TLS_WRAP_NONE)) = Some (demo_stream False)"
    "kc_hmac (tw_tls_crypt_v2_server_key (demo_ctx TLS_WRAP_NONE)) = Some demo_hmac" "ck_iv_size (cc_kt (demo_stream False)) = 16"
    by (simp_all add: demo_ctx_def demo_ctl_key_def demo_stream_def)
  have h: "hd (buf_content wkc) = push_bit P_OPCODE_SHIFT P_CONTROL_HARD_RESET_CLIENT_V3" "length (buf_content wkc) = 292"
    using w(3) by (auto simp: wrapped_key_def demo_hmac_def wkc_len_def be16_def Let_def P_OPCODE_SHIFT_def P_CONTROL_HARD_RESET_CLIENT_V3_def push_bit_eq_mult)
  have l: "b_len wkc = 292" using length_buf_content[OF w(2)] h(2) by simp
  have "tls_pre_decrypt_lite demo_load (\<lambda>_. 0) 100 frame_example (demo_ctx TLS_WRAP_NONE) wkc = Inl Assert_Failed"
    by (rule tls_crypt_v2_lone_key_asserts[OF k(1,2) demo_hmac_sane(1) k(3) w(2,3) _ _ h(1)])
      (simp_all add: l EXPANDED_SIZE_DYNAMIC_def frame_example_def)
  then show ?thesis using l by blast
qed

end
