(* ===== verification/Link_Stream.thy ===== *)
theory Link_Stream
  imports Mtu
begin

text \<open>
  Packets over a byte stream (\<open>socket.h\<close>, \<open>socket.c\<close>, and the port-sharing test of \<open>ps.c\<close>): a sender puts a 16-bit length in
  front of each packet, \<open>struct stream_buf\<close> cuts the stream that arrives back into packets. The buffers
  \<open>buf_init\<close>, \<open>buf\<close> and \<open>next\<close> of the code share one block; here \<open>sb_buf\<close> carries it, and the other two are brought up to date
  where they are used. A call of \<open>recv\<close> is a function from the number of bytes asked for to what the system
  returns: nothing for an error, no bytes when the peer has closed.
\<close>

section \<open>The structure\<close>

definition PS_DISABLED :: int where "PS_DISABLED = 0"
definition PS_ENABLED :: int where "PS_ENABLED = 1"
definition PS_FOREIGN :: int where "PS_FOREIGN = 2"

record stream_buf =
  sb_buf_init :: buffer
  sb_residual :: buffer
  sb_maxlen :: int
  sb_residual_fully_formed :: bool
  sb_buf :: buffer
  sb_next :: buffer
  sb_len :: int
  sb_error :: bool
  sb_port_share_state :: int

record link_socket =
  ls_stream_buf :: stream_buf
  ls_stream_reset :: bool

section \<open>Operations\<close>

definition stream_buf_reset :: "stream_buf \<Rightarrow> stream_buf" where
  "stream_buf_reset sb =
     sb\<lparr>sb_residual_fully_formed := False, sb_buf := (sb_buf_init sb)\<lparr>b_data := b_data (sb_buf sb)\<rparr>,
        sb_next := buf_reset (sb_next sb), sb_len := -1\<rparr>"

definition stream_buf_init :: "buffer \<Rightarrow> bool \<Rightarrow> stream_buf res" where
  "stream_buf_init b port_share_server =
     (let maxlen = b_len b in
      bindE (alloc_buf maxlen) (\<lambda>residual.
      Inr (stream_buf_reset \<lparr>sb_buf_init = b\<lparr>b_len := 0\<rparr>, sb_residual = residual, sb_maxlen = maxlen,
        sb_residual_fully_formed = False, sb_buf = b, sb_next = clear_buf, sb_len = 0, sb_error = False,
        sb_port_share_state = (if port_share_server then PS_ENABLED else PS_DISABLED)\<rparr>)))"

text \<open>The buffer of a connection-oriented socket comes from the packet geometry.\<close>

definition socket_frame_init :: "frame \<Rightarrow> bool \<Rightarrow> bool \<Rightarrow> link_socket \<Rightarrow> link_socket res" where
  "socket_frame_init f connection_oriented port_share_server sock =
     (if connection_oriented then
        bindE (alloc_buf_sock_tun f False FRAME_HEADROOM_MARKER_READ_STREAM) (\<lambda>b.
        bindE (stream_buf_init b port_share_server) (\<lambda>sb. Inr (sock\<lparr>ls_stream_buf := sb\<rparr>)))
      else Inr sock)"

definition stream_buf_set_next :: "stream_buf \<Rightarrow> stream_buf res" where
  "stream_buf_set_next sb =
     (let b = sb_buf sb;
          nx = b\<lparr>b_offset := b_offset b + b_len b, b_len := (if sb_len sb \<ge> 0 then sb_len sb else sb_maxlen sb) - b_len b\<rparr> in
      bindE (assertE (b_len nx > 0)) (\<lambda>_.
      bindE (assertE (buf_safe b (b_len nx))) (\<lambda>_. Inr (sb\<lparr>sb_next := nx\<rparr>))))"

definition stream_buf_get_final :: "stream_buf \<Rightarrow> buffer res" where
  "stream_buf_get_final sb = bindE (assertE (buf_defined (sb_buf sb))) (\<lambda>_. Inr (sb_buf sb))"

definition stream_buf_get_next :: "stream_buf \<Rightarrow> buffer res" where
  "stream_buf_get_next sb = bindE (assertE (buf_defined (sb_next sb))) (\<lambda>_. Inr (sb_next sb))"

text \<open>Does the beginning of a stream look like this protocol? The opcodes are shifted left by three.\<close>

definition is_openvpn_protocol :: "buffer \<Rightarrow> bool res" where
  "is_openvpn_protocol b =
     (let len = buf_len b in
      if len \<ge> 3 then
        bindE (buf_peek b (b_offset b) 3) (\<lambda>p.
        let plen = uint (of_be16 (take 2 p)) in
        if p ! 2 = push_bit 3 10 then Inr (plen \<ge> 336 \<and> plen < 1024 + 255)
        else Inr (plen \<ge> 14 \<and> plen \<le> 255 \<and> p ! 2 = push_bit 3 7))
      else if len \<ge> 2 then
        bindE (buf_peek b (b_offset b) 2) (\<lambda>p. let plen = uint (of_be16 p) in Inr (plen \<ge> 14 \<and> plen \<le> 255))
      else Inr True)"

text \<open>
  The length prefix, as soon as two bytes are there; the answer is whether the packet may go on, after a
  bad prefix or a foreign protocol the error flag is set.
\<close>

definition stream_buf_prefix :: "stream_buf \<Rightarrow> (bool \<times> stream_buf) res" where
  "stream_buf_prefix sb =
     (if sb_len sb < 0 \<and> b_len (sb_buf sb) \<ge> 2 then
        bindE (if sb_port_share_state sb = PS_ENABLED then is_openvpn_protocol (sb_buf sb) else Inr True) (\<lambda>ours.
        if \<not> ours then Inr (False, sb\<lparr>sb_port_share_state := PS_FOREIGN, sb_error := True\<rparr>)
        else
          let sb = (if sb_port_share_state sb = PS_ENABLED then sb\<lparr>sb_port_share_state := PS_DISABLED\<rparr> else sb) in
          bindE (buf_read (sb_buf sb) 2) (\<lambda>(r, b). case r of None \<Rightarrow> Inl Assert_Failed | Some net_size \<Rightarrow>
          let sb = sb\<lparr>sb_buf := b, sb_len := uint (of_be16 net_size)\<rparr> in
          if sb_len sb < 1 \<or> sb_len sb > sb_maxlen sb then Inr (False, (stream_buf_reset sb)\<lparr>sb_error := True\<rparr>)
          else Inr (True, sb)))
      else Inr (True, sb))"

definition stream_buf_added :: "stream_buf \<Rightarrow> int \<Rightarrow> (bool \<times> stream_buf) res" where
  "stream_buf_added sb length_added =
     (let sb = (if length_added > 0 then sb\<lparr>sb_buf := (sb_buf sb)\<lparr>b_len := b_len (sb_buf sb) + length_added\<rparr>\<rparr> else sb) in
      bindE (stream_buf_prefix sb) (\<lambda>(go, sb).
      if \<not> go then Inr (False, sb)
      else if sb_len sb > 0 \<and> b_len (sb_buf sb) \<ge> sb_len sb then
        (case buf_init_dowork (sb_residual sb) 0 of (ok, residual) \<Rightarrow>
         bindE (assertE ok) (\<lambda>_.
         if b_len (sb_buf sb) > sb_len sb then
           bindE (buf_copy_excess residual (sb_buf sb) (sb_len sb)) (\<lambda>(ok, residual, b).
           bindE (assertE ok) (\<lambda>_. Inr (True, sb\<lparr>sb_residual := residual, sb_buf := b\<rparr>)))
         else Inr (True, sb\<lparr>sb_residual := residual\<rparr>)))
      else bindE (stream_buf_set_next sb) (\<lambda>sb. Inr (False, sb))))"

definition stream_buf_read_setup_dowork :: "stream_buf \<Rightarrow> (bool \<times> stream_buf) res" where
  "stream_buf_read_setup_dowork sb =
     bindE (if b_len (sb_residual sb) \<noteq> 0 \<and> \<not> sb_residual_fully_formed sb then
              bindE (buf_copy (sb_buf sb) (sb_residual sb)) (\<lambda>(ok, b).
              bindE (assertE ok) (\<lambda>_.
              case buf_init_dowork (sb_residual sb) 0 of (ok, residual) \<Rightarrow>
              bindE (assertE ok) (\<lambda>_.
              bindE (stream_buf_added (sb\<lparr>sb_buf := b, sb_residual := residual\<rparr>) 0) (\<lambda>(formed, sb).
              Inr (sb\<lparr>sb_residual_fully_formed := formed\<rparr>)))))
            else Inr sb) (\<lambda>sb.
     bindE (if \<not> sb_residual_fully_formed sb then stream_buf_set_next sb else Inr sb) (\<lambda>sb.
     Inr (\<not> sb_residual_fully_formed sb, sb)))"

definition stream_buf_close :: "stream_buf \<Rightarrow> stream_buf" where
  "stream_buf_close sb = sb\<lparr>sb_residual := free_buf (sb_residual sb)\<rparr>"

definition socket_read_residual :: "link_socket option \<Rightarrow> bool" where
  "socket_read_residual s = (case s of None \<Rightarrow> False | Some s \<Rightarrow> sb_residual_fully_formed (ls_stream_buf s))"

text \<open>The bytes of a \<open>recv\<close> go to the place \<open>frag\<close> designates in the shared block.\<close>

definition recv_into :: "stream_buf \<Rightarrow> buffer \<Rightarrow> byte list \<Rightarrow> stream_buf res" where
  "recv_into sb frag bs = bindE (buf_poke (sb_buf sb) (b_offset frag) bs) (\<lambda>b. Inr (sb\<lparr>sb_buf := b\<rparr>))"

definition packet_complete :: "link_socket \<Rightarrow> stream_buf \<Rightarrow> (int \<times> buffer \<times> link_socket) res" where
  "packet_complete sock sb =
     bindE (stream_buf_get_final sb) (\<lambda>b. Inr (b_len b, b, sock\<lparr>ls_stream_buf := stream_buf_reset sb\<rparr>))"

definition link_socket_read_tcp :: "(int \<Rightarrow> byte list option) \<Rightarrow> link_socket \<Rightarrow> buffer \<Rightarrow> (int \<times> buffer \<times> link_socket) res" where
  "link_socket_read_tcp recv sock buf =
     (let sb = ls_stream_buf sock in
      if sb_residual_fully_formed sb then packet_complete sock sb
      else
        bindE (stream_buf_get_next sb) (\<lambda>frag.
        case recv (buf_len frag) of
          None \<Rightarrow> Inr (-1, buf\<lparr>b_len := -1\<rparr>, sock)
        | Some bs \<Rightarrow>
            if bs = [] then Inr (0, buf\<lparr>b_len := 0\<rparr>, sock\<lparr>ls_stream_reset := True\<rparr>)
            else
              bindE (recv_into sb frag bs) (\<lambda>sb.
              bindE (stream_buf_added sb (int (length bs))) (\<lambda>(complete, sb).
              if complete then packet_complete sock sb
              else Inr (0, buf\<lparr>b_len := 0\<rparr>, sock\<lparr>ls_stream_buf := sb\<rparr>)))))"

text \<open>The sender hands the packet with its length in front to the system.\<close>

definition link_socket_write_tcp :: "link_socket \<Rightarrow> buffer \<Rightarrow> buffer res" where
  "link_socket_write_tcp sock buf =
     (let len = word_of_int (buf_len buf) :: u16 in
      bindE (assertE (uint len \<le> sb_maxlen (ls_stream_buf sock))) (\<lambda>_.
      bindE (buf_write_prepend buf (be16 len)) (\<lambda>(ok, buf). bindE (assertE ok) (\<lambda>_. Inr buf))))"

definition ECONNRESET :: int where "ECONNRESET = 104"

definition socket_connection_reset :: "bool \<Rightarrow> link_socket \<Rightarrow> int \<Rightarrow> int \<Rightarrow> bool" where
  "socket_connection_reset connection_oriented sock status errno =
     (if connection_oriented then
        if ls_stream_reset sock \<or> sb_error (ls_stream_buf sock) then True
        else if status < 0 then errno = ECONNRESET
        else False
      else False)"

end
