(* ===== verification/Link_Stream_Correct.thy ===== *)
theory Link_Stream_Correct
  imports Link_Stream
begin

text \<open>
  However the network cuts the stream into pieces, the receiver delivers exactly the packets that were sent, in
  order; and no stream of bytes makes it fault.
\<close>

section \<open>States of the receiver\<close>

definition stream_geom :: "stream_buf \<Rightarrow> bool" where
  "stream_geom sb \<longleftrightarrow> 0 \<le> b_offset (sb_buf_init sb) \<and> b_len (sb_buf_init sb) = 0 \<and> 3 \<le> sb_maxlen sb
     \<and> b_offset (sb_buf_init sb) + 2 + sb_maxlen sb \<le> b_capacity (sb_buf_init sb)
     \<and> buf_wf (sb_buf sb) \<and> b_capacity (sb_buf sb) = b_capacity (sb_buf_init sb)
     \<and> buf_wf (sb_residual sb) \<and> b_offset (sb_residual sb) = 0 \<and> b_capacity (sb_residual sb) = sb_maxlen sb
     \<and> sb_port_share_state sb \<noteq> PS_ENABLED \<and> \<not> sb_error sb"

text \<open>Before the length prefix, and between the prefix and the end of a packet.\<close>

definition before_prefix :: "stream_buf \<Rightarrow> bool" where
  "before_prefix sb \<longleftrightarrow> sb_len sb = -1 \<and> b_offset (sb_buf sb) = b_offset (sb_buf_init sb)"

definition after_prefix :: "stream_buf \<Rightarrow> bool" where
  "after_prefix sb \<longleftrightarrow> 1 \<le> sb_len sb \<and> sb_len sb \<le> sb_maxlen sb \<and> sb_len sb < 65536
     \<and> b_offset (sb_buf sb) = b_offset (sb_buf_init sb) + 2"

definition st_fresh :: "stream_buf \<Rightarrow> bool" where
  "st_fresh sb \<longleftrightarrow> stream_geom sb \<and> \<not> sb_residual_fully_formed sb \<and> before_prefix sb \<and> b_len (sb_buf sb) = 0
     \<and> b_len (sb_residual sb) \<le> sb_maxlen sb - 3"

definition partial :: "stream_buf \<Rightarrow> bool" where
  "partial sb \<longleftrightarrow> stream_geom sb \<and> b_len (sb_residual sb) = 0
     \<and> (before_prefix sb \<and> b_len (sb_buf sb) < 2 \<or> after_prefix sb \<and> b_len (sb_buf sb) < sb_len sb)"

definition next_of :: "stream_buf \<Rightarrow> buffer" where
  "next_of sb = (let b = sb_buf sb in
     b\<lparr>b_offset := b_offset b + b_len b, b_len := (if sb_len sb \<ge> 0 then sb_len sb else sb_maxlen sb) - b_len b\<rparr>)"

definition st_waiting :: "stream_buf \<Rightarrow> bool" where
  "st_waiting sb \<longleftrightarrow> partial sb \<and> \<not> sb_residual_fully_formed sb \<and> sb_next sb = next_of sb"

definition complete :: "stream_buf \<Rightarrow> bool" where
  "complete sb \<longleftrightarrow> stream_geom sb \<and> after_prefix sb \<and> b_len (sb_buf sb) = sb_len sb
     \<and> b_len (sb_residual sb) \<le> sb_maxlen sb - 3"

text \<open>The bytes that have arrived and are not delivered yet, the length prefix included.\<close>

definition pending :: "stream_buf \<Rightarrow> byte list" where
  "pending sb = (if 0 \<le> sb_len sb then be16 (word_of_int (sb_len sb)) else [])
     @ buf_content (sb_buf sb) @ buf_content (sb_residual sb)"

definition framed :: "byte list \<Rightarrow> byte list" where
  "framed p = be16 (word_of_int (int (length p))) @ p"

definition bad_prefix :: "int \<Rightarrow> byte list \<Rightarrow> bool" where
  "bad_prefix maxlen x \<longleftrightarrow> 2 \<le> length x \<and> \<not> (1 \<le> uint (of_be16 (take 2 x)) \<and> uint (of_be16 (take 2 x)) \<le> maxlen)"

lemma content_Nil: "buf_wf b \<Longrightarrow> b_len b = 0 \<Longrightarrow> buf_content b = []"
  using length_buf_content_nat[of b] by simp

lemma stream_geomD:
  assumes "stream_geom sb"
  shows "buf_wf (sb_buf sb)" "buf_wf (sb_residual sb)" "3 \<le> sb_maxlen sb" "b_capacity (sb_residual sb) = sb_maxlen sb"
  using assms by (simp_all add: stream_geom_def)

lemma set_next_partial:
  assumes "partial sb"
  shows "stream_buf_set_next sb = Inr (sb\<lparr>sb_next := next_of sb\<rparr>)" "0 < b_len (next_of sb)"
    "b_offset (next_of sb) = b_offset (sb_buf sb) + b_len (sb_buf sb)"
    "b_len (next_of sb) = (if sb_len sb \<ge> 0 then sb_len sb else sb_maxlen sb) - b_len (sb_buf sb)"
    "b_offset (next_of sb) + b_len (next_of sb) \<le> b_capacity (sb_buf sb)" "buf_valid (next_of sb)"
proof -
  note p = assms[unfolded partial_def stream_geom_def before_prefix_def after_prefix_def]
  show len: "0 < b_len (next_of sb)" and fit: "b_offset (next_of sb) + b_len (next_of sb) \<le> b_capacity (sb_buf sb)"
    using p by (auto simp: next_of_def Let_def)
  show "b_offset (next_of sb) = b_offset (sb_buf sb) + b_len (sb_buf sb)"
    "b_len (next_of sb) = (if sb_len sb \<ge> 0 then sb_len sb else sb_maxlen sb) - b_len (sb_buf sb)"
    by (simp_all add: next_of_def Let_def)
  have "buf_safe (sb_buf sb) (b_len (next_of sb))"
    using len fit p by (intro buf_safe_room) (auto simp: next_of_def Let_def)
  then show "stream_buf_set_next sb = Inr (sb\<lparr>sb_next := next_of sb\<rparr>)"
    using len unfolding stream_buf_set_next_def next_of_def Let_def by simp
  have "b_data (sb_buf sb) \<noteq> None" using p by (auto elim: buf_wfE)
  then show "buf_valid (next_of sb)" using len by (simp add: buf_valid_def next_of_def Let_def)
qed

text \<open>After a bad prefix the structure is reset and flagged; the flag does not keep a read from being set up.\<close>

definition st_error :: "stream_buf \<Rightarrow> bool" where
  "st_error sb \<longleftrightarrow> sb_error sb \<and> partial (sb\<lparr>sb_error := False\<rparr>)"

lemma set_next_error:
  assumes "st_error sb"
  shows "stream_buf_set_next sb = Inr (sb\<lparr>sb_next := next_of sb\<rparr>)"
  using set_next_partial(1)[of "sb\<lparr>sb_error := False\<rparr>"] assms
  by (auto simp: st_error_def stream_buf_set_next_def next_of_def Let_def assertE_def split: if_splits)

text \<open>
  A buffer to which bytes have been added: before the prefix at most the maximum, behind it at most what the
  packet needs.
\<close>

definition filled :: "stream_buf \<Rightarrow> bool" where
  "filled sb \<longleftrightarrow> stream_geom sb \<and> b_len (sb_residual sb) = 0
     \<and> (before_prefix sb \<and> b_len (sb_buf sb) \<le> sb_maxlen sb \<or> after_prefix sb \<and> b_len (sb_buf sb) \<le> sb_len sb)"

lemma filled_prefix:
  assumes "filled sb"
  shows "(\<exists>sb'. stream_buf_prefix sb = Inr (False, sb') \<and> st_error sb' \<and> bad_prefix (sb_maxlen sb) (pending sb))
    \<or> (\<exists>sb'. stream_buf_prefix sb = Inr (True, sb') \<and> stream_geom sb' \<and> b_len (sb_residual sb') = 0 \<and> pending sb' = pending sb
        \<and> sb_residual_fully_formed sb' = sb_residual_fully_formed sb \<and> sb_maxlen sb' = sb_maxlen sb
        \<and> (before_prefix sb' \<and> b_len (sb_buf sb') < 2
           \<or> after_prefix sb' \<and> (b_len (sb_buf sb') \<le> sb_maxlen sb' - 2 \<or> b_len (sb_buf sb') \<le> sb_len sb')))"
proof (cases "sb_len sb < 0 \<and> b_len (sb_buf sb) \<ge> 2")
  case False
  then have "stream_buf_prefix sb = Inr (True, sb)" by (auto simp: stream_buf_prefix_def)
  then show ?thesis using assms False by (auto simp: filled_def before_prefix_def after_prefix_def)
next
  case True
  then have bp: "sb_len sb = -1" "b_offset (sb_buf sb) = b_offset (sb_buf_init sb)" "b_len (sb_buf sb) \<le> sb_maxlen sb"
    and g: "stream_geom sb" "b_len (sb_residual sb) = 0"
    using assms by (auto simp: filled_def before_prefix_def after_prefix_def)
  let ?b = "sb_buf sb"
  have wf: "buf_wf ?b" "buf_wf (sb_residual sb)" using g by (simp_all add: stream_geom_def)
  have rc: "buf_content (sb_residual sb) = []" using content_Nil[OF wf(2) g(2)] .
  then have pd: "pending sb = buf_content ?b" using bp(1) by (simp add: pending_def)
  have l2: "2 \<le> length (buf_content ?b)" using True length_buf_content[OF wf(1)] by linarith
  let ?x = "take 2 (buf_content ?b)" and ?b2 = "buf_drop ?b 2"
  have rd: "buf_read ?b 2 = Inr (Some ?x, ?b2)" using buf_read_take[OF wf(1), of 2] True by simp
  have b2: "buf_wf ?b2" "buf_content ?b2 = drop 2 (buf_content ?b)" using True wf(1) by (simp_all add: buf_drop_wf buf_drop_content)
  let ?L = "uint (of_be16 ?x)" and ?sb = "sb\<lparr>sb_buf := ?b2, sb_len := uint (of_be16 ?x)\<rparr>"
  have ps: "sb_port_share_state sb \<noteq> PS_ENABLED" using g(1) by (simp add: stream_geom_def)
  have pre: "stream_buf_prefix sb = (if ?L < 1 \<or> ?L > sb_maxlen sb then Inr (False, (stream_buf_reset ?sb)\<lparr>sb_error := True\<rparr>) else Inr (True, ?sb))"
    using True ps by (simp add: stream_buf_prefix_def rd Let_def)
  show ?thesis
  proof (cases "?L < 1 \<or> ?L > sb_maxlen sb")
    case bad: True
    let ?e = "(stream_buf_reset ?sb)\<lparr>sb_error := True\<rparr>"
    have "buf_wf ((sb_buf_init sb)\<lparr>b_data := b_data ?b2\<rparr>)"
      using b2(1) g(1) by (auto simp: buf_wf_def stream_geom_def split: option.splits)
    then have "st_error ?e"
      using g by (simp add: st_error_def partial_def stream_buf_reset_def before_prefix_def stream_geom_def)
    then show ?thesis using pre l2 pd bad by (intro disjI1) (auto simp: bad_prefix_def)
  next
    case good: False
    have "be16 (word_of_int ?L) = ?x" using l2 by (simp add: be16_of_be16)
    then have "pending ?sb = pending sb" using rc b2(2) pd by (simp add: pending_def)
    moreover have "?L < 65536" using unsigned_less[of "of_be16 ?x", where 'a = int] by simp
    ultimately show ?thesis using pre good g b2 bp True by (intro disjI2) (simp add: stream_geom_def after_prefix_def)
  qed
qed

text \<open>What becomes of bytes that have been added.\<close>

lemma filled_added:
  assumes "filled sb"
  shows "(\<exists>sb'. stream_buf_added sb 0 = Inr (False, sb') \<and> st_error sb' \<and> bad_prefix (sb_maxlen sb) (pending sb))
    \<or> (\<exists>sb'. stream_buf_added sb 0 = Inr (False, sb') \<and> partial sb' \<and> sb_next sb' = next_of sb' \<and> pending sb' = pending sb
        \<and> sb_residual_fully_formed sb' = sb_residual_fully_formed sb \<and> sb_maxlen sb' = sb_maxlen sb)
    \<or> (\<exists>sb'. stream_buf_added sb 0 = Inr (True, sb') \<and> complete sb' \<and> pending sb' = pending sb
        \<and> sb_residual_fully_formed sb' = sb_residual_fully_formed sb \<and> sb_maxlen sb' = sb_maxlen sb)"
  using filled_prefix[OF assms]
proof (elim disjE[of "\<exists>sb'. stream_buf_prefix sb = Inr (False, sb') \<and> _ sb'"] exE conjE)
  fix sb' assume "stream_buf_prefix sb = Inr (False, sb')" "st_error sb'" "bad_prefix (sb_maxlen sb) (pending sb)"
  then show ?thesis by (simp add: stream_buf_added_def)
next
  fix s assume s: "stream_buf_prefix sb = Inr (True, s)" "stream_geom s" "b_len (sb_residual s) = 0" "pending s = pending sb"
    "sb_residual_fully_formed s = sb_residual_fully_formed sb" "sb_maxlen s = sb_maxlen sb"
    "before_prefix s \<and> b_len (sb_buf s) < 2 \<or> after_prefix s \<and> (b_len (sb_buf s) \<le> sb_maxlen s - 2 \<or> b_len (sb_buf s) \<le> sb_len s)"
  note wf = stream_geomD[OF s(2)]
  show ?thesis
  proof (cases "sb_len s > 0 \<and> b_len (sb_buf s) \<ge> sb_len s")
    case False
    then have p: "partial s" using s(2,3,7) by (auto simp: partial_def before_prefix_def after_prefix_def)
    let ?s = "s\<lparr>sb_next := next_of s\<rparr>"
    have "stream_buf_added sb 0 = Inr (False, ?s)"
      using s(1) False set_next_partial(1)[OF p] by (auto simp: stream_buf_added_def)
    moreover have "partial ?s" "next_of ?s = next_of s" "pending ?s = pending s"
      using p by (simp_all add: partial_def stream_geom_def before_prefix_def after_prefix_def next_of_def pending_def)
    ultimately show ?thesis using s(4-6) by auto
  next
    case True
    then have ap: "after_prefix s" using s(7) by (auto simp: before_prefix_def)
    have r0: "b_offset (sb_residual s) = 0" using s(2) by (simp add: stream_geom_def)
    have init: "buf_init_dowork (sb_residual s) 0 = (True, sb_residual s)"
      using buf_init_dowork_ok[OF wf(2), of 0] s(3) r0 buf_wf_bounds[OF wf(2)] by simp
    show ?thesis
    proof (cases "b_len (sb_buf s) > sb_len s")
      case False
      then have "stream_buf_added sb 0 = Inr (True, s)"
        using s(1) True init by (simp add: stream_buf_added_def Let_def)
      moreover have "complete s" using ap s(2,3) True False wf(3) by (simp add: complete_def)
      ultimately show ?thesis using s(4-6) by blast
    next
      case more: True
      let ?L = "sb_len s" and ?r = "sb_residual s"
      let ?r' = "buf_append ?r (drop (nat ?L) (buf_content (sb_buf s)))" and ?b' = "(sb_buf s)\<lparr>b_len := ?L\<rparr>"
      have room: "b_len (sb_buf s) - ?L \<le> buf_room ?r" "b_len (sb_buf s) \<le> sb_maxlen s - 2"
        using s(3,7) more wf(4) r0 ap True by (auto simp: after_prefix_def before_prefix_def)
      have split: "buf_copy_excess ?r (sb_buf s) ?L = Inr (True, ?r', ?b')"
        using wf True more room by (intro buf_copy_excess_splits) auto
      have ld: "int (length (drop (nat ?L) (buf_content (sb_buf s)))) = b_len (sb_buf s) - ?L"
        using length_buf_content[OF wf(1)] True more by simp
      have rw: "buf_wf ?r'" "buf_content ?r' = drop (nat ?L) (buf_content (sb_buf s))"
        using ld room wf(2) content_Nil[OF wf(2) s(3)] by (simp_all add: buf_append_wf buf_append_content)
      have bw: "buf_wf ?b'" "buf_content ?b' = take (nat ?L) (buf_content (sb_buf s))"
        using wf(1) True more buf_wf_bounds[OF wf(1)] by (simp_all add: buf_set_len_wf buf_set_len_content)
      let ?s = "s\<lparr>sb_residual := ?r', sb_buf := ?b'\<rparr>"
      have "stream_buf_added sb 0 = Inr (True, ?s)" using s(1) True more init split by (simp add: stream_buf_added_def Let_def)
      moreover have "complete ?s"
        using s(2,3) ap rw(1) bw(1) ld room(2) True
        by (simp add: complete_def stream_geom_def after_prefix_def)
      moreover have "pending ?s = pending s" using rw(2) bw(2) content_Nil[OF wf(2) s(3)] by (simp add: pending_def)
      ultimately show ?thesis using s(4-6) by (metis (no_types, lifting) stream_buf.select_convs(3,4) stream_buf.surjective stream_buf.update_convs(2,5))
    qed
  qed
qed

section \<open>One round of the event loop\<close>

text \<open>
  A round sets up the next read and, when there is something to read or a packet is complete already,
  reads: the system returns at most the bytes asked for and at most \<open>k + 1\<close> of those in flight.
\<close>

definition stream_round :: "nat \<Rightarrow> link_socket \<Rightarrow> byte list \<Rightarrow> (byte list option \<times> link_socket \<times> byte list) res" where
  "stream_round k s net =
     bindE (stream_buf_read_setup_dowork (ls_stream_buf s)) (\<lambda>(want, sb).
     let s = s\<lparr>ls_stream_buf := sb\<rparr> in
     if sb_error sb \<or> want \<and> net = [] then Inr (None, s, net)
     else
       let n = (if want then min (nat (buf_len (sb_next sb))) (Suc k) else 0) in
       bindE (link_socket_read_tcp (\<lambda>m. Some (take (min (nat m) (Suc k)) net)) s clear_buf) (\<lambda>(len, b, s).
       if len > 0 then bindE (buf_bytes b) (\<lambda>p. Inr (Some p, s, drop n net)) else Inr (None, s, drop n net)))"

fun stream_run :: "nat list \<Rightarrow> link_socket \<Rightarrow> byte list \<Rightarrow> (byte list list \<times> link_socket \<times> byte list) res" where
  "stream_run [] s net = Inr ([], s, net)"
| "stream_run (k # ks) s net =
     (if sb_error (ls_stream_buf s) then Inr ([], s, net)
      else bindE (stream_round k s net) (\<lambda>(r, s, net).
           bindE (stream_run ks s net) (\<lambda>(ps, s, net). Inr ((case r of None \<Rightarrow> ps | Some p \<Rightarrow> p # ps), s, net))))"

definition sock_ok :: "link_socket \<Rightarrow> bool" where
  "sock_ok s \<longleftrightarrow> st_fresh (ls_stream_buf s) \<or> st_waiting (ls_stream_buf s)"

abbreviation sock_pending :: "link_socket \<Rightarrow> byte list" where
  "sock_pending s \<equiv> pending (ls_stream_buf s)"

abbreviation sock_maxlen :: "link_socket \<Rightarrow> int" where
  "sock_maxlen s \<equiv> sb_maxlen (ls_stream_buf s)"

lemma partial_formed [simp]: "partial (sb\<lparr>sb_residual_fully_formed := f\<rparr>) = partial sb"
  "complete (sb\<lparr>sb_residual_fully_formed := f\<rparr>) = complete sb" "pending (sb\<lparr>sb_residual_fully_formed := f\<rparr>) = pending sb"
  "next_of (sb\<lparr>sb_residual_fully_formed := f\<rparr>) = next_of sb"
  by (simp_all add: partial_def complete_def stream_geom_def before_prefix_def after_prefix_def pending_def next_of_def)

lemma partial_next [simp]: "partial (sb\<lparr>sb_next := x\<rparr>) = partial sb" "pending (sb\<lparr>sb_next := x\<rparr>) = pending sb"
  "next_of (sb\<lparr>sb_next := x\<rparr>) = next_of sb"
  by (simp_all add: partial_def stream_geom_def before_prefix_def after_prefix_def pending_def next_of_def)

text \<open>Setting up a read: an error, a place to read to, or a packet from what was left over.\<close>

lemma waiting_setup:
  assumes "st_waiting sb"
  shows "stream_buf_read_setup_dowork sb = Inr (True, sb)"
proof -
  have p: "partial sb" and f: "\<not> sb_residual_fully_formed sb" and n: "sb_next sb = next_of sb"
    using assms by (simp_all add: st_waiting_def)
  have r: "b_len (sb_residual sb) = 0" using p by (simp add: partial_def)
  have "sb\<lparr>sb_next := next_of sb\<rparr> = sb" using n by simp
  then show ?thesis using r f set_next_partial(1)[OF p] by (simp add: stream_buf_read_setup_dowork_def)
qed

lemma fresh_setup:
  assumes "st_fresh sb"
  shows "(\<exists>sb'. stream_buf_read_setup_dowork sb = Inr (True, sb') \<and> st_error sb' \<and> bad_prefix (sb_maxlen sb) (pending sb))
    \<or> (\<exists>sb'. stream_buf_read_setup_dowork sb = Inr (True, sb') \<and> st_waiting sb' \<and> pending sb' = pending sb \<and> sb_maxlen sb' = sb_maxlen sb)
    \<or> (\<exists>sb'. stream_buf_read_setup_dowork sb = Inr (False, sb') \<and> complete sb' \<and> sb_residual_fully_formed sb'
         \<and> pending sb' = pending sb \<and> sb_maxlen sb' = sb_maxlen sb)"
proof (cases "b_len (sb_residual sb) = 0")
  case True
  then have p: "partial sb" using assms by (simp add: st_fresh_def partial_def)
  then show ?thesis using True assms set_next_partial(1)[OF p]
    by (simp add: stream_buf_read_setup_dowork_def st_fresh_def st_waiting_def)
next
  case False
  have g: "stream_geom sb" "\<not> sb_residual_fully_formed sb" "before_prefix sb" "b_len (sb_buf sb) = 0" "b_len (sb_residual sb) \<le> sb_maxlen sb - 3"
    using assms by (simp_all add: st_fresh_def)
  note wf = stream_geomD[OF g(1)]
  let ?b = "buf_append (sb_buf sb) (buf_content (sb_residual sb))" and ?r = "(sb_residual sb)\<lparr>b_len := 0, b_offset := 0\<rparr>"
  have room: "b_len (sb_residual sb) \<le> buf_room (sb_buf sb)"
    using g by (simp add: stream_geom_def before_prefix_def)
  have cp: "buf_copy (sb_buf sb) (sb_residual sb) = Inr (True, ?b)" using wf room by (simp add: buf_copy_append)
  have b: "buf_wf ?b" "buf_content ?b = buf_content (sb_residual sb)"
    using wf room content_Nil[OF wf(1) g(4)] by (simp_all add: buf_append_wf buf_append_content)
  have r: "buf_init_dowork (sb_residual sb) 0 = (True, ?r)" "buf_wf ?r"
    using wf buf_wf_bounds[OF wf(2)] by (simp_all add: buf_init_dowork_ok buf_init_wf)
  let ?sb = "sb\<lparr>sb_buf := ?b, sb_residual := ?r\<rparr>"
  have "b_len ?b = b_len (sb_residual sb)" using g(4) wf(2) by simp
  then have f: "filled ?sb" using g(2-5) g(1)[unfolded stream_geom_def] b r(2)
    unfolding filled_def stream_geom_def before_prefix_def by simp
  have pd: "pending ?sb = pending sb"
    using b(2) content_Nil[OF r(2)] content_Nil[OF wf(1) g(4)] g(3) by (simp add: pending_def before_prefix_def)
  have su: "stream_buf_read_setup_dowork sb = bindE (stream_buf_added ?sb 0) (\<lambda>(formed, sb).
      let sb = sb\<lparr>sb_residual_fully_formed := formed\<rparr> in
      bindE (if \<not> formed then stream_buf_set_next sb else Inr sb) (\<lambda>sb. Inr (\<not> sb_residual_fully_formed sb, sb)))"
    using False g(2) cp r(1) by (cases "stream_buf_added ?sb 0") (simp_all add: stream_buf_read_setup_dowork_def Let_def split: prod.split)
  from filled_added[OF f] show ?thesis
  proof (elim disjE exE conjE)
    fix sb' assume "stream_buf_added ?sb 0 = Inr (False, sb')" "st_error sb'" "bad_prefix (sb_maxlen ?sb) (pending ?sb)"
    moreover have "stream_buf_set_next (sb'\<lparr>sb_residual_fully_formed := False\<rparr>)
      = Inr ((sb'\<lparr>sb_residual_fully_formed := False\<rparr>)\<lparr>sb_next := next_of sb'\<rparr>)"
      using set_next_error[of "sb'\<lparr>sb_residual_fully_formed := False\<rparr>"] \<open>st_error sb'\<close>
      by (simp add: st_error_def partial_def stream_geom_def before_prefix_def after_prefix_def next_of_def)
    moreover have "st_error (sb'\<lparr>sb_residual_fully_formed := False, sb_next := next_of sb'\<rparr>)"
      using \<open>st_error sb'\<close> by (simp add: st_error_def partial_def stream_geom_def before_prefix_def after_prefix_def)
    ultimately show ?thesis unfolding su using pd by (intro disjI1) simp
  next
    fix sb' assume a: "stream_buf_added ?sb 0 = Inr (False, sb')" "partial sb'" "pending sb' = pending ?sb" "sb_maxlen sb' = sb_maxlen ?sb"
    let ?s = "sb'\<lparr>sb_residual_fully_formed := False\<rparr>"
    have "stream_buf_set_next ?s = Inr (?s\<lparr>sb_next := next_of sb'\<rparr>)" using set_next_partial(1)[of ?s] a(2) by simp
    moreover have "st_waiting (?s\<lparr>sb_next := next_of sb'\<rparr>)" using a(2) by (simp add: st_waiting_def)
    ultimately show ?thesis unfolding su using pd a by (intro disjI2 disjI1) (simp add: Let_def)
  next
    fix sb' assume a: "stream_buf_added ?sb 0 = Inr (True, sb')" "complete sb'" "pending sb' = pending ?sb" "sb_maxlen sb' = sb_maxlen ?sb"
    then show ?thesis unfolding su using pd by (intro disjI2) (simp add: Let_def)
  qed
qed

text \<open>A complete packet is delivered, and what was left over waits in a fresh structure.\<close>

lemma complete_delivered:
  assumes "complete sb"
  shows "\<exists>b s'. packet_complete s sb = Inr (b_len b, b, s') \<and> buf_wf b \<and> 0 < b_len b \<and> b_len b \<le> sb_maxlen sb \<and> b_len b < 65536
    \<and> st_fresh (ls_stream_buf s') \<and> sock_maxlen s' = sb_maxlen sb \<and> pending sb = framed (buf_content b) @ sock_pending s'"
proof -
  have c: "stream_geom sb" "after_prefix sb" "b_len (sb_buf sb) = sb_len sb" "b_len (sb_residual sb) \<le> sb_maxlen sb - 3"
    using assms by (simp_all add: complete_def)
  note wf = stream_geomD[OF c(1)]
  let ?b = "sb_buf sb" and ?s = "s\<lparr>ls_stream_buf := stream_buf_reset sb\<rparr>"
  have "buf_defined ?b" using wf(1) by (auto simp: buf_defined_def elim: buf_wfE)
  then have d: "packet_complete s sb = Inr (b_len ?b, ?b, ?s)" by (simp add: packet_complete_def stream_buf_get_final_def)
  have w: "buf_wf ((sb_buf_init sb)\<lparr>b_data := b_data ?b\<rparr>)" "b_len ((sb_buf_init sb)\<lparr>b_data := b_data ?b\<rparr>) = 0"
    using wf(1) c(1) by (auto simp: buf_wf_def stream_geom_def split: option.splits)
  have "st_fresh (stream_buf_reset sb)"
    using w c(1,4) by (simp add: st_fresh_def stream_buf_reset_def stream_geom_def before_prefix_def)
  moreover have "pending (stream_buf_reset sb) = buf_content (sb_residual sb)"
    using content_Nil[OF w] by (simp add: pending_def stream_buf_reset_def)
  moreover have "pending sb = framed (buf_content ?b) @ buf_content (sb_residual sb)"
    using c(2,3) wf(1) by (simp add: pending_def framed_def after_prefix_def)
  ultimately show ?thesis using d wf(1) c(2,3)
    by (intro exI[of _ ?b] exI[of _ ?s]) (auto simp: after_prefix_def stream_buf_reset_def)
qed

text \<open>Reading some bytes into a waiting structure.\<close>

lemma waiting_read:
  assumes "st_waiting (ls_stream_buf s)" "bs \<noteq> []" "int (length bs) \<le> b_len (sb_next (ls_stream_buf s))"
    and "recv (b_len (sb_next (ls_stream_buf s))) = Some bs"
  shows "(\<exists>b s'. link_socket_read_tcp recv s b0 = Inr (0, b, s') \<and> st_error (ls_stream_buf s') \<and> bad_prefix (sock_maxlen s) (sock_pending s @ bs))
    \<or> (\<exists>b s'. link_socket_read_tcp recv s b0 = Inr (0, b, s') \<and> st_waiting (ls_stream_buf s') \<and> sock_maxlen s' = sock_maxlen s
         \<and> sock_pending s' = sock_pending s @ bs)
    \<or> (\<exists>b s'. link_socket_read_tcp recv s b0 = Inr (b_len b, b, s') \<and> buf_wf b \<and> 0 < b_len b \<and> b_len b \<le> sock_maxlen s \<and> b_len b < 65536
         \<and> st_fresh (ls_stream_buf s') \<and> sock_maxlen s' = sock_maxlen s \<and> sock_pending s @ bs = framed (buf_content b) @ sock_pending s')"
proof -
  let ?sb = "ls_stream_buf s"
  have p: "partial ?sb" "\<not> sb_residual_fully_formed ?sb" "sb_next ?sb = next_of ?sb" using assms(1) by (simp_all add: st_waiting_def)
  note nx = set_next_partial[OF p(1)]
  have g: "stream_geom ?sb" "b_len (sb_residual ?sb) = 0" using p(1) by (simp_all add: partial_def)
  note wf = stream_geomD[OF g(1)]
  have def: "buf_defined (sb_next ?sb)" "buf_len (sb_next ?sb) = b_len (sb_next ?sb)"
    using nx(6) p(3) by (simp_all add: buf_defined_def buf_valid_def buf_len_def)
  obtain d where d: "b_data (sb_buf ?sb) = Some d" "int (length d) = b_capacity (sb_buf ?sb)"
    "0 \<le> b_offset (sb_buf ?sb)" "0 \<le> b_len (sb_buf ?sb)" using wf(1) by (auto elim: buf_wfE)
  let ?at = "b_offset (sb_buf ?sb) + b_len (sb_buf ?sb)"
  let ?b1 = "(sb_buf ?sb)\<lparr>b_data := Some (overwrite d (nat ?at) bs)\<rparr>"
  have fit: "?at + int (length bs) \<le> int (length d)" using nx(3,5) p(3) d(2) assms(3) by simp
  have at: "0 \<le> ?at" using d by simp
  have "buf_poke (sb_buf ?sb) ?at bs = Inr ?b1"
    unfolding buf_poke_def d(1) option.case mem_write_ok[OF at fit] by simp
  then have into: "recv_into ?sb (sb_next ?sb) bs = Inr (?sb\<lparr>sb_buf := ?b1\<rparr>)"
    unfolding recv_into_def p(3) nx(3) by simp
  let ?b2 = "buf_append (sb_buf ?sb) bs" and ?s2 = "?sb\<lparr>sb_buf := buf_append (sb_buf ?sb) bs\<rparr>"
  have b2: "?b1\<lparr>b_len := b_len ?b1 + int (length bs)\<rparr> = ?b2" using d(1) by (simp add: buf_append_def)
  have room: "int (length bs) \<le> buf_room (sb_buf ?sb)" using fit d(2) by simp
  have w2: "buf_wf ?b2" "buf_content ?b2 = buf_content (sb_buf ?sb) @ bs" using wf(1) room by (simp_all add: buf_append_wf buf_append_content)
  have "filled ?s2"
    using p(1,3) nx(4) assms(3) w2(1) unfolding filled_def partial_def stream_geom_def before_prefix_def after_prefix_def
    by (auto split: if_splits)
  note fa = filled_added[OF this]
  have pd: "pending ?s2 = pending ?sb @ bs" using w2(2) content_Nil[OF wf(2) g(2)] by (simp add: pending_def)
  have add: "stream_buf_added (?sb\<lparr>sb_buf := ?b1\<rparr>) (int (length bs)) = stream_buf_added ?s2 0"
    using assms(2) b2 by (simp add: stream_buf_added_def)
  have rd: "link_socket_read_tcp recv s b0 = bindE (stream_buf_added ?s2 0) (\<lambda>(complete, sb).
      if complete then packet_complete s sb else Inr (0, b0\<lparr>b_len := 0\<rparr>, s\<lparr>ls_stream_buf := sb\<rparr>))"
    using p(2) def assms(2,4) into add by (simp add: link_socket_read_tcp_def stream_buf_get_next_def Let_def)
  from fa show ?thesis
  proof (elim disjE exE conjE)
    fix sb' assume "stream_buf_added ?s2 0 = Inr (False, sb')" "st_error sb'" "bad_prefix (sb_maxlen ?s2) (pending ?s2)"
    then show ?thesis unfolding rd using pd by (intro disjI1) simp
  next
    fix sb' assume "stream_buf_added ?s2 0 = Inr (False, sb')" "partial sb'" "sb_next sb' = next_of sb'" "pending sb' = pending ?s2"
      "sb_residual_fully_formed sb' = sb_residual_fully_formed ?s2" "sb_maxlen sb' = sb_maxlen ?s2"
    then show ?thesis unfolding rd using pd p(2) by (intro disjI2 disjI1) (simp add: st_waiting_def)
  next
    fix sb' assume a: "stream_buf_added ?s2 0 = Inr (True, sb')" "complete sb'" "pending sb' = pending ?s2" "sb_maxlen sb' = sb_maxlen ?s2"
    from complete_delivered[OF a(2), of s] show ?thesis unfolding rd a(1) using a(3,4) pd by (intro disjI2) auto
  qed
qed

lemma framed_length [simp]: "length (framed p) = 2 + length p"
  by (simp add: framed_def be16_def)

lemma bad_prefix_append: "bad_prefix m x \<Longrightarrow> bad_prefix m (x @ y)"
  by (simp add: bad_prefix_def)

text \<open>A round ends the connection, makes progress without completing a packet, or delivers one.\<close>

lemma stream_round_cases:
  assumes "sock_ok s"
  obtains (bad) s' net' where "stream_round k s net = Inr (None, s', net')" "st_error (ls_stream_buf s')"
      "bad_prefix (sock_maxlen s) (sock_pending s @ net)"
  | (part) s' net' where "stream_round k s net = Inr (None, s', net')" "sock_ok s'" "sock_maxlen s' = sock_maxlen s"
      "sock_pending s' @ net' = sock_pending s @ net" "st_waiting (ls_stream_buf s')" "net = [] \<Longrightarrow> net' = []" "net \<noteq> [] \<Longrightarrow> length net' < length net"
  | (packet) p s' net' where "stream_round k s net = Inr (Some p, s', net')" "sock_ok s'" "sock_maxlen s' = sock_maxlen s"
      "sock_pending s @ net = framed p @ sock_pending s' @ net'" "1 \<le> length p" "int (length p) \<le> sock_maxlen s"
      "length p < 65536" "length net' \<le> length net"
proof -
  have bytes: "\<exists>r. (if b_len b > 0 then bindE (buf_bytes b) (\<lambda>p. Inr (Some p, s', n)) else Inr (None, s', n)) = Inr (r, s', n)
      \<and> r = Some (buf_content b)" if "buf_wf b" "0 < b_len b" for b and s' :: link_socket and n :: "byte list"
    using that by (simp add: buf_bytes_content)
  have waiting: thesis if w: "st_waiting sb" "stream_buf_read_setup_dowork (ls_stream_buf s) = Inr (True, sb)"
    "pending sb = sock_pending s" "sb_maxlen sb = sock_maxlen s" for sb
  proof (cases "net = []")
    case True
    have e: "\<not> sb_error sb" using w(1) by (simp add: st_waiting_def partial_def stream_geom_def)
    have r: "stream_round k s net = Inr (None, s\<lparr>ls_stream_buf := sb\<rparr>, net)"
      using w(2) True e by (simp add: stream_round_def Let_def)
    show thesis by (rule part[OF r]) (use w True in \<open>simp_all add: sock_ok_def\<close>)
  next
    case False
    have p: "partial sb" "sb_next sb = next_of sb" and e: "\<not> sb_error sb"
      using w(1) by (simp_all add: st_waiting_def partial_def stream_geom_def)
    note nx = set_next_partial[OF p(1)]
    have bl: "buf_len (sb_next sb) = b_len (sb_next sb)" "0 < b_len (sb_next sb)" using nx(2,6) p(2) by (simp_all add: buf_len_def)
    let ?n = "min (nat (b_len (sb_next sb))) (Suc k)" and ?s = "s\<lparr>ls_stream_buf := sb\<rparr>"
    let ?recv = "\<lambda>m. Some (take (min (nat m) (Suc k)) net)"
    have bs: "take ?n net \<noteq> []" "int (length (take ?n net)) \<le> b_len (sb_next sb)" using False bl(2) by auto
    have rd: "stream_round k s net = bindE (link_socket_read_tcp ?recv ?s clear_buf) (\<lambda>(len, b, s).
       if len > 0 then bindE (buf_bytes b) (\<lambda>p. Inr (Some p, s, drop ?n net)) else Inr (None, s, drop ?n net))"
      using w(2) False e bl by (simp add: stream_round_def Let_def)
    have sp: "sock_pending ?s @ take ?n net @ drop ?n net = sock_pending s @ net" using w(3) by simp
    have dec: "length (drop ?n net) < length net" using False bl(2) by (cases net) auto
    have sel: "ls_stream_buf ?s = sb" by simp
    from waiting_read[of ?s "take ?n net" ?recv clear_buf, unfolded sel, OF w(1) bs refl] show thesis
    proof (elim disjE exE conjE)
      fix b s' assume a: "link_socket_read_tcp ?recv ?s clear_buf = Inr (0, b, s')" "st_error (ls_stream_buf s')"
        "bad_prefix (sb_maxlen sb) (pending sb @ take ?n net)"
      have "bad_prefix (sock_maxlen s) (sock_pending s @ net)"
        using bad_prefix_append[OF a(3), of "drop ?n net"] sp w(4) by simp
      then show thesis by (intro bad[of s' "drop ?n net"]) (use rd a in simp_all)
    next
      fix b s' assume a: "link_socket_read_tcp ?recv ?s clear_buf = Inr (0, b, s')" "st_waiting (ls_stream_buf s')"
        "sock_maxlen s' = sb_maxlen sb" "sock_pending s' = pending sb @ take ?n net"
      show thesis by (rule part[of s' "drop ?n net"]) (use rd a sp dec w(4) in \<open>simp_all add: sock_ok_def\<close>)
    next
      fix b s' assume a: "link_socket_read_tcp ?recv ?s clear_buf = Inr (b_len b, b, s')" "buf_wf b" "0 < b_len b"
        "b_len b \<le> sb_maxlen sb" "b_len b < 65536" "st_fresh (ls_stream_buf s')" "sock_maxlen s' = sb_maxlen sb"
        "pending sb @ take ?n net = framed (buf_content b) @ sock_pending s'"
      have len: "length (buf_content b) = nat (b_len b)" using length_buf_content_nat[OF a(2)] .
      have "sock_pending s @ net = framed (buf_content b) @ sock_pending s' @ drop ?n net"
        using sp a(8) unfolding sel by (metis append.assoc)
      then show thesis
        by (intro packet[of "buf_content b" s' "drop ?n net"]) (use rd a len w(4) bytes[OF a(2,3)] in \<open>auto simp: sock_ok_def\<close>)
    qed
  qed
  show thesis
  proof (cases "st_waiting (ls_stream_buf s)")
    case True
    show thesis by (rule waiting[OF True waiting_setup[OF True]]) simp_all
  next
    case False
    then have "st_fresh (ls_stream_buf s)" using assms by (simp add: sock_ok_def)
    from fresh_setup[OF this] show thesis
    proof (elim disjE exE conjE)
      fix sb assume a: "stream_buf_read_setup_dowork (ls_stream_buf s) = Inr (True, sb)" "st_error sb"
        "bad_prefix (sock_maxlen s) (sock_pending s)"
      show thesis by (rule bad[of "s\<lparr>ls_stream_buf := sb\<rparr>" net])
          (use a bad_prefix_append in \<open>simp_all add: stream_round_def Let_def st_error_def\<close>)
    next
      fix sb assume "stream_buf_read_setup_dowork (ls_stream_buf s) = Inr (True, sb)" "st_waiting sb"
        "pending sb = sock_pending s" "sb_maxlen sb = sock_maxlen s"
      then show thesis by (intro waiting)
    next
      fix sb assume a: "stream_buf_read_setup_dowork (ls_stream_buf s) = Inr (False, sb)" "complete sb"
        "sb_residual_fully_formed sb" "pending sb = sock_pending s" "sb_maxlen sb = sock_maxlen s"
      have e: "\<not> sb_error sb" using a(2) by (simp add: complete_def stream_geom_def)
      let ?s = "s\<lparr>ls_stream_buf := sb\<rparr>"
      from complete_delivered[OF a(2), of ?s] obtain b s' where d: "packet_complete ?s sb = Inr (b_len b, b, s')"
        "buf_wf b" "0 < b_len b" "b_len b \<le> sb_maxlen sb" "b_len b < 65536" "st_fresh (ls_stream_buf s')"
        "sock_maxlen s' = sb_maxlen sb" "pending sb = framed (buf_content b) @ sock_pending s'" by blast
      have len: "length (buf_content b) = nat (b_len b)" using length_buf_content_nat[OF d(2)] .
      have "stream_round k s net = Inr (Some (buf_content b), s', net)"
        using a(1,3) e d(1-3) by (simp add: stream_round_def link_socket_read_tcp_def Let_def buf_bytes_content)
      then show thesis
        by (intro packet[of "buf_content b" s' net]) (use a d len in \<open>auto simp: sock_ok_def\<close>)
    qed
  qed
qed

text \<open>What is pending while more is awaited is less than a packet.\<close>

lemma framed_prefix:
  assumes "framed p @ x = be16 (word_of_int l) @ y" "length p < 65536" "0 \<le> l" "l < 65536"
  shows "l = int (length p) \<and> p @ x = y"
proof -
  have "be16 (word_of_int (int (length p))) = be16 (word_of_int l) \<and> p @ x = y"
    using assms(1) by (simp add: framed_def be16_def)
  then have "(word_of_int (int (length p)) :: u16) = word_of_int l" and y: "p @ x = y" by (metis of_be16_be16)+
  then have "take_bit 16 (int (length p)) = take_bit 16 l" by (simp only: word_of_int_eq_iff) simp
  moreover have "take_bit 16 (int (length p)) = int (length p)" "take_bit 16 l = l"
    using assms(2-4) by (auto intro!: take_bit_int_eq_self)
  ultimately show ?thesis using y by simp
qed

lemma waiting_incomplete:
  assumes "st_waiting sb" "pending sb = framed p @ x" "length p < 65536"
  shows False
proof -
  have p: "partial sb" "stream_geom sb" "b_len (sb_residual sb) = 0" using assms(1) by (simp_all add: st_waiting_def partial_def)
  note wf = stream_geomD[OF p(2)]
  note len = length_buf_content_nat[OF wf(1)]
  have r: "buf_content (sb_residual sb) = []" using content_Nil[OF wf(2) p(3)] .
  show False
  proof (cases "before_prefix sb")
    case True
    then have "b_len (sb_buf sb) < 2" using p(1) by (auto simp: partial_def before_prefix_def after_prefix_def)
    moreover have "length (pending sb) = nat (b_len (sb_buf sb))" using True r len by (simp add: pending_def before_prefix_def)
    moreover have "2 \<le> length (pending sb)" using assms(2) by simp
    ultimately show False by linarith
  next
    case False
    then have ap: "after_prefix sb" "b_len (sb_buf sb) < sb_len sb" using p(1) by (auto simp: partial_def)
    then have "framed p @ x = be16 (word_of_int (sb_len sb)) @ buf_content (sb_buf sb)"
      using assms(2) r by (simp add: pending_def after_prefix_def)
    from framed_prefix[OF this assms(3)] ap have "sb_len sb = int (length p)" "p @ x = buf_content (sb_buf sb)"
      by (auto simp: after_prefix_def)
    moreover from this(2) have "length p + length x = nat (b_len (sb_buf sb))" using len by (metis length_append)
    ultimately show False using ap unfolding after_prefix_def by arith
  qed
qed

section \<open>Runs\<close>

text \<open>Whatever arrives, the receiver does not fault, and it delivers the packets at the front of the stream.\<close>

lemma stream_run_safe:
  assumes "sock_ok s"
  shows "\<exists>ps s' net' rest. stream_run ks s net = Inr (ps, s', net')
    \<and> sock_pending s @ net = concat (map framed ps) @ rest
    \<and> (\<forall>p \<in> set ps. 1 \<le> length p \<and> int (length p) \<le> sock_maxlen s)
    \<and> (st_error (ls_stream_buf s') \<and> bad_prefix (sock_maxlen s) rest \<or> sock_ok s' \<and> rest = sock_pending s' @ net')"
  using assms
proof (induction ks arbitrary: s net)
  case Nil
  then show ?case by (intro exI[of _ "[]"] exI[of _ s] exI[of _ net] exI[of _ "sock_pending s @ net"]) simp
next
  case (Cons k ks)
  have ne: "\<not> sb_error (ls_stream_buf s)"
    using Cons.prems by (auto simp: sock_ok_def st_fresh_def st_waiting_def partial_def stream_geom_def)
  from Cons.prems show ?case
  proof (cases rule: stream_round_cases[where k = k and net = net])
    case (bad s' net')
    have "stream_run ks s' net' = Inr ([], s', net')" using bad(2) by (cases ks) (simp_all add: st_error_def)
    then show ?thesis using ne bad
      by (intro exI[of _ "[]"] exI[of _ s'] exI[of _ net'] exI[of _ "sock_pending s @ net"]) simp
  next
    case (part s' net')
    from Cons.IH[OF part(2), of net'] obtain ps s'' net'' rest where
      "stream_run ks s' net' = Inr (ps, s'', net'')" "sock_pending s' @ net' = concat (map framed ps) @ rest"
      "\<forall>p \<in> set ps. 1 \<le> length p \<and> int (length p) \<le> sock_maxlen s'"
      "st_error (ls_stream_buf s'') \<and> bad_prefix (sock_maxlen s') rest \<or> sock_ok s'' \<and> rest = sock_pending s'' @ net''" by blast
    then show ?thesis using ne part(1,3,4) by (intro exI[of _ ps] exI[of _ s''] exI[of _ net''] exI[of _ rest]) simp
  next
    case (packet p s' net')
    from Cons.IH[OF packet(2), of net'] obtain ps s'' net'' rest where
      "stream_run ks s' net' = Inr (ps, s'', net'')" "sock_pending s' @ net' = concat (map framed ps) @ rest"
      "\<forall>p \<in> set ps. 1 \<le> length p \<and> int (length p) \<le> sock_maxlen s'"
      "st_error (ls_stream_buf s'') \<and> bad_prefix (sock_maxlen s') rest \<or> sock_ok s'' \<and> rest = sock_pending s'' @ net''" by blast
    then show ?thesis using ne packet(1,3-6)
      by (intro exI[of _ "p # ps"] exI[of _ s''] exI[of _ net''] exI[of _ rest]) simp
  qed
qed

text \<open>
  A run over a stream of framed packets delivers a prefix of the packets, and all of them when it has as many rounds as
  there are bytes to read and bytes to deliver.
\<close>

definition to_do :: "link_socket \<Rightarrow> byte list \<Rightarrow> nat" where
  "to_do s net = length (sock_pending s) + 2 * length net"

lemma stream_run_framed:
  assumes "sock_ok s" "sock_pending s @ net = concat (map framed ps)"
    and "\<And>p. p \<in> set ps \<Longrightarrow> 1 \<le> length p \<and> int (length p) \<le> sock_maxlen s \<and> length p < 65536"
  shows "\<exists>qs rest s' net'. stream_run ks s net = Inr (qs, s', net') \<and> ps = qs @ rest \<and> sock_ok s'
    \<and> sock_pending s' @ net' = concat (map framed rest) \<and> (to_do s net \<le> length ks \<longrightarrow> rest = [])"
  using assms
proof (induction ks arbitrary: s net ps)
  case Nil
  have "ps = []" if "to_do s net = 0"
  proof (rule ccontr)
    assume "ps \<noteq> []"
    then obtain p qs where "ps = p # qs" by (cases ps) auto
    then have "length (sock_pending s @ net) \<ge> 2" using Nil.prems(2) by simp
    then show False using that by (simp add: to_do_def)
  qed
  then show ?case using Nil.prems by (intro exI[of _ "[]"] exI[of _ ps] exI[of _ s] exI[of _ net]) simp
next
  case (Cons k ks)
  have ne: "\<not> sb_error (ls_stream_buf s)"
    using Cons.prems(1) by (auto simp: sock_ok_def st_fresh_def st_waiting_def partial_def stream_geom_def)
  have first: "\<exists>qs. ps = q # qs" if e: "framed q @ x = concat (map framed ps)" "length q < 65536" for q x
  proof -
    obtain p qs where ps: "ps = p # qs" using e(1) by (cases ps) (auto simp: framed_def be16_def)
    then have "framed q @ x = be16 (word_of_int (int (length p))) @ p @ concat (map framed qs)"
      using that(1) by (simp add: framed_def)
    moreover have "length p < 65536" using Cons.prems(3) ps by simp
    ultimately have "length p = length q \<and> q @ x = p @ concat (map framed qs)"
      using framed_prefix[of q x "int (length p)" "p @ concat (map framed qs)"] e(2) by simp
    then have "p = q" by (metis append_eq_append_conv)
    then show ?thesis using ps by simp
  qed
  from Cons.prems(1) show ?case
  proof (cases rule: stream_round_cases[where k = k and net = net])
    case (bad s' net')
    have False
    proof (cases ps)
      case Nil
      then show False using bad(3) Cons.prems(2) by (simp add: bad_prefix_def)
    next
      case (Cons p qs)
      then have "1 \<le> length p" "int (length p) \<le> sock_maxlen s" "length p < 65536" using \<open>\<And>p. p \<in> set ps \<Longrightarrow> _\<close> by auto
      moreover have "take 2 (sock_pending s @ net) = be16 (word_of_int (int (length p)))"
        using \<open>sock_pending s @ net = _\<close> Cons by (simp add: framed_def be16_def)
      ultimately show False using bad(3) by (simp add: bad_prefix_def unat_of_nat take_bit_nat_eq_self uint_word_of_int del: of_int_of_nat_eq)
    qed
    then show ?thesis ..
  next
    case (part s' net')
    have st: "sock_pending s' @ net' = concat (map framed ps)" using part(4) Cons.prems(2) by simp
    have dec: "net = [] \<longrightarrow> ps = []" "net \<noteq> [] \<longrightarrow> to_do s' net' < to_do s net"
    proof -
      show "net \<noteq> [] \<longrightarrow> to_do s' net' < to_do s net"
        using part(7) arg_cong[OF part(4), of length] by (auto simp: to_do_def)
      have "False" if "net = []" "ps = p # qs" for p qs
        using waiting_incomplete[OF part(5), of p "concat (map framed qs)"] st part(6) that Cons.prems(3) by simp
      then show "net = [] \<longrightarrow> ps = []" by (cases ps) auto
    qed
    from Cons.IH[OF part(2) st] Cons.prems(3) part(3) obtain qs rest s'' net'' where r: "stream_run ks s' net' = Inr (qs, s'', net'')"
      "ps = qs @ rest" "sock_ok s''" "sock_pending s'' @ net'' = concat (map framed rest)" "to_do s' net' \<le> length ks \<longrightarrow> rest = []" by auto
    show ?thesis
      by (intro exI[of _ qs] exI[of _ rest] exI[of _ s''] exI[of _ net'']) (use ne part(1) r dec in auto)
  next
    case (packet p s' net')
    obtain ps' where ps: "ps = p # ps'" using first[of p] packet(4,7) Cons.prems(2) by metis
    have st: "sock_pending s' @ net' = concat (map framed ps')" using packet(4) Cons.prems(2) ps by simp
    have dec: "to_do s' net' < to_do s net"
      using packet(8) arg_cong[OF packet(4), of length] by (simp add: to_do_def)
    from Cons.IH[OF packet(2) st] Cons.prems(3) packet(3) ps obtain qs rest s'' net'' where r: "stream_run ks s' net' = Inr (qs, s'', net'')"
      "ps' = qs @ rest" "sock_ok s''" "sock_pending s'' @ net'' = concat (map framed rest)" "to_do s' net' \<le> length ks \<longrightarrow> rest = []" by auto
    show ?thesis
      by (intro exI[of _ "p # qs"] exI[of _ rest] exI[of _ s''] exI[of _ net'']) (use ne packet(1) r dec ps in auto)
  qed
qed

section \<open>The geometry and the sender\<close>

lemma link_socket_write_tcp_framed:
  assumes "buf_wf b" "2 \<le> b_offset b" "1 \<le> b_len b" "b_len b \<le> sock_maxlen s" "b_len b < 65536"
  shows "\<exists>b'. link_socket_write_tcp s b = Inr b' \<and> buf_wf b' \<and> buf_content b' = framed (buf_content b)"
proof -
  have len: "buf_len b = b_len b" using assms(1) by (simp add: buf_len_def buf_wf_bounds)
  have u: "uint (word_of_int (b_len b) :: u16) = b_len b" using assms(3,5) by (simp add: uint_word_of_int)
  have l: "int (length (buf_content b)) = b_len b" using assms(1) by simp
  have two: "length (be16 w) = 2" for w by (simp add: be16_def)
  show ?thesis
    using assms two buf_write_prepend_push[OF assms(1)] buf_push_front_wf[OF assms(1)] buf_push_front_content[OF assms(1)] l
    by (simp add: link_socket_write_tcp_def len u framed_def)
qed

lemma socket_frame_init_ok:
  assumes "frame_sane f" "5 \<le> extra_buffer f"
  shows "\<exists>s'. socket_frame_init f True False s = Inr s' \<and> sock_ok s' \<and> sock_pending s' = [] \<and> sock_maxlen s' = MAX_RW_SIZE_LINK f"
proof -
  obtain b where b: "alloc_buf_sock_tun f False FRAME_HEADROOM_MARKER_READ_STREAM = Inr b" "buf_wf b"
    "b_offset b = frame_headroom f FRAME_HEADROOM_MARKER_READ_STREAM" "b_capacity b = BUF_SIZE f" "b_len b = MAX_RW_SIZE_LINK f"
    using alloc_buf_sock_tun_geometry[OF assms(1), of False FRAME_HEADROOM_MARKER_READ_STREAM] by auto
  note hb = frame_headroom_bounds[of f FRAME_HEADROOM_MARKER_READ_STREAM]
  note g = assms(1)[unfolded frame_sane_def TUN_MTU_MIN_def EXPANDED_SIZE_MIN_def PAYLOAD_ALIGN_def]
  have d: "FRAME_HEADROOM_BASE f = TUN_LINK_DELTA f + extra_buffer f + extra_link f" "BUF_SIZE f = TUN_MTU_SIZE f + FRAME_HEADROOM_BASE f * 2"
    "MAX_RW_SIZE_LINK f = TUN_MTU_SIZE f + TUN_LINK_DELTA f + extra_link f" "0 \<le> TUN_LINK_DELTA f"
    using g by (simp_all add: FRAME_HEADROOM_BASE_def TUN_LINK_DELTA_def TUN_MTU_SIZE_def BUF_SIZE_def MAX_RW_SIZE_LINK_def EXPANDED_SIZE_def)
  have fit: "b_offset b + 2 + b_len b \<le> b_capacity b" "3 \<le> b_len b" "0 \<le> b_offset b" "b_capacity b < 2097152"
    using b(3-5) d hb g assms(2) by (auto simp: BUF_SIZE_MAX_def)
  then obtain r where r: "alloc_buf (b_len b) = Inr r" "buf_wf r" "b_capacity r = b_len b" using alloc_buf_wf[of "b_len b"] by auto
  then have r0: "b_offset r = 0" "b_len r = 0" by (auto simp: alloc_buf_def split: if_splits)
  have wf: "buf_wf ((b\<lparr>b_len := 0\<rparr>)\<lparr>b_data := b_data b\<rparr>)" using b(2) by (auto simp: buf_wf_def split: option.splits)
  obtain sb where sb: "stream_buf_init b False = Inr sb" "st_fresh sb" "pending sb = []" "sb_maxlen sb = b_len b"
  proof
    show "stream_buf_init b False = Inr (stream_buf_reset \<lparr>sb_buf_init = b\<lparr>b_len := 0\<rparr>, sb_residual = r, sb_maxlen = b_len b,
      sb_residual_fully_formed = False, sb_buf = b, sb_next = clear_buf, sb_len = 0, sb_error = False, sb_port_share_state = PS_DISABLED\<rparr>)"
      using r(1) by (simp add: stream_buf_init_def)
  qed (use wf r r0 fit content_Nil[OF wf] content_Nil[OF r(2)] in
      \<open>simp_all add: stream_buf_reset_def st_fresh_def stream_geom_def before_prefix_def pending_def PS_DISABLED_def PS_ENABLED_def\<close>)
  show ?thesis using b(1,5) sb by (simp add: socket_frame_init_def sock_ok_def)
qed

text \<open>What a sender puts on the stream for a list of packets.\<close>

fun stream_send :: "link_socket \<Rightarrow> buffer list \<Rightarrow> byte list res" where
  "stream_send s [] = Inr []"
| "stream_send s (b # bs) = bindE (link_socket_write_tcp s b) (\<lambda>b. bindE (buf_bytes b) (\<lambda>x. bindE (stream_send s bs) (\<lambda>y. Inr (x @ y))))"

definition sendable :: "int \<Rightarrow> buffer \<Rightarrow> bool" where
  "sendable m b \<longleftrightarrow> buf_wf b \<and> 2 \<le> b_offset b \<and> 1 \<le> b_len b \<and> b_len b \<le> m \<and> b_len b < 65536"

lemma stream_send_framed:
  "list_all (sendable (sock_maxlen s)) bs \<Longrightarrow> stream_send s bs = Inr (concat (map framed (map buf_content bs)))"
proof (induction bs)
  case (Cons b bs)
  then obtain b' where "link_socket_write_tcp s b = Inr b'" "buf_wf b'" "buf_content b' = framed (buf_content b)"
    using link_socket_write_tcp_framed[of b s] by (auto simp: sendable_def)
  then show ?case using Cons by simp
qed simp


definition stream_frame :: frame where
  "stream_frame = frame_example\<lparr>extra_buffer := 8\<rparr>"

definition stream_packet :: "byte list \<Rightarrow> buffer" where
  "stream_packet x = \<lparr>b_capacity = 20, b_offset = 4, b_len = int (length x), b_data = Some (replicate 4 0 @ x @ replicate (16 - length x) 0)\<rparr>"

lemma stream_frame_sane: "frame_sane stream_frame" "5 \<le> extra_buffer stream_frame" "MAX_RW_SIZE_LINK stream_frame = 1543"
  by (simp_all add: frame_sane_def stream_frame_def frame_example_def FRAME_HEADROOM_BASE_def TUN_LINK_DELTA_def TUN_MTU_MIN_def
      TUN_MTU_SIZE_def BUF_SIZE_def EXPANDED_SIZE_MIN_def BUF_SIZE_MAX_def PAYLOAD_ALIGN_def MAX_RW_SIZE_LINK_def EXPANDED_SIZE_def)




end
