(* ===== verification/Ip_Checksum.thy ===== *)
theory Ip_Checksum
  imports Otime
begin

text \<open>
  Internet checksums as \<open>proto.h\<close> and \<open>proto.c\<close> compute them: the macros that update a checksum for
  changed words, and \<open>ip_checksum\<close> over a payload and its pseudo header. \<open>csum\<close> is the sum of RFC 1071:
  the 16-bit words of a byte sequence in network order, as an integer. Checksum arithmetic is
  arithmetic modulo \<open>65535\<close>, and the lemmas relate what the code computes to \<open>csum\<close> there. The macros
  work on words in the byte order of the host, so the model carries that order as a parameter \<open>le\<close>.
\<close>

section \<open>Words in host byte order\<close>

definition raw16 :: "bool \<Rightarrow> byte list \<Rightarrow> u16" where
  "raw16 le bs = of_be16 (if le then rev bs else bs)"

definition raw32 :: "bool \<Rightarrow> byte list \<Rightarrow> u32" where
  "raw32 le bs = of_be32 (if le then rev bs else bs)"

definition raw16_bytes :: "bool \<Rightarrow> u16 \<Rightarrow> byte list" where
  "raw16_bytes le w = (if le then rev (be16 w) else be16 w)"

definition raw32_bytes :: "bool \<Rightarrow> u32 \<Rightarrow> byte list" where
  "raw32_bytes le w = (if le then rev (be32 w) else be32 w)"

definition htons :: "bool \<Rightarrow> u16 \<Rightarrow> u16" where
  "htons le w = raw16 le (be16 w)"

definition be_field :: "byte list \<Rightarrow> int \<Rightarrow> u16 res" where
  "be_field p i = bindE (mem_read p i 2) (\<lambda>bs. Inr (of_be16 bs))"

section \<open>The macros\<close>

definition ADJUST_CHECKSUM :: "int \<Rightarrow> u16 \<Rightarrow> u16" where
  "ADJUST_CHECKSUM acc cksum =
     (let a = acc + uint cksum in
      if a < 0
      then (let a1 = - a;
                a2 = drop_bit 16 a1 + (a1 AND 0xffff);
                a3 = a2 + drop_bit 16 a2 in word_of_int (NOT a3))
      else (let a2 = drop_bit 16 a + (a AND 0xffff);
                a3 = a2 + drop_bit 16 a2 in word_of_int a3))"

definition ADD_CHECKSUM_32 :: "int \<Rightarrow> u32 \<Rightarrow> int" where
  "ADD_CHECKSUM_32 acc u = wrap_int (wrap_int (acc + uint (u AND 0xffff)) + uint (drop_bit 16 u))"

definition SUB_CHECKSUM_32 :: "int \<Rightarrow> u32 \<Rightarrow> int" where
  "SUB_CHECKSUM_32 acc u = wrap_int (wrap_int (acc - uint (u AND 0xffff)) - uint (drop_bit 16 u))"

section \<open>The checksum of a payload\<close>

definition AF_INET :: int where "AF_INET = 2"
definition AF_INET6 :: int where "AF_INET6 = 10"

fun add_words :: "u32 \<Rightarrow> byte list \<Rightarrow> u32" where
  "add_words s [] = s"
| "add_words s [a] = s + ucast (of_be16 [a, 0])"
| "add_words s (a # b # r) = add_words (s + ucast (of_be16 [a, b])) r"

lemma unat_high_half: "unat (drop_bit 16 (s :: u32)) = unat s div 65536"
  unfolding unat_drop_bit_eq by (simp add: drop_bit_eq_div)

lemma carry_step:
  "unat ((s AND 0xFFFF) + drop_bit 16 (s :: u32)) = unat s mod 65536 + unat s div 65536"
proof -
  have "s AND 0xFFFF = take_bit 16 s" by (simp add: take_bit_eq_mask mask_eq_exp_minus_1)
  then have a: "unat (s AND 0xFFFF) = unat s mod 65536"
    by (simp only: unsigned_take_bit_eq) (simp add: take_bit_eq_mod)
  note b = unat_high_half
  have "unat s < 2 ^ LENGTH(32)" by (rule unsigned_less)
  then have "unat s mod 65536 + unat s div 65536 < 4294967296" by simp
  then show ?thesis by (simp add: unat_word_ariths a b)
qed

function fold_carry :: "u32 \<Rightarrow> u32" where
  "fold_carry s =
     (if drop_bit 16 s = 0 then s else fold_carry ((s AND 0xFFFF) + drop_bit 16 s))"
  by pat_completeness auto
termination
proof (relation "measure unat", simp)
  fix s :: u32
  assume "drop_bit 16 s \<noteq> 0"
  then have "unat (drop_bit 16 s) \<noteq> 0" by (simp add: unsigned_eq_0_iff)
  then have "unat s div 65536 \<noteq> 0" by (simp only: unat_high_half not_False_eq_True)
  then have "unat s mod 65536 + unat s div 65536 < unat s"
    using div_mult_mod_eq[of "unat s" 65536] by linarith
  then show "((s AND 0xFFFF) + drop_bit 16 s, s) \<in> measure unat" by (simp add: carry_step)
qed

declare fold_carry.simps [simp del]

definition ip_checksum :: "int \<Rightarrow> byte list \<Rightarrow> byte list \<Rightarrow> byte list \<Rightarrow> int \<Rightarrow> u16 res" where
  "ip_checksum af payload src_addr dest_addr proto =
     (let addr_len = (if af = AF_INET then 4 else 16) in
      bindE (mem_read src_addr 0 addr_len) (\<lambda>src.
      bindE (mem_read dest_addr 0 addr_len) (\<lambda>dst.
      let s = add_words (add_words (add_words 0 payload) src) dst;
          s = s + ucast (word_of_int (int (length payload)) :: u16);
          s = s + ucast (word_of_int proto :: u16) in
      Inr (NOT (ucast (fold_carry s))))))"

section \<open>Sums of words\<close>

fun csum :: "byte list \<Rightarrow> int" where
  "csum [] = 0"
| "csum [a] = 256 * uint a"
| "csum (a # b # r) = 256 * uint a + uint b + csum r"

text \<open>Equality of one's complement sums.\<close>

definition ones_eq :: "int \<Rightarrow> int \<Rightarrow> bool" where
  "ones_eq a b \<longleftrightarrow> a mod 65535 = b mod 65535"

lemma ones_eq_dvd: "ones_eq a b \<longleftrightarrow> 65535 dvd a - b"
  by (simp add: ones_eq_def mod_eq_dvd_iff)

lemma ones_eq_refl [simp]: "ones_eq a a"
  by (simp add: ones_eq_def)

lemma ones_eq_trans: "ones_eq a b \<Longrightarrow> ones_eq b c \<Longrightarrow> ones_eq a c"
  by (simp add: ones_eq_def)

lemma ones_eq_add: "ones_eq a b \<Longrightarrow> ones_eq c d \<Longrightarrow> ones_eq (a + c) (b + d)"
  unfolding ones_eq_def by (rule mod_add_cong)

lemma ones_eq_mult: "ones_eq a b \<Longrightarrow> ones_eq (k * a) (k * b)"
  unfolding ones_eq_def by (rule mod_mult_cong) simp_all

lemma uint_byte_less: "uint (a :: byte) < 256"
proof -
  have "uint a < 2 ^ LENGTH(8)" by (rule unsigned_less)
  then show ?thesis by simp
qed

lemma uint_of_be16: "uint (of_be16 [a, b]) = 256 * uint a + uint b"
proof -
  have a: "uint a < 256" and b: "uint b < 256"
    by (rule uint_byte_less)+
  have "push_bit 8 (ucast a :: u16) AND ucast b = 0"
    by (rule bit_word_eqI) (auto simp: bit_simps dest: bit_imp_le_length)
  then have "of_be16 [a, b] = push_bit 8 (ucast a) + ucast b"
    by (simp add: disjunctive_add_eq_or)
  moreover have "uint (push_bit 8 (ucast a :: u16)) = 256 * uint a"
    using a by (simp add: push_bit_eq_mult uint_word_ariths unsigned_ucast_eq take_bit_eq_mod)
  moreover have "uint (ucast b :: u16) = uint b"
    using b by (simp add: unsigned_ucast_eq take_bit_eq_mod)
  ultimately show ?thesis using a b by (simp add: uint_word_ariths)
qed

lemma csum_nonneg: "0 \<le> csum bs"
  by (induction bs rule: csum.induct) auto

lemma csum_bound: "csum bs \<le> 65535 * ((int (length bs) + 1) div 2)"
proof (induction bs rule: csum.induct)
  case (2 a)
  show ?case using uint_byte_less[of a] by simp
next
  case (3 a b r)
  have "uint a < 256" and "uint b < 256" by (rule uint_byte_less)+
  moreover have "(int (length (a # b # r)) + 1) div 2 = (int (length r) + 1) div 2 + 1" by simp
  ultimately show ?case using 3 by simp
qed simp

lemma csum_append: "even (length xs) \<Longrightarrow> csum (xs @ ys) = csum xs + csum ys"
  by (induction xs rule: csum.induct) auto

lemma csum_zeros [simp]: "csum (replicate n 0) = 0"
  by (induction n rule: nat_induct2) simp_all

lemma csum_split: "even n \<Longrightarrow> n \<le> length xs \<Longrightarrow> csum xs = csum (take n xs) + csum (drop n xs)"
  using csum_append[of "take n xs" "drop n xs"] by simp

lemma csum_overwrite:
  assumes "even p" and "even (length bs)" and "p + length bs \<le> length d"
  shows "csum (overwrite d p bs) = csum d - csum (segment d p (length bs)) + csum bs"
proof -
  have "csum d = csum (take p d) + csum (drop p d)"
    using assms by (intro csum_split) auto
  also have "csum (drop p d) = csum (segment d p (length bs)) + csum (drop (p + length bs) d)"
    using csum_split[of "length bs" "drop p d"] assms by (simp add: segment_def add.commute)
  finally show ?thesis using assms by (simp add: overwrite_def csum_append)
qed

section \<open>What the code computes\<close>

lemma uint_add_le: "uint x + uint y < 2 ^ LENGTH('a) \<Longrightarrow> uint (x + y :: 'a::len word) = uint x + uint y"
  by (simp add: uint_word_ariths)

lemma uint_u16_range: "0 \<le> uint (w :: u16)" "uint w \<le> 65535"
proof -
  have "uint w < 2 ^ LENGTH(16)" by (rule unsigned_less)
  then show "uint w \<le> 65535" by simp
qed simp

lemma uint_ucast16: "uint (ucast (w :: u16) :: u32) = uint w"
proof -
  have "uint w < 2 ^ LENGTH(16)" by (rule unsigned_less)
  then show ?thesis by (simp add: unsigned_ucast_eq take_bit_eq_mod)
qed

lemma uint_add_words:
  "uint s + csum bs < 4294967296 \<Longrightarrow> uint (add_words s bs) = uint s + csum bs"
proof (induction s bs rule: add_words.induct)
  case (2 s a)
  then show ?case by (simp add: uint_add_le uint_ucast16 uint_of_be16 del: of_be16.simps)
next
  case (3 s a b r)
  then have "uint (s + ucast (of_be16 [a, b])) = uint s + (256 * uint a + uint b)"
    using csum_nonneg[of r] by (simp add: uint_add_le uint_ucast16 uint_of_be16 del: of_be16.simps)
  with 3 show ?case by (simp del: of_be16.simps)
qed simp

lemma fold_carry_correct:
  "uint (fold_carry s) < 65536 \<and> ones_eq (uint (fold_carry s)) (uint s)"
proof (induction s rule: fold_carry.induct)
  case (1 s)
  show ?case
  proof (cases "drop_bit 16 s = 0")
    case True
    have "unat s div 65536 = 0" unfolding unat_high_half[symmetric] True by simp
    then have "unat s < 65536" by (simp add: div_eq_0_iff)
    then have "uint s < 65536" by (subst uint_nat) linarith
    moreover have "fold_carry s = s" using True by (subst fold_carry.simps) simp
    ultimately show ?thesis by simp
  next
    case False
    let ?t = "(s AND 0xFFFF) + drop_bit 16 s"
    have "uint ?t = uint s mod 65536 + uint s div 65536"
      using arg_cong[OF carry_step[of s], of int] by (simp add: zmod_int zdiv_int)
    moreover have "uint s = 65536 * (uint s div 65536) + uint s mod 65536" by simp
    ultimately have "uint ?t - uint s = 65535 * - (uint s div 65536)" by linarith
    then have "ones_eq (uint ?t) (uint s)" unfolding ones_eq_dvd by (metis dvd_triv_left)
    moreover have "fold_carry s = fold_carry ?t" using False by (subst fold_carry.simps) simp
    ultimately show ?thesis using 1[OF False] by (simp add: ones_eq_def)
  qed
qed

lemma uint_not16: "uint (NOT (w :: u16)) = 65535 - uint w"
proof -
  have "NOT w = - 1 - w" by (simp add: not_eq_complement)
  moreover have "(65535 - uint w) mod 65536 = 65535 - uint w"
  proof (rule mod_pos_pos_trivial)
    have "uint w < 2 ^ LENGTH(16)" by (rule unsigned_less)
    then show "0 \<le> 65535 - uint w" by simp
    show "65535 - uint w < 65536" using unsigned_greater_eq[where w = w and 'a = int] by linarith
  qed
  ultimately show ?thesis
    by (simp add: uint_word_ariths unsigned_minus_1_eq_mask mask_eq_exp_minus_1)
qed

text \<open>
  The value \<open>ip_checksum\<close> returns makes the sum of payload, pseudo header and checksum the one's
  complement zero, which is what a receiver tests.
\<close>

lemma ip_checksum_correct:
  assumes "length src = 16 \<or> length src = 4" and "length dst = length src"
    and "af = (if length src = 4 then AF_INET else AF_INET6)"
    and "length payload < 65536" and "0 \<le> proto" and "proto < 65536"
  shows "\<exists>c. ip_checksum af payload src dst proto = Inr c
    \<and> ones_eq (csum payload + csum src + csum dst + int (length payload) + proto + uint c) 0"
proof -
  let ?n = "int (length payload)"
  have len: "csum payload \<le> 65535 * 32768" "csum src \<le> 65535 * 8" "csum dst \<le> 65535 * 8"
    using csum_bound[of payload] csum_bound[of src] csum_bound[of dst] assms(1,2,4) by auto
  note pos = csum_nonneg[of payload] csum_nonneg[of src] csum_nonneg[of dst]
  have rd: "mem_read src 0 (if af = AF_INET then 4 else 16) = Inr src"
    "mem_read dst 0 (if af = AF_INET then 4 else 16) = Inr dst"
    using assms(1-3) by (auto simp: mem_read_def segment_def AF_INET_def AF_INET6_def)
  let ?s1 = "add_words 0 payload"
  let ?s2 = "add_words ?s1 src"
  let ?s3 = "add_words ?s2 dst"
  have s1: "uint ?s1 = csum payload" using len by (subst uint_add_words) auto
  have s2: "uint ?s2 = csum payload + csum src" using len pos s1 by (subst uint_add_words) auto
  have s3: "uint ?s3 = csum payload + csum src + csum dst" using len pos s2 by (subst uint_add_words) auto
  let ?l = "word_of_int ?n :: u16" and ?p = "word_of_int proto :: u16"
  have l: "uint ?l = ?n" "uint ?p = proto"
    unfolding uint_word_of_int using assms(4-6) by (simp_all add: mod_pos_pos_trivial)
  let ?s4 = "?s3 + ucast ?l"
  let ?s5 = "?s4 + ucast ?p"
  have s4: "uint ?s4 = csum payload + csum src + csum dst + ?n"
    using len assms(4) by (subst uint_add_le) (simp_all only: s3 uint_ucast16 l, simp_all)
  have s5: "uint ?s5 = csum payload + csum src + csum dst + ?n + proto"
    using len assms(4,6) by (subst uint_add_le) (simp_all only: s4 uint_ucast16 l, simp_all)
  let ?f = "fold_carry ?s5"
  have f: "uint ?f < 65536" "ones_eq (uint ?f) (uint ?s5)" using fold_carry_correct[of ?s5] by auto
  have "uint (ucast ?f :: u16) = uint ?f" using f by (simp add: unsigned_ucast_eq take_bit_eq_mod)
  then have "uint (NOT (ucast ?f :: u16)) = 65535 - uint ?f" by (simp only: uint_not16)
  then have "uint ?s5 + uint (NOT (ucast ?f :: u16)) = 65535 - (uint ?f - uint ?s5)" by simp
  moreover have "65535 dvd 65535 - (uint ?f - uint ?s5)"
    using f(2) by (simp add: ones_eq_dvd dvd_diff)
  ultimately have "ones_eq (uint ?s5 + uint (NOT (ucast ?f :: u16))) 0"
    by (simp only: ones_eq_dvd diff_zero)
  then show ?thesis unfolding ip_checksum_def Let_def rd bindE_Inr s5 by auto
qed

text \<open>The macro that adds a change to a checksum adds it modulo \<open>65535\<close>.\<close>

lemma and_ffff: "(a :: int) AND 65535 = a mod 65536"
  using take_bit_eq_mask[of 16 a] by (simp add: mask_eq_exp_minus_1 take_bit_eq_mod)

lemma fold_twice:
  fixes a :: int
  assumes "0 \<le> a" and "a < 2147483648"
    and "a2 = a div 65536 + a mod 65536" and "a3 = a2 + a2 div 65536"
  shows "ones_eq (a3 mod 65536) a"
proof -
  have a: "a = 65536 * (a div 65536) + a mod 65536" by simp
  have b: "0 \<le> a div 65536" "a div 65536 < 32768" "0 \<le> a mod 65536" "a mod 65536 < 65536"
    using assms(1,2) by auto
  show ?thesis
  proof (cases "a2 < 65536")
    case True
    then have "a3 mod 65536 = a2" using b assms(3,4) by simp
    then have "a3 mod 65536 - a = 65535 * - (a div 65536)" using a assms(3) by linarith
    then show ?thesis unfolding ones_eq_dvd by (metis dvd_triv_left)
  next
    case False
    then have "a2 div 65536 = 1" using b assms(3) by linarith
    then have "a3 = a2 + 1" using assms(4) by simp
    have "0 \<le> a3 - 65536" "a3 - 65536 < 65536" using False b assms(3) \<open>a3 = a2 + 1\<close> by linarith+
    then have "(a3 - 65536) mod 65536 = a3 - 65536" by (rule mod_pos_pos_trivial)
    then have "a3 mod 65536 = a3 - 65536" by (simp only: minus_mod_self2)
    then have "a3 mod 65536 = a2 - 65535" using \<open>a3 = a2 + 1\<close> by linarith
    then have "a3 mod 65536 - a = 65535 * - (a div 65536 + 1)"
      using a assms(3) by (simp only: mult_minus_right distrib_left)
    then show ?thesis unfolding ones_eq_dvd by (metis dvd_triv_left)
  qed
qed

lemma ADJUST_CHECKSUM_correct:
  assumes "\<bar>acc + uint cksum\<bar> < 2147483648"
  shows "ones_eq (uint (ADJUST_CHECKSUM acc cksum)) (acc + uint cksum)"
proof (cases "acc + uint cksum < 0")
  case True
  define a where "a = - (acc + uint cksum)"
  define a2 where "a2 = a div 65536 + a mod 65536"
  define a3 where "a3 = a2 + a2 div 65536"
  have "ADJUST_CHECKSUM acc cksum = word_of_int (NOT a3)"
    using True unfolding ADJUST_CHECKSUM_def Let_def
    by (simp only: if_True drop_bit_eq_div and_ffff a_def[symmetric]) (simp add: a3_def a2_def a_def)
  moreover have "NOT a3 = - 1 - a3" by (simp add: not_int_def)
  ultimately have "uint (ADJUST_CHECKSUM acc cksum) = (- 1 - a3) mod 65536"
    by (simp only: uint_word_of_int) simp
  also have "\<dots> = 65535 - a3 mod 65536"
  proof -
    have "(- 1 - a3) - (65535 - a3 mod 65536) = 65536 * (- (a3 div 65536) - 1)"
      by (simp add: minus_div_mult_eq_mod[symmetric])
    then have "(- 1 - a3) mod 65536 = (65535 - a3 mod 65536) mod 65536"
      unfolding mod_eq_dvd_iff by (metis dvd_triv_left)
    also have "\<dots> = 65535 - a3 mod 65536"
      using pos_mod_bound[of 65536 a3] pos_mod_sign[of 65536 a3] by (intro mod_pos_pos_trivial) simp_all
    finally show ?thesis .
  qed
  finally have e: "uint (ADJUST_CHECKSUM acc cksum) - (acc + uint cksum) = 65535 - (a3 mod 65536 - a)"
    by (simp add: a_def)
  have "ones_eq (a3 mod 65536) a"
    by (rule fold_twice[OF _ _ a2_def a3_def]) (use assms True in \<open>auto simp: a_def\<close>)
  then have "65535 dvd 65535 - (a3 mod 65536 - a)" unfolding ones_eq_dvd by (rule dvd_diff[OF dvd_refl])
  then show ?thesis unfolding ones_eq_dvd e .
next
  case False
  define a where "a = acc + uint cksum"
  define a2 where "a2 = a div 65536 + a mod 65536"
  define a3 where "a3 = a2 + a2 div 65536"
  have "ADJUST_CHECKSUM acc cksum = word_of_int a3"
    using False unfolding ADJUST_CHECKSUM_def Let_def
    by (simp only: if_False drop_bit_eq_div and_ffff a_def[symmetric]) (simp add: a3_def a2_def)
  then have e: "uint (ADJUST_CHECKSUM acc cksum) = a3 mod 65536"
    by (simp only: uint_word_of_int) simp
  show ?thesis unfolding e a_def[symmetric]
    by (rule fold_twice[OF _ _ a2_def a3_def]) (use assms False in \<open>auto simp: a_def\<close>)
qed

text \<open>
  The weight of a host-order word in the sum of network-order words: swapping the bytes of a word
  multiplies it by \<open>256\<close> modulo \<open>65535\<close>.
\<close>

definition order_factor :: "bool \<Rightarrow> int" where
  "order_factor le = (if le then 256 else 1)"

lemma csum_raw16:
  assumes "length bs = 2"
  shows "ones_eq (csum bs) (order_factor le * uint (raw16 le bs))"
proof -
  obtain a b where bs: "bs = [a, b]" using length_2_cases[OF assms] by auto
  have "csum bs - 256 * uint (of_be16 [b, a]) = 65535 * - uint b"
    by (simp add: bs uint_of_be16 del: of_be16.simps)
  then have "65535 dvd csum bs - 256 * uint (of_be16 [b, a])" by (metis dvd_triv_left)
  then show ?thesis
    by (cases le) (simp_all add: bs order_factor_def raw16_def ones_eq_dvd uint_of_be16 del: of_be16.simps)
qed

lemma of_be32_halves:
  "of_be32 [a, b, c, d] AND 0xffff = ucast (of_be16 [c, d])"
  "drop_bit 16 (of_be32 [a, b, c, d]) = ucast (of_be16 [a, b])"
proof -
  have "w AND 0xffff = take_bit 16 w" for w :: u32
    by (simp add: take_bit_eq_mask mask_eq_exp_minus_1)
  then show "of_be32 [a, b, c, d] AND 0xffff = ucast (of_be16 [c, d])"
    unfolding of_be32.simps of_be16.simps
    by (simp only:) (rule bit_word_eqI, auto simp: bit_simps dest: bit_imp_le_length)
  show "drop_bit 16 (of_be32 [a, b, c, d]) = ucast (of_be16 [a, b])"
    unfolding of_be32.simps of_be16.simps
    by (rule bit_word_eqI) (auto simp: bit_simps dest: bit_imp_le_length)
qed

lemma csum_raw32:
  assumes "length bs = 4"
  shows "ones_eq (csum bs)
    (order_factor le * (uint (raw32 le bs AND 0xffff) + uint (drop_bit 16 (raw32 le bs))))"
proof -
  obtain a b c d where bs: "bs = [a, b, c, d]" using length_4_cases[OF assms] by auto
  have "csum bs = csum [a, b] + csum [c, d]" by (simp add: bs)
  moreover have "ones_eq (csum [a, b] + csum [c, d])
      (order_factor le * uint (raw16 le [a, b]) + order_factor le * uint (raw16 le [c, d]))"
    by (intro ones_eq_add csum_raw16) simp_all
  moreover have "uint (raw32 le bs AND 0xffff) + uint (drop_bit 16 (raw32 le bs))
      = uint (raw16 le [a, b]) + uint (raw16 le [c, d])"
    by (simp add: bs raw32_def raw16_def of_be32_halves uint_ucast16 del: of_be32.simps of_be16.simps)
  ultimately show ?thesis by (simp add: distrib_left)
qed

lemma raw_bytes [simp]:
  "raw16 le (raw16_bytes le w) = w" "length (raw16_bytes le w) = 2"
  "raw32 le (raw32_bytes le v) = v" "length (raw32_bytes le v) = 4"
  by (cases le; simp add: raw16_def raw16_bytes_def raw32_def raw32_bytes_def)+

lemma csum_be16: "csum (be16 w) = uint w"
  using uint_of_be16[of "ucast (drop_bit 8 w)" "ucast w"] of_be16_be16[of w]
  by (simp add: be16_def del: of_be16.simps)

lemma htons_weight: "ones_eq (uint w) (order_factor le * uint (htons le w))"
  using csum_raw16[of "be16 w" le] by (simp add: csum_be16 htons_def)

text \<open>The running change of a checksum: what adding and subtracting a 32-bit word does.\<close>

definition word_sum :: "u32 \<Rightarrow> int" where
  "word_sum u = uint (u AND 0xffff) + uint (drop_bit 16 u)"

lemma word_sum_bounds: "0 \<le> word_sum u" "word_sum u \<le> 131070"
proof -
  obtain a b c d where "be32 u = [a, b, c, d]" using length_4_cases[of "be32 u"] by auto
  then have u: "u = of_be32 [a, b, c, d]" using of_be32_be32[of u] by simp
  show "word_sum u \<le> 131070"
    unfolding word_sum_def u of_be32_halves uint_ucast16
    using add_mono[OF uint_u16_range(2)[of "of_be16 [c, d]"] uint_u16_range(2)[of "of_be16 [a, b]"]] by simp
qed (simp add: word_sum_def)

lemma wrap_int_twice:
  assumes "\<bar>acc\<bar> \<le> 1000000000" and "0 \<le> x" and "0 \<le> y" and "x + y \<le> 131070"
  shows "wrap_int (wrap_int (acc + x) + y) = acc + (x + y)"
    "wrap_int (wrap_int (acc - x) - y) = acc - (x + y)"
proof -
  have "wrap_int (acc + x) = acc + x" "wrap_int (acc - x) = acc - x"
    by (rule wrap_int_id, use assms in \<open>simp add: in_int_range_def INT_MIN_def INT_MAX_def abs_le_iff\<close>)+
  moreover have "wrap_int (acc + x + y) = acc + x + y" "wrap_int (acc - x - y) = acc - x - y"
    by (rule wrap_int_id, use assms in \<open>simp add: in_int_range_def INT_MIN_def INT_MAX_def abs_le_iff\<close>)+
  ultimately show "wrap_int (wrap_int (acc + x) + y) = acc + (x + y)"
    "wrap_int (wrap_int (acc - x) - y) = acc - (x + y)"
    by (simp_all only: add.assoc diff_diff_eq)
qed

lemma CHECKSUM_32_small:
  assumes "\<bar>acc\<bar> \<le> 1000000000"
  shows "ADD_CHECKSUM_32 acc u = acc + word_sum u" "SUB_CHECKSUM_32 acc u = acc - word_sum u"
  unfolding ADD_CHECKSUM_32_def SUB_CHECKSUM_32_def word_sum_def
  by (rule wrap_int_twice; use assms word_sum_bounds[of u] in \<open>simp add: word_sum_def\<close>)+

end
