(* ===== verification/Ip_Packet.thy ===== *)
theory Ip_Packet
  imports Ip_Checksum Mtu
begin

text \<open>
  What the tunnel does to the IP packets inside it: recognising them (\<open>proto.h\<close>, \<open>proto.c\<close>), lowering
  the segment size TCP connections announce (\<open>mss.c\<close>), address translation (\<open>clinat.c\<close>), taking the
  router out of DHCP answers (\<open>dhcp.c\<close>), refusing IPv6 traffic, and the driver \<open>process_ip_header\<close> of
  \<open>forward.c\<close>. A header struct overlaid on a packet is its bytes; a function that is given a
  packet gets the bytes the buffer's window holds, and an access outside them is \<open>Mem_Fault\<close>. A copy of
  a \<open>struct buffer\<close> that has been advanced shares the block, so what is written through it goes back
  into the packet behind the part that was skipped.
\<close>

section \<open>Header sizes and fields\<close>

definition ETHHDR_SIZE :: int where "ETHHDR_SIZE = 14"
definition HDR8021Q_SIZE :: int where "HDR8021Q_SIZE = 18"
definition IPHDR_SIZE :: int where "IPHDR_SIZE = 20"
definition IPV6HDR_SIZE :: int where "IPV6HDR_SIZE = 40"
definition ICMP6HDR_SIZE :: int where "ICMP6HDR_SIZE = 8"
definition UDPHDR_SIZE :: int where "UDPHDR_SIZE = 8"
definition TCPHDR_SIZE :: int where "TCPHDR_SIZE = 20"

definition DEV_TYPE_TUN :: int where "DEV_TYPE_TUN = 2"
definition DEV_TYPE_TAP :: int where "DEV_TYPE_TAP = 3"

definition OPENVPN_ETH_P_IPV4 :: u16 where "OPENVPN_ETH_P_IPV4 = 0x0800"
definition OPENVPN_ETH_P_IPV6 :: u16 where "OPENVPN_ETH_P_IPV6 = 0x86DD"
definition OPENVPN_ETH_P_8021Q :: u16 where "OPENVPN_ETH_P_8021Q = 0x8100"

definition OPENVPN_IPPROTO_TCP :: byte where "OPENVPN_IPPROTO_TCP = 6"
definition OPENVPN_IPPROTO_UDP :: byte where "OPENVPN_IPPROTO_UDP = 17"
definition OPENVPN_IPPROTO_ICMPV6 :: byte where "OPENVPN_IPPROTO_ICMPV6 = 58"

definition OPENVPN_IPH_GET_VER :: "byte \<Rightarrow> int" where
  "OPENVPN_IPH_GET_VER v = uint (drop_bit 4 v AND 0x0F)"
definition OPENVPN_IPH_GET_LEN :: "byte \<Rightarrow> int" where
  "OPENVPN_IPH_GET_LEN v = push_bit 2 (uint (v AND 0x0F))"
definition OPENVPN_TCPH_GET_DOFF :: "byte \<Rightarrow> int" where
  "OPENVPN_TCPH_GET_DOFF d = drop_bit 2 (uint (d AND 0xF0))"
definition OPENVPN_IP_OFFMASK :: u16 where "OPENVPN_IP_OFFMASK = 0x1fff"
definition OPENVPN_TCPH_SYN_MASK :: byte where "OPENVPN_TCPH_SYN_MASK = 2"

definition MTU_TO_MSS :: "int \<Rightarrow> int" where
  "MTU_TO_MSS mtu = wrap_int (mtu - IPHDR_SIZE - TCPHDR_SIZE)"

section \<open>Recognising packets\<close>

definition get_tun_ip_ver :: "int \<Rightarrow> buffer \<Rightarrow> int \<Rightarrow> (int \<times> int) res" where
  "get_tun_ip_ver tunnel_type buf ip_hdr_offset =
     (let p = buf_content buf in
      if tunnel_type = DEV_TYPE_TUN
      then if buf_len buf \<ge> IPHDR_SIZE
           then bindE (arr_get p 0) (\<lambda>v. Inr (OPENVPN_IPH_GET_VER v, 0))
           else Inr (-1, 0)
      else if tunnel_type = DEV_TYPE_TAP
      then if buf_len buf \<ge> ETHHDR_SIZE
           then bindE (be_field p 12) (\<lambda>proto.
             Inr (if proto = OPENVPN_ETH_P_IPV6 then 6 else if proto = OPENVPN_ETH_P_IPV4 then 4 else -1,
                  ETHHDR_SIZE))
           else Inr (-1, ETHHDR_SIZE)
      else Inr (-1, ip_hdr_offset))"

definition is_ipv_X :: "int \<Rightarrow> buffer \<Rightarrow> int \<Rightarrow> (bool \<times> buffer) res" where
  "is_ipv_X tunnel_type buf ip_ver =
     (let p = buf_content buf;
          check = (\<lambda>offset. bindE (arr_get p offset) (\<lambda>v.
            Inr (if OPENVPN_IPH_GET_VER v = ip_ver then buf_advance buf offset else (False, buf)))) in
      if tunnel_type = DEV_TYPE_TUN
      then if buf_len buf < IPHDR_SIZE then Inr (False, buf) else check 0
      else if tunnel_type = DEV_TYPE_TAP
      then if buf_len buf < ETHHDR_SIZE + IPHDR_SIZE then Inr (False, buf)
        else bindE (be_field p 12) (\<lambda>proto.
        bindE (if proto = OPENVPN_ETH_P_8021Q
               then if buf_len buf < ETHHDR_SIZE + IPHDR_SIZE then Inr None
                    else bindE (be_field p 16) (\<lambda>proto. Inr (Some (proto, HDR8021Q_SIZE)))
               else Inr (Some (proto, ETHHDR_SIZE))) (\<lambda>r.
        case r of
          None \<Rightarrow> Inr (False, buf)
        | Some (proto, offset) \<Rightarrow>
            if proto \<noteq> (if ip_ver = 6 then OPENVPN_ETH_P_IPV6 else OPENVPN_ETH_P_IPV4)
            then Inr (False, buf) else check offset))
      else Inr (False, buf))"

definition is_ipv4 :: "int \<Rightarrow> buffer \<Rightarrow> (bool \<times> buffer) res" where
  "is_ipv4 tunnel_type buf = is_ipv_X tunnel_type buf 4"

definition is_ipv6 :: "int \<Rightarrow> buffer \<Rightarrow> (bool \<times> buffer) res" where
  "is_ipv6 tunnel_type buf = is_ipv_X tunnel_type buf 6"

section \<open>The maximum segment size of TCP connections\<close>

definition OPENVPN_TCPOPT_EOL :: byte where "OPENVPN_TCPOPT_EOL = 0"
definition OPENVPN_TCPOPT_NOP :: byte where "OPENVPN_TCPOPT_NOP = 1"
definition OPENVPN_TCPOPT_MAXSEG :: byte where "OPENVPN_TCPOPT_MAXSEG = 2"
definition OPENVPN_TCPOLEN_MAXSEG :: int where "OPENVPN_TCPOLEN_MAXSEG = 4"

text \<open>
  Lowering one announcement, in the TCP segment \<open>t\<close>: the option at \<open>opt\<close> and the checksum at offset 16.
\<close>

definition mss_lower :: "bool \<Rightarrow> u16 \<Rightarrow> byte list \<Rightarrow> int \<Rightarrow> byte list res" where
  "mss_lower le maxmss t opt =
     bindE (mem_read t (opt + 2) 2) (\<lambda>m.
     let mssval = of_be16 m in
     if mssval > maxmss
     then bindE (mem_write t (opt + 2) (be16 maxmss)) (\<lambda>t.
          let accumulate = uint (htons le mssval) - uint (htons le maxmss) in
          bindE (mem_read t 16 2) (\<lambda>c.
          mem_write t 16 (raw16_bytes le (ADJUST_CHECKSUM accumulate (raw16 le c)))))
     else Inr t)"

lemma uint_nonzero_pos: "uint (x :: byte) \<noteq> 0 \<Longrightarrow> 0 < uint x"
  using unsigned_greater_eq[where w = x and 'a = int] by linarith

function mss_options :: "bool \<Rightarrow> u16 \<Rightarrow> byte list \<Rightarrow> int \<Rightarrow> int \<Rightarrow> byte list res" where
  "mss_options le maxmss t opt olen =
     (if \<not> olen > 1 then Inr t
      else bindE (arr_get t opt) (\<lambda>kind.
        if kind = OPENVPN_TCPOPT_EOL then Inr t
        else if kind = OPENVPN_TCPOPT_NOP then mss_options le maxmss t (opt + 1) (olen - 1)
        else bindE (arr_get t (opt + 1)) (\<lambda>l.
          let optlen = uint l in
          if optlen \<le> 0 \<or> optlen > olen then Inr t
          else if kind = OPENVPN_TCPOPT_MAXSEG
          then if optlen \<noteq> OPENVPN_TCPOLEN_MAXSEG
               then mss_options le maxmss t (opt + optlen) (olen - optlen)
               else bindE (mss_lower le maxmss t opt) (\<lambda>t.
                    mss_options le maxmss t (opt + optlen) (olen - optlen))
          else mss_options le maxmss t (opt + optlen) (olen - optlen))))"
  by pat_completeness auto
termination
  by (relation "measure (\<lambda>(le, maxmss, t, opt, olen). nat olen)")
    (auto simp: OPENVPN_TCPOLEN_MAXSEG_def intro: uint_nonzero_pos)

declare mss_options.simps [simp del]

definition mss_fixup_dowork :: "bool \<Rightarrow> byte list \<Rightarrow> u16 \<Rightarrow> byte list res" where
  "mss_fixup_dowork le t maxmss =
     (if int (length t) < TCPHDR_SIZE then Inr t
      else bindE (arr_get t 12) (\<lambda>doff_res.
        let hlen = OPENVPN_TCPH_GET_DOFF doff_res in
        if hlen \<le> TCPHDR_SIZE \<or> hlen > int (length t) then Inr t
        else mss_options le maxmss t 20 (hlen - TCPHDR_SIZE)))"

text \<open>
  \<open>buf_advance\<close> on a copy of the packet, then \<open>f\<close> on what is left: the changes of \<open>f\<close> end up in the packet
  behind the \<open>n\<close> bytes skipped. \<open>buf_advance\<close> refuses a negative count and one beyond the packet.
\<close>

definition on_advanced :: "byte list \<Rightarrow> int \<Rightarrow> (byte list \<Rightarrow> byte list res) \<Rightarrow> byte list res" where
  "on_advanced p n f =
     (if n < 0 \<or> int (length p) < n then Inr p
      else bindE (f (drop (nat n) p)) (\<lambda>q. Inr (take (nat n) p @ q)))"

definition mss_fixup_ipv4 :: "bool \<Rightarrow> byte list \<Rightarrow> int \<Rightarrow> byte list res" where
  "mss_fixup_ipv4 le p maxmss =
     (if int (length p) < IPHDR_SIZE then Inr p
      else bindE (arr_get p 0) (\<lambda>version_len.
        bindE (arr_get p 9) (\<lambda>protocol.
        bindE (be_field p 2) (\<lambda>tot_len.
        bindE (be_field p 6) (\<lambda>frag_off.
        let hlen = OPENVPN_IPH_GET_LEN version_len in
        if protocol = OPENVPN_IPPROTO_TCP \<and> uint tot_len = int (length p)
           \<and> frag_off AND OPENVPN_IP_OFFMASK = 0 \<and> hlen \<le> int (length p)
           \<and> int (length p) - hlen \<ge> TCPHDR_SIZE
        then on_advanced p hlen (\<lambda>t. bindE (arr_get t 13) (\<lambda>flags.
               if flags AND OPENVPN_TCPH_SYN_MASK \<noteq> 0
               then mss_fixup_dowork le t (word_of_int maxmss) else Inr t))
        else Inr p)))))"

definition mss_fixup_ipv6 :: "bool \<Rightarrow> byte list \<Rightarrow> int \<Rightarrow> byte list res" where
  "mss_fixup_ipv6 le p maxmss =
     (if int (length p) < IPV6HDR_SIZE then Inr p
      else bindE (be_field p 4) (\<lambda>payload_len.
        if int (length p) \<noteq> uint payload_len + 40 then Inr p
        else bindE (arr_get p 6) (\<lambda>nexthdr.
          if nexthdr \<noteq> OPENVPN_IPPROTO_TCP then Inr p
          else on_advanced p 40 (\<lambda>t.
            if int (length t) \<ge> TCPHDR_SIZE
            then bindE (arr_get t 13) (\<lambda>flags.
              if flags AND OPENVPN_TCPH_SYN_MASK \<noteq> 0
              then mss_fixup_dowork le t (word_of_int (uint (word_of_int maxmss :: u16) - 20)) else Inr t)
            else Inr t))))"

section \<open>Client address translation\<close>

definition CN_OUTGOING :: int where "CN_OUTGOING = 0"
definition CN_INCOMING :: int where "CN_INCOMING = 1"
definition CN_SNAT :: int where "CN_SNAT = 0"
definition CN_DNAT :: int where "CN_DNAT = 1"
definition MAX_CLIENT_NAT :: nat where "MAX_CLIENT_NAT = 64"

record client_nat_entry =
  cn_type :: int
  network :: u32
  netmask :: u32
  foreign_network :: u32

type_synonym client_nat_option_list = "client_nat_entry list"

definition add_entry :: "client_nat_option_list \<Rightarrow> client_nat_entry \<Rightarrow> bool \<times> client_nat_option_list" where
  "add_entry dest e = (if length dest \<ge> MAX_CLIENT_NAT then (False, dest) else (True, dest @ [e]))"

definition new_client_nat_list :: client_nat_option_list where
  "new_client_nat_list = []"

definition clone_client_nat_option_list :: "client_nat_option_list \<Rightarrow> client_nat_option_list" where
  "clone_client_nat_option_list src = src"

fun copy_client_nat_option_list :: "client_nat_option_list \<Rightarrow> client_nat_option_list \<Rightarrow> client_nat_option_list" where
  "copy_client_nat_option_list dest [] = dest"
| "copy_client_nat_option_list dest (e # src) =
     (let (ok, dest') = add_entry dest e in
      if \<not> ok then dest' else copy_client_nat_option_list dest' src)"

text \<open>The parameter \<open>getaddr\<close> is the resolver: the address of a name in network order, if it has one.\<close>

definition add_client_nat_to_option_list ::
    "(byte list \<Rightarrow> u32 option) \<Rightarrow> client_nat_option_list \<Rightarrow> byte list \<Rightarrow> byte list \<Rightarrow> byte list \<Rightarrow> byte list
     \<Rightarrow> client_nat_option_list" where
  "add_client_nat_to_option_list getaddr dest type net nmask foreign =
     (case (if type = [115, 110, 97, 116] then Some CN_SNAT
            else if type = [100, 110, 97, 116] then Some CN_DNAT else None) of
        None \<Rightarrow> dest
      | Some t \<Rightarrow> (case getaddr net of None \<Rightarrow> dest
      | Some n \<Rightarrow> (case getaddr nmask of None \<Rightarrow> dest
      | Some m \<Rightarrow> (case getaddr foreign of None \<Rightarrow> dest
      | Some f \<Rightarrow>
          snd (add_entry dest \<lparr>cn_type = t, network = n, netmask = m, foreign_network = f\<rparr>)))))"

text \<open>The loop over the rules: the packet, the change of the checksum and the log of changed addresses.\<close>

fun nat_rules :: "bool \<Rightarrow> int \<Rightarrow> client_nat_option_list \<Rightarrow> byte list \<Rightarrow> int \<Rightarrow> u32
    \<Rightarrow> (byte list \<times> int \<times> u32) res" where
  "nat_rules le direction [] p accumulate alog = Inr (p, accumulate, alog)"
| "nat_rules le direction (e # es) p accumulate alog =
     (let (addr_ptr, amask) = (if cn_type e XOR direction \<noteq> 0 then (16, 2) else (12, 1));
          (from, to) = (if direction \<noteq> 0 then (foreign_network e, network e)
                        else (network e, foreign_network e)) in
      bindE (mem_read p addr_ptr 4) (\<lambda>bs.
      let addr = raw32 le bs in
      if addr AND netmask e = from \<and> amask AND alog = 0
      then let accumulate = ADD_CHECKSUM_32 accumulate addr;
               addr = (addr AND NOT (netmask e)) OR to;
               accumulate = SUB_CHECKSUM_32 accumulate addr in
           bindE (mem_write p addr_ptr (raw32_bytes le addr)) (\<lambda>p.
           nat_rules le direction es p accumulate (alog OR amask))
      else nat_rules le direction es p accumulate alog))"

definition adjust_at :: "bool \<Rightarrow> int \<Rightarrow> byte list \<Rightarrow> int \<Rightarrow> byte list res" where
  "adjust_at le accumulate p i =
     bindE (mem_read p i 2) (\<lambda>c. mem_write p i (raw16_bytes le (ADJUST_CHECKSUM accumulate (raw16 le c))))"

definition client_nat_transform ::
    "bool \<Rightarrow> client_nat_option_list \<Rightarrow> byte list \<Rightarrow> int \<Rightarrow> byte list res" where
  "client_nat_transform le lst p direction =
     bindE (nat_rules le direction lst p 0 0) (\<lambda>(p, accumulate, alog).
     if alog \<noteq> 0
     then bindE (adjust_at le accumulate p 10) (\<lambda>p.
          bindE (arr_get p 9) (\<lambda>protocol.
          if protocol = OPENVPN_IPPROTO_TCP
          then if int (length p) \<ge> IPHDR_SIZE + TCPHDR_SIZE then adjust_at le accumulate p (20 + 16) else Inr p
          else if protocol = OPENVPN_IPPROTO_UDP
          then if int (length p) \<ge> IPHDR_SIZE + UDPHDR_SIZE then adjust_at le accumulate p (20 + 6) else Inr p
          else Inr p))
     else Inr p)"

section \<open>The router option of DHCP answers\<close>

definition DHCP_PAD :: byte where "DHCP_PAD = 0"
definition DHCP_ROUTER :: byte where "DHCP_ROUTER = 3"
definition DHCP_MSG_TYPE :: byte where "DHCP_MSG_TYPE = 53"
definition DHCP_END :: byte where "DHCP_END = 255"
definition DHCPOFFER :: int where "DHCPOFFER = 2"
definition DHCPACK :: int where "DHCPACK = 5"
definition BOOTPS_PORT :: u16 where "BOOTPS_PORT = 67"
definition BOOTPC_PORT :: u16 where "BOOTPC_PORT = 68"
definition BOOTREPLY :: byte where "BOOTREPLY = 2"
definition DHCP_SIZE :: int where "DHCP_SIZE = 240"

text \<open>The options \<open>p\<close> of the message, of which \<open>optlen\<close> bytes count; \<open>i\<close> is the loop variable.\<close>

lemma neg_uint_less: "- uint (x :: byte) < 2"
  using unsigned_greater_eq[where w = x and 'a = int] by linarith

function dhcp_message_type_from :: "byte list \<Rightarrow> int \<Rightarrow> int \<Rightarrow> int res" where
  "dhcp_message_type_from p optlen i =
     (if \<not> i < optlen then Inr (-1)
      else bindE (arr_get p i) (\<lambda>type.
        let room = optlen - i in
        if type = DHCP_END then Inr (-1)
        else if type = DHCP_PAD then dhcp_message_type_from p optlen (i + 1)
        else if type = DHCP_MSG_TYPE
        then if room \<ge> 3
             then bindE (arr_get p (i + 1)) (\<lambda>l.
               if l = 1 then bindE (arr_get p (i + 2)) (\<lambda>t. Inr (uint t)) else Inr (-1))
             else Inr (-1)
        else if room \<ge> 2
        then bindE (arr_get p (i + 1)) (\<lambda>len. dhcp_message_type_from p optlen (i + (uint len + 1) + 1))
        else dhcp_message_type_from p optlen (i + 1)))"
  by pat_completeness auto
termination
  by (relation "measure (\<lambda>(p, optlen, i). nat (optlen - i))")
    (auto intro: neg_uint_less)

declare dhcp_message_type_from.simps [simp del]

definition get_dhcp_message_type :: "byte list \<Rightarrow> int \<Rightarrow> int res" where
  "get_dhcp_message_type p optlen = dhcp_message_type_from p optlen 0"

text \<open>Deleting the \<open>owlen\<close> bytes at \<open>i\<close>: the rest moves up and the tail is padded.\<close>

definition delete_option :: "byte list \<Rightarrow> int \<Rightarrow> int \<Rightarrow> int \<Rightarrow> byte list res" where
  "delete_option p optlen i owlen =
     (let movlen = optlen - (i + owlen) in
      bindE (if movlen > 0 then bindE (mem_read p (i + owlen) movlen) (mem_write p i) else Inr p) (\<lambda>p.
      mem_write p (optlen - owlen) (replicate (nat owlen) DHCP_PAD)))"

definition option_deleted :: "byte list \<Rightarrow> nat \<Rightarrow> nat \<Rightarrow> nat \<Rightarrow> byte list" where
  "option_deleted p n i w =
     take i p @ segment p (i + w) (n - (i + w)) @ replicate w DHCP_PAD @ drop n p"

lemma overwrite_at_end: "length a = i \<Longrightarrow> overwrite (a @ b) i c = a @ c @ drop (length c) b"
  by (simp add: overwrite_def)

lemma delete_option_eq:
  assumes "i + w \<le> n" and "n \<le> length p"
  shows "delete_option p (int n) (int i) (int w) = Inr (option_deleted p n i w)"
proof -
  let ?s = "segment p (i + w) (n - (i + w))"
  let ?q = "take i p @ ?s @ drop (n - w) p"
  have q: "(if int n - (int i + int w) > 0
      then bindE (mem_read p (int i + int w) (int n - (int i + int w))) (mem_write p (int i)) else Inr p) = Inr ?q"
  proof (cases "i + w < n")
    case True
    have "nat (int n - (int i + int w)) = n - (i + w)" by simp
    moreover have "nat (int i + int w) = i + w" by simp
    ultimately have "mem_read p (int i + int w) (int n - (int i + int w)) = Inr ?s"
      using True assms by (simp add: mem_read_def)
    moreover have "mem_write p (int i) ?s = Inr (overwrite p i ?s)"
      using True assms by (simp add: mem_write_def)
    moreover have "i + (n - (i + w)) = n - w" using assms by simp
    ultimately show ?thesis using True assms by (simp add: overwrite_def)
  next
    case False
    then have "n - w = i" "n - (i + w) = 0" using assms by auto
    then show ?thesis using False by simp
  qed
  have l: "length (take i p @ ?s) = n - w" using assms by simp
  have "overwrite ?q (n - w) (replicate w DHCP_PAD) = option_deleted p n i w"
    using overwrite_at_end[OF l, of "drop (n - w) p" "replicate w DHCP_PAD"] assms
    by (simp add: option_deleted_def)
  moreover have "mem_write ?q (int n - int w) (replicate w DHCP_PAD)
      = Inr (overwrite ?q (n - w) (replicate w DHCP_PAD))"
    using assms by (auto simp: mem_write_def nat_diff_distrib')
  ultimately show ?thesis unfolding delete_option_def Let_def q bindE_Inr by simp
qed

lemma delete_option_InrD:
  assumes "delete_option p optlen i owlen = Inr q" and "0 \<le> i" and "0 < owlen" and "i + owlen \<le> optlen"
  shows "optlen \<le> int (length p)"
  using assms
  by (auto simp: delete_option_def mem_write_def mem_read_def bindE_eq_Inr split: if_splits)

lemma length_option_deleted [simp]:
  "i + w \<le> n \<Longrightarrow> n \<le> length p \<Longrightarrow> length (option_deleted p n i w) = length p"
  by (simp add: option_deleted_def)

text \<open>Deleting a router option takes away its type byte and adds none.\<close>

lemma count_option_deleted:
  assumes "p ! i = DHCP_ROUTER" and "0 < w" and "i + w \<le> n" and "n \<le> length p"
  shows "count_list (option_deleted p n i w) DHCP_ROUTER < count_list p DHCP_ROUTER"
proof -
  have "count_list (replicate w DHCP_PAD) DHCP_ROUTER = 0"
    by (simp add: DHCP_PAD_def DHCP_ROUTER_def count_list_0_iff)
  moreover have "p = take i p @ [p ! i] @ segment p (Suc i) (w - 1) @ segment p (i + w) (n - (i + w)) @ drop n p"
  proof -
    have "segment p (Suc i) (w - 1) @ segment p (i + w) (n - (i + w)) @ drop n p = drop (Suc i) p"
      using assms(2-4) segment_append[of p "Suc i" "w - 1" "n - (i + w)"]
        append_take_drop_id[of "n - Suc i" "drop (Suc i) p"]
      by (simp add: segment_def)
    moreover have "p = take i p @ p ! i # drop (Suc i) p" using assms by (intro id_take_nth_drop) simp
    ultimately show ?thesis by simp
  qed
  then have "count_list p DHCP_ROUTER = count_list (take i p @ [p ! i] @ segment p (Suc i) (w - 1)
      @ segment p (i + w) (n - (i + w)) @ drop n p) DHCP_ROUTER" by simp
  ultimately show ?thesis using assms(1) by (simp add: option_deleted_def)
qed

function extract_from :: "byte list \<Rightarrow> int \<Rightarrow> int \<Rightarrow> u32 \<Rightarrow> (u32 \<times> byte list) res" where
  "extract_from p optlen i ret =
     (if \<not> i < optlen then Inr (ret, p)
      else bindE (arr_get p i) (\<lambda>type.
        let room = optlen - i in
        if type = DHCP_END then Inr (ret, p)
        else if type = DHCP_PAD then extract_from p optlen (i + 1) ret
        else if type = DHCP_ROUTER
        then if room \<ge> 2
             then bindE (arr_get p (i + 1)) (\<lambda>l.
               let len = uint l in
               if len \<le> room - 2
               then bindE (if ret = 0 \<and> len \<ge> 4 \<and> len AND 3 = 0
                           then bindE (mem_read p (i + 2) 4) (\<lambda>bs. Inr (of_be32 bs)) else Inr ret) (\<lambda>ret.
                    bindE (delete_option p optlen i (len + 2)) (\<lambda>p.
                    extract_from p optlen i ret))
               else Inr (ret, p))
             else Inr (ret, p)
        else if room \<ge> 2
        then bindE (arr_get p (i + 1)) (\<lambda>len. extract_from p optlen (i + (uint len + 2)) ret)
        else Inr (ret, p)))"
  by pat_completeness auto
termination
proof (relation "measures [\<lambda>(p, optlen, i, ret). count_list p DHCP_ROUTER, \<lambda>(p, optlen, i, ret). nat (optlen - i)]",
    goal_cases)
  case (3 p optlen i ret type room l len ret' q)
  have i: "0 \<le> i" "i < int (length p)" "p ! nat i = DHCP_ROUTER"
    using 3(2,6) by (auto simp: arr_get_def split: if_splits)
  have w: "0 < len + 2" "i + (len + 2) \<le> optlen"
    using 3(3,9,10) unsigned_greater_eq[where w = l and 'a = int] by linarith+
  have n: "optlen \<le> int (length p)" by (rule delete_option_InrD[OF 3(12) i(1) w])
  have "delete_option p optlen i (len + 2) = Inr (option_deleted p (nat optlen) (nat i) (nat (len + 2)))"
    using delete_option_eq[of "nat i" "nat (len + 2)" "nat optlen" p] i w n by simp
  then have "q = option_deleted p (nat optlen) (nat i) (nat (len + 2))" using 3(12) by simp
  then have "count_list q DHCP_ROUTER < count_list p DHCP_ROUTER"
    using i w n by (simp add: count_option_deleted)
  then show ?case by simp
qed (auto intro: neg_uint_less)

declare extract_from.simps [simp del]

definition do_extract :: "byte list \<Rightarrow> int \<Rightarrow> (u32 \<times> byte list) res" where
  "do_extract p optlen = extract_from p optlen 0 0"

text \<open>The IP header is at 0, the UDP header at 20, the message at 28 and its options at 268.\<close>

definition dhcp_extract_router_msg :: "byte list \<Rightarrow> (u32 \<times> byte list) res" where
  "dhcp_extract_router_msg p =
     (let optlen = int (length p) - (IPHDR_SIZE + UDPHDR_SIZE + DHCP_SIZE) in
      if optlen < 0 then Inr (0, p)
      else bindE (arr_get p 9) (\<lambda>protocol.
        bindE (be_field p 20) (\<lambda>source.
        bindE (be_field p 22) (\<lambda>dest.
        bindE (arr_get p 28) (\<lambda>op.
        if protocol = OPENVPN_IPPROTO_UDP \<and> source = BOOTPS_PORT \<and> dest = BOOTPC_PORT \<and> op = BOOTREPLY
        then bindE (get_dhcp_message_type (drop 268 p) optlen) (\<lambda>message_type.
          if message_type = DHCPACK \<or> message_type = DHCPOFFER
          then bindE (do_extract (drop 268 p) optlen) (\<lambda>(ret, q).
            let p = take 268 p @ q in
            bindE (mem_write p 26 [0, 0]) (\<lambda>p.
            bindE (mem_read p 20 (UDPHDR_SIZE + DHCP_SIZE + optlen)) (\<lambda>payload.
            bindE (mem_read p 12 4) (\<lambda>saddr.
            bindE (mem_read p 16 4) (\<lambda>daddr.
            bindE (ip_checksum AF_INET payload saddr daddr (uint OPENVPN_IPPROTO_UDP)) (\<lambda>c.
            bindE (mem_write p 26 (be16 c)) (\<lambda>p.
            Inr (if message_type = DHCPACK then ret else 0, p))))))))
          else Inr (0, p))
        else Inr (0, p))))))"

section \<open>Driver\<close>

text \<open>
  What \<open>process_ip_header\<close> uses of \<open>struct context\<close>: the device type, the geometry, the options, the type
  of service it hands to the link, the gateways it hands to the route list, and the output buffers.
  \<open>ifconfig_ipv6_remote\<close> is the address \<open>inet_pton\<close> reads from the option.
\<close>

record ip_context =
  tunnel_type :: int
  c_frame :: frame
  opt_mssfix :: int
  opt_passtos :: bool
  opt_client_nat :: "client_nat_option_list option"
  opt_route_gateway_via_dhcp :: bool
  opt_block_ipv6 :: bool
  ifconfig_ipv6_remote :: "byte list option"
  ptos :: "byte option"
  vpn_gateways :: "u32 list"
  aux_buf :: buffer
  to_tun :: buffer
  to_link :: buffer

definition PIPV4_PASSTOS :: u32 where "PIPV4_PASSTOS = 1"
definition PIP_MSSFIX :: u32 where "PIP_MSSFIX = 2"
definition PIP_OUTGOING :: u32 where "PIP_OUTGOING = 4"
definition PIPV4_EXTRACT_DHCP_ROUTER :: u32 where "PIPV4_EXTRACT_DHCP_ROUTER = 8"
definition PIPV4_CLIENT_NAT :: u32 where "PIPV4_CLIENT_NAT = 16"
definition PIPV6_IMCP_NOHOST_CLIENT :: u32 where "PIPV6_IMCP_NOHOST_CLIENT = 32"
definition PIPV6_IMCP_NOHOST_SERVER :: u32 where "PIPV6_IMCP_NOHOST_SERVER = 64"

definition MAX_ICMPV6LEN :: int where "MAX_ICMPV6LEN = 1280"

definition ipv6_header_out :: "byte list \<Rightarrow> byte list \<Rightarrow> int \<Rightarrow> byte list" where
  "ipv6_header_out h saddr payload_len =
     take 4 h @ be16 (word_of_int (ICMP6HDR_SIZE + payload_len)) @ [OPENVPN_IPPROTO_ICMPV6]
       @ segment h 7 1 @ saddr @ segment h 8 16"

definition ipv6_send_icmp_unreachable :: "ip_context \<Rightarrow> buffer \<Rightarrow> bool \<Rightarrow> ip_context res" where
  "ipv6_send_icmp_unreachable c buf client =
     bindE (is_ipv6 (tunnel_type c) buf) (\<lambda>(_, inputipbuf).
     if buf_len inputipbuf < IPV6HDR_SIZE then Inr c
     else bindE (mem_read (buf_content inputipbuf) 0 IPV6HDR_SIZE) (\<lambda>pip6.
       let saddr = (case ifconfig_ipv6_remote c of
                      Some a \<Rightarrow> a | None \<Rightarrow> 0xfe # 0x80 # replicate 13 0 @ [7]);
           daddr = segment pip6 8 16;
           icmpheader_len = IPV6HDR_SIZE + ICMP6HDR_SIZE;
           totalheader_len = (if tunnel_type c = DEV_TYPE_TAP then icmpheader_len + ETHHDR_SIZE else icmpheader_len);
           max_payload_size = min_int MAX_ICMPV6LEN (TUN_MTU_SIZE (c_frame c) - icmpheader_len);
           payload_len = min_int max_payload_size (buf_len inputipbuf);
           (ok, outbuf) = buf_init_dowork (aux_buf c) totalheader_len in
       bindE (assertE ok) (\<lambda>_.
       bindE (assertE (buf_safe outbuf payload_len)) (\<lambda>_.
       bindE (buf_copy_n outbuf inputipbuf payload_len) (\<lambda>(ok, outbuf, _).
       bindE (assertE ok) (\<lambda>_.
       bindE (buf_write_prepend outbuf [1, 0, 0, 0, 0, 0, 0, 0]) (\<lambda>(ok, outbuf).
       bindE (assertE ok) (\<lambda>_.
       bindE (ip_checksum AF_INET6 (buf_content outbuf) saddr daddr (uint OPENVPN_IPPROTO_ICMPV6)) (\<lambda>new_csum.
       bindE (buf_poke outbuf (b_offset outbuf + 2) (be16 new_csum)) (\<lambda>outbuf.
       bindE (buf_write_prepend outbuf (ipv6_header_out pip6 saddr payload_len)) (\<lambda>(ok, outbuf).
       bindE (assertE ok) (\<lambda>_.
       bindE (if tunnel_type c = DEV_TYPE_TAP
              then if buf_len buf < ETHHDR_SIZE then Inr outbuf
                   else bindE (mem_read (buf_content buf) 0 ETHHDR_SIZE) (\<lambda>eth.
                     bindE (buf_write_prepend outbuf
                              (segment eth 6 6 @ segment eth 0 6 @ be16 OPENVPN_ETH_P_IPV6)) (\<lambda>(ok, outbuf).
                     bindE (assertE ok) (\<lambda>_. Inr outbuf)))
              else Inr outbuf) (\<lambda>outbuf.
       Inr (if client then c\<lparr>to_tun := outbuf\<rparr> else c\<lparr>to_link := outbuf\<rparr>))))))))))))))"

text \<open>Changing the packet a buffer holds in place.\<close>

definition upd_content :: "buffer \<Rightarrow> (byte list \<Rightarrow> byte list res) \<Rightarrow> buffer res" where
  "upd_content b f = bindE (f (buf_content b)) (\<lambda>q. buf_poke b (b_offset b) q)"

definition effective_flags :: "ip_context \<Rightarrow> u32 \<Rightarrow> u32" where
  "effective_flags c flags =
     (let f = (if opt_mssfix c = 0 then flags AND NOT PIP_MSSFIX else flags);
          f = (if \<not> opt_passtos c then f AND NOT PIPV4_PASSTOS else f);
          f = (if opt_client_nat c = None then f AND NOT PIPV4_CLIENT_NAT else f);
          f = (if \<not> opt_route_gateway_via_dhcp c then f AND NOT PIPV4_EXTRACT_DHCP_ROUTER else f) in
      if \<not> opt_block_ipv6 c then f AND NOT (PIPV6_IMCP_NOHOST_CLIENT OR PIPV6_IMCP_NOHOST_SERVER) else f)"

definition process_ipv4 :: "bool \<Rightarrow> ip_context \<Rightarrow> u32 \<Rightarrow> buffer \<Rightarrow> (ip_context \<times> buffer) res" where
  "process_ipv4 le c flags ipbuf =
     bindE (if flags AND PIPV4_PASSTOS \<noteq> 0
            then bindE (arr_get (buf_content ipbuf) 1) (\<lambda>tos. Inr (c\<lparr>ptos := Some tos\<rparr>)) else Inr c) (\<lambda>c.
     bindE (if flags AND PIP_MSSFIX \<noteq> 0
            then upd_content ipbuf (\<lambda>p. mss_fixup_ipv4 le p (MTU_TO_MSS (TUN_MTU_SIZE_DYNAMIC (c_frame c))))
            else Inr ipbuf) (\<lambda>ipbuf.
     bindE (case opt_client_nat c of
              Some lst \<Rightarrow> if flags AND PIPV4_CLIENT_NAT \<noteq> 0
                then upd_content ipbuf (\<lambda>p. client_nat_transform le lst p
                       (if flags AND PIP_OUTGOING \<noteq> 0 then CN_INCOMING else CN_OUTGOING))
                else Inr ipbuf
            | None \<Rightarrow> Inr ipbuf) (\<lambda>ipbuf.
     if flags AND PIPV4_EXTRACT_DHCP_ROUTER \<noteq> 0
     then bindE (dhcp_extract_router_msg (buf_content ipbuf)) (\<lambda>(dhcp_router, q).
       bindE (buf_poke ipbuf (b_offset ipbuf) q) (\<lambda>ipbuf.
       Inr (if dhcp_router \<noteq> 0 then c\<lparr>vpn_gateways := vpn_gateways c @ [dhcp_router]\<rparr> else c, ipbuf)))
     else Inr (c, ipbuf))))"

definition process_ip_header :: "bool \<Rightarrow> ip_context \<Rightarrow> u32 \<Rightarrow> buffer \<Rightarrow> (ip_context \<times> buffer) res" where
  "process_ip_header le c flags buf =
     (let flags = effective_flags c flags in
      if b_len buf > 0 \<and> flags AND (PIP_MSSFIX OR PIPV4_PASSTOS OR PIPV4_CLIENT_NAT) \<noteq> 0
      then bindE (is_ipv4 (tunnel_type c) buf) (\<lambda>(v4, ipbuf).
        if v4 then bindE (process_ipv4 le c flags ipbuf) (\<lambda>(c, ipbuf). Inr (c, buf\<lparr>b_data := b_data ipbuf\<rparr>))
        else bindE (is_ipv6 (tunnel_type c) buf) (\<lambda>(v6, ipbuf).
          if v6
          then bindE (if flags AND PIP_MSSFIX \<noteq> 0
                      then upd_content ipbuf (\<lambda>p.
                             mss_fixup_ipv6 le p (MTU_TO_MSS (TUN_MTU_SIZE_DYNAMIC (c_frame c))))
                      else Inr ipbuf) (\<lambda>ipbuf.
            let buf = buf\<lparr>b_data := b_data ipbuf\<rparr> in
            if flags AND PIP_OUTGOING = 0
               \<and> flags AND (PIPV6_IMCP_NOHOST_CLIENT OR PIPV6_IMCP_NOHOST_SERVER) \<noteq> 0
            then bindE (ipv6_send_icmp_unreachable c buf (flags AND PIPV6_IMCP_NOHOST_CLIENT \<noteq> 0)) (\<lambda>c.
                 Inr (c, buf\<lparr>b_len := 0\<rparr>))
            else Inr (c, buf))
          else Inr (c, buf)))
      else Inr (c, buf))"

end
