(* ===== verification/Mss_Correct.thy ===== *)
theory Mss_Correct
  imports Ip_Packet
begin

text \<open>
  Lowering the segment size in TCP headers: the loop over the options stays inside the header, lowers
  every announcement to the limit and no further, changes nothing else but the checksum, and keeps the
  checksum right when the announcements stand at even offsets. At an odd offset it does not.
\<close>

section \<open>The announcements of a header\<close>

text \<open>Position and value of each segment size option among the \<open>olen\<close> bytes at \<open>opt\<close>.\<close>

function mss_at :: "byte list \<Rightarrow> nat \<Rightarrow> nat \<Rightarrow> (nat \<times> u16) list" where
  "mss_at t opt olen =
     (if olen \<le> 1 \<or> t ! opt = 0 then []
      else if t ! opt = 1 then mss_at t (opt + 1) (olen - 1)
      else let l = unat (t ! (opt + 1)) in
        if l = 0 \<or> l > olen then []
        else (if t ! opt = 2 \<and> l = 4 then [(opt, of_be16 (segment t (opt + 2) 2))] else [])
          @ mss_at t (opt + l) (olen - l))"
  by pat_completeness auto
termination
  by (relation "measure (\<lambda>(t, opt, olen). olen)") auto

declare mss_at.simps [simp del]

lemma mss_at_range: "(j, v) \<in> set (mss_at t opt olen) \<Longrightarrow> opt \<le> j \<and> j + 4 \<le> opt + olen"
proof (induction t opt olen rule: mss_at.induct)
  case (1 t opt olen)
  let ?l = "unat (t ! (opt + 1))"
  show ?case
  proof (cases "olen \<le> 1 \<or> t ! opt = 0")
    case True
    then show ?thesis using "1.prems" by (subst (asm) mss_at.simps) simp
  next
    case go: False
    show ?thesis
    proof (cases "t ! opt = 1")
      case True
      then have "(j, v) \<in> set (mss_at t (opt + 1) (olen - 1))"
        using "1.prems" go by (subst (asm) mss_at.simps) simp
      moreover have "1 < olen" using go by simp
      ultimately show ?thesis using "1.IH"(1)[OF go True] by linarith
    next
      case False
      have "mss_at t opt olen = (if ?l = 0 \<or> olen < ?l then []
          else (if t ! opt = 2 \<and> ?l = 4 then [(opt, of_be16 (segment t (opt + 2) 2))] else [])
            @ mss_at t (opt + ?l) (olen - ?l))"
        using go False by (subst mss_at.simps) (simp only: if_False Let_def)
      then have l: "\<not> (?l = 0 \<or> olen < ?l)"
        and "(j, v) \<in> set (mss_at t (opt + ?l) (olen - ?l)) \<or> j = opt \<and> ?l = 4"
        using "1.prems" by (simp_all split: if_splits) blast
      then show ?thesis using "1.IH"(2)[OF go False refl l] by linarith
    qed
  qed
qed

lemma mss_at_cong:
  assumes "\<And>i. opt \<le> i \<Longrightarrow> i < opt + olen \<Longrightarrow> t' ! i = t ! i" and "length t' = length t"
  shows "mss_at t' opt olen = mss_at t opt olen"
  using assms
proof (induction t opt olen rule: mss_at.induct)
  case (1 t opt olen)
  have "segment t' (opt + 2) 2 = segment t (opt + 2) 2" if "4 \<le> olen"
    using "1.prems" that by (auto simp: segment_def intro!: nth_equalityI)
  moreover have "t' ! opt = t ! opt" if "1 < olen" using "1.prems"(1)[of opt] that by simp
  moreover have "t' ! (opt + 1) = t ! (opt + 1)" if "1 < olen" using "1.prems"(1)[of "opt + 1"] that by simp
  ultimately show ?case
    using "1.IH" "1.prems"
    by (subst mss_at.simps, subst (2) mss_at.simps) (simp add: Let_def)
qed

section \<open>One announcement\<close>

lemma segment_pair: "i + 2 \<le> length t \<Longrightarrow> segment t i 2 = [t ! i, t ! (i + 1)]"
  by (simp add: segment_def take_Suc_conv_app_nth numeral_2_eq_2 hd_drop_conv_nth)

lemma csum_adjusted:
  assumes "even i" and "i + 2 \<le> length t" and "c = segment t i 2"
    and "\<bar>acc\<bar> \<le> 1000000000"
    and "t' = overwrite t i (raw16_bytes le (ADJUST_CHECKSUM acc (raw16 le c)))"
  shows "ones_eq (csum t') (csum t + order_factor le * acc)"
proof -
  let ?w = "ADJUST_CHECKSUM acc (raw16 le c)"
  have c: "csum t' = csum t - csum c + csum (raw16_bytes le ?w)"
    unfolding assms(5) assms(3) using assms(1,2) by (subst csum_overwrite) simp_all
  have b: "\<bar>acc + uint (raw16 le c)\<bar> < 2147483648"
    using assms(4) uint_u16_range[of "raw16 le c"] by linarith
  have "ones_eq (csum (raw16_bytes le ?w)) (order_factor le * uint ?w)"
    using csum_raw16[of "raw16_bytes le ?w" le] by simp
  moreover have "ones_eq (order_factor le * uint ?w) (order_factor le * (acc + uint (raw16 le c)))"
    by (intro ones_eq_mult ADJUST_CHECKSUM_correct b)
  moreover have "ones_eq (csum c) (order_factor le * uint (raw16 le c))"
    by (rule csum_raw16) (use assms(2,3) in simp)
  ultimately have "65535 dvd csum (raw16_bytes le ?w) - order_factor le * (acc + uint (raw16 le c))"
    "65535 dvd csum c - order_factor le * uint (raw16 le c)"
    by (auto intro: ones_eq_trans simp flip: ones_eq_dvd)
  then have "65535 dvd (csum (raw16_bytes le ?w) - order_factor le * (acc + uint (raw16 le c)))
      - (csum c - order_factor le * uint (raw16 le c))" by (rule dvd_diff)
  then show ?thesis unfolding ones_eq_dvd c by (simp add: algebra_simps)
qed

text \<open>Lowering one announcement at \<open>opt\<close>, behind the fixed part of the header.\<close>

lemma mss_lower_correct:
  assumes "20 \<le> opt" and "opt + 4 \<le> length t"
  obtains t' where "mss_lower le m t (int opt) = Inr t'" "length t' = length t"
    "of_be16 (segment t' (opt + 2) 2) = min (of_be16 (segment t (opt + 2) 2)) m"
    "\<And>i. i < length t \<Longrightarrow> i \<notin> {16, 17, opt + 2, opt + 3} \<Longrightarrow> t' ! i = t ! i"
    "even opt \<Longrightarrow> ones_eq (csum t') (csum t)"
proof -
  let ?s = "segment t (opt + 2) 2"
  let ?v = "of_be16 ?s"
  have "nat (int opt + 2) = opt + 2" by simp
  then have rd: "mem_read t (int opt + 2) 2 = Inr ?s" using assms by (simp add: mem_read_def)
  show thesis
  proof (cases "?v > m")
    case False
    then show thesis using that[of t] rd by (simp add: mss_lower_def Let_def)
  next
    case True
    let ?t1 = "overwrite t (opt + 2) (be16 m)"
    let ?acc = "uint (htons le ?v) - uint (htons le m)"
    let ?c = "segment ?t1 16 2"
    let ?t2 = "overwrite ?t1 16 (raw16_bytes le (ADJUST_CHECKSUM ?acc (raw16 le ?c)))"
    have l: "length ?t1 = length t" "length ?t2 = length t" using assms by simp_all
    have w1: "mem_write t (int opt + 2) (be16 m) = Inr ?t1"
      using assms \<open>nat (int opt + 2) = opt + 2\<close> by (auto simp: mem_write_def be16_def)
    have r2: "mem_read ?t1 16 2 = Inr ?c" using assms l by (simp add: mem_read_def)
    have w2: "mem_write ?t1 16 (raw16_bytes le x) = Inr (overwrite ?t1 16 (raw16_bytes le x))" for x
      using assms l raw_bytes(2)[of le x] by (auto simp: mem_write_def)
    have "mss_lower le m t (int opt) = Inr ?t2"
      using True by (simp only: mss_lower_def Let_def rd bindE_Inr w1 r2 w2 if_True)
    moreover have "segment ?t2 (opt + 2) 2 = be16 m"
    proof -
      have "segment ?t2 (opt + 2) 2 = segment ?t1 (opt + 2) 2"
        using assms l by (intro segment_overwrite_after) simp_all
      also have "\<dots> = be16 m" using segment_overwrite_same[of "opt + 2" "be16 m" t] assms by simp
      finally show ?thesis .
    qed
    moreover have "?t2 ! i = t ! i" if "i < length t" "i \<notin> {16, 17, opt + 2, opt + 3}" for i
      using assms l that by (auto simp: nth_overwrite)
    moreover have "ones_eq (csum ?t2) (csum t)" if "even opt"
    proof -
      have "ones_eq (csum ?t2) (csum ?t1 + order_factor le * ?acc)"
      proof (rule csum_adjusted[where i = 16])
        show "\<bar>?acc\<bar> \<le> 1000000000"
          using uint_u16_range[of "htons le ?v"] uint_u16_range[of "htons le m"] by linarith
      qed (use assms l in simp_all)
      moreover have "csum ?t1 = csum t - uint ?v + uint m"
      proof -
        have "csum ?s = uint ?v" using csum_be16[of ?v] be16_of_be16[of ?s] assms by simp
        then show ?thesis using that assms by (subst csum_overwrite) (simp_all add: csum_be16)
      qed
      moreover have "65535 dvd order_factor le * ?acc - (uint ?v - uint m)"
      proof -
        have "65535 dvd uint ?v - order_factor le * uint (htons le ?v)"
          "65535 dvd uint m - order_factor le * uint (htons le m)"
          using htons_weight[of ?v le] htons_weight[of m le] by (simp_all add: ones_eq_dvd)
        from dvd_diff[OF this(2) this(1)]
        have "65535 dvd (uint m - order_factor le * uint (htons le m))
            - (uint ?v - order_factor le * uint (htons le ?v))" .
        then show ?thesis by (simp add: algebra_simps)
      qed
      ultimately show ?thesis unfolding ones_eq_dvd
        using dvd_add[of 65535 "csum ?t2 - (csum ?t1 + order_factor le * ?acc)"
            "order_factor le * ?acc - (uint ?v - uint m)"]
        by (simp add: algebra_simps)
    qed
    ultimately show thesis
      by (intro that[of ?t2]) (simp_all only: l of_be16_be16 min_absorb2[OF less_imp_le[OF True]])
  qed
qed

section \<open>All announcements\<close>

text \<open>What the loop makes of a header \<open>t\<close>, with the options from \<open>opt\<close> on still to come.\<close>

definition mss_lowered :: "u16 \<Rightarrow> byte list \<Rightarrow> nat \<Rightarrow> nat \<Rightarrow> byte list \<Rightarrow> bool" where
  "mss_lowered m t opt olen t' \<longleftrightarrow>
     length t' = length t
     \<and> mss_at t' opt olen = map (\<lambda>(j, v). (j, min v m)) (mss_at t opt olen)
     \<and> (\<forall>i < length t. i \<notin> {16, 17} \<longrightarrow> (\<forall>(j, v) \<in> set (mss_at t opt olen). i \<notin> {j + 2, j + 3}) \<longrightarrow> t' ! i = t ! i)
     \<and> ((\<forall>(j, v) \<in> set (mss_at t opt olen). even j) \<longrightarrow> ones_eq (csum t') (csum t))"

lemma mss_lowered_none: "mss_at t opt olen = [] \<Longrightarrow> mss_lowered m t opt olen t"
  by (simp add: mss_lowered_def)

lemma mss_lowered_skip:
  assumes "mss_lowered m t (opt + l) (olen - l) t'" and "0 < l" and "l \<le> olen"
    and "opt + olen \<le> length t" and "20 \<le> opt"
    and "mss_at t opt olen = mss_at t (opt + l) (olen - l)"
    and "\<And>s. s ! opt = t ! opt \<Longrightarrow> s ! (opt + 1) = t ! (opt + 1) \<or> t ! opt = 1
      \<Longrightarrow> mss_at s opt olen = mss_at s (opt + l) (olen - l)"
    and "1 < olen"
  shows "mss_lowered m t opt olen t'"
proof -
  have keep: "t' ! i = t ! i" if "i < opt + 2" "20 \<le> i" for i
  proof -
    have "i \<notin> {j + 2, j + 3}" if "(j, v) \<in> set (mss_at t (opt + l) (olen - l))" for j v
      using mss_at_range[OF that] \<open>i < opt + 2\<close> assms(2) by auto
    moreover have "i < length t" "i \<notin> {16, 17}" using that assms(3,4,8) by auto
    ultimately show ?thesis using assms(1) unfolding mss_lowered_def by blast
  qed
  have "mss_at t' opt olen = mss_at t' (opt + l) (olen - l)"
    using keep[of opt] keep[of "opt + 1"] assms(5) by (intro assms(7)) auto
  then show ?thesis using assms(1,6) unfolding mss_lowered_def by simp
qed

lemma mss_lowered_one:
  assumes "length t1 = length t" and "20 \<le> opt" and "4 \<le> olen" and "opt + olen \<le> length t"
    and v: "of_be16 (segment t1 (opt + 2) 2) = min (of_be16 (segment t (opt + 2) 2)) m"
    and frame: "\<And>i. i < length t \<Longrightarrow> i \<notin> {16, 17, opt + 2, opt + 3} \<Longrightarrow> t1 ! i = t ! i"
    and sums: "even opt \<Longrightarrow> ones_eq (csum t1) (csum t)"
    and rest: "mss_lowered m t1 (opt + 4) (olen - 4) t'"
    and at: "\<And>s. s ! opt = t ! opt \<Longrightarrow> s ! (opt + 1) = t ! (opt + 1)
      \<Longrightarrow> mss_at s opt olen = (opt, of_be16 (segment s (opt + 2) 2)) # mss_at s (opt + 4) (olen - 4)"
  shows "mss_lowered m t opt olen t'"
proof -
  let ?r = "mss_at t (opt + 4) (olen - 4)"
  have r: "mss_at t1 (opt + 4) (olen - 4) = ?r"
    using assms(1-4) by (intro mss_at_cong frame) auto
  have range: "opt + 4 \<le> j" if "(j, v) \<in> set ?r" for j v using mss_at_range[OF that] by simp
  have keep: "t' ! i = t1 ! i" if "i < opt + 4" "20 \<le> i" for i
  proof -
    have "i \<notin> {j + 2, j + 3}" if "(j, v) \<in> set ?r" for j v
      using range[OF that] \<open>i < opt + 4\<close> by auto
    moreover have "i < length t1" "i \<notin> {16, 17}" using that assms(1-4) by auto
    ultimately show ?thesis using rest unfolding mss_lowered_def r by blast
  qed
  have "segment t' (opt + 2) 2 = segment t1 (opt + 2) 2"
    using assms(1-4) rest keep[of "opt + 2"] keep[of "Suc (Suc (Suc opt))"]
    by (subst segment_pair, simp add: mss_lowered_def, subst segment_pair) (simp_all add: add.assoc)
  moreover have "t' ! opt = t ! opt" "t' ! (opt + 1) = t ! (opt + 1)"
    using keep[of opt] keep[of "opt + 1"] frame[of opt] frame[of "opt + 1"] assms(2-4) by simp_all
  ultimately have "mss_at t' opt olen = map (\<lambda>(j, v). (j, min v m)) (mss_at t opt olen)"
    using at[of t'] at[of t] rest v r by (simp add: mss_lowered_def)
  moreover have "length t' = length t" using rest assms(1) by (simp add: mss_lowered_def)
  moreover have "t' ! i = t ! i"
    if "i < length t" "i \<notin> {16, 17}" "\<forall>(j, v) \<in> set (mss_at t opt olen). i \<notin> {j + 2, j + 3}" for i
    using that rest frame[of i] assms(1) at[of t] unfolding mss_lowered_def r by auto
  moreover have "ones_eq (csum t') (csum t)" if "\<forall>(j, v) \<in> set (mss_at t opt olen). even j"
    using that rest sums at[of t] unfolding mss_lowered_def r by (auto intro: ones_eq_trans)
  ultimately show ?thesis unfolding mss_lowered_def by blast
qed

lemma mss_options_correct:
  "20 \<le> opt \<Longrightarrow> opt + olen \<le> length t \<Longrightarrow>
   \<exists>t'. mss_options le m t (int opt) (int olen) = Inr t' \<and> mss_lowered m t opt olen t'"
proof (induction olen arbitrary: t opt rule: less_induct)
  case (less olen)
  let ?k = "t ! opt" and ?l = "unat (t ! (opt + 1))"
  have at: "mss_at s opt olen =
     (if olen \<le> 1 \<or> s ! opt = 0 then []
      else if s ! opt = 1 then mss_at s (opt + 1) (olen - 1)
      else if unat (s ! (opt + 1)) = 0 \<or> unat (s ! (opt + 1)) > olen then []
      else (if s ! opt = 2 \<and> unat (s ! (opt + 1)) = 4 then [(opt, of_be16 (segment s (opt + 2) 2))] else [])
          @ mss_at s (opt + unat (s ! (opt + 1))) (olen - unat (s ! (opt + 1))))" for s
    by (subst mss_at.simps) (simp only: Let_def)
  show ?case
  proof (cases "olen \<le> 1 \<or> ?k = 0")
    case stop: True
    have "mss_options le m t (int opt) (int olen) = Inr t"
      using stop less.prems
      by (subst mss_options.simps) (auto simp: arr_get_nat OPENVPN_TCPOPT_EOL_def)
    then show ?thesis using mss_lowered_none[of t opt olen m] at[of t] stop by auto
  next
    case go: False
    then have len: "1 < olen" "?k \<noteq> 0" by auto
    have g: "arr_get t (int opt) = Inr ?k" "arr_get t (int opt + 1) = Inr (t ! (opt + 1))"
      using len less.prems arr_get_nat[of opt t] arr_get_nat[of "opt + 1" t] by (simp_all add: add.commute)
    show ?thesis
    proof (cases "?k = 1")
      case True
      have "mss_options le m t (int opt) (int olen) = mss_options le m t (int (opt + 1)) (int (olen - 1))"
        using len True by (subst mss_options.simps)
          (simp add: g OPENVPN_TCPOPT_EOL_def OPENVPN_TCPOPT_NOP_def of_nat_diff add.commute)
      moreover obtain t' where "mss_options le m t (int (opt + 1)) (int (olen - 1)) = Inr t'"
        "mss_lowered m t (opt + 1) (olen - 1) t'"
        using less.IH[of "olen - 1" "opt + 1" t] less.prems len by auto
      moreover have "mss_lowered m t opt olen t'"
        using calculation(3) len less.prems at True by (intro mss_lowered_skip[of m t opt 1]) auto
      ultimately show ?thesis by auto
    next
      case opt: False
      define L where "L = ?l"
      have u: "uint (t ! (opt + 1)) = int L" by (simp add: L_def)
      have step: "mss_options le m t (int opt) (int olen) =
          (if L = 0 \<or> L > olen then Inr t
           else bindE (if ?k = 2 \<and> L = 4 then mss_lower le m t (int opt) else Inr t) (\<lambda>t1.
             mss_options le m t1 (int (opt + L)) (int (olen - L))))"
        using len opt by (subst mss_options.simps)
          (simp add: Let_def g u u[unfolded Suc_eq_plus1[symmetric]] OPENVPN_TCPOPT_EOL_def OPENVPN_TCPOPT_NOP_def OPENVPN_TCPOPT_MAXSEG_def
            OPENVPN_TCPOLEN_MAXSEG_def of_nat_diff)
      show ?thesis
      proof (cases "L = 0 \<or> L > olen")
        case True
        then show ?thesis using step mss_lowered_none[of t opt olen m] at[of t] len opt by (auto simp: L_def)
      next
        case ok: False
        have len': "olen - L < olen" "20 \<le> opt + L" "opt + L + (olen - L) \<le> length t" using ok len less.prems by auto
        show ?thesis
        proof (cases "?k = 2 \<and> L = 4")
          case False
          obtain t' where "mss_options le m t (int (opt + L)) (int (olen - L)) = Inr t'"
            "mss_lowered m t (opt + L) (olen - L) t'" using less.IH[OF len'] by auto
          moreover have "mss_lowered m t opt olen t'"
            using calculation(2) len opt ok less.prems at False
            by (intro mss_lowered_skip[of m t opt L]) (auto simp: L_def)
          ultimately show ?thesis using step ok False by auto
        next
          case True
          have o4: "4 \<le> olen" using True ok by simp
          obtain t1 where t1: "mss_lower le m t (int opt) = Inr t1" "length t1 = length t"
            "of_be16 (segment t1 (opt + 2) 2) = min (of_be16 (segment t (opt + 2) 2)) m"
            "\<And>i. i < length t \<Longrightarrow> i \<notin> {16, 17, opt + 2, opt + 3} \<Longrightarrow> t1 ! i = t ! i"
            "even opt \<Longrightarrow> ones_eq (csum t1) (csum t)"
            using mss_lower_correct[of opt t le m] less.prems o4 by auto
          obtain t' where t': "mss_options le m t1 (int (opt + 4)) (int (olen - 4)) = Inr t'"
            "mss_lowered m t1 (opt + 4) (olen - 4) t'"
            using less.IH[of "olen - 4" "opt + 4" t1] less.prems t1(2) o4 by auto
          have "mss_lowered m t opt olen t'"
            using t1 t' o4 less.prems True by (intro mss_lowered_one[of t1 t opt olen m]) (auto simp: at L_def)
          then show ?thesis using step ok True t1 t' by auto
        qed
      qed
    qed
  qed
qed

section \<open>Segments and packets\<close>

text \<open>The number of option bytes of a TCP header, zero when there are none or the header is not all there.\<close>

definition tcp_options_len :: "byte list \<Rightarrow> nat" where
  "tcp_options_len t =
     (let hlen = OPENVPN_TCPH_GET_DOFF (t ! 12) in
      if length t < 20 \<or> hlen \<le> 20 \<or> hlen > int (length t) then 0 else nat (hlen - 20))"

lemma mss_fixup_dowork_correct:
  "\<exists>t'. mss_fixup_dowork le t m = Inr t' \<and> mss_lowered m t 20 (tcp_options_len t) t'"
proof -
  let ?hlen = "OPENVPN_TCPH_GET_DOFF (t ! 12)"
  have none: "mss_lowered m t 20 0 t" by (simp add: mss_lowered_none mss_at.simps)
  show ?thesis
  proof (cases "length t < 20 \<or> ?hlen \<le> 20 \<or> ?hlen > int (length t)")
    case True
    then have "mss_fixup_dowork le t m = Inr t"
      by (auto simp: mss_fixup_dowork_def TCPHDR_SIZE_def Let_def arr_get_def)
    then show ?thesis using True none by (auto simp: tcp_options_len_def Let_def)
  next
    case False
    then have "mss_fixup_dowork le t m = mss_options le m t (int 20) (int (nat (?hlen - 20)))"
      by (auto simp: mss_fixup_dowork_def TCPHDR_SIZE_def Let_def arr_get_def)
    moreover have "tcp_options_len t = nat (?hlen - 20)" using False by (simp add: tcp_options_len_def)
    moreover have "20 + nat (?hlen - 20) \<le> length t" using False by linarith
    ultimately show ?thesis using mss_options_correct[of 20 "nat (?hlen - 20)" t le m] by auto
  qed
qed

text \<open>The packets the fix applies to: unfragmented IPv4 and IPv6 packets that carry a TCP SYN.\<close>

definition ipv4_syn :: "byte list \<Rightarrow> bool" where
  "ipv4_syn p \<longleftrightarrow>
     20 \<le> length p \<and> p ! 9 = 6 \<and> uint (of_be16 (segment p 2 2)) = int (length p)
     \<and> of_be16 (segment p 6 2) AND 0x1fff = 0
     \<and> OPENVPN_IPH_GET_LEN (p ! 0) + 20 \<le> int (length p)
     \<and> p ! (nat (OPENVPN_IPH_GET_LEN (p ! 0)) + 13) AND 2 \<noteq> 0"

definition ipv6_syn :: "byte list \<Rightarrow> bool" where
  "ipv6_syn p \<longleftrightarrow>
     60 \<le> length p \<and> p ! 6 = 6 \<and> uint (of_be16 (segment p 4 2)) + 40 = int (length p) \<and> p ! 53 AND 2 \<noteq> 0"

lemma be_field_ok: "i + 2 \<le> length p \<Longrightarrow> be_field p (int i) = Inr (of_be16 (segment p i 2))"
  by (simp add: be_field_def mem_read_def)

lemma ip_header_len_nonneg: "0 \<le> OPENVPN_IPH_GET_LEN v"
  by (simp add: OPENVPN_IPH_GET_LEN_def push_bit_eq_mult)

lemma on_advanced_ok:
  assumes "h \<le> length p" and "f (drop h p) = Inr q" and "length q = length (drop h p)"
  shows "on_advanced p (int h) f = Inr (take h p @ q)"
  using assms by (simp add: on_advanced_def)

lemma mss_fixup_ipv4_eq:
  "mss_fixup_ipv4 le p maxmss =
     (if ipv4_syn p
      then bindE (mss_fixup_dowork le (drop (nat (OPENVPN_IPH_GET_LEN (p ! 0))) p) (word_of_int maxmss))
             (\<lambda>q. Inr (take (nat (OPENVPN_IPH_GET_LEN (p ! 0))) p @ q))
      else Inr p)"
proof (cases "20 \<le> length p")
  case True
  let ?h = "OPENVPN_IPH_GET_LEN (p ! 0)"
  have h: "0 \<le> ?h" by (rule ip_header_len_nonneg)
  have rd: "arr_get p 0 = Inr (p ! 0)" "arr_get p 9 = Inr (p ! 9)"
    "be_field p 2 = Inr (of_be16 (segment p 2 2))" "be_field p 6 = Inr (of_be16 (segment p 6 2))"
    using True be_field_ok[of 2 p] be_field_ok[of 6 p] arr_get_nat[of 0 p] arr_get_nat[of 9 p]
    by (simp_all add: length_greater_0_conv[symmetric] del: length_greater_0_conv)
  have flags: "arr_get (drop (nat ?h) p) 13 = Inr (p ! (nat ?h + 13))" if "?h + 20 \<le> int (length p)"
    using that h by (simp add: arr_get_def add.commute)
  show ?thesis
    using True h flags
    by (auto simp: mss_fixup_ipv4_def ipv4_syn_def rd Let_def on_advanced_def IPHDR_SIZE_def TCPHDR_SIZE_def
      OPENVPN_IPPROTO_TCP_def OPENVPN_IP_OFFMASK_def OPENVPN_TCPH_SYN_MASK_def)
qed (simp add: mss_fixup_ipv4_def ipv4_syn_def IPHDR_SIZE_def)

lemma mss_fixup_ipv6_eq:
  "mss_fixup_ipv6 le p maxmss =
     (if ipv6_syn p
      then bindE (mss_fixup_dowork le (drop 40 p) (word_of_int maxmss - 20)) (\<lambda>q. Inr (take 40 p @ q))
      else Inr p)"
proof (cases "40 \<le> length p")
  case True
  have rd: "arr_get p 6 = Inr (p ! 6)" "be_field p 4 = Inr (of_be16 (segment p 4 2))"
    using True be_field_ok[of 4 p] by (simp_all add: arr_get_def)
  have flags: "arr_get (drop 40 p) 13 = Inr (p ! 53)" if "60 \<le> length p"
    using that by (simp add: arr_get_def)
  have "word_of_int (uint (word_of_int maxmss :: u16) - 20) = (word_of_int maxmss - 20 :: u16)" by simp
  then show ?thesis
    using True flags
    by (auto simp: mss_fixup_ipv6_def ipv6_syn_def rd on_advanced_def IPV6HDR_SIZE_def TCPHDR_SIZE_def
      OPENVPN_IPPROTO_TCP_def OPENVPN_TCPH_SYN_MASK_def simp del: of_int_diff)
qed (simp add: mss_fixup_ipv6_def ipv6_syn_def IPV6HDR_SIZE_def)

lemma mss_fixup_at:
  assumes "h \<le> length p"
  obtains p' where "bindE (mss_fixup_dowork le (drop h p) m) (\<lambda>q. Inr (take h p @ q)) = Inr p'"
    "length p' = length p" "take h p' = take h p"
    "mss_lowered m (drop h p) 20 (tcp_options_len (drop h p)) (drop h p')"
proof -
  obtain q where q: "mss_fixup_dowork le (drop h p) m = Inr q"
    "mss_lowered m (drop h p) 20 (tcp_options_len (drop h p)) q"
    using mss_fixup_dowork_correct by blast
  then have "length q = length (drop h p)" by (simp add: mss_lowered_def)
  then show thesis using that[of "take h p @ q"] q assms by simp
qed

text \<open>
  C15. On every IPv4 packet the fix runs to the end inside the packet. A packet that is not an
  unfragmented TCP SYN is left alone; in one that is, the IP header is left alone, each announced segment size is
  lowered to the limit where it exceeds it, no other byte but those of the checksum changes, and if
  the announcements stand at even offsets the sum over the segment stays what it was.
\<close>

theorem mss_fixup_ipv4_lowers:
  "\<exists>p'. mss_fixup_ipv4 le p maxmss = Inr p'
     \<and> (if ipv4_syn p
        then let h = nat (OPENVPN_IPH_GET_LEN (p ! 0)) in
          length p' = length p \<and> take h p' = take h p
          \<and> mss_lowered (word_of_int maxmss) (drop h p) 20 (tcp_options_len (drop h p)) (drop h p')
        else p' = p)"
proof (cases "ipv4_syn p")
  case True
  then have "nat (OPENVPN_IPH_GET_LEN (p ! 0)) \<le> length p" unfolding ipv4_syn_def by linarith
  from mss_fixup_at[OF this, of le "word_of_int maxmss"] show ?thesis
    using True by (auto simp: mss_fixup_ipv4_eq Let_def)
qed (simp add: mss_fixup_ipv4_eq)

text \<open>
  At an odd offset the fix breaks the checksum: in a SYN segment with a padding byte before the
  announcement, lowering 1460 to 1400 changes the sum over the segment, so the receiver drops it.
\<close>

theorem mss_checksum_odd_offset:
  "let t = replicate 12 0 @ [0x70, 2, 0, 0, 0xD6, 0xF5, 0, 0] @ [1, 2, 4, 5, 180, 0, 0, 0];
       t' = replicate 12 0 @ [0x70, 2, 0, 0, 0xD7, 0x31, 0, 0] @ [1, 2, 4, 5, 120, 0, 0, 0] in
   mss_fixup_dowork True t 1400 = Inr t'
   \<and> mss_at t 20 (tcp_options_len t) = [(21, 1460)] \<and> mss_at t' 20 (tcp_options_len t') = [(21, 1400)]
   \<and> csum t mod 65535 = 0 \<and> csum t' mod 65535 \<noteq> 0"
  by code_simp

end
