(* ===== verification/Nat_Correct.thy ===== *)
theory Nat_Correct
  imports Mss_Correct
begin

text \<open>
  Client address translation: each address of a packet is rewritten by the first rule that matches it
  and no other, the header checksum and the checksums of TCP and UDP follow the change, and the reply to
  a translated packet finds its way back.
\<close>

section \<open>What the rules say about one address\<close>

definition rule_from :: "int \<Rightarrow> client_nat_entry \<Rightarrow> u32" where
  "rule_from direction e = (if direction \<noteq> 0 then foreign_network e else network e)"

definition rule_to :: "int \<Rightarrow> client_nat_entry \<Rightarrow> u32" where
  "rule_to direction e = (if direction \<noteq> 0 then network e else foreign_network e)"

definition rule_matches :: "int \<Rightarrow> u32 \<Rightarrow> client_nat_entry \<Rightarrow> bool" where
  "rule_matches direction addr e \<longleftrightarrow> addr AND netmask e = rule_from direction e"

definition rewritten :: "int \<Rightarrow> client_nat_entry \<Rightarrow> u32 \<Rightarrow> u32" where
  "rewritten direction e addr = (addr AND NOT (netmask e)) OR rule_to direction e"

text \<open>The rules for the source address are those whose type equals the direction.\<close>

fun translate :: "int \<Rightarrow> bool \<Rightarrow> client_nat_option_list \<Rightarrow> u32 \<Rightarrow> u32" where
  "translate direction source [] addr = addr"
| "translate direction source (e # es) addr =
     (if (cn_type e = direction) = source \<and> rule_matches direction addr e
      then rewritten direction e addr else translate direction source es addr)"

definition src_of :: "bool \<Rightarrow> byte list \<Rightarrow> u32" where
  "src_of le p = raw32 le (segment p 12 4)"

definition dst_of :: "bool \<Rightarrow> byte list \<Rightarrow> u32" where
  "dst_of le p = raw32 le (segment p 16 4)"

section \<open>The loop over the rules\<close>

definition bits_set :: "u32 \<Rightarrow> int" where
  "bits_set alog = (if alog AND 1 = 0 then 0 else 1) + (if alog AND 2 = 0 then 0 else 1)"

text \<open>What the loop leaves of packet, checksum change and log.\<close>

definition nat_step :: "bool \<Rightarrow> byte list \<Rightarrow> int \<Rightarrow> u32 \<Rightarrow> byte list \<Rightarrow> int \<Rightarrow> u32 \<Rightarrow> bool" where
  "nat_step le p acc alog p' acc' alog' \<longleftrightarrow>
     length p' = length p \<and> take 12 p' = take 12 p \<and> drop 20 p' = drop 20 p
     \<and> ones_eq (csum (segment p' 12 8) + order_factor le * acc') (csum (segment p 12 8) + order_factor le * acc)
     \<and> \<bar>acc'\<bar> - 131070 * bits_set alog' \<le> \<bar>acc\<bar> - 131070 * bits_set alog
     \<and> alog' AND 3 = alog' \<and> (alog' = 0 \<longrightarrow> p' = p)"

lemma nat_step_refl: "alog AND 3 = alog \<Longrightarrow> nat_step le p acc alog p acc alog"
  by (simp add: nat_step_def)

lemma nat_step_trans:
  assumes "nat_step le p acc alog p1 acc1 alog1" and "nat_step le p1 acc1 alog1 p2 acc2 alog2"
    and "alog2 = 0 \<Longrightarrow> alog1 = 0"
  shows "nat_step le p acc alog p2 acc2 alog2"
  using assms unfolding nat_step_def by (auto intro: ones_eq_trans)

lemma csum_of_raw32_bytes: "ones_eq (csum (raw32_bytes le w)) (order_factor le * word_sum w)"
  using csum_raw32[of "raw32_bytes le w" le] by (simp add: word_sum_def)

lemma csum_of_address: "length bs = 4 \<Longrightarrow> ones_eq (csum bs) (order_factor le * word_sum (raw32 le bs))"
  using csum_raw32[of bs le] by (simp add: word_sum_def)

text \<open>Rewriting the address at \<open>a\<close>, one of the two.\<close>

lemma rewrite_address:
  assumes "20 \<le> length p" and "a = 12 \<or> a = (16::nat)" and "\<bar>acc\<bar> \<le> 1000000"
    and "old = raw32 le (segment p a 4)"
    and "p' = overwrite p a (raw32_bytes le new)"
    and "acc' = SUB_CHECKSUM_32 (ADD_CHECKSUM_32 acc old) new"
  shows "length p' = length p" "take 12 p' = take 12 p" "drop 20 p' = drop 20 p"
    "ones_eq (csum (segment p' 12 8) + order_factor le * acc') (csum (segment p 12 8) + order_factor le * acc)"
    "\<bar>acc'\<bar> \<le> \<bar>acc\<bar> + 131070"
    "segment p' a 4 = raw32_bytes le new"
    "b = 12 \<or> b = 16 \<Longrightarrow> b \<noteq> a \<Longrightarrow> segment p' b 4 = segment p b 4"
proof -
  note ws = word_sum_bounds[of old] word_sum_bounds[of new]
  have acc: "acc' = acc + word_sum old - word_sum new"
    using assms(3) ws unfolding assms(6) by (subst CHECKSUM_32_small(2); subst CHECKSUM_32_small(1)) auto
  show "\<bar>acc'\<bar> \<le> \<bar>acc\<bar> + 131070" using ws acc by linarith
  show l: "length p' = length p" using assms(1,2,5) by auto
  have "nth p' i = nth p i" if "i < length p" "i < a \<or> a + 4 \<le> i" for i
    using assms(1,2,5) that by (auto simp: nth_overwrite)
  then have same: "nth p' i = nth p i" if "i < length p" "i < 12 \<or> 20 \<le> i" for i
    using that assms(2) by auto
  show "take 12 p' = take 12 p" "drop 20 p' = drop 20 p"
    using l assms(1) same by (auto intro!: nth_equalityI)
  show a: "segment p' a 4 = raw32_bytes le new"
    using segment_overwrite_same[of a "raw32_bytes le new" p] assms(1,2,5) by auto
  show b: "segment p' b 4 = segment p b 4" if "b = 12 \<or> b = 16" "b \<noteq> a" for b
    using that assms(1,2,5) by (auto intro: segment_overwrite_before segment_overwrite_after)
  have split: "csum (segment q 12 8) = csum (segment q 12 4) + csum (segment q 16 4)" if "20 \<le> length q" for q
    using segment_append[of q 12 4 4] that by (simp add: csum_append)
  define c where "c = (if a = 12 then 16 else 12 :: nat)"
  have c: "c = 12 \<or> c = 16" "c \<noteq> a" using assms(2) by (auto simp: c_def)
  have sums: "csum (segment q 12 8) = csum (segment q a 4) + csum (segment q c 4)" if "20 \<le> length q" for q
    using split[OF that] c assms(2) by auto
  have "csum (segment p' 12 8) + order_factor le * acc' - (csum (segment p 12 8) + order_factor le * acc)
      = (csum (raw32_bytes le new) - order_factor le * word_sum new)
        - (csum (segment p a 4) - order_factor le * word_sum old)"
    using assms(1) l a b[OF c] by (simp add: sums acc algebra_simps)
  moreover have "65535 dvd \<dots>"
    by (rule dvd_diff; use csum_of_raw32_bytes[of le new] csum_of_address[of "segment p a 4" le] assms(1,2,4)
      in \<open>auto simp: ones_eq_dvd\<close>)
  ultimately show "ones_eq (csum (segment p' 12 8) + order_factor le * acc')
      (csum (segment p 12 8) + order_factor le * acc)"
    unfolding ones_eq_dvd by simp
qed

lemma xor_int_zero: "(x :: int) XOR y = 0 \<longleftrightarrow> x = y"
  by (metis xor.assoc xor.left_neutral xor.right_neutral xor_self_eq)

lemma bits_set_or:
  assumes "m = 1 \<or> m = (2::u32)" and "m AND alog = 0" and "alog AND 3 = alog"
  shows "bits_set (alog OR m) = bits_set alog + 1" "(alog OR m) AND 3 = alog OR m" "alog OR m \<noteq> 0"
proof -
  have "uint alog \<in> {0, 1, 2, 3}"
  proof -
    have "alog = take_bit 2 alog" using assms(3) by (simp add: take_bit_eq_mask mask_eq_exp_minus_1)
    then have "uint alog = uint alog mod 4"
      by (metis (no_types, lifting) numeral_Bit0_eq_double take_bit_eq_mod unsigned_take_bit_eq
          mult_2 power2_eq_square numeral_Bit0)
    then have "0 \<le> uint alog" "uint alog < 4" by (simp, presburger)
    then have "uint alog = 0 \<or> uint alog = 1 \<or> uint alog = 2 \<or> uint alog = 3" by arith
    then show ?thesis by simp
  qed
  then have "alog = 0 \<or> alog = 1 \<or> alog = 2 \<or> alog = 3"
    by (metis insertE singletonD word_of_int_uint of_int_0 of_int_1 of_int_numeral)
  then show "bits_set (alog OR m) = bits_set alog + 1" "(alog OR m) AND 3 = alog OR m" "alog OR m \<noteq> 0"
    using assms(1,2) by (auto simp: bits_set_def)
qed

text \<open>An address that has been rewritten is not looked at again.\<close>

definition pending :: "int \<Rightarrow> bool \<Rightarrow> client_nat_option_list \<Rightarrow> u32 \<Rightarrow> u32 \<Rightarrow> u32" where
  "pending direction source es alog addr =
     (if alog AND (if source then 1 else 2) \<noteq> 0 then addr else translate direction source es addr)"

lemma rewritten_pending:
  assumes hit: "rule_matches direction addr e \<and> (if cn_type e = direction then 1 else 2) AND alog = 0"
    and "segment p1 (if cn_type e = direction then 12 else 16) 4 = raw32_bytes le (rewritten direction e addr)"
  shows "cn_type e = direction \<Longrightarrow>
      pending direction True es (alog OR 1) (src_of le p1) = pending direction True (e # es) alog addr"
    "cn_type e = direction \<Longrightarrow>
      pending direction False es (alog OR 1) x = pending direction False (e # es) alog x"
    "cn_type e \<noteq> direction \<Longrightarrow>
      pending direction False es (alog OR 2) (dst_of le p1) = pending direction False (e # es) alog addr"
    "cn_type e \<noteq> direction \<Longrightarrow>
      pending direction True es (alog OR 2) x = pending direction True (e # es) alog x"
proof -
  have one: "(alog OR 1) AND 1 \<noteq> 0" "(alog OR 2) AND 2 \<noteq> (0 :: u32)"
    "(alog OR 1) AND 2 = alog AND 2" "(alog OR 2) AND 1 = alog AND 1"
    by (simp_all add: bit.conj_disj_distrib2)
  show "cn_type e = direction \<Longrightarrow>
      pending direction True es (alog OR 1) (src_of le p1) = pending direction True (e # es) alog addr"
    "cn_type e = direction \<Longrightarrow>
      pending direction False es (alog OR 1) x = pending direction False (e # es) alog x"
    "cn_type e \<noteq> direction \<Longrightarrow>
      pending direction False es (alog OR 2) (dst_of le p1) = pending direction False (e # es) alog addr"
    "cn_type e \<noteq> direction \<Longrightarrow>
      pending direction True es (alog OR 2) x = pending direction True (e # es) alog x"
    using one assms by (simp_all add: pending_def src_of_def dst_of_def and.commute[of alog])
qed

lemma nat_rules_correct:
  "20 \<le> length p \<Longrightarrow> alog AND 3 = alog \<Longrightarrow> \<bar>acc\<bar> \<le> 131070 * bits_set alog \<Longrightarrow>
   \<exists>p' acc' alog'. nat_rules le direction es p acc alog = Inr (p', acc', alog')
     \<and> nat_step le p acc alog p' acc' alog' \<and> (alog' = 0 \<longrightarrow> alog = 0)
     \<and> src_of le p' = pending direction True es alog (src_of le p)
     \<and> dst_of le p' = pending direction False es alog (dst_of le p)"
proof (induction es arbitrary: p acc alog)
  case Nil
  then show ?case by (simp add: nat_step_refl pending_def)
next
  case (Cons e es)
  let ?src = "cn_type e = direction"
  let ?a = "if ?src then 12 else 16 :: nat"
  let ?m = "if ?src then 1 else 2 :: u32"
  let ?addr = "raw32 le (segment p ?a 4)"
  have rd: "mem_read p (int ?a) 4 = Inr (segment p ?a 4)" using Cons.prems(1) by (simp add: mem_read_def)
  let ?hit = "rule_matches direction ?addr e \<and> ?m AND alog = 0"
  let ?new = "rewritten direction e ?addr"
  let ?acc = "SUB_CHECKSUM_32 (ADD_CHECKSUM_32 acc ?addr) ?new"
  let ?p1 = "overwrite p ?a (raw32_bytes le ?new)"
  have wr: "mem_write p (int ?a) (raw32_bytes le w) = Inr (overwrite p ?a (raw32_bytes le w))" for w
    using Cons.prems(1) raw_bytes(4)[of le w] by (auto simp: mem_write_def)
  have step: "nat_rules le direction (e # es) p acc alog =
      (if ?hit then nat_rules le direction es ?p1 ?acc (alog OR ?m)
       else nat_rules le direction es p acc alog)"
    using rd wr
    by (simp add: xor_int_zero Let_def rule_matches_def rule_from_def rewritten_def rule_to_def split: if_splits)
  show ?case
  proof (cases ?hit)
    case False
    obtain p' acc' alog' where r: "nat_rules le direction es p acc alog = Inr (p', acc', alog')"
      "nat_step le p acc alog p' acc' alog'" "alog' = 0 \<longrightarrow> alog = 0"
      "src_of le p' = pending direction True es alog (src_of le p)"
      "dst_of le p' = pending direction False es alog (dst_of le p)"
      using Cons.IH[OF Cons.prems] by blast
    have "pending direction True (e # es) alog (src_of le p) = pending direction True es alog (src_of le p)"
      "pending direction False (e # es) alog (dst_of le p) = pending direction False es alog (dst_of le p)"
      using False by (auto simp: pending_def src_of_def dst_of_def and.commute split: if_splits)
    then show ?thesis using r step False by simp
  next
    case True
    have "0 \<le> bits_set alog \<and> bits_set alog \<le> 2" by (simp add: bits_set_def)
    then have small: "\<bar>acc\<bar> \<le> 1000000" using Cons.prems(3) by linarith
    have a: "?a = 12 \<or> ?a = 16" by simp
    note rw = rewrite_address[OF Cons.prems(1) a small refl refl refl, where le = le and new = ?new]
    have m: "?m = 1 \<or> ?m = 2" "?m AND alog = 0" using True by auto
    note bits = bits_set_or[OF m Cons.prems(2)]
    have "nat_step le p acc alog ?p1 ?acc (alog OR ?m)"
      unfolding nat_step_def using rw(1-5) bits by simp
    moreover have "20 \<le> length ?p1" "\<bar>?acc\<bar> \<le> 131070 * bits_set (alog OR ?m)"
      using rw(1,5) bits(1) Cons.prems(1,3) by linarith+
    ultimately obtain p' acc' alog' where
      r: "nat_rules le direction es ?p1 ?acc (alog OR ?m) = Inr (p', acc', alog')"
        "nat_step le ?p1 ?acc (alog OR ?m) p' acc' alog'" "alog' = 0 \<longrightarrow> alog OR ?m = 0"
        "src_of le p' = pending direction True es (alog OR ?m) (src_of le ?p1)"
        "dst_of le p' = pending direction False es (alog OR ?m) (dst_of le ?p1)"
      and s1: "nat_step le p acc alog ?p1 ?acc (alog OR ?m)"
      using Cons.IH[of ?p1 "alog OR ?m" ?acc] bits(2) by blast
    have "nat_step le p acc alog p' acc' alog'" "alog' = 0 \<longrightarrow> alog = 0"
      using nat_step_trans[OF s1 r(2)] r(3) bits(3) by auto
    moreover have "src_of le p' = pending direction True (e # es) alog (src_of le p)"
      "dst_of le p' = pending direction False (e # es) alog (dst_of le p)"
    proof -
      note rp = rewritten_pending[OF True rw(6)]
      have other: "?src \<Longrightarrow> dst_of le ?p1 = dst_of le p" "\<not> ?src \<Longrightarrow> src_of le ?p1 = src_of le p"
        using rw(7)[of 16] rw(7)[of 12] by (simp_all add: dst_of_def src_of_def)
      have addr: "?src \<Longrightarrow> ?addr = src_of le p" "\<not> ?src \<Longrightarrow> ?addr = dst_of le p"
        by (simp_all add: dst_of_def src_of_def)
      show "src_of le p' = pending direction True (e # es) alog (src_of le p)"
        unfolding r(4) using rp(1)[of es] rp(4)[of es "src_of le p"] addr(1) other(2) by (cases ?src) simp_all
      show "dst_of le p' = pending direction False (e # es) alog (dst_of le p)"
        unfolding r(5) using rp(3)[of es] rp(2)[of es "dst_of le p"] addr(2) other(1) by (cases ?src) simp_all
    qed
    ultimately show ?thesis using r(1) step True by auto
  qed
qed

section \<open>The whole transformation\<close>

lemma nth_segment: "j < n \<Longrightarrow> a + n \<le> length p \<Longrightarrow> segment p a n ! j = p ! (a + j)"
  by (simp add: segment_def)

lemma segment_overwrite_inside:
  assumes "a \<le> i" and "i + length bs \<le> a + n" and "a + n \<le> length p"
  shows "segment (overwrite p i bs) a n = overwrite (segment p a n) (i - a) bs"
  using assms by (intro nth_equalityI) (auto simp: nth_segment nth_overwrite add.commute)

lemma adjust_at_correct:
  assumes "i + 2 \<le> length p" and "even i" and "\<bar>acc\<bar> \<le> 1000000"
  obtains p' where "adjust_at le acc p (int i) = Inr p'" "length p' = length p"
    "\<And>j. j < length p \<Longrightarrow> j \<noteq> i \<Longrightarrow> j \<noteq> i + 1 \<Longrightarrow> p' ! j = p ! j"
    "\<And>a n. a \<le> i \<Longrightarrow> even a \<Longrightarrow> i + 2 \<le> a + n \<Longrightarrow> a + n \<le> length p
      \<Longrightarrow> ones_eq (csum (segment p' a n)) (csum (segment p a n) + order_factor le * acc)"
proof -
  let ?c = "segment p i 2"
  let ?bs = "raw16_bytes le (ADJUST_CHECKSUM acc (raw16 le ?c))"
  let ?p = "overwrite p i ?bs"
  have "adjust_at le acc p (int i) = Inr ?p"
    using assms(1) raw_bytes(2)[of le "ADJUST_CHECKSUM acc (raw16 le ?c)"]
    by (auto simp: adjust_at_def mem_read_def mem_write_def)
  moreover have "ones_eq (csum (segment ?p a n)) (csum (segment p a n) + order_factor le * acc)"
    if "a \<le> i" "even a" "i + 2 \<le> a + n" "a + n \<le> length p" for a n
  proof (rule csum_adjusted[where i = "i - a"])
    show "?c = segment (segment p a n) (i - a) 2"
      using that by (intro nth_equalityI) (auto simp: nth_segment)
    show "segment ?p a n = overwrite (segment p a n) (i - a) ?bs"
      using that by (intro segment_overwrite_inside) simp_all
  qed (use that assms in auto)
  moreover have "?p ! j = p ! j" if "j < length p" "j \<noteq> i" "j \<noteq> i + 1" for j
    using that assms(1) by (subst nth_overwrite) auto
  ultimately show thesis using assms(1) by (intro that[of ?p]) simp_all
qed

text \<open>Where the checksum of the transport header stands, if there is one to adjust.\<close>

definition transport_check :: "byte list \<Rightarrow> nat option" where
  "transport_check p =
     (if p ! 9 = 6 \<and> 40 \<le> length p then Some 36
      else if p ! 9 = 17 \<and> 28 \<le> length p then Some 26 else None)"

text \<open>What a translated packet looks like.\<close>

definition nat_result :: "bool \<Rightarrow> int \<Rightarrow> client_nat_option_list \<Rightarrow> byte list \<Rightarrow> byte list \<Rightarrow> bool" where
  "nat_result le direction lst p p' \<longleftrightarrow>
     length p' = length p
     \<and> src_of le p' = translate direction True lst (src_of le p)
     \<and> dst_of le p' = translate direction False lst (dst_of le p)
     \<and> (\<forall>i < length p. i \<notin> {10..<20} \<longrightarrow> (\<forall>c. transport_check p = Some c \<longrightarrow> i \<notin> {c, c + 1}) \<longrightarrow> p' ! i = p ! i)
     \<and> ones_eq (csum (segment p' 0 20)) (csum (segment p 0 20))
     \<and> (transport_check p \<noteq> None \<longrightarrow>
          ones_eq (csum (segment p' 12 8) + csum (drop 20 p')) (csum (segment p 12 8) + csum (drop 20 p)))"

lemma header_split: "20 \<le> length p \<Longrightarrow> csum (segment p 0 20) = csum (segment p 0 12) + csum (segment p 12 8)"
  using segment_append[of p 0 12 8] by (simp add: csum_append)

lemma drop_eq_segment: "drop a p = segment p a (length p - a)"
  by (simp add: segment_def)

lemma segment_cong: "length q = length p \<Longrightarrow> a + n \<le> length p \<Longrightarrow>
    (\<And>j. a \<le> j \<Longrightarrow> j < a + n \<Longrightarrow> q ! j = p ! j) \<Longrightarrow> segment q a n = segment p a n"
  by (intro nth_equalityI) (auto simp: nth_segment)

lemma client_nat_transform_correct:
  assumes "20 \<le> length p"
  shows "\<exists>p'. client_nat_transform le lst p direction = Inr p' \<and> nat_result le direction lst p p'"
proof -
  obtain p1 acc alog where r: "nat_rules le direction lst p 0 0 = Inr (p1, acc, alog)"
    "nat_step le p 0 0 p1 acc alog" "src_of le p1 = translate direction True lst (src_of le p)"
    "dst_of le p1 = translate direction False lst (dst_of le p)"
    using nat_rules_correct[OF assms, of 0 0 le direction lst] by (auto simp: pending_def bits_set_def)
  show ?thesis
  proof (cases "alog = 0")
    case True
    then have "p1 = p" using r(2) by (simp add: nat_step_def)
    then show ?thesis using r True by (simp add: client_nat_transform_def nat_result_def)
  next
    case False
    have l1: "length p1 = length p" and same1: "take 12 p1 = take 12 p" "drop 20 p1 = drop 20 p"
      and sum1: "ones_eq (csum (segment p1 12 8) + order_factor le * acc) (csum (segment p 12 8))"
      and acc: "\<bar>acc\<bar> \<le> 1000000"
      using r(2) by (auto simp: nat_step_def bits_set_def split: if_splits)
    have nth1: "p1 ! j = p ! j" if "j < length p" "j < 12 \<or> 20 \<le> j" for j
      using that same1 l1 by (metis assms le_add_diff_inverse nth_drop nth_take)
    obtain p2 where p2: "adjust_at le acc p1 (int 10) = Inr p2" "length p2 = length p1"
      "\<And>j. j < length p1 \<Longrightarrow> j \<noteq> 10 \<Longrightarrow> j \<noteq> 10 + 1 \<Longrightarrow> p2 ! j = p1 ! j"
      "\<And>a n. a \<le> 10 \<Longrightarrow> even a \<Longrightarrow> 10 + 2 \<le> a + n \<Longrightarrow> a + n \<le> length p1
        \<Longrightarrow> ones_eq (csum (segment p2 a n)) (csum (segment p1 a n) + order_factor le * acc)"
      by (rule adjust_at_correct[of 10 p1 acc le]) (use assms l1 acc in auto)
    have "ones_eq (csum (segment p2 0 20)) (csum (segment p1 0 20) + order_factor le * acc)"
      using p2(4)[of 0 20] assms l1 by simp
    moreover have "csum (segment p1 0 20) + order_factor le * acc
        = csum (segment p 0 12) + (csum (segment p1 12 8) + order_factor le * acc)"
    proof -
      have "segment p1 0 12 = segment p 0 12" using same1 by (simp add: segment_def)
      then show ?thesis using assms l1 by (simp add: header_split)
    qed
    ultimately have sum2: "ones_eq (csum (segment p2 0 20)) (csum (segment p 0 20))"
      using ones_eq_add[OF ones_eq_refl[of "csum (segment p 0 12)"] sum1] assms
      by (auto simp: header_split intro: ones_eq_trans)
    have p9: "arr_get p2 9 = Inr (p ! 9)"
      using assms l1 p2(2) p2(3)[of 9] nth1[of 9] by (simp add: arr_get_def)
    have nth2: "p2 ! j = p ! j" if "j < length p" "j \<notin> {10..<20}" for j
      using that p2(3)[of j] nth1[of j] l1 by auto
    have addr2: "segment p2 12 8 = segment p1 12 8"
      using p2(2,3) assms l1 by (intro segment_cong) auto
    have adr: "src_of le q = src_of le p1 \<and> dst_of le q = dst_of le p1" if "segment q 12 8 = segment p1 12 8" for q
      using arg_cong[OF that, of "take 4"] arg_cong[OF that, of "drop 4"]
      by (simp add: src_of_def dst_of_def take_segment drop_segment)
    have eq: "client_nat_transform le lst p direction =
        (case transport_check p of None \<Rightarrow> Inr p2 | Some c \<Rightarrow> adjust_at le acc p2 (int c))"
      using False r(1) p2(1,2) p9 l1
      by (auto simp: client_nat_transform_def transport_check_def OPENVPN_IPPROTO_TCP_def
        OPENVPN_IPPROTO_UDP_def IPHDR_SIZE_def TCPHDR_SIZE_def UDPHDR_SIZE_def)
    show ?thesis
    proof (cases "transport_check p")
      case None
      then have "nat_result le direction lst p p2"
        using r(3,4) l1 p2(2) nth2 sum2 adr[OF addr2] by (auto simp: nat_result_def)
      then show ?thesis using eq None by simp
    next
      case (Some c)
      have c: "c + 2 \<le> length p" "even c" "20 \<le> c" using Some by (auto simp: transport_check_def split: if_splits)
      obtain p3 where p3: "adjust_at le acc p2 (int c) = Inr p3" "length p3 = length p2"
        "\<And>j. j < length p2 \<Longrightarrow> j \<noteq> c \<Longrightarrow> j \<noteq> c + 1 \<Longrightarrow> p3 ! j = p2 ! j"
        "\<And>a n. a \<le> c \<Longrightarrow> even a \<Longrightarrow> c + 2 \<le> a + n \<Longrightarrow> a + n \<le> length p2
          \<Longrightarrow> ones_eq (csum (segment p3 a n)) (csum (segment p2 a n) + order_factor le * acc)"
        by (rule adjust_at_correct[of c p2 acc le]) (use c l1 p2(2) acc in auto)
      have low: "segment p3 a n = segment p2 a n" if "a + n \<le> 20" for a n
        using that p3(2,3) c l1 p2(2) by (intro segment_cong) auto
      have "drop 20 p2 = drop 20 p"
        using nth2 l1 p2(2) by (intro nth_equalityI) auto
      then have "csum (drop 20 p2) = csum (drop 20 p)" by simp
      moreover have "ones_eq (csum (drop 20 p3)) (csum (drop 20 p2) + order_factor le * acc)"
        using p3(4)[of 20 "length p - 20"] c p3(2) p2(2) l1 by (simp add: drop_eq_segment)
      ultimately have "ones_eq (csum (segment p3 12 8) + csum (drop 20 p3))
          (csum (segment p1 12 8) + (csum (drop 20 p) + order_factor le * acc))"
        using low[of 12 8] addr2 by (intro ones_eq_add) simp_all
      moreover have "csum (segment p1 12 8) + (csum (drop 20 p) + order_factor le * acc)
          = (csum (segment p1 12 8) + order_factor le * acc) + csum (drop 20 p)" by simp
      ultimately have "ones_eq (csum (segment p3 12 8) + csum (drop 20 p3)) (csum (segment p 12 8) + csum (drop 20 p))"
        using ones_eq_add[OF sum1 ones_eq_refl[of "csum (drop 20 p)"]] by (auto intro: ones_eq_trans)
      then have "nat_result le direction lst p p3"
        using r(3,4) l1 p2(2) p3(2,3) nth2 sum2 low[of 0 20] low[of 12 8] addr2 adr[of p3] Some
        by (auto simp: nat_result_def)
      then show ?thesis using eq Some p3(1) by simp
    qed
  qed
qed



text \<open>Source and destination exchanged, as in the reply to a packet.\<close>

definition swap_addresses :: "byte list \<Rightarrow> byte list" where
  "swap_addresses p = take 12 p @ segment p 16 4 @ segment p 12 4 @ drop 20 p"

lemma swap_addresses:
  assumes "20 \<le> length p"
  shows "length (swap_addresses p) = length p"
    "src_of le (swap_addresses p) = dst_of le p" "dst_of le (swap_addresses p) = src_of le p"
  using assms by (simp_all add: swap_addresses_def src_of_def dst_of_def segment_def)

lemma rewritten_inverse:
  assumes "a AND m = n" and "f AND NOT m = (0 :: u32)"
  shows "((a AND NOT m) OR f) AND m = f" "(((a AND NOT m) OR f) AND NOT m) OR n = a"
proof -
  have f: "\<not> (bit f i \<and> \<not> bit m i)" if "i < LENGTH(32)" for i
    using arg_cong[OF assms(2), of "\<lambda>w. bit w i"] that by (simp add: bit_simps)
  show "((a AND NOT m) OR f) AND m = f"
    by (rule bit_word_eqI) (use f in \<open>auto simp: bit_simps\<close>)
  show "(((a AND NOT m) OR f) AND NOT m) OR n = a"
    unfolding assms(1)[symmetric] by (rule bit_word_eqI) (use f in \<open>auto simp: bit_simps\<close>)
qed

text \<open>
  C18. With a source rule whose foreign network lies within its mask, the reply to a translated
  packet is translated back: it reaches the client under the address the client sent from, and comes
  from the address the client sent to.
\<close>

theorem client_nat_reply_returns:
  assumes "20 \<le> length p" and "cn_type e = CN_SNAT"
    and "src_of le p AND netmask e = network e" and "foreign_network e AND NOT (netmask e) = 0"
  shows "\<exists>p' q. client_nat_transform le [e] p CN_OUTGOING = Inr p'
    \<and> client_nat_transform le [e] (swap_addresses p') CN_INCOMING = Inr q
    \<and> src_of le q = dst_of le p \<and> dst_of le q = src_of le p"
proof -
  obtain p' where p': "client_nat_transform le [e] p CN_OUTGOING = Inr p'"
    "nat_result le CN_OUTGOING [e] p p'"
    using client_nat_transform_correct[OF assms(1)] by blast
  then have l: "20 \<le> length p'" using assms(1) by (simp add: nat_result_def)
  then have "20 \<le> length (swap_addresses p')" by (simp add: swap_addresses)
  from client_nat_transform_correct[OF this, of le "[e]" CN_INCOMING]
  obtain q where q: "client_nat_transform le [e] (swap_addresses p') CN_INCOMING = Inr q"
    "nat_result le CN_INCOMING [e] (swap_addresses p') q" by blast
  have "src_of le p' = (src_of le p AND NOT (netmask e)) OR foreign_network e" "dst_of le p' = dst_of le p"
    using p'(2) assms(2,3)
    by (simp_all add: nat_result_def CN_OUTGOING_def CN_SNAT_def rule_matches_def rule_from_def rewritten_def rule_to_def)
  then have "dst_of le q = src_of le p" "src_of le q = dst_of le p"
    using q(2) l assms(2) rewritten_inverse[OF assms(3,4)]
    by (simp_all add: nat_result_def swap_addresses CN_INCOMING_def CN_SNAT_def rule_matches_def rule_from_def
        rewritten_def rule_to_def)
  then show ?thesis using p'(1) q(1) by blast
qed

theorem client_nat_reply_returns_witness:
  "\<exists>p' q. client_nat_transform True
      [\<lparr>cn_type = CN_SNAT, network = 0x0001A8C0, netmask = 0x00FFFFFF, foreign_network = 0x0000000A\<rparr>]
      (replicate 12 0 @ [192, 168, 1, 7] @ replicate 4 8) CN_OUTGOING = Inr p'
    \<and> client_nat_transform True
      [\<lparr>cn_type = CN_SNAT, network = 0x0001A8C0, netmask = 0x00FFFFFF, foreign_network = 0x0000000A\<rparr>]
      (swap_addresses p') CN_INCOMING = Inr q
    \<and> src_of True q = dst_of True (replicate 12 0 @ [192, 168, 1, 7] @ replicate 4 8)
    \<and> dst_of True q = src_of True (replicate 12 0 @ [192, 168, 1, 7] @ replicate 4 8)"
  by (rule client_nat_reply_returns) code_simp+

end
