(* ===== verification/Dhcp_Correct.thy ===== *)
theory Dhcp_Correct
  imports Nat_Correct
begin

text \<open>
  The router option of DHCP answers: reading and deleting options stays inside the message whatever
  bytes it holds, a second pass finds no router option any more, and the UDP checksum is right afterwards.
\<close>

section \<open>Walking the options\<close>

lemma get_dhcp_message_type_from_ok:
  "0 \<le> i \<Longrightarrow> optlen \<le> int (length p) \<Longrightarrow> \<exists>r. dhcp_message_type_from p optlen i = Inr r"
proof (induction p optlen i rule: dhcp_message_type_from.induct)
  case (1 p optlen i)
  have get: "arr_get p k = Inr (p ! nat k)" if "0 \<le> k" "k < optlen" for k
    using that "1.prems" by (simp add: arr_get_def)
  show ?case
  proof (cases "i < optlen")
    case False
    then show ?thesis by (subst dhcp_message_type_from.simps) simp
  next
    case i: True
    let ?t = "p ! nat i"
    note g = get[OF "1.prems"(1) i]
    consider "?t = DHCP_END \<or> ?t = DHCP_MSG_TYPE" | "?t = DHCP_PAD"
      | (other) "?t \<noteq> DHCP_END" "?t \<noteq> DHCP_PAD" "?t \<noteq> DHCP_MSG_TYPE" by blast
    then show ?thesis
    proof cases
      case 1
      then show ?thesis
        using i "1.prems" get[of "i + 1"] get[of "i + 2"]
        by (subst dhcp_message_type_from.simps)
          (auto simp: g Let_def DHCP_END_def DHCP_MSG_TYPE_def DHCP_PAD_def)
    next
      case 2
      then show ?thesis
        using "1.IH"(1)[OF _ g refl] i "1.prems"
        by (subst dhcp_message_type_from.simps) (auto simp: g DHCP_END_def DHCP_PAD_def)
    next
      case other
      show ?thesis
      proof (cases "2 \<le> optlen - i")
        case True
        have "0 \<le> i + (uint (p ! nat (i + 1)) + 1) + 1" using "1.prems"(1) by simp
        then show ?thesis
          using "1.IH"(2)[OF _ g refl other True get[of "i + 1"]] i "1.prems" other True get[of "i + 1"]
          by (subst dhcp_message_type_from.simps) (auto simp: g Let_def)
      next
        case False
        then show ?thesis
          using "1.IH"(3)[OF _ g refl other] i "1.prems" other
          by (subst dhcp_message_type_from.simps) (auto simp: g Let_def)
      qed
    qed
  qed
qed

lemma get_dhcp_message_type_ok: "optlen \<le> int (length p) \<Longrightarrow> \<exists>r. get_dhcp_message_type p optlen = Inr r"
  by (simp add: get_dhcp_message_type_def get_dhcp_message_type_from_ok)

section \<open>Deleting the router options\<close>

text \<open>A pass is settled when it would change nothing and find no router.\<close>

definition settled :: "byte list \<Rightarrow> int \<Rightarrow> int \<Rightarrow> bool" where
  "settled p optlen i \<longleftrightarrow> (\<forall>ret. extract_from p optlen i ret = Inr (ret, p))"

lemma settledI: "(\<And>ret. extract_from p optlen i ret = Inr (ret, p)) \<Longrightarrow> settled p optlen i"
  by (simp add: settled_def)

lemma option_deleted_nth:
  "i + w \<le> n \<Longrightarrow> n \<le> length p \<Longrightarrow> j < i \<or> n \<le> j \<Longrightarrow> j < length p \<Longrightarrow> option_deleted p n i w ! j = p ! j"
  by (auto simp: option_deleted_def nth_append min_def)

text \<open>What a pass leaves: nothing below \<open>i\<close> or beyond the options changes, and the result is settled.\<close>

definition extracted :: "byte list \<Rightarrow> nat \<Rightarrow> nat \<Rightarrow> byte list \<Rightarrow> bool" where
  "extracted p n i p' \<longleftrightarrow>
     length p' = length p \<and> (\<forall>j < length p. j < i \<or> n \<le> j \<longrightarrow> p' ! j = p ! j) \<and> settled p' (int n) (int i)"

text \<open>The steps of a pass, on any options \<open>q\<close>.\<close>

lemma dhcp_option_kinds: "DHCP_PAD \<noteq> DHCP_END" "DHCP_ROUTER \<noteq> DHCP_END" "DHCP_ROUTER \<noteq> DHCP_PAD"
  by (simp_all add: DHCP_END_def DHCP_PAD_def DHCP_ROUTER_def)

lemma extract_steps:
  assumes "i < n" and "n \<le> length q"
  shows "q ! i = DHCP_END \<Longrightarrow> extract_from q (int n) (int i) r = Inr (r, q)"
    "q ! i = DHCP_PAD \<Longrightarrow> extract_from q (int n) (int i) r = extract_from q (int n) (int (i + 1)) r"
    "q ! i \<noteq> DHCP_END \<Longrightarrow> q ! i \<noteq> DHCP_PAD \<Longrightarrow> n \<le> i + 1 \<Longrightarrow> extract_from q (int n) (int i) r = Inr (r, q)"
    "q ! i = DHCP_ROUTER \<Longrightarrow> n < i + unat (q ! (i + 1)) + 2
      \<Longrightarrow> extract_from q (int n) (int i) r = Inr (r, q)"
    "q ! i \<noteq> DHCP_END \<Longrightarrow> q ! i \<noteq> DHCP_PAD \<Longrightarrow> q ! i \<noteq> DHCP_ROUTER \<Longrightarrow> i + 1 < n
      \<Longrightarrow> extract_from q (int n) (int i) r = extract_from q (int n) (int (i + unat (q ! (i + 1)) + 2)) r"
    "q ! i = DHCP_ROUTER \<Longrightarrow> i + unat (q ! (i + 1)) + 2 \<le> n
      \<Longrightarrow> \<exists>r'. extract_from q (int n) (int i) r
        = extract_from (option_deleted q n i (unat (q ! (i + 1)) + 2)) (int n) (int i) r'"
proof -
  define L where "L = unat (q ! (i + 1))"
  have u: "uint (q ! (i + 1)) = int L" "uint (q ! Suc i) = int L" by (simp_all add: L_def)
  have g: "arr_get q (int i) = Inr (q ! i)" using assms by (simp add: arr_get_nat)
  have g1: "arr_get q (int i + 1) = Inr (q ! (i + 1))" if "i + 1 < n"
    using that assms arr_get_nat[of "i + 1" q] by (simp add: add.commute)
  note ks = dhcp_option_kinds dhcp_option_kinds[symmetric]
  show "q ! i = DHCP_END \<Longrightarrow> extract_from q (int n) (int i) r = Inr (r, q)"
    using assms by (subst extract_from.simps) (simp add: g)
  show "q ! i = DHCP_PAD \<Longrightarrow> extract_from q (int n) (int i) r = extract_from q (int n) (int (i + 1)) r"
    using assms by (subst extract_from.simps) (simp add: g ks Let_def add.commute)
  show "q ! i \<noteq> DHCP_END \<Longrightarrow> q ! i \<noteq> DHCP_PAD \<Longrightarrow> n \<le> i + 1 \<Longrightarrow> extract_from q (int n) (int i) r = Inr (r, q)"
    using assms by (subst extract_from.simps) (simp add: g Let_def)
  show "q ! i = DHCP_ROUTER \<Longrightarrow> n < i + unat (q ! (i + 1)) + 2 \<Longrightarrow> extract_from q (int n) (int i) r = Inr (r, q)"
    unfolding L_def[symmetric] using assms g1
    by (subst extract_from.simps) (simp add: g Let_def ks u)
  show "q ! i \<noteq> DHCP_END \<Longrightarrow> q ! i \<noteq> DHCP_PAD \<Longrightarrow> q ! i \<noteq> DHCP_ROUTER \<Longrightarrow> i + 1 < n
      \<Longrightarrow> extract_from q (int n) (int i) r = extract_from q (int n) (int (i + unat (q ! (i + 1)) + 2)) r"
    unfolding L_def[symmetric] using assms g1
    by (subst extract_from.simps) (simp add: g Let_def u ac_simps)
  assume router: "q ! i = DHCP_ROUTER" and fits: "i + unat (q ! (i + 1)) + 2 \<le> n"
  let ?c = "r = 0 \<and> int L \<ge> 4 \<and> int L AND 3 = 0"
  have del: "delete_option q (int n) (int i) (int L + 2) = Inr (option_deleted q n i (L + 2))"
    using delete_option_eq[of i "L + 2" n q] fits assms by (simp add: L_def add.commute)
  have rd: "mem_read q (int i + 2) 4 = Inr (segment q (i + 2) 4)" if "4 \<le> L"
  proof -
    have "nat (int i + 2) = i + 2" by simp
    then show ?thesis using that fits assms by (simp add: mem_read_def L_def)
  qed
  have "extract_from q (int n) (int i) r
      = extract_from (option_deleted q n i (L + 2)) (int n) (int i) (if ?c then of_be32 (segment q (i + 2) 4) else r)"
    using router fits[folded L_def] assms g1 rd
    by (subst extract_from.simps) (simp add: g Let_def ks u L_def[symmetric] del)
  then show "\<exists>r'. extract_from q (int n) (int i) r
        = extract_from (option_deleted q n i (unat (q ! (i + 1)) + 2)) (int n) (int i) r'"
    unfolding L_def by blast
qed

lemma extract_from_ok:
  "n \<le> length p \<Longrightarrow> \<exists>ret' p'. extract_from p (int n) (int i) ret = Inr (ret', p') \<and> extracted p n i p'"
proof (induction "count_list p DHCP_ROUTER * (n + 1) + (n - i)" arbitrary: p i ret rule: less_induct)
  case less
  show ?case
  proof (cases "i < n")
    case False
    then have "extract_from q (int n) (int i) r = Inr (r, q)" for q r
      by (subst extract_from.simps) simp
    then show ?thesis by (auto simp: extracted_def settled_def)
  next
    case i: True
    note st = extract_steps[OF i]
    have stop: ?thesis if "\<And>r. extract_from p (int n) (int i) r = Inr (r, p)"
      using that by (auto simp: extracted_def settled_def)
    have skip: ?thesis
      if "i < k" "i + 1 < n \<or> k = i + 1"
        "\<And>q r. length q = length p \<Longrightarrow> (\<And>j. j < k \<Longrightarrow> j < n \<Longrightarrow> q ! j = p ! j)
          \<Longrightarrow> extract_from q (int n) (int i) r = extract_from q (int n) (int k) r" for k
    proof -
      have "count_list p DHCP_ROUTER * (n + 1) + (n - k) < count_list p DHCP_ROUTER * (n + 1) + (n - i)"
        using that(1) i by simp
      from less.hyps[OF this less.prems, of ret] obtain ret' p' where
        r: "extract_from p (int n) (int k) ret = Inr (ret', p')" "extracted p n k p'" by blast
      have "extract_from p' (int n) (int i) r = extract_from p' (int n) (int k) r" for r
        using r(2) less.prems by (intro that(3)) (auto simp: extracted_def)
      then have "extracted p n i p'" using r(2) that(1) by (auto simp: extracted_def settled_def)
      then show ?thesis using r(1) that(3)[of p ret] by auto
    qed
    consider "p ! i = DHCP_END" | "p ! i = DHCP_PAD"
      | (last) "p ! i \<noteq> DHCP_END" "p ! i \<noteq> DHCP_PAD" "n \<le> i + 1"
      | (router) "p ! i = DHCP_ROUTER" "i + 1 < n"
      | (other) "p ! i \<noteq> DHCP_END" "p ! i \<noteq> DHCP_PAD" "p ! i \<noteq> DHCP_ROUTER" "i + 1 < n"
      by linarith
    then show ?thesis
    proof cases
      case 1
      then show ?thesis using st(1)[of p] less.prems by (intro stop) simp
    next
      case 2
      then show ?thesis using st(2) i less.prems by (intro skip[of "i + 1"]) auto
    next
      case last
      then show ?thesis using st(3)[of p] less.prems by (intro stop) simp
    next
      case other
      then show ?thesis
        using st(5) less.prems by (intro skip[of "i + unat (p ! (i + 1)) + 2"]) auto
    next
      case router
      let ?w = "unat (p ! (i + 1)) + 2"
      show ?thesis
      proof (cases "i + ?w \<le> n")
        case False
        then show ?thesis using st(4)[of p] router less.prems by (intro stop) simp
      next
        case True
        let ?q = "option_deleted p n i ?w"
        obtain r' where r': "extract_from p (int n) (int i) ret = extract_from ?q (int n) (int i) r'"
          using st(6)[of p ret] router True less.prems by (auto simp: add.assoc)
        have "count_list ?q DHCP_ROUTER < count_list p DHCP_ROUTER"
          using router True less.prems by (intro count_option_deleted) auto
        then have "(count_list ?q DHCP_ROUTER + 1) * (n + 1) \<le> count_list p DHCP_ROUTER * (n + 1)"
          by (intro mult_le_mono1) simp
        then have "count_list ?q DHCP_ROUTER * (n + 1) + (n - i) < count_list p DHCP_ROUTER * (n + 1) + (n - i)"
          by simp
        moreover have "n \<le> length ?q" using True less.prems by simp
        ultimately obtain ret' p' where
          r: "extract_from ?q (int n) (int i) r' = Inr (ret', p')" "extracted ?q n i p'"
          using less.hyps by blast
        have "extracted p n i p'"
          using r(2) True less.prems by (auto simp: extracted_def option_deleted_nth)
        then show ?thesis using r(1) r' by auto
      qed
    qed
  qed
qed

lemma do_extract_ok:
  obtains ret p' where "do_extract p (int (length p)) = Inr (ret, p')" "length p' = length p"
    "do_extract p' (int (length p)) = Inr (0, p')"
  using extract_from_ok[of "length p" p 0 0]
  by (auto simp: do_extract_def extracted_def settled_def)

section \<open>The message\<close>

text \<open>The packets the code changes: DHCP acknowledgments and offers from a server.\<close>

definition dhcp_answer :: "byte list \<Rightarrow> bool" where
  "dhcp_answer p \<longleftrightarrow>
     268 \<le> length p \<and> p ! 9 = 17 \<and> of_be16 (segment p 20 2) = 67 \<and> of_be16 (segment p 22 2) = 68 \<and> p ! 28 = 2
     \<and> get_dhcp_message_type (drop 268 p) (int (length p) - 268) \<in> {Inr 5, Inr 2}"

text \<open>The sum a receiver of the UDP segment tests: segment, addresses, length and protocol.\<close>

definition udp_sum :: "byte list \<Rightarrow> int" where
  "udp_sum p = csum (drop 20 p) + csum (segment p 12 4) + csum (segment p 16 4) + int (length p - 20) + 17"

definition dhcp_cleaned :: "byte list \<Rightarrow> byte list \<Rightarrow> bool" where
  "dhcp_cleaned p p' \<longleftrightarrow>
     length p' = length p \<and> (\<forall>i < 268. i \<notin> {26, 27} \<longrightarrow> p' ! i = p ! i)
     \<and> do_extract (drop 268 p') (int (length p) - 268) = Inr (0, drop 268 p')
     \<and> ones_eq (udp_sum p') 0"

text \<open>The checksum is written where it was zeroed.\<close>

lemma udp_check_written:
  assumes "268 \<le> length p" and "length p \<le> 65535" and "p ! 26 = 0" and "p ! 27 = 0"
  obtains c where
    "ip_checksum AF_INET (segment p 20 (length p - 20)) (segment p 12 4) (segment p 16 4) 17 = Inr c"
    "ones_eq (udp_sum (overwrite p 26 (be16 c))) 0"
proof -
  have "\<exists>c. ip_checksum AF_INET (segment p 20 (length p - 20)) (segment p 12 4) (segment p 16 4) 17 = Inr c
    \<and> ones_eq (csum (segment p 20 (length p - 20)) + csum (segment p 12 4) + csum (segment p 16 4)
        + int (length (segment p 20 (length p - 20))) + 17 + uint c) 0"
    using assms(1,2) by (intro ip_checksum_correct) auto
  then obtain c where c: "ip_checksum AF_INET (segment p 20 (length p - 20)) (segment p 12 4) (segment p 16 4) 17 = Inr c"
    "ones_eq (csum (segment p 20 (length p - 20)) + csum (segment p 12 4) + csum (segment p 16 4)
        + int (length p - 20) + 17 + uint c) 0"
    using assms(1) by auto
  let ?q = "overwrite p 26 (be16 c)"
  have "segment ?q 20 (length p - 20) = overwrite (segment p 20 (length p - 20)) 6 (be16 c)"
    using assms(1) by (subst segment_overwrite_inside) simp_all
  moreover have "segment (segment p 20 (length p - 20)) 6 2 = [0, 0]"
    using assms by (subst segment_pair) (simp_all add: nth_segment)
  ultimately have "csum (drop 20 ?q) = csum (segment p 20 (length p - 20)) + uint c"
    using assms(1) by (simp add: drop_eq_segment csum_overwrite csum_be16)
  moreover have "segment ?q 12 4 = segment p 12 4" "segment ?q 16 4 = segment p 16 4"
    using assms(1) by (intro segment_overwrite_before; simp)+
  ultimately have "ones_eq (udp_sum ?q) 0"
    using c(2) assms(1) by (simp add: udp_sum_def algebra_simps)
  then show thesis using that c(1) by blast
qed

lemma dhcp_extract_other:
  assumes "\<not> dhcp_answer p"
  shows "dhcp_extract_router_msg p = Inr (0, p)"
proof (cases "268 \<le> length p")
  case True
  obtain t where t: "get_dhcp_message_type (drop 268 p) (int (length p) - 268) = Inr t"
    using get_dhcp_message_type_ok[of "int (length p) - 268" "drop 268 p"] True by auto
  have "arr_get p 9 = Inr (p ! 9)" "arr_get p 28 = Inr (p ! 28)"
    "be_field p 20 = Inr (of_be16 (segment p 20 2))" "be_field p 22 = Inr (of_be16 (segment p 22 2))"
    using True be_field_ok[of 20 p] be_field_ok[of 22 p] by (auto simp: arr_get_def)
  then show ?thesis using assms True t
    by (auto simp: dhcp_extract_router_msg_def dhcp_answer_def IPHDR_SIZE_def UDPHDR_SIZE_def DHCP_SIZE_def
      OPENVPN_IPPROTO_UDP_def BOOTPS_PORT_def BOOTPC_PORT_def BOOTREPLY_def DHCPACK_def DHCPOFFER_def Let_def)
qed (simp add: dhcp_extract_router_msg_def IPHDR_SIZE_def UDPHDR_SIZE_def DHCP_SIZE_def)

lemma dhcp_extract_answer:
  assumes "dhcp_answer p" and "length p \<le> 65535"
  shows "\<exists>r p'. dhcp_extract_router_msg p = Inr (r, p') \<and> dhcp_cleaned p p'"
proof -
  have len: "268 \<le> length p" using assms(1) by (simp add: dhcp_answer_def)
  obtain t where t: "get_dhcp_message_type (drop 268 p) (int (length p) - 268) = Inr t" "t = 5 \<or> t = 2"
    using assms(1) by (auto simp: dhcp_answer_def)
  have rd: "arr_get p 9 = Inr 17" "arr_get p 28 = Inr 2" "be_field p 20 = Inr 67" "be_field p 22 = Inr 68"
    using assms(1) len be_field_ok[of 20 p] be_field_ok[of 22 p] by (auto simp: arr_get_def dhcp_answer_def)
  obtain r q where q: "do_extract (drop 268 p) (int (length p) - 268) = Inr (r, q)" "length q = length p - 268"
    "do_extract q (int (length p) - 268) = Inr (0, q)"
    using do_extract_ok[of "drop 268 p"] len by (auto simp: of_nat_diff)
  let ?p1 = "take 268 p @ q"
  define p2 where "p2 = overwrite ?p1 26 [0, 0]"
  have l: "length ?p1 = length p" "length p2 = length p" using q(2) len by (simp_all add: p2_def)
  have z: "p2 ! 26 = 0" "p2 ! 27 = 0" using l len by (simp_all add: nth_overwrite p2_def)
  obtain c where c: "ip_checksum AF_INET (segment p2 20 (length p2 - 20)) (segment p2 12 4) (segment p2 16 4) 17 = Inr c"
    "ones_eq (udp_sum (overwrite p2 26 (be16 c))) 0"
    by (rule udp_check_written[of p2]) (use l len z assms(2) in auto)
  let ?p3 = "overwrite p2 26 (be16 c)"
  have l3: "length ?p3 = length p" using l len by simp
  have w1: "mem_write ?p1 26 [0, 0] = Inr p2" using l(1) len by (simp add: mem_write_def p2_def)
  have w2: "mem_write p2 26 (be16 c) = Inr ?p3" using l(2) len by (simp add: mem_write_def be16_def)
  have n: "nat (UDPHDR_SIZE + DHCP_SIZE + (int (length p) - 268)) = length p2 - 20"
    "UDPHDR_SIZE + DHCP_SIZE + (int (length p) - 268) \<le> int (length p) - 20"
    "\<not> UDPHDR_SIZE + DHCP_SIZE + (int (length p) - 268) \<le> 0"
    using l(2) len by (simp_all add: UDPHDR_SIZE_def DHCP_SIZE_def nat_diff_distrib')
  have m: "mem_read p2 20 (UDPHDR_SIZE + DHCP_SIZE + (int (length p) - 268)) = Inr (segment p2 20 (length p2 - 20))"
    "mem_read p2 12 4 = Inr (segment p2 12 4)" "mem_read p2 16 4 = Inr (segment p2 16 4)"
    using n l(2) len by (simp_all only: mem_read_def) simp_all
  have opt: "int (length p) - (IPHDR_SIZE + UDPHDR_SIZE + DHCP_SIZE) = int (length p) - 268"
    by (simp add: IPHDR_SIZE_def UDPHDR_SIZE_def DHCP_SIZE_def)
  have "dhcp_extract_router_msg p = Inr (if t = DHCPACK then r else 0, ?p3)"
    unfolding dhcp_extract_router_msg_def opt Let_def
    using len t
    by (auto simp: rd OPENVPN_IPPROTO_UDP_def BOOTPS_PORT_def BOOTPC_PORT_def BOOTREPLY_def DHCPACK_def DHCPOFFER_def
      q(1) w1 m c(1) w2)
  moreover have "drop 268 ?p3 = q"
    using l len q(2) by (simp add: overwrite_def p2_def)
  moreover have "?p3 ! i = p ! i" if "i < 268" "i \<notin> {26, 27}" for i
    using that l len by (auto simp: nth_overwrite nth_append p2_def)
  ultimately show ?thesis using l3 q(3) c(2) unfolding dhcp_cleaned_def by auto
qed



end
