(* ===== verification/Ip_Correct.thy ===== *)
theory Ip_Correct
  imports Dhcp_Correct
begin

text \<open>
  The driver for IP packets: it completes on every packet, with one exception the translation of
  addresses has; the refusal it sends for an IPv6 packet is well formed; and without one of three
  unrelated options it does nothing at all.
\<close>

section \<open>Changing a packet in its buffer\<close>

text \<open>What a buffer keeps when its packet is changed in place.\<close>

definition same_window :: "buffer \<Rightarrow> buffer \<Rightarrow> bool" where
  "same_window b b' \<longleftrightarrow>
     buf_wf b' \<and> b_offset b' = b_offset b \<and> b_len b' = b_len b \<and> b_capacity b' = b_capacity b
     \<and> (\<forall>d d'. b_data b = Some d \<longrightarrow> b_data b' = Some d' \<longrightarrow>
          take (nat (b_offset b)) d' = take (nat (b_offset b)) d
          \<and> drop (nat (b_offset b + b_len b)) d' = drop (nat (b_offset b + b_len b)) d)"

lemma same_window_refl: "buf_wf b \<Longrightarrow> same_window b b"
  by (simp add: same_window_def)

lemma same_window_trans: "buf_wf b \<Longrightarrow> same_window b b1 \<Longrightarrow> same_window b1 b2 \<Longrightarrow> same_window b b2"
  by (fastforce simp: same_window_def elim!: buf_wfE)

lemma poke_content:
  assumes "buf_wf b" and "length q = length (buf_content b)"
  obtains b' where "buf_poke b (b_offset b) q = Inr b'" "same_window b b'" "buf_content b' = q"
proof -
  obtain d where d: "b_data b = Some d" "int (length d) = b_capacity b" "b_capacity b < 2097152"
    "0 \<le> b_offset b" "0 \<le> b_len b" "b_offset b + b_len b \<le> b_capacity b" using assms(1) by (rule buf_wfE)
  have n: "length q = nat (b_len b)" using assms by (simp add: length_buf_content_nat)
  let ?d = "overwrite d (nat (b_offset b)) q"
  let ?b = "b\<lparr>b_data := Some ?d\<rparr>"
  have fit: "nat (b_offset b) + length q \<le> length d" using d n by linarith
  have "buf_poke b (b_offset b) q = Inr ?b"
    using d n by (auto simp: buf_poke_def mem_write_def)
  moreover have "buf_wf ?b" using assms(1) d fit by (simp add: buf_wf_def)
  moreover have "nat (b_offset b + b_len b) = nat (b_offset b) + length q" using d n by (simp add: nat_add_distrib)
  then have "same_window b ?b"
    using \<open>buf_wf ?b\<close> d(1) fit by (simp add: same_window_def overwrite_def)
  moreover have "buf_content ?b = q"
    using segment_overwrite_same[OF fit] n by (simp add: buf_content_def)
  ultimately show thesis by (intro that)
qed

lemma upd_content_ok:
  assumes "buf_wf b" and "f (buf_content b) = Inr q" and "length q = length (buf_content b)"
  obtains b' where "upd_content b f = Inr b'" "same_window b b'" "buf_content b' = q"
  using poke_content[OF assms(1,3)] assms(2) by (auto simp: upd_content_def)

section \<open>Recognising packets\<close>

text \<open>A tagged frame too short for its tag and an IP header: the test of its length lets it pass.\<close>

definition short_vlan_frame :: "int \<Rightarrow> buffer \<Rightarrow> bool" where
  "short_vlan_frame t b \<longleftrightarrow>
     t = DEV_TYPE_TAP \<and> of_be16 (segment (buf_content b) 12 2) = OPENVPN_ETH_P_8021Q \<and> b_len b < 38"

lemma is_ipv_X_ok:
  assumes "buf_wf b"
  obtains "is_ipv_X t b v = Inr (False, b)"
  | n where "is_ipv_X t b v = Inr (True, buf_drop b n)" "0 \<le> n" "n + 16 \<le> b_len b"
      "short_vlan_frame t b \<or> n + 20 \<le> b_len b"
proof -
  let ?p = "buf_content b"
  have len: "int (length ?p) = b_len b" using assms by simp
  have rd: "arr_get ?p i = Inr (?p ! nat i)" if "0 \<le> i" "i < b_len b" for i
    using that len by (simp add: arr_get_def)
  have be: "be_field ?p (int i) = Inr (of_be16 (segment ?p i 2))" if "int i + 2 \<le> b_len b" for i
    using that len by (intro be_field_ok) simp
  have adv: "buf_advance b n = (True, buf_drop b n)" if "0 \<le> n" "n \<le> b_len b" for n
    using that assms by (rule buf_advance_drop[rotated])
  consider "t = DEV_TYPE_TUN" "b_len b < 20" | "t = DEV_TYPE_TUN" "20 \<le> b_len b"
    | "t = DEV_TYPE_TAP" "b_len b < 34" | "t = DEV_TYPE_TAP" "34 \<le> b_len b"
    | "t \<noteq> DEV_TYPE_TUN" "t \<noteq> DEV_TYPE_TAP" by linarith
  then show thesis
  proof cases
    case 2
    have "is_ipv_X t b v = Inr (False, b) \<or> is_ipv_X t b v = Inr (True, buf_drop b 0)"
      using 2 assms rd[of 0] adv[of 0] by (simp add: Let_def is_ipv_X_def IPHDR_SIZE_def)
    then show thesis using that(1) that(2)[of 0] 2 by auto
  next
    case 4
    let ?proto = "of_be16 (segment ?p 12 2)"
    let ?n = "if ?proto = OPENVPN_ETH_P_8021Q then 18 else 14 :: int"
    have "is_ipv_X t b v = Inr (False, b) \<or> is_ipv_X t b v = Inr (True, buf_drop b ?n)"
      using 4 assms rd[of 14] rd[of 18] adv[of 14] adv[of 18] be[of 12] be[of 16]
      by (simp add: Let_def is_ipv_X_def IPHDR_SIZE_def ETHHDR_SIZE_def HDR8021Q_SIZE_def DEV_TYPE_TUN_def DEV_TYPE_TAP_def)
    moreover have "short_vlan_frame t b \<or> ?n + 20 \<le> b_len b" using 4 by (auto simp: short_vlan_frame_def)
    ultimately show thesis using that(1) that(2)[of ?n] 4 by auto
  qed (use that(1) assms in \<open>auto simp: Let_def is_ipv_X_def IPHDR_SIZE_def ETHHDR_SIZE_def DEV_TYPE_TUN_def DEV_TYPE_TAP_def\<close>)
qed

section \<open>The steps on an IPv4 packet\<close>

lemma mss_fixup_ipv4_total: "\<exists>q. mss_fixup_ipv4 le p m = Inr q \<and> length q = length p"
proof (cases "ipv4_syn p")
  case True
  then have "nat (OPENVPN_IPH_GET_LEN (p ! 0)) \<le> length p" unfolding ipv4_syn_def by linarith
  from mss_fixup_at[OF this, of le "word_of_int m"] show ?thesis
    using True by (auto simp: mss_fixup_ipv4_eq)
qed (simp add: mss_fixup_ipv4_eq)

lemma mss_fixup_ipv6_total: "\<exists>q. mss_fixup_ipv6 le p m = Inr q \<and> length q = length p"
proof (cases "ipv6_syn p")
  case True
  then have "40 \<le> length p" by (simp add: ipv6_syn_def)
  from mss_fixup_at[OF this, of le "word_of_int m - 20"] show ?thesis
    using True by (auto simp: mss_fixup_ipv6_eq)
qed (simp add: mss_fixup_ipv6_eq)

lemma dhcp_extract_total:
  "length p \<le> 65535 \<Longrightarrow> \<exists>r q. dhcp_extract_router_msg p = Inr (r, q) \<and> length q = length p"
  using dhcp_extract_answer[of p] dhcp_extract_other[of p]
  by (cases "dhcp_answer p") (auto simp: dhcp_cleaned_def)

lemma client_nat_transform_total:
  "20 \<le> length p \<Longrightarrow> \<exists>q. client_nat_transform le lst p dir = Inr q \<and> length q = length p"
  using client_nat_transform_correct[of p le lst dir] by (auto simp: nat_result_def)

lemma process_ipv4_ok:
  assumes "buf_wf b" and "2 \<le> b_len b" and "b_len b \<le> 65535"
    and nat: "opt_client_nat c = None \<or> flags AND PIPV4_CLIENT_NAT = 0 \<or> 20 \<le> b_len b"
  shows "\<exists>c' b'. process_ipv4 le c flags b = Inr (c', b') \<and> same_window b b'"
proof -
  let ?c = "if flags AND PIPV4_PASSTOS \<noteq> 0 then c\<lparr>ptos := Some (buf_content b ! 1)\<rparr> else c"
  have len: "int (length (buf_content b)) = b_len b" using assms(1) by simp
  have c: "(if flags AND PIPV4_PASSTOS \<noteq> 0 then bindE (arr_get (buf_content b) 1) (\<lambda>tos. Inr (c\<lparr>ptos := Some tos\<rparr>))
      else Inr c) = Inr ?c"
    using assms(2) len by (simp add: arr_get_def)
  have fr: "c_frame ?c = c_frame c" "opt_client_nat ?c = opt_client_nat c" by simp_all
  obtain b1 where b1: "(if flags AND PIP_MSSFIX \<noteq> 0
      then upd_content b (\<lambda>p. mss_fixup_ipv4 le p (MTU_TO_MSS (TUN_MTU_SIZE_DYNAMIC (c_frame c)))) else Inr b) = Inr b1"
    "same_window b b1"
  proof (cases "flags AND PIP_MSSFIX \<noteq> 0")
    case True
    obtain q where q: "mss_fixup_ipv4 le (buf_content b) (MTU_TO_MSS (TUN_MTU_SIZE_DYNAMIC (c_frame c))) = Inr q"
      "length q = length (buf_content b)" using mss_fixup_ipv4_total by blast
    show thesis
      by (rule upd_content_ok[where f = "\<lambda>p. mss_fixup_ipv4 le p (MTU_TO_MSS (TUN_MTU_SIZE_DYNAMIC (c_frame c)))",
            OF assms(1) q]) (use that True in simp)
  qed (use that assms(1) same_window_refl in auto)
  then have wf1: "buf_wf b1" and len1: "int (length (buf_content b1)) = b_len b" by (auto simp: same_window_def)
  let ?dir = "if flags AND PIP_OUTGOING \<noteq> 0 then CN_INCOMING else CN_OUTGOING"
  obtain b2 where b2: "(case opt_client_nat c of
        Some lst \<Rightarrow> if flags AND PIPV4_CLIENT_NAT \<noteq> 0
          then upd_content b1 (\<lambda>p. client_nat_transform le lst p ?dir) else Inr b1
      | None \<Rightarrow> Inr b1) = Inr b2" "same_window b1 b2"
  proof (cases "opt_client_nat c = None \<or> flags AND PIPV4_CLIENT_NAT = 0")
    case False
    then obtain lst where lst: "opt_client_nat c = Some lst" by auto
    have "20 \<le> length (buf_content b1)" using nat False len1 by auto
    then obtain q where q: "client_nat_transform le lst (buf_content b1) ?dir = Inr q"
      "length q = length (buf_content b1)" using client_nat_transform_total by blast
    show thesis
      by (rule upd_content_ok[where f = "\<lambda>p. client_nat_transform le lst p ?dir", OF wf1 q])
        (use that lst False in simp)
  qed (use that[of b1] same_window_refl[OF wf1] in \<open>cases "opt_client_nat c"; auto\<close>)
  then have wf2: "buf_wf b2" and "b_len b2 = b_len b1" by (simp_all add: same_window_def)
  moreover have "b_len b1 = b_len b" using b1(2) by (simp add: same_window_def)
  ultimately have len2: "length (buf_content b2) \<le> 65535"
    using assms(3) length_buf_content_nat[of b2] by simp
  have w2: "same_window b b2" by (rule same_window_trans[OF assms(1) b1(2) b2(2)])
  obtain r q where q: "dhcp_extract_router_msg (buf_content b2) = Inr (r, q)" "length q = length (buf_content b2)"
    using dhcp_extract_total[OF len2] by blast
  obtain b3 where b3: "buf_poke b2 (b_offset b2) q = Inr b3" "same_window b2 b3"
    using poke_content[OF wf2 q(2)] by blast
  show ?thesis
    unfolding process_ipv4_def c bindE_Inr fr b1(1) b2(1)
    using w2 q(1) b3 same_window_trans[OF assms(1) w2] by auto
qed

section \<open>The refusal of an IPv6 packet\<close>

definition icmp_room :: "ip_context \<Rightarrow> bool" where
  "icmp_room c \<longleftrightarrow>
     buf_wf (aux_buf c) \<and> 48 \<le> TUN_MTU_SIZE (c_frame c)
     \<and> 62 + min 1280 (TUN_MTU_SIZE (c_frame c) - 48) \<le> b_capacity (aux_buf c)
     \<and> (\<forall>a. ifconfig_ipv6_remote c = Some a \<longrightarrow> length a = 16)"

definition icmp_saddr :: "ip_context \<Rightarrow> byte list" where
  "icmp_saddr c =
     (case ifconfig_ipv6_remote c of Some a \<Rightarrow> a | None \<Rightarrow> 0xfe # 0x80 # replicate 13 0 @ [7])"

lemma icmp_saddr_length: "icmp_room c \<Longrightarrow> length (icmp_saddr c) = 16"
  by (simp add: icmp_room_def icmp_saddr_def split: option.splits)

text \<open>
  The refusal of packet \<open>pkt\<close>: the first bytes of the packet behind an ICMPv6 header with the right checksum,
  behind an IPv6 header to its sender, in the Ethernet header \<open>eth\<close>.
\<close>

definition icmp_refusal :: "ip_context \<Rightarrow> byte list \<Rightarrow> byte list \<Rightarrow> byte list \<Rightarrow> bool" where
  "icmp_refusal c eth pkt out \<longleftrightarrow>
     (let n = min (min 1280 (TUN_MTU_SIZE (c_frame c) - 48)) (int (length pkt)) in
      \<exists>ck. let icmp = [1, 0] @ be16 ck @ [0, 0, 0, 0] @ take (nat n) pkt in
        out = eth @ ipv6_header_out (take 40 pkt) (icmp_saddr c) n @ icmp
        \<and> ones_eq (csum icmp + csum (icmp_saddr c) + csum (segment pkt 8 16) + int (length icmp) + 58) 0)"

lemma icmp_checksummed:
  assumes "length src = 16" and "length dst = 16" and "length body < 65000"
  obtains ck where "ip_checksum AF_INET6 ([1, 0, 0, 0, 0, 0, 0, 0] @ body) src dst 58 = Inr ck"
    "ones_eq (csum ([1, 0] @ be16 ck @ [0, 0, 0, 0] @ body) + csum src + csum dst
      + int (length ([1, 0] @ be16 ck @ [0, 0, 0, 0] @ body)) + 58) 0"
proof -
  have "\<exists>ck. ip_checksum AF_INET6 ([1, 0, 0, 0, 0, 0, 0, 0] @ body) src dst 58 = Inr ck
    \<and> ones_eq (csum ([1, 0, 0, 0, 0, 0, 0, 0] @ body) + csum src + csum dst
        + int (length ([1, 0, 0, 0, 0, 0, 0, 0] @ body)) + 58 + uint ck) 0"
    using assms by (intro ip_checksum_correct) auto
  then obtain ck where "ip_checksum AF_INET6 ([1, 0, 0, 0, 0, 0, 0, 0] @ body) src dst 58 = Inr ck"
    "ones_eq (csum ([1, 0, 0, 0, 0, 0, 0, 0] @ body) + csum src + csum dst
        + int (length ([1, 0, 0, 0, 0, 0, 0, 0] @ body)) + 58 + uint ck) 0" by blast
  moreover have "csum ([1, 0] @ be16 ck @ [0, 0, 0, 0] @ body) = csum ([1, 0, 0, 0, 0, 0, 0, 0] @ body) + uint ck"
    using csum_append[of "be16 ck" "[0, 0, 0, 0] @ body"] by (simp add: csum_be16)
  ultimately show thesis using that by (simp add: algebra_simps)
qed

lemma ipv6_header_out_length: "40 \<le> length h \<Longrightarrow> length s = 16 \<Longrightarrow> length (ipv6_header_out h s n) = 40"
  by (simp add: ipv6_header_out_def)

lemma ipv6_send_icmp_unreachable_ok:
  assumes "buf_wf buf" and "icmp_room c" and v6: "is_ipv6 (tunnel_type c) buf = Inr (ok, ip)" and "buf_wf ip"
    and "40 \<le> b_len ip" and "tunnel_type c = DEV_TYPE_TAP \<Longrightarrow> 14 \<le> b_len buf"
    and eth: "eth = (if tunnel_type c = DEV_TYPE_TAP
      then segment (buf_content buf) 6 6 @ segment (buf_content buf) 0 6 @ be16 OPENVPN_ETH_P_IPV6 else [])"
  shows "\<exists>out. ipv6_send_icmp_unreachable c buf client = Inr (if client then c\<lparr>to_tun := out\<rparr> else c\<lparr>to_link := out\<rparr>)
    \<and> buf_wf out \<and> icmp_refusal c eth (buf_content ip) (buf_content out)"
proof -
  let ?pkt = "buf_content ip"
  define n where "n = min (min 1280 (TUN_MTU_SIZE (c_frame c) - 48)) (b_len ip)"
  let ?h = "if tunnel_type c = DEV_TYPE_TAP then 62 else 48 :: int"
  let ?s = "icmp_saddr c"
  let ?d = "segment (take 40 ?pkt) 8 16"
  let ?body = "take (nat n) ?pkt"
  have len: "int (length ?pkt) = b_len ip" using assms(4) by simp
  have aux: "buf_wf (aux_buf c)" "62 + min 1280 (TUN_MTU_SIZE (c_frame c) - 48) \<le> b_capacity (aux_buf c)"
    "48 \<le> TUN_MTU_SIZE (c_frame c)" using assms(2) by (auto simp: icmp_room_def)
  have n: "0 \<le> n" "n \<le> 1280" "n \<le> b_len ip" "?h + n \<le> b_capacity (aux_buf c)"
    using aux assms(5) by (auto simp: n_def)
  have blen: "length ?body = nat n" using n(1,3) len by simp
  have s: "length ?s = 16" by (rule icmp_saddr_length[OF assms(2)])
  let ?o0 = "aux_buf c\<lparr>b_len := 0, b_offset := ?h\<rparr>"
  have o0: "buf_init_dowork (aux_buf c) ?h = (True, ?o0)" "buf_wf ?o0"
    using n aux(1) by (auto intro: buf_init_dowork_ok buf_init_wf)
  have room: "n \<le> buf_room ?o0" using n by simp
  let ?o1 = "buf_append ?o0 ?body"
  have "buf_copy_n ?o0 ip n = Inr (True, ?o1, buf_drop ip n)"
    by (rule buf_copy_n_moves[OF o0(2) assms(4)]) (use n room in auto)
  moreover have o1: "buf_wf ?o1" "buf_content ?o1 = ?body" "b_offset ?o1 = ?h"
  proof -
    have fit: "int (length ?body) \<le> buf_room ?o0" using blen n(1) room by simp
    show "buf_wf ?o1" by (rule buf_append_wf[OF o0(2) fit])
    have "buf_content ?o0 = []" using length_buf_content[OF o0(2)] by simp
    then show "buf_content ?o1 = ?body" using buf_append_content[OF o0(2) fit] by simp
    show "b_offset ?o1 = ?h" by simp
  qed
  let ?i0 = "[1, 0, 0, 0, 0, 0, 0, 0] :: byte list"
  let ?o2 = "buf_push_front ?o1 ?i0"
  have o2: "buf_write_prepend ?o1 ?i0 = Inr (True, ?o2)" "buf_wf ?o2" "buf_content ?o2 = ?i0 @ ?body"
    "b_offset ?o2 = ?h - 8"
    using o1 by (auto simp: buf_write_prepend_push buf_push_front_wf buf_push_front_content)
  obtain ck where ck: "ip_checksum AF_INET6 (?i0 @ ?body) ?s ?d 58 = Inr ck"
    "ones_eq (csum ([1, 0] @ be16 ck @ [0, 0, 0, 0] @ ?body) + csum ?s + csum ?d
      + int (length ([1, 0] @ be16 ck @ [0, 0, 0, 0] @ ?body)) + 58) 0"
  proof (rule icmp_checksummed[OF s])
    show "length ?d = 16" using len assms(5) by (intro length_segment) simp
    show "length ?body < 65000" unfolding blen using n(2) by simp
  qed
  let ?icmp = "[1, 0] @ be16 ck @ [0, 0, 0, 0] @ ?body"
  obtain o3 where o3: "buf_poke ?o2 (b_offset ?o2 + 2) (be16 ck) = Inr o3" "buf_wf o3"
    "buf_content o3 = ?icmp" "b_offset o3 = ?h - 8"
  proof -
    have "2 + int (length (be16 ck)) \<le> b_len ?o2"
      using length_buf_content[OF o2(2)] unfolding o2(3) by simp
    from buf_poke_at[OF o2(2) _ this] show thesis using that o2(3,4) by auto
  qed
  let ?hd = "ipv6_header_out (take 40 ?pkt) ?s n"
  have hd: "length ?hd = 40" using len assms(5) s by (intro ipv6_header_out_length) simp_all
  let ?o4 = "buf_push_front o3 ?hd"
  have o4: "buf_write_prepend o3 ?hd = Inr (True, ?o4)" "buf_wf ?o4" "buf_content ?o4 = ?hd @ ?icmp"
    "b_offset ?o4 = ?h - 48"
    using o3 hd by (auto simp: buf_write_prepend_push buf_push_front_wf buf_push_front_content)
  obtain o5 where o5: "(if tunnel_type c = DEV_TYPE_TAP
      then if buf_len buf < ETHHDR_SIZE then Inr ?o4
        else bindE (mem_read (buf_content buf) 0 ETHHDR_SIZE) (\<lambda>eth.
          bindE (buf_write_prepend ?o4 (segment eth 6 6 @ segment eth 0 6 @ be16 OPENVPN_ETH_P_IPV6)) (\<lambda>(ok, outbuf).
          bindE (assertE ok) (\<lambda>_. Inr outbuf)))
      else Inr ?o4) = Inr o5" "buf_wf o5" "buf_content o5 = eth @ ?hd @ ?icmp"
  proof (cases "tunnel_type c = DEV_TYPE_TAP")
    case True
    then have l: "14 \<le> b_len buf" by (rule assms(6))
    let ?e = "segment (buf_content buf) 6 6 @ segment (buf_content buf) 0 6 @ be16 OPENVPN_ETH_P_IPV6"
    have blen: "int (length (buf_content buf)) = b_len buf" using assms(1) by simp
    have rd: "mem_read (buf_content buf) 0 14 = Inr (take 14 (buf_content buf))"
      using l blen by (simp add: mem_read_def segment_def)
    have parts: "segment (take 14 p) 6 6 = segment p 6 6" "segment (take 14 p) 0 6 = segment p 0 6" for p :: "byte list"
      by (simp_all add: segment_def drop_take)
    have "int (length ?e) \<le> b_offset ?o4" using True o4(4) l blen by simp
    then have "buf_write_prepend ?o4 ?e = Inr (True, buf_push_front ?o4 ?e)" "buf_wf (buf_push_front ?o4 ?e)"
      "buf_content (buf_push_front ?o4 ?e) = ?e @ ?hd @ ?icmp"
      using o4(2,3) by (simp_all add: buf_write_prepend_push buf_push_front_wf buf_push_front_content)
    then show thesis
      using that True l assms(1) eth by (simp add: rd parts ETHHDR_SIZE_def)
  next
    case False
    then show thesis using that[of ?o4] o4 eth by simp
  qed
  have red: "(if tunnel_type c = DEV_TYPE_TAP then IPV6HDR_SIZE + ICMP6HDR_SIZE + ETHHDR_SIZE
      else IPV6HDR_SIZE + ICMP6HDR_SIZE) = ?h"
    "min_int (min_int MAX_ICMPV6LEN (TUN_MTU_SIZE (c_frame c) - (IPV6HDR_SIZE + ICMP6HDR_SIZE))) (buf_len ip) = n"
    "mem_read ?pkt 0 IPV6HDR_SIZE = Inr (take 40 ?pkt)" "(buf_len ip < IPV6HDR_SIZE) = False"
    "uint OPENVPN_IPPROTO_ICMPV6 = 58"
    using assms(4,5) len
    by (auto simp: IPV6HDR_SIZE_def ICMP6HDR_SIZE_def ETHHDR_SIZE_def MAX_ICMPV6LEN_def min_int_def n_def
      mem_read_def segment_def OPENVPN_IPPROTO_ICMPV6_def)
  have "buf_safe ?o0 n" using o0(2) n(1) room by (rule buf_safe_room)
  then have "ipv6_send_icmp_unreachable c buf client = Inr (if client then c\<lparr>to_tun := o5\<rparr> else c\<lparr>to_link := o5\<rparr>)"
    unfolding ipv6_send_icmp_unreachable_def v6 bindE_Inr split Let_def red icmp_saddr_def[symmetric] if_False
    using \<open>buf_copy_n ?o0 ip n = Inr (True, ?o1, buf_drop ip n)\<close>
    by (simp only: o0(1) split assertE_simps bindE_Inr o2(1,3) ck(1) o3(1) o4(1) o5(1) Let_def)
  moreover have "icmp_refusal c eth ?pkt (buf_content o5)"
  proof -
    have "?d = segment ?pkt 8 16" by (simp add: segment_def drop_take)
    moreover have "n = min (min 1280 (TUN_MTU_SIZE (c_frame c) - 48)) (int (length ?pkt))" by (simp add: n_def len)
    ultimately show ?thesis using ck(2) o5(3) unfolding icmp_refusal_def Let_def by metis
  qed
  ultimately show ?thesis using o5(2) by blast
qed

lemma ipv6_send_icmp_unreachable_total:
  assumes "buf_wf buf" and "icmp_room c"
  shows "\<exists>c'. ipv6_send_icmp_unreachable c buf client = Inr c'"
proof -
  obtain ok ip where v6: "is_ipv6 (tunnel_type c) buf = Inr (ok, ip)" and wf: "buf_wf ip" "b_len ip \<le> b_len buf"
  proof (rule is_ipv_X_ok[OF assms(1), of "tunnel_type c" 6])
    assume "is_ipv_X (tunnel_type c) buf 6 = Inr (False, buf)"
    then show thesis using that[of False buf] assms(1) by (simp add: is_ipv6_def)
  next
    fix n
    assume "is_ipv_X (tunnel_type c) buf 6 = Inr (True, buf_drop buf n)" "0 \<le> n" "n + 16 \<le> b_len buf"
    then show thesis using that[of True "buf_drop buf n"] assms(1) by (simp add: is_ipv6_def buf_drop_wf)
  qed
  show ?thesis
  proof (cases "b_len ip < 40")
    case True
    then show ?thesis using wf(1) v6 by (simp add: ipv6_send_icmp_unreachable_def IPV6HDR_SIZE_def)
  next
    case False
    with wf(2) have "14 \<le> b_len buf" by simp
    then show ?thesis using ipv6_send_icmp_unreachable_ok[OF assms v6 wf(1) _ _ refl, of client] False by auto
  qed
qed

section \<open>Every packet\<close>

lemma same_window_advanced:
  assumes "buf_wf b" and "0 \<le> n" and "n \<le> b_len b" and "same_window (buf_drop b n) ip"
  shows "same_window b (b\<lparr>b_data := b_data ip\<rparr>)"
proof -
  obtain d where d: "b_data b = Some d" "int (length d) = b_capacity b" "0 \<le> b_offset b" "0 \<le> b_len b"
    using assms(1) by (rule buf_wfE)
  obtain d' where d': "b_data ip = Some d'" "int (length d') = b_capacity ip"
    using assms(4) by (auto simp: same_window_def elim!: buf_wfE)
  have eq: "take (nat (b_offset b + n)) d' = take (nat (b_offset b + n)) d"
    "drop (nat (b_offset b + b_len b)) d' = drop (nat (b_offset b + b_len b)) d"
    "b_capacity ip = b_capacity b"
    using assms(4) d(1) d'(1) by (auto simp: same_window_def)
  have "take (nat (b_offset b)) d' = take (nat (b_offset b)) d"
    using arg_cong[OF eq(1), of "take (nat (b_offset b))"] assms(2) d(3) by (simp add: min_def split: if_splits)
  moreover have "buf_wf (b\<lparr>b_data := b_data ip\<rparr>)"
    using assms(1) d(1,2) d' eq(3) by (simp add: buf_wf_def)
  ultimately show ?thesis using d(1) d'(1) eq(2) by (simp add: same_window_def)
qed

text \<open>
  C14. On every packet of at most 65535 bytes in a well-formed buffer, with any flags and options,
  the driver completes without touching memory outside the packet, provided that no address
  translation is set up or the packet is not an 802.1Q frame shorter than its tag and an IP header.
  The buffer keeps its window and its bytes around the packet, or is emptied.
\<close>

theorem process_ip_header_safe:
  assumes "buf_wf buf" and "b_len buf \<le> 65535" and "icmp_room c"
    and "opt_client_nat c = None \<or> \<not> short_vlan_frame (tunnel_type c) buf"
  shows "\<exists>c' buf' b1. process_ip_header le c flags buf = Inr (c', buf') \<and> same_window buf b1
    \<and> (buf' = b1 \<or> buf' = b1\<lparr>b_len := 0\<rparr>)"
proof -
  let ?F = "effective_flags c flags"
  let ?t = "tunnel_type c"
  have skip: ?thesis if "process_ip_header le c flags buf = Inr (c, buf)"
    using that same_window_refl[OF assms(1)] by blast
  show ?thesis
  proof (cases "b_len buf > 0 \<and> ?F AND (PIP_MSSFIX OR PIPV4_PASSTOS OR PIPV4_CLIENT_NAT) \<noteq> 0")
    case False
    then show ?thesis by (intro skip) (auto simp: process_ip_header_def Let_def)
  next
    case go: True
    show ?thesis
    proof (rule is_ipv_X_ok[OF assms(1), of ?t 4])
      fix n assume v4: "is_ipv_X ?t buf 4 = Inr (True, buf_drop buf n)" "0 \<le> n" "n + 16 \<le> b_len buf"
        "short_vlan_frame ?t buf \<or> n + 20 \<le> b_len buf"
      have "\<exists>c' b'. process_ipv4 le c ?F (buf_drop buf n) = Inr (c', b') \<and> same_window (buf_drop buf n) b'"
        using assms v4 by (intro process_ipv4_ok) (auto intro: buf_drop_wf)
      then obtain c' ip where r: "process_ipv4 le c ?F (buf_drop buf n) = Inr (c', ip)" "same_window (buf_drop buf n) ip"
        by blast
      then have "process_ip_header le c flags buf = Inr (c', buf\<lparr>b_data := b_data ip\<rparr>)"
        using go v4(1) by (simp add: process_ip_header_def Let_def is_ipv4_def)
      then show ?thesis using same_window_advanced[OF assms(1) v4(2) _ r(2)] v4(3) by auto
    next
      assume v4: "is_ipv_X ?t buf 4 = Inr (False, buf)"
      show ?thesis
      proof (rule is_ipv_X_ok[OF assms(1), of ?t 6])
        assume "is_ipv_X ?t buf 6 = Inr (False, buf)"
        then show ?thesis using go v4 by (intro skip) (simp add: process_ip_header_def Let_def is_ipv4_def is_ipv6_def)
      next
        fix n assume v6: "is_ipv_X ?t buf 6 = Inr (True, buf_drop buf n)" "0 \<le> n" "n + 16 \<le> b_len buf"
        let ?m = "MTU_TO_MSS (TUN_MTU_SIZE_DYNAMIC (c_frame c))"
        have wfd: "buf_wf (buf_drop buf n)" using assms(1) v6(2,3) by (intro buf_drop_wf) auto
        obtain ip where ip: "(if ?F AND PIP_MSSFIX \<noteq> 0
            then upd_content (buf_drop buf n) (\<lambda>p. mss_fixup_ipv6 le p ?m) else Inr (buf_drop buf n)) = Inr ip"
          "same_window (buf_drop buf n) ip"
        proof (cases "?F AND PIP_MSSFIX \<noteq> 0")
          case True
          obtain q where q: "mss_fixup_ipv6 le (buf_content (buf_drop buf n)) ?m = Inr q"
            "length q = length (buf_content (buf_drop buf n))" using mss_fixup_ipv6_total by blast
          show thesis
            by (rule upd_content_ok[where f = "\<lambda>p. mss_fixup_ipv6 le p ?m", OF wfd q]) (use that True in simp)
        qed (use that[of "buf_drop buf n"] same_window_refl[OF wfd] in simp)
        let ?b = "buf\<lparr>b_data := b_data ip\<rparr>"
        have w: "same_window buf ?b" using same_window_advanced[OF assms(1) v6(2) _ ip(2)] v6(3) by auto
        then have "buf_wf ?b" by (simp add: same_window_def)
        from ipv6_send_icmp_unreachable_total[OF this assms(3)]
        obtain c' where c': "ipv6_send_icmp_unreachable c ?b (?F AND PIPV6_IMCP_NOHOST_CLIENT \<noteq> 0) = Inr c'"
          by blast
        have "process_ip_header le c flags buf =
            (if ?F AND PIP_OUTGOING = 0 \<and> ?F AND (PIPV6_IMCP_NOHOST_CLIENT OR PIPV6_IMCP_NOHOST_SERVER) \<noteq> 0
             then Inr (c', ?b\<lparr>b_len := 0\<rparr>) else Inr (c, ?b))"
          using go v4 v6(1)
          unfolding process_ip_header_def Let_def is_ipv4_def is_ipv6_def
          by (simp only: if_True bindE_Inr split if_False ip(1) c' not_False_eq_True simp_thms)
        then show ?thesis using w by auto
      qed
    qed
  qed
qed

text \<open>A context for the examples: no option but the refusal of IPv6 traffic.\<close>

definition sample_context :: "int \<Rightarrow> ip_context" where
  "sample_context t =
     \<lparr>tunnel_type = t,
      c_frame = \<lparr>link_mtu = 1500, link_mtu_dynamic = 1450, extra_frame = 0, extra_buffer = 0, extra_tun = 0,
        extra_link = 0, align_flags = 0, align_adjust = 0\<rparr>,
      opt_mssfix = 0, opt_passtos = False, opt_client_nat = None, opt_route_gateway_via_dhcp = False,
      opt_block_ipv6 = True, ifconfig_ipv6_remote = None, ptos = None, vpn_gateways = [],
      aux_buf = \<lparr>b_capacity = 2000, b_offset = 0, b_len = 0, b_data = Some (replicate 2000 0)\<rparr>,
      to_tun = clear_buf, to_link = clear_buf\<rparr>"

definition sample_buffer :: "byte list \<Rightarrow> buffer" where
  "sample_buffer p = \<lparr>b_capacity = int (length p), b_offset = 0, b_len = int (length p), b_data = Some p\<rparr>"

lemma sample_wf: "length p < 2097152 \<Longrightarrow> buf_wf (sample_buffer p)"
  by (simp add: sample_buffer_def buf_wf_def BUF_SIZE_MAX_def)

lemma sample_room: "icmp_room (sample_context t)"
  by (simp add: icmp_room_def sample_context_def buf_wf_def BUF_SIZE_MAX_def TUN_MTU_SIZE_def TUN_LINK_DELTA_def)

theorem process_ip_header_safe_witness:
  "\<exists>c' buf' b1. process_ip_header True (sample_context 2) 127 (sample_buffer (replicate 20 0x45)) = Inr (c', buf')
     \<and> same_window (sample_buffer (replicate 20 0x45)) b1 \<and> (buf' = b1 \<or> buf' = b1\<lparr>b_len := 0\<rparr>)"
  by (rule process_ip_header_safe[OF sample_wf _ sample_room])
    (simp_all add: sample_buffer_def sample_context_def)



text \<open>
  With address translation set up the exception is real: an 802.1Q frame of 34 bytes passes for an IPv4
  packet although its destination address is not in it any more, and the translation reads beyond it.
\<close>

lemma nat_reads_beyond_vlan_frame:
  "process_ip_header True
     (sample_context 3\<lparr>opt_client_nat := Some [\<lparr>cn_type = CN_DNAT, network = 1, netmask = 255, foreign_network = 2\<rparr>]\<rparr>)
     PIPV4_CLIENT_NAT
     (sample_buffer (replicate 12 0 @ [0x81, 0, 0, 0, 0x08, 0] @ replicate 16 0x45)) = Inl Mem_Fault"
  by code_simp

text \<open>
  The driver looks at packets only if one of \<open>--mssfix\<close>, \<open>--passtos\<close> and \<open>--client-nat\<close> is on: without them
  \<open>--block-ipv6\<close> lets every packet pass and no router is taken from a DHCP answer.
\<close>

lemma nothing_without_other_option:
  "process_ip_header le (c\<lparr>opt_mssfix := 0, opt_passtos := False, opt_client_nat := None\<rparr>) flags buf
     = Inr (c\<lparr>opt_mssfix := 0, opt_passtos := False, opt_client_nat := None\<rparr>, buf)"
proof -
  let ?c = "c\<lparr>opt_mssfix := 0, opt_passtos := False, opt_client_nat := None\<rparr>"
  have "effective_flags ?c flags AND (PIP_MSSFIX OR PIPV4_PASSTOS OR PIPV4_CLIENT_NAT) = 0"
    by (rule bit_word_eqI) (auto simp: effective_flags_def bit_simps Let_def)
  then show ?thesis by (simp add: process_ip_header_def Let_def)
qed

end
