(* ===== verification/Spec2Isabelle.thy ===== *)
theory Spec2Isabelle
  imports Buffer_List Buffer_Text Packet_Id_Wire Reliable_Delivery Mbuf_Runs Fragment_Correct Hash_Correct Crypto_Correct Tls_Crypt_V2 Link_Stream_Correct Ip_Correct
begin

text \<open>
  Verification library for the OpenVPN 2.5.11 core in \<open>src/build-mobile/openvpn-2.5.11/src/openvpn\<close>, the C program
  that the client of this repository builds and runs.

  \<^bold>\<open>How C is modelled.\<close> \<open>Prelude\<close> fixes the vocabulary. A C \<open>int\<close> is an \<^typ>\<open>int\<close> (the lemmas bound it where overflow could
  matter), unsigned types are words of their width. A block of memory is a list of bytes and a pointer into it is an
  index; every access is bounds-checked and a bad one is the fault \<open>Mem_Fault\<close>. A failed \<open>ASSERT\<close>, a fatal message
  and a division by zero are faults too, so a result in \<open>fault + 'a\<close> that is \<open>Inr\<close> says that the C run
  neither crashed nor touched memory outside its objects. State is passed explicitly and returned updated; the clock,
  random bytes and the answers of system calls are arguments. Loops are recursive functions with termination proofs;
  no fuel is used.

  \<^bold>\<open>Buffers\<close> (\<open>buffer.h\<close>, \<open>buffer.c\<close>, \<open>integer.h\<close>). \<open>Integers\<close>: checked helpers and \<open>adjust_power_of_2\<close>. \<open>Buffer\<close>: \<open>struct
  buffer\<close> with its operations, the invariant \<open>buf_wf\<close> and what each operation does to \<open>buf_content\<close>. \<open>Buffer_Safety\<close>:
  no sequence of calls faults. \<open>Buffer_Codec\<close>: integers in network order. \<open>Char_Class\<close> and \<open>Buffer_Text\<close>: character classes,
  \<open>string_mod\<close>, \<open>buf_printf\<close>, \<open>buf_parse\<close>. \<open>Buffer_List\<close>: the queue of buffers, an interpretation of the locale of \<open>Fifo\<close>.

  \<^bold>\<open>Replay protection\<close> (\<open>packet_id.h\<close>, \<open>packet_id.c\<close>, \<open>circ_list.h\<close>). \<open>Circ_List\<close> models the macros, \<open>Packet_Id\<close> the send and receive
  state with \<open>crypto_check_replay\<close>. \<open>Replay\<close> states the contract of a replay filter as a locale; \<open>Packet_Id_Replay\<close> shows that
  both modes of the receiver meet it, \<open>Packet_Id_Wire\<close> treats the wire format and the sender. \<open>Session_Id\<close> models
  session identifiers.

  \<^bold>\<open>Data channel encryption\<close> (\<open>crypto.c\<close>, \<open>crypto.h\<close>). \<open>Crypto\<close> models \<open>openvpn_encrypt\<close> and \<open>openvpn_decrypt\<close> in every cipher mode.
  The cipher library is a parameter: a record with the calls the code makes over an abstract state. \<open>Crypto_Open\<close>
  shows that with a library that keeps its output bounds no packet makes the receiver fault, \<open>Crypto_Seal\<close> what
  a sealed packet looks like, \<open>Crypto_Correct\<close> the round trip, authenticity and that no identifier is accepted twice,
  the latter by interpreting the replay locale on the whole decryption step.

  \<^bold>\<open>Reliable control channel\<close> (\<open>reliable.h\<close>, \<open>reliable.c\<close>, parts of \<open>ssl.c\<close>). \<open>Reliable\<close>: acknowledgment records, send and receive
  windows, and the receive path of \<open>tls_pre_decrypt\<close>. \<open>Reliable_Ack\<close>, \<open>Reliable_Window\<close>, \<open>Reliable_Ops\<close>, \<open>Reliable_Receive\<close>: lemmas on
  each. \<open>Reliable_Channel\<close> puts two peers around a network that loses, duplicates and reorders packets as a step
  relation; \<open>Reliable_Correct\<close> and \<open>Reliable_Delivery\<close> prove its invariant and what it means. The theorems
  hold for up to \<open>2 ^ 31\<close> packets in a session; beyond, the identifier tests of \<open>reliable_pid_in_range2\<close> are wrong,
  which \<open>Reliable_Window\<close> shows too.

  \<^bold>\<open>Queues, tables and time.\<close> \<open>Mbuf\<close>, \<open>Mbuf_Refs\<close>, \<open>Mbuf_Runs\<close> (\<open>mbuf.h\<close>, \<open>mbuf.c\<close>): the packet queue of the server over a store of
  reference-counted buffers, for capacities up to \<open>2 ^ 30\<close>. \<open>Hash_List\<close>, \<open>Hash_Refine\<close>, \<open>Hash_Sweep\<close>, \<open>Hash_Correct\<close> (\<open>list.h\<close>, \<open>list.c\<close>):
  hash tables refine partial functions (locale of \<open>Keyed_Store\<close>), removal by value, reversible mixing, for up to \<open>2 ^ 30\<close>
  buckets. \<open>Otime\<close> (\<open>otime.h\<close>, \<open>otime.c\<close>): the clock that never goes back, time arithmetic, frequency limits. \<open>Interval\<close>
  (\<open>interval.h\<close>, \<open>interval.c\<close>, \<open>shaper.h\<close>, \<open>shaper.c\<close>): recurring timers and the traffic shaper. \<open>Mtu\<close> (\<open>mtu.h\<close>, \<open>mtu.c\<close>): packet
  geometry.

  \<^bold>\<open>Fragmentation\<close> (\<open>fragment.h\<close>, \<open>fragment.c\<close>). \<open>Fragment\<close> models sender and receiver; \<open>Fragment_Window\<close>, \<open>Fragment_Receive\<close>, \<open>Fragment_Size\<close>,
  \<open>Fragment_Transfer\<close> and \<open>Fragment_Correct\<close> show that a packet cut into pieces is rebuilt from them in any order and
  repetition, and that no packet of any content makes the receiver fault. A packet has at most 32 pieces, so 32
  calls of \<open>fragment_ready_to_send\<close> drain the sender.

  \<^bold>\<open>Packets over streams\<close> (\<open>socket.h\<close>, \<open>socket.c\<close>, \<open>ps.c\<close>). \<open>Link_Stream\<close>: \<open>struct stream_buf\<close>, the length prefix, what is left
  over behind a packet, reading and writing with \<open>recv\<close> as a parameter. \<open>Link_Stream_Correct\<close>: the states of the receiver and
  its run against a network that hands the stream over in pieces of any size; what is delivered does
  not depend on the pieces.

  \<^bold>\<open>Control packet wrapping\<close> (\<open>tls_crypt.h\<close>, \<open>tls_crypt.c\<close>, parts of \<open>ssl.c\<close>). \<open>Tls_Crypt\<close>: \<open>tls_crypt_wrap\<close>, \<open>tls_crypt_unwrap\<close>, wrapped
  client keys, \<open>swap_hmac\<close>, the choice of \<open>write_control_auth\<close> and \<open>read_control_auth\<close> among the modes and \<open>tls_pre_decrypt_lite\<close>. The
  cipher library is the parameter of \<open>Crypto\<close>, setting up keys and running the verification script are arguments.
  \<open>Tls_Crypt_Open\<close> shows what any packet can do to the receiver, \<open>Tls_Crypt_Seal\<close> what the sender makes, \<open>Tls_Crypt_Correct\<close>
  safety and the round trip in every mode, \<open>Tls_Crypt_V2\<close> the way of a client key to the server and the one
  packet that makes an assertion fail.

  \<^bold>\<open>IP packets in the tunnel\<close> (\<open>proto.h\<close>, \<open>proto.c\<close>, \<open>mss.c\<close>, \<open>clinat.c\<close>, \<open>dhcp.c\<close>, parts of \<open>forward.c\<close>). \<open>Ip_Checksum\<close>: checksum macros
  and \<open>ip_checksum\<close> as arithmetic modulo \<open>65535\<close>, for both byte orders of the host. \<open>Ip_Packet\<close>: recognising packets, segment size
  options, address translation, DHCP router options, the IPv6 refusal and \<open>process_ip_header\<close>. \<open>Mss_Correct\<close>, \<open>Nat_Correct\<close> and \<open>Dhcp_Correct\<close>
  show for each transformation that it completes on every packet, what it changes and that checksums stay right, and
  where they do not; \<open>Ip_Correct\<close> treats the driver and the IPv6 refusal.

  \<^bold>\<open>Not modelled.\<close> System calls and glue: event loop, sockets and proxies, tun devices and routes, plugins,
  scripts, Windows support, logging. The TLS and cipher libraries and their wrappers (parameters of the models above).
  The option parser, configuration checks, the management interface and the
  rest of the server beyond what is listed. Debug printers throughout.
\<close>

end
